(* ===== verification/Rust_Prelude.thy ===== *)
theory Rust_Prelude
  imports Main "HOL-Library.Word"
begin

unbundle bit_operations_syntax

text \<open>
  The vocabulary every component shares: Rust's machine integers as words, its
  \<^verbatim>\<open>Result\<close> extended by the outcome of a panic, \<^verbatim>\<open>Vec<u8>\<close> with
  its allocation (for the unsafe writers of \<^verbatim>\<open>typeway-protobuf\<close>), and the generic
  facts on words, lists and \<^verbatim>\<open>Result\<close> that the component proofs use.

  \<^verbatim>\<open>usize\<close> is 64 bits wide. Lengths of slices are natural numbers; where the code
  does arithmetic on a \<^verbatim>\<open>usize\<close> that an input controls, the model does it on
  64-bit words with the wrap-around of a release build (the workspace sets no
  \<^verbatim>\<open>overflow-checks\<close>).
\<close>

subsection \<open>Integers and bytes\<close>

type_synonym u8 = "8 word"
type_synonym u32 = "32 word"
type_synonym u64 = "64 word"
type_synonym i32 = "32 word"
type_synonym i64 = "64 word"
type_synonym usize = "64 word"
type_synonym bytes = "u8 list"

named_theorems word_nat_simps \<comment> \<open>words read as natural numbers\<close>
named_theorems result_simps \<comment> \<open>case analysis of \<open>Result\<close> chains\<close>

subsection \<open>Result, with panics\<close>

text \<open>
  \<^verbatim>\<open>Result<A, E>\<close>; the third constructor is the outcome of code that panics
  (a slice index out of range, a slice that does not start on a character boundary).
\<close>

datatype ('a, 'e) result = Ok 'a | Err 'e | Panic

text \<open>The \<^verbatim>\<open>?\<close> operator and \<^verbatim>\<open>map_err\<close>.\<close>

fun and_then :: "('a, 'e) result \<Rightarrow> ('a \<Rightarrow> ('b, 'e) result) \<Rightarrow> ('b, 'e) result" where
  "and_then (Ok x) f = f x"
| "and_then (Err e) f = Err e"
| "and_then Panic f = Panic"

fun map_err :: "('e \<Rightarrow> 'f) \<Rightarrow> ('a, 'e) result \<Rightarrow> ('a, 'f) result" where
  "map_err g (Ok x) = Ok x"
| "map_err g (Err e) = Err (g e)"
| "map_err g Panic = Panic"

fun result_map :: "('a \<Rightarrow> 'b) \<Rightarrow> ('a, 'e) result \<Rightarrow> ('b, 'e) result" where
  "result_map g (Ok x) = Ok (g x)"
| "result_map g (Err e) = Err e"
| "result_map g Panic = Panic"

fun ok_or :: "'e \<Rightarrow> 'a option \<Rightarrow> ('a, 'e) result" where
  "ok_or e (Some x) = Ok x"
| "ok_or e None = Err e"

fun is_ok :: "('a, 'e) result \<Rightarrow> bool" where
  "is_ok (Ok x) = True"
| "is_ok (Err e) = False"
| "is_ok Panic = False"

lemma and_then_eq_Ok [result_simps]:
  "and_then r f = Ok y \<longleftrightarrow> (\<exists>x. r = Ok x \<and> f x = Ok y)"
  by (cases r) auto

lemma and_then_eq_Err [result_simps]:
  "and_then r f = Err e \<longleftrightarrow> r = Err e \<or> (\<exists>x. r = Ok x \<and> f x = Err e)"
  by (cases r) auto

lemma and_then_eq_Panic [result_simps]:
  "and_then r f = Panic \<longleftrightarrow> r = Panic \<or> (\<exists>x. r = Ok x \<and> f x = Panic)"
  by (cases r) auto

lemma map_err_eq [result_simps]:
  "map_err g r = Ok x \<longleftrightarrow> r = Ok x"
  "map_err g r = Err e \<longleftrightarrow> (\<exists>e'. r = Err e' \<and> e = g e')"
  "map_err g r = Panic \<longleftrightarrow> r = Panic"
  by (cases r; auto)+

lemma result_map_eq [result_simps]:
  "result_map g r = Ok y \<longleftrightarrow> (\<exists>x. r = Ok x \<and> y = g x)"
  "result_map g r = Err e \<longleftrightarrow> r = Err e"
  "result_map g r = Panic \<longleftrightarrow> r = Panic"
  by (cases r; auto)+

lemma ok_or_eq [result_simps]:
  "ok_or e r = Ok x \<longleftrightarrow> r = Some x"
  "ok_or e r = Err e' \<longleftrightarrow> r = None \<and> e' = e"
  "ok_or e r \<noteq> Panic"
  by (cases r; auto)+

lemma and_then_cong [fundef_cong]:
  "r = r' \<Longrightarrow> (\<And>x. r' = Ok x \<Longrightarrow> f x = g x) \<Longrightarrow> and_then r f = and_then r' g"
  by (cases r') auto

lemma is_ok_iff: "is_ok r \<longleftrightarrow> (\<exists>x. r = Ok x)"
  by (cases r) auto

subsection \<open>Words as natural numbers\<close>

lemma unat_word_lt_exp: "unat (w::'a::len word) < 2 ^ LENGTH('a)"
  by simp

lemma unat_and_mask7 [word_nat_simps]: "unat ((w::'a::len word) AND 0x7F) = unat w mod 128"
proof -
  have "w AND 0x7F = take_bit 7 w"
    by (simp add: take_bit_eq_mask mask_eq_exp_minus_1)
  then show ?thesis
    unfolding \<open>w AND 0x7F = take_bit 7 w\<close> unsigned_take_bit_eq by (simp add: take_bit_eq_mod)
qed

lemma unat_drop_bit7 [word_nat_simps]: "unat (drop_bit 7 w) = unat w div 128"
  unfolding unat_drop_bit_eq by (simp add: drop_bit_eq_div)

lemma unat_ucast_u8 [word_nat_simps]: "unat (ucast (w::u64) :: u8) = unat w mod 256"
  by (simp add: unsigned_ucast_eq take_bit_eq_mod)

lemma unat_ucast_u64_u8 [word_nat_simps]: "unat (ucast (w::u8) :: u64) = unat w"
proof -
  have "unat w < 2 ^ 64"
    using unat_word_lt_exp [of w] by simp
  then show ?thesis
    by (simp add: unsigned_ucast_eq take_bit_nat_eq_self)
qed

lemma or_shifted_nat:
  fixes a b :: nat
  assumes "a < 2 ^ s"
  shows "a OR push_bit s b = a + b * 2 ^ s"
proof -
  have a: "bit a n \<Longrightarrow> n < s" for n
    using assms by (metis bit_take_bit_iff take_bit_nat_eq_self)
  have "a AND push_bit s b = 0"
    by (rule bit_eqI) (auto simp: bit_simps dest: a)
  then have "a + push_bit s b = a OR push_bit s b"
    by (rule disjunctive_add_eq_or)
  then show ?thesis
    by (simp add: push_bit_eq_mult)
qed

text \<open>\<^verbatim>\<open>ilog2\<close> of a positive integer.\<close>

fun ilog2 :: "nat \<Rightarrow> nat" where
  "ilog2 n = (if n < 2 then 0 else Suc (ilog2 (n div 2)))"

declare ilog2.simps [simp del]

subsection \<open>Loops with early return\<close>

text \<open>\<^verbatim>\<open>for x in xs { acc.extend(f(x)?) }\<close>.\<close>

fun concat_mapM :: "('a \<Rightarrow> ('b list, 'e) result) \<Rightarrow> 'a list \<Rightarrow> ('b list, 'e) result" where
  "concat_mapM f [] = Ok []"
| "concat_mapM f (x # xs) = and_then (f x) (\<lambda>b. result_map ((@) b) (concat_mapM f xs))"

lemma concat_mapM_cong [fundef_cong]:
  "xs = ys \<Longrightarrow> (\<And>x. x \<in> set ys \<Longrightarrow> f x = g x) \<Longrightarrow> concat_mapM f xs = concat_mapM g ys"
  by (induction xs arbitrary: ys) (auto intro!: and_then_cong)

lemma concat_mapM_append:
  "concat_mapM f (xs @ ys)
    = and_then (concat_mapM f xs) (\<lambda>b. result_map ((@) b) (concat_mapM f ys))"
proof (induction xs)
  case Nil
  then show ?case by (cases "concat_mapM f ys") simp_all
next
  case (Cons x xs)
  then show ?case
    by (cases "f x"; cases "concat_mapM f xs"; cases "concat_mapM f ys") simp_all
qed

lemma concat_mapM_Ok:
  "list_all2 (\<lambda>x b. f x = Ok b) xs bs \<Longrightarrow> concat_mapM f xs = Ok (concat bs)"
  by (induction xs bs rule: list_all2_induct) simp_all

end
