(* ===== verification/Varint_Spec.thy ===== *)
theory Varint_Spec
  imports Rust_Prelude
begin

text \<open>
  The base-128 format on natural numbers, as a specification: \<open>vbytes\<close> writes a number
  with the least digits first and the continuation bit on every byte but the last,
  \<open>vvalue\<close> reads a group of bytes back, and \<open>vscan\<close> is the number of leading
  continuation bytes of an input. Both encoders and both decoders of the code are proved
  against it.
\<close>

fun vbytes :: "nat \<Rightarrow> bytes" where
  "vbytes n = (if n < 128 then [word_of_nat n]
               else word_of_nat (n mod 128 + 128) # vbytes (n div 128))"

declare vbytes.simps [simp del]

fun vvalue :: "bytes \<Rightarrow> nat" where
  "vvalue [] = 0"
| "vvalue (b # bs) = unat b mod 128 + 128 * vvalue bs"

definition is_cont :: "u8 \<Rightarrow> bool" where
  "is_cont b \<longleftrightarrow> 0x80 \<le> b"

definition vscan :: "bytes \<Rightarrow> nat" where
  "vscan bs = length (takeWhile is_cont bs)"

lemma is_cont_iff: "is_cont b \<longleftrightarrow> \<not> b < 0x80" "is_cont b \<longleftrightarrow> 128 \<le> unat b"
  by (simp_all add: is_cont_def word_le_nat_alt not_less)

lemma unat_low_byte: "n < 128 \<Longrightarrow> unat (word_of_nat n :: u8) = n"
  by (simp add: unat_of_nat)

lemma unat_high_byte: "unat (word_of_nat (n mod 128 + 128) :: u8) = n mod 128 + 128"
  by (subst unat_of_nat) simp

lemma vscan_simps [simp]:
  "vscan [] = 0"
  "vscan (b # bs) = (if is_cont b then Suc (vscan bs) else 0)"
  by (simp_all add: vscan_def)

lemma vscan_le: "vscan bs \<le> length bs"
  by (simp add: vscan_def length_takeWhile_le)

lemma vbytes_not_Nil [simp]: "vbytes n \<noteq> []"
  by (subst vbytes.simps) simp

lemma length_vbytes_pos: "0 < length (vbytes n)"
  by simp

lemma length_vbytes_le: "n < 128 ^ k \<Longrightarrow> 0 < k \<Longrightarrow> length (vbytes n) \<le> k"
proof (induction k arbitrary: n)
  case 0
  then show ?case by simp
next
  case (Suc k)
  show ?case
  proof (cases "n < 128")
    case True
    then show ?thesis by (subst vbytes.simps) simp
  next
    case False
    then have k: "0 < k" using Suc.prems(1) by (cases k) auto
    have "n div 128 < 128 ^ k"
      using Suc.prems(1) by (simp add: less_mult_imp_div_less mult.commute)
    from Suc.IH [OF this k] False show ?thesis by (subst vbytes.simps) simp
  qed
qed

lemma length_vbytes_u64: "length (vbytes (unat (v::u64))) \<le> 10"
proof (rule length_vbytes_le)
  show "unat v < 128 ^ 10" using unat_word_lt_exp [of v] by simp
qed simp

lemma length_vbytes_u32: "length (vbytes (unat (v::u32))) \<le> 5"
proof (rule length_vbytes_le)
  show "unat v < 128 ^ 5" using unat_word_lt_exp [of v] by simp
qed simp

lemma vscan_vbytes: "vscan (vbytes n @ rest) = length (vbytes n) - 1"
proof (induction n rule: vbytes.induct)
  case (1 n)
  have small: "is_cont (word_of_nat n) \<longleftrightarrow> False" if "n < 128"
    using that by (simp add: is_cont_iff(2) unat_low_byte)
  have big: "is_cont (word_of_nat (n mod 128 + 128))"
    unfolding is_cont_iff(2) unat_high_byte by simp
  show ?case
  proof (cases "n < 128")
    case True
    then show ?thesis using small by (simp add: vbytes.simps [of n])
  next
    case False
    then show ?thesis
      using "1.IH" big length_vbytes_pos [of "n div 128"]
      by (simp add: vbytes.simps [of n] del: length_greater_0_conv)
  qed
qed

lemma vvalue_vbytes: "vvalue (vbytes n) = n"
proof (induction n rule: vbytes.induct)
  case (1 n)
  show ?case
  proof (cases "n < 128")
    case True
    then show ?thesis by (simp add: vbytes.simps [of n] unat_of_nat)
  next
    case False
    then have "vvalue (vbytes n)
        = unat (word_of_nat (n mod 128 + 128) :: u8) mod 128 + 128 * vvalue (vbytes (n div 128))"
      by (simp only: vbytes.simps [of n] if_False vvalue.simps)
    then show ?thesis
      using False "1.IH" unfolding unat_high_byte by simp
  qed
qed

text \<open>The byte with the continuation bit, and the accumulation of one group of 7 bits.\<close>

lemma unat_or_high_bit: "unat (((b::u8) AND 0x7F) OR 0x80) = unat b mod 128 + 128"
proof -
  have "unat ((b AND 0x7F) OR 0x80) = (unat b mod 128) OR push_bit 7 1"
    by (simp add: unsigned_or_eq unat_and_mask7 push_bit_eq_mult)
  also have "\<dots> = unat b mod 128 + 1 * 2 ^ 7"
    by (rule or_shifted_nat) simp
  finally show ?thesis by simp
qed

lemma bit_word_less:
  assumes "unat (a::'a::len word) < 2 ^ s" "bit a n"
  shows "n < s"
proof -
  have "bit (unat a) n"
    using assms(2) by (simp add: bit_unsigned_iff)
  then show ?thesis
    using assms(1) by (metis bit_take_bit_iff take_bit_nat_eq_self)
qed

lemma or_push_bit_word:
  assumes "unat (a::'a::len word) < 2 ^ s"
  shows "a OR push_bit s w = a + w * 2 ^ s"
proof -
  have "a AND push_bit s w = 0"
    by (rule bit_eqI) (auto simp: bit_simps dest: bit_word_less [OF assms])
  then show ?thesis
    by (simp add: disjunctive_add_eq_or [symmetric] push_bit_eq_mult)
qed

lemma or_group_word:
  assumes "r < 2 ^ s" "s \<le> 63"
  shows "(word_of_nat r :: u64) OR push_bit s (ucast ((b::u8) AND 0x7F))
           = word_of_nat (r + (unat b mod 128) * 2 ^ s)"
proof -
  have "(2::nat) ^ s \<le> 2 ^ 63"
    using assms(2) by (rule power_increasing) simp
  with assms(1) have r: "unat (word_of_nat r :: u64) = r"
    by (simp add: unat_of_nat)
  have "(ucast (b AND 0x7F) :: u64) = word_of_nat (unat b mod 128)"
    unfolding word_unat_eq_iff unat_ucast_u64_u8 unat_and_mask7
    by (simp add: unat_of_nat order.strict_trans [OF mod_less_divisor])
  with r assms(1) show ?thesis
    by (subst or_push_bit_word) auto
qed

lemma group_bound:
  assumes "(r::nat) < 2 ^ s"
  shows "r + (m mod 128) * 2 ^ s < 2 ^ (s + 7)"
proof -
  have "m mod 128 \<le> (127::nat)" by (simp add: less_Suc_eq_le [symmetric])
  then have "(m mod 128) * 2 ^ s \<le> 127 * 2 ^ s" by (rule mult_le_mono1)
  then have "r + (m mod 128) * 2 ^ s < 2 ^ s + 127 * 2 ^ s" using assms by linarith
  then show ?thesis by (simp add: power_add)
qed

subsection \<open>Reading one varint\<close>

text \<open>
  What reading at the head of \<open>bs\<close> returns: the value of the first group (the bits past
  the 64th are dropped) and its length; more than ten bytes without an end are
  \<open>too_long\<close>, running out of input earlier is \<open>eof\<close>.
\<close>

definition varint_read :: "'e \<Rightarrow> 'e \<Rightarrow> bytes \<Rightarrow> (u64 \<times> nat, 'e) result" where
  "varint_read too_long eof bs =
     (let k = vscan bs
      in if k < length bs \<and> k < 10 then Ok (word_of_nat (vvalue (take (k + 1) bs)), k + 1)
         else if 10 < length bs then Err too_long
         else Err eof)"

text \<open>The loop both decoders run, from group \<open>j\<close> on.\<close>

fun varint_loop :: "'e \<Rightarrow> 'e \<Rightarrow> u64 \<Rightarrow> nat \<Rightarrow> bytes \<Rightarrow> (u64 \<times> nat, 'e) result" where
  "varint_loop too_long eof acc j [] = Err eof"
| "varint_loop too_long eof acc j (b # bs) =
     (if 10 \<le> j then Err too_long
      else let acc' = acc OR push_bit (7 * j) (ucast (b AND 0x7F))
           in if b < 0x80 then Ok (acc', j + 1) else varint_loop too_long eof acc' (j + 1) bs)"

lemma varint_loop_eq:
  "r < 2 ^ (7 * j) \<Longrightarrow> j \<le> 10 \<Longrightarrow>
   varint_loop too_long eof (word_of_nat r) j bs =
     (let k = vscan bs
      in if k < length bs \<and> j + k < 10
         then Ok (word_of_nat (r + vvalue (take (k + 1) bs) * 2 ^ (7 * j)), j + k + 1)
         else if 10 < j + length bs then Err too_long
         else Err eof)"
proof (induction bs arbitrary: r j)
  case Nil
  then show ?case by simp
next
  case (Cons b bs)
  show ?case
  proof (cases "10 \<le> j")
    case True
    with Cons.prems(2) show ?thesis by simp
  next
    case False
    let ?r = "r + (unat b mod 128) * 2 ^ (7 * j)"
    have acc: "(word_of_nat r :: u64) OR push_bit (7 * j) (ucast (b AND 0x7F)) = word_of_nat ?r"
      using Cons.prems(1) False by (intro or_group_word) simp_all
    have bound: "?r < 2 ^ (7 * (j + 1))"
      using group_bound [OF Cons.prems(1), of "unat b"] by (simp add: add.commute)
    have shift: "vvalue (take (Suc k) (b # bs)) * 2 ^ (7 * j)
        = (unat b mod 128) * 2 ^ (7 * j) + vvalue (take k bs) * 2 ^ (7 * (j + 1))" for k
      by (simp add: algebra_simps power_add)
    show ?thesis
    proof (cases "b < 0x80")
      case True
      then show ?thesis
        using acc False by (simp add: is_cont_iff(1) Let_def del: of_nat_add of_nat_mult)
    next
      case c: False
      have "varint_loop too_long eof (word_of_nat r) j (b # bs)
          = varint_loop too_long eof (word_of_nat ?r) (j + 1) bs"
        using acc False c by (simp del: of_nat_add of_nat_mult)
      also note Cons.IH [OF bound]
      finally show ?thesis
        using False c shift [of "vscan bs + 1"]
        by (simp add: is_cont_iff(1) Let_def add.assoc del: of_nat_add of_nat_mult)
    qed
  qed
qed

lemma varint_read_loop: "varint_read too_long eof bs = varint_loop too_long eof 0 0 bs"
  using varint_loop_eq [of 0 0 too_long eof bs] by (simp add: varint_read_def Let_def)

lemma varint_read_vbytes:
  assumes "n < 2 ^ 64"
  shows "varint_read too_long eof (vbytes n @ rest) = Ok (word_of_nat n, length (vbytes n))"
proof -
  have "length (vbytes n) \<le> 10"
    using assms by (intro length_vbytes_le) simp_all
  moreover have "Suc (length (vbytes n) - Suc 0) = length (vbytes n)"
    using length_vbytes_pos [of n] by linarith
  moreover obtain m where "length (vbytes n) = Suc m"
    using length_vbytes_pos [of n] by (cases "length (vbytes n)") auto
  ultimately show ?thesis
    by (simp add: varint_read_def vscan_vbytes vvalue_vbytes Let_def)
qed

lemma varint_read_bounds:
  assumes "varint_read too_long eof bs = Ok (v, n)"
  shows "0 < n" "n \<le> length bs" "n \<le> 10"
  using assms by (auto simp: varint_read_def Let_def split: if_splits)

lemma varint_read_not_Panic: "varint_read too_long eof bs \<noteq> Panic"
  by (simp add: varint_read_def Let_def)

subsection \<open>Self-delimiting encodings\<close>

text \<open>
  The interface a writer and a reader of one value share wherever values follow each other
  in a buffer: reading at the head of what was written returns the value and the length
  written. Its consequences are proved once here and used for varints and for frames.
\<close>

locale self_delimiting =
  fixes put :: "'v \<Rightarrow> bytes"
    and get :: "bytes \<Rightarrow> ('v \<times> nat, 'e) result"
    and ok :: "'v \<Rightarrow> bool"
  assumes get_put: "ok v \<Longrightarrow> get (put v @ rest) = Ok (v, length (put v))"
    and put_pos: "ok v \<Longrightarrow> 0 < length (put v)"
begin

lemma put_prefix_free:
  assumes "ok v" "ok w" "put v @ r = put w @ q"
  shows "v = w \<and> r = q"
proof -
  have "get (put v @ r) = get (put w @ q)"
    by (rule arg_cong [OF assms(3)])
  then have "v = w"
    by (simp add: get_put [OF assms(1)] get_put [OF assms(2)])
  with assms(3) show ?thesis by simp
qed

text \<open>A sequence of written values determines the values (unique decodability).\<close>

lemma put_seq_inj:
  "list_all ok vs \<Longrightarrow> list_all ok ws \<Longrightarrow>
   concat (map put vs) = concat (map put ws) \<Longrightarrow> vs = ws"
proof (induction vs arbitrary: ws)
  case Nil
  then show ?case
    using put_pos by (cases ws) (auto dest!: put_pos)
next
  case (Cons v vs)
  then obtain w ws' where ws: "ws = w # ws'"
    using put_pos by (cases ws) (auto dest!: put_pos)
  from Cons.prems have "v = w \<and> concat (map put vs) = concat (map put ws')"
    by (intro put_prefix_free) (simp_all add: ws)
  with Cons show ?case by (simp add: ws)
qed

text \<open>
  A loop that reads a value at an offset and moves past it collects the written values:
  \<open>step\<close> is the loop as a function of the offset and what it has collected.
\<close>

lemma loop_collects:
  assumes "\<And>off acc. off < length buf \<Longrightarrow>
      step off acc = and_then (get (drop off buf)) (\<lambda>(v, n). step (off + n) (acc @ [v]))"
    and "\<And>acc. step (length buf) acc = Ok acc"
  shows "list_all ok vs \<Longrightarrow> buf = pre @ concat (map put vs) \<Longrightarrow>
    step (length pre) acc = Ok (acc @ vs)"
proof (induction vs arbitrary: pre acc)
  case Nil
  then show ?case using assms(2) by simp
next
  case (Cons v vs)
  have ok: "ok v" "list_all ok vs" using Cons.prems(1) by simp_all
  have buf: "buf = (pre @ put v) @ concat (map put vs)" using Cons.prems(2) by simp
  have "drop (length pre) buf = put v @ concat (map put vs)"
    using Cons.prems(2) by simp
  moreover have "length pre < length buf"
    using put_pos [OF ok(1)] buf by simp
  ultimately have "step (length pre) acc = step (length (pre @ put v)) (acc @ [v])"
    using assms(1) get_put [OF ok(1)] by simp
  also have "\<dots> = Ok ((acc @ [v]) @ vs)"
    using ok(2) buf by (rule Cons.IH)
  finally show ?case by simp
qed

end

end
