(* ===== verification/Tw_Varint.thy ===== *)
theory Tw_Varint
  imports Varint_Spec
begin

text \<open>
  \<^verbatim>\<open>typeway-protobuf/src/codec.rs\<close>: the varint, tag, ZigZag and wire-skipping
  helpers that the derived codecs call. The three writers that go through a raw pointer
  (\<^verbatim>\<open>tw_encode_varint\<close>, \<^verbatim>\<open>tw_encode_packed_u32\<close>,
  \<^verbatim>\<open>tw_encode_varint_unchecked\<close>) are modelled on the allocation of the
  \<^verbatim>\<open>Vec\<close>: a write past its end is the outcome \<open>None\<close> (undefined behaviour),
  so that their memory safety is a theorem.
\<close>

subsection \<open>The allocation of a Vec<u8>\<close>

text \<open>
  \<open>rv_mem\<close> is the allocation (its length is the capacity, bytes past \<open>rv_len\<close> are
  uninitialised), \<open>rv_len\<close> the length of the vector. \<^verbatim>\<open>reserve\<close> grows as
  \<^verbatim>\<open>RawVec\<close> does: to the larger of twice the capacity, the required capacity and 8.
\<close>

record raw_vec =
  rv_mem :: bytes
  rv_len :: nat

definition rv_ok :: "raw_vec \<Rightarrow> bool" where
  "rv_ok b \<longleftrightarrow> rv_len b \<le> length (rv_mem b)"

definition rv_bytes :: "raw_vec \<Rightarrow> bytes" where
  "rv_bytes b = take (rv_len b) (rv_mem b)"

definition rv_reserve :: "nat \<Rightarrow> raw_vec \<Rightarrow> raw_vec" where
  "rv_reserve n b =
     (let cap = length (rv_mem b)
      in if n \<le> cap - rv_len b then b
         else let cap' = max (max (2 * cap) (rv_len b + n)) 8
              in b\<lparr>rv_mem := rv_mem b @ replicate (cap' - cap) 0\<rparr>)"

definition rv_push :: "u8 \<Rightarrow> raw_vec \<Rightarrow> raw_vec" where
  "rv_push x b =
     (let b' = rv_reserve 1 b
      in b'\<lparr>rv_mem := (rv_mem b')[rv_len b' := x], rv_len := Suc (rv_len b')\<rparr>)"

text \<open>\<^verbatim>\<open>*base.add(pos) = x\<close>.\<close>

definition ptr_write :: "bytes \<Rightarrow> nat \<Rightarrow> u8 \<Rightarrow> bytes option" where
  "ptr_write mem pos x = (if pos < length mem then Some (mem[pos := x]) else None)"

subsection \<open>Varint encoding\<close>

text \<open>\<^verbatim>\<open>(v as u8 & 0x7F) | 0x80\<close>.\<close>

definition cont_byte :: "u64 \<Rightarrow> u8" where
  "cont_byte v = (ucast v AND 0x7F) OR 0x80"

lemma drop7_less: "\<not> v < 0x80 \<Longrightarrow> unat (drop_bit 7 (v::u64)) < unat v"
  by (simp add: unat_drop_bit7 word_less_nat_alt del: drop_bit_numeral_minus_bit1)

text \<open>
  \<^verbatim>\<open>tw_encode_varint_array\<close>: an index past the ten bytes of the array would panic
  (\<open>None\<close>).
\<close>

function tw_encode_varint_array_loop :: "bytes \<Rightarrow> nat \<Rightarrow> u64 \<Rightarrow> (bytes \<times> nat) option" where
  "tw_encode_varint_array_loop arr i v =
     (if length arr \<le> i then None
      else if v < 0x80 then Some (arr[i := ucast v], i + 1)
      else tw_encode_varint_array_loop (arr[i := cont_byte v]) (i + 1) (drop_bit 7 v))"
  by pat_completeness auto
termination
  by (relation "measure (\<lambda>(arr, i, v). unat v)") (auto simp: drop7_less)

definition tw_encode_varint_array :: "u64 \<Rightarrow> (bytes \<times> nat) option" where
  "tw_encode_varint_array value = tw_encode_varint_array_loop (replicate 10 0) 0 value"

text \<open>
  The loop shared by \<^verbatim>\<open>tw_encode_varint\<close>, \<^verbatim>\<open>tw_encode_varint_unchecked\<close> and
  (with \<^verbatim>\<open>loop\<close> in place of \<^verbatim>\<open>while\<close>) \<^verbatim>\<open>tw_encode_packed_u32\<close>: the
  position after the last byte is what the code passes to \<^verbatim>\<open>set_len\<close>.
\<close>

function tw_write_varint :: "bytes \<Rightarrow> nat \<Rightarrow> u64 \<Rightarrow> (bytes \<times> nat) option" where
  "tw_write_varint mem pos v =
     (if 0x80 \<le> v
      then (case ptr_write mem pos (cont_byte v) of
              None \<Rightarrow> None
            | Some mem' \<Rightarrow> tw_write_varint mem' (pos + 1) (drop_bit 7 v))
      else (case ptr_write mem pos (ucast v) of
              None \<Rightarrow> None
            | Some mem' \<Rightarrow> Some (mem', pos + 1)))"
  by pat_completeness auto
termination
  by (relation "measure (\<lambda>(mem, pos, v). unat v)") (auto simp: drop7_less)

definition tw_encode_varint_unchecked :: "raw_vec \<Rightarrow> u64 \<Rightarrow> raw_vec option" where
  "tw_encode_varint_unchecked buf value =
     map_option (\<lambda>(mem, pos). \<lparr>rv_mem = mem, rv_len = pos\<rparr>)
       (tw_write_varint (rv_mem buf) (rv_len buf) value)"

definition tw_encode_varint :: "raw_vec \<Rightarrow> u64 \<Rightarrow> raw_vec option" where
  "tw_encode_varint buf value =
     (if value < 0x80 then Some (rv_push (ucast value) buf)
      else let buf' = rv_reserve 10 buf
           in map_option (\<lambda>(mem, pos). \<lparr>rv_mem = mem, rv_len = pos\<rparr>)
                (tw_write_varint (rv_mem buf') (rv_len buf') value))"

fun tw_write_packed :: "bytes \<Rightarrow> nat \<Rightarrow> u32 list \<Rightarrow> (bytes \<times> nat) option" where
  "tw_write_packed mem pos [] = Some (mem, pos)"
| "tw_write_packed mem pos (val # vals) =
     (case tw_write_varint mem pos (ucast val) of
        None \<Rightarrow> None
      | Some (mem', pos') \<Rightarrow> tw_write_packed mem' pos' vals)"

definition tw_encode_packed_u32 :: "raw_vec \<Rightarrow> u32 list \<Rightarrow> raw_vec option" where
  "tw_encode_packed_u32 buf values =
     (let buf' = rv_reserve (length values * 5) buf
      in map_option (\<lambda>(mem, pos). \<lparr>rv_mem = mem, rv_len = pos\<rparr>)
           (tw_write_packed (rv_mem buf') (rv_len buf') values))"

text \<open>
  The length formula. The product stays below \<open>2 ^ 32\<close>
  (\<open>log2\<close> is at most 63), so natural numbers are exact.
\<close>

definition tw_varint_len :: "u64 \<Rightarrow> nat" where
  "tw_varint_len value = (let log2 = ilog2 (unat (value OR 1)) in (log2 * 9 + (64 + 9)) div 64)"

definition tw_encode_tag :: "raw_vec \<Rightarrow> u32 \<Rightarrow> u8 \<Rightarrow> raw_vec option" where
  "tw_encode_tag buf field_number wire_type =
     tw_encode_varint buf (push_bit 3 (ucast field_number) OR ucast wire_type)"

definition tw_tag_len :: "u32 \<Rightarrow> nat" where
  "tw_tag_len field_number = tw_varint_len (push_bit 3 (ucast field_number))"

subsection \<open>ZigZag\<close>

definition tw_zigzag_encode :: "i64 \<Rightarrow> u64" where
  "tw_zigzag_encode value = push_bit 1 value XOR signed_drop_bit 63 value"

definition tw_zigzag_decode :: "u64 \<Rightarrow> i64" where
  "tw_zigzag_decode value = drop_bit 1 value XOR (- (value AND 1))"

subsection \<open>Decoding\<close>

datatype TypewayDecodeError =
    UnexpectedEof
  | VarintTooLong
  | UnknownWireType u8
  | InvalidFieldValue string string
  | MissingField string
  | InvalidUtf8 string

text \<open>The loop over \<^verbatim>\<open>bytes[2..]\<close>, with its enumeration index and shift.\<close>

fun tw_decode_varint_loop ::
  "u64 \<Rightarrow> nat \<Rightarrow> nat \<Rightarrow> bytes \<Rightarrow> (u64 \<times> nat, TypewayDecodeError) result" where
  "tw_decode_varint_loop value shift i [] = Err UnexpectedEof"
| "tw_decode_varint_loop value shift i (byte # rest) =
     (if 10 \<le> i + 2 then Err VarintTooLong
      else let value' = value OR push_bit shift (ucast (byte AND 0x7F))
           in if byte < 0x80 then Ok (value', i + 3)
              else tw_decode_varint_loop value' (shift + 7) (i + 1) rest)"

definition tw_decode_varint :: "bytes \<Rightarrow> (u64 \<times> nat, TypewayDecodeError) result" where
  "tw_decode_varint bs =
     (if bs = [] then Err UnexpectedEof
      else let b0 = bs ! 0
           in if b0 < 0x80 then Ok (ucast b0, 1)
              else if length bs < 2 then Err UnexpectedEof
              else let b1 = bs ! 1
                   in if b1 < 0x80
                      then Ok (ucast (b0 AND 0x7F) OR push_bit 7 (ucast b1), 2)
                      else tw_decode_varint_loop
                             (ucast (b0 AND 0x7F) OR push_bit 7 (ucast (b1 AND 0x7F)))
                             14 0 (drop 2 bs))"

subsection \<open>The writers against the format\<close>

declare tw_encode_varint_array_loop.simps [simp del] tw_write_varint.simps [simp del]

lemma vbytes_u64:
  "v < 0x80 \<Longrightarrow> vbytes (unat (v::u64)) = [ucast v]"
  "\<not> v < 0x80 \<Longrightarrow> vbytes (unat v) = cont_byte v # vbytes (unat (drop_bit 7 v))"
proof -
  assume v: "v < 0x80"
  have "(word_of_nat (unat v) :: u8) = ucast v" by simp
  with v show "vbytes (unat v) = [ucast v]"
    by (subst vbytes.simps) (simp add: word_less_nat_alt)
next
  assume v: "\<not> v < 0x80"
  have "(word_of_nat (unat v mod 128 + 128) :: u8) = cont_byte v"
    unfolding word_unat_eq_iff unat_high_byte cont_byte_def unat_or_high_bit unat_ucast_u8
    by (simp add: mod_mod_cancel)
  with v show "vbytes (unat v) = cont_byte v # vbytes (unat (drop_bit 7 v))"
    unfolding unat_drop_bit7 by (subst vbytes.simps) (simp add: word_less_nat_alt del: of_nat_add)
qed

text \<open>Writing at \<open>pos\<close> leaves what is before and what is after the written bytes alone.\<close>

lemma take_write:
  assumes "pos < length mem"
  shows "take (Suc pos) (mem[pos := x]) = take pos mem @ [x]"
  using assms by (simp add: take_Suc_conv_app_nth)

lemma tw_encode_varint_array_loop_bytes:
  "i + length (vbytes (unat v)) \<le> length arr \<Longrightarrow>
   \<exists>arr' n. tw_encode_varint_array_loop arr i v = Some (arr', n) \<and>
     length arr' = length arr \<and> n = i + length (vbytes (unat v)) \<and>
     take n arr' = take i arr @ vbytes (unat v)"
proof (induction arr i v rule: tw_encode_varint_array_loop.induct)
  case (1 arr i v)
  have i: "i < length arr"
    using "1.prems" length_vbytes_pos [of "unat v"] by linarith
  show ?case
  proof (cases "v < 0x80")
    case True
    then show ?thesis
      using i by (simp add: tw_encode_varint_array_loop.simps [of arr i v] vbytes_u64(1) take_write)
  next
    case False
    have "(i + 1) + length (vbytes (unat (drop_bit 7 v))) \<le> length (arr[i := cont_byte v])"
      using "1.prems" False by (simp add: vbytes_u64(2))
    from "1.IH" [OF _ False this] i show ?thesis
      by (simp add: tw_encode_varint_array_loop.simps [of arr i v] vbytes_u64(2) [OF False] False
          take_write)
  qed
qed

lemma tw_write_varint_bytes:
  "pos + length (vbytes (unat v)) \<le> length mem \<Longrightarrow>
   \<exists>mem'. tw_write_varint mem pos v = Some (mem', pos + length (vbytes (unat v))) \<and>
     length mem' = length mem \<and>
     take (pos + length (vbytes (unat v))) mem' = take pos mem @ vbytes (unat v)"
proof (induction mem pos v rule: tw_write_varint.induct)
  case (1 mem pos v)
  have pos: "pos < length mem"
    using "1.prems" length_vbytes_pos [of "unat v"] by linarith
  show ?case
  proof (cases "v < 0x80")
    case True
    then show ?thesis
      using pos
      by (simp add: tw_write_varint.simps [of mem pos v] ptr_write_def vbytes_u64(1) take_write not_le)
  next
    case False
    let ?mem' = "mem[pos := cont_byte v]"
    have le: "0x80 \<le> v" using False by simp
    have w: "ptr_write mem pos (cont_byte v) = Some ?mem'"
      using pos by (simp add: ptr_write_def)
    have "(pos + 1) + length (vbytes (unat (drop_bit 7 v))) \<le> length ?mem'"
      using "1.prems" False by (simp add: vbytes_u64(2))
    from "1.IH" [OF le w this] pos show ?thesis
      by (simp add: tw_write_varint.simps [of mem pos v] vbytes_u64(2) [OF False] le w take_write)
  qed
qed

text \<open>The room a writer is given is what \<^verbatim>\<open>reserve\<close> guarantees.\<close>

lemma rv_reserve_room: "rv_len (rv_reserve n b) + n \<le> length (rv_mem (rv_reserve n b)) \<or> n = 0"
  by (auto simp: rv_reserve_def Let_def)

lemma rv_reserve_keeps:
  "rv_len (rv_reserve n b) = rv_len b"
  "rv_ok b \<Longrightarrow> rv_ok (rv_reserve n b)"
  "rv_ok b \<Longrightarrow> rv_bytes (rv_reserve n b) = rv_bytes b"
  by (auto simp: rv_reserve_def rv_ok_def rv_bytes_def Let_def)

lemma rv_push_bytes:
  assumes "rv_ok b"
  shows "rv_ok (rv_push x b)" "rv_bytes (rv_push x b) = rv_bytes b @ [x]"
proof -
  have room: "rv_len (rv_reserve 1 b) < length (rv_mem (rv_reserve 1 b))"
    using rv_reserve_room [of 1 b] by simp
  then show "rv_ok (rv_push x b)"
    by (simp add: rv_push_def rv_ok_def Let_def)
  show "rv_bytes (rv_push x b) = rv_bytes b @ [x]"
    using room rv_reserve_keeps(3) [OF assms, of 1]
    by (simp add: rv_push_def rv_bytes_def Let_def take_write)
qed

definition rv_writes :: "raw_vec option \<Rightarrow> raw_vec \<Rightarrow> bytes \<Rightarrow> bool" where
  "rv_writes r b bs \<longleftrightarrow> (\<exists>b'. r = Some b' \<and> rv_ok b' \<and> rv_bytes b' = rv_bytes b @ bs)"

lemma tw_encode_varint_unchecked_writes:
  assumes "rv_ok b" "rv_len b + 10 \<le> length (rv_mem b)"
  shows "rv_writes (tw_encode_varint_unchecked b v) b (vbytes (unat v))"
proof -
  have "rv_len b + length (vbytes (unat v)) \<le> length (rv_mem b)"
    using assms(2) length_vbytes_u64 [of v] by linarith
  from tw_write_varint_bytes [OF this] this show ?thesis
    by (auto simp: rv_writes_def tw_encode_varint_unchecked_def rv_ok_def rv_bytes_def)
qed

lemma tw_encode_varint_writes:
  assumes "rv_ok b"
  shows "rv_writes (tw_encode_varint b v) b (vbytes (unat v))"
proof (cases "v < 0x80")
  case True
  then show ?thesis
    using rv_push_bytes [OF assms] by (simp add: rv_writes_def tw_encode_varint_def vbytes_u64(1))
next
  case False
  let ?b = "rv_reserve 10 b"
  have "rv_len ?b + 10 \<le> length (rv_mem ?b)"
    using rv_reserve_room [of 10 b] by simp
  from tw_encode_varint_unchecked_writes [OF rv_reserve_keeps(2) [OF assms] this, of v] False
  show ?thesis
    by (simp add: rv_writes_def tw_encode_varint_def tw_encode_varint_unchecked_def Let_def
        rv_reserve_keeps(3) [OF assms])
qed

lemma vbytes_packed_room: "length (concat (map (\<lambda>v. vbytes (unat (v::u32))) vs)) \<le> length vs * 5"
proof (induction vs)
  case (Cons v vs)
  then show ?case using length_vbytes_u32 [of v] by simp
qed simp

lemma unat_ucast_u32_u64 [word_nat_simps]: "unat (ucast (w::u32) :: u64) = unat w"
proof -
  have "unat w < 2 ^ 64" using unat_word_lt_exp [of w] by simp
  then show ?thesis by (simp add: unsigned_ucast_eq take_bit_nat_eq_self)
qed

lemma tw_write_packed_bytes:
  "pos + length (concat (map (\<lambda>v. vbytes (unat v)) vs)) \<le> length mem \<Longrightarrow>
   \<exists>mem'. tw_write_packed mem pos vs
       = Some (mem', pos + length (concat (map (\<lambda>v. vbytes (unat v)) vs))) \<and>
     length mem' = length mem \<and>
     take (pos + length (concat (map (\<lambda>v. vbytes (unat v)) vs))) mem'
       = take pos mem @ concat (map (\<lambda>v. vbytes (unat v)) vs)"
proof (induction vs arbitrary: mem pos)
  case Nil
  then show ?case by simp
next
  case (Cons v vs)
  have "pos + length (vbytes (unat (ucast v :: u64))) \<le> length mem"
    using Cons.prems by (simp add: unat_ucast_u32_u64)
  from tw_write_varint_bytes [OF this] obtain mem1 where m1:
    "tw_write_varint mem pos (ucast v) = Some (mem1, pos + length (vbytes (unat v)))"
    "length mem1 = length mem"
    "take (pos + length (vbytes (unat v))) mem1 = take pos mem @ vbytes (unat v)"
    by (auto simp: unat_ucast_u32_u64)
  have "pos + length (vbytes (unat v)) + length (concat (map (\<lambda>v. vbytes (unat v)) vs)) \<le> length mem1"
    using Cons.prems m1(2) by simp
  from Cons.IH [OF this] m1 show ?case
    by (auto simp: add.assoc)
qed

lemma tw_encode_packed_u32_writes:
  assumes "rv_ok b"
  shows "rv_writes (tw_encode_packed_u32 b vs) b (concat (map (\<lambda>v. vbytes (unat v)) vs))"
proof -
  let ?b = "rv_reserve (length vs * 5) b"
  have "rv_len ?b + length (concat (map (\<lambda>v. vbytes (unat v)) vs)) \<le> length (rv_mem ?b)"
    using rv_reserve_room [of "length vs * 5" b] vbytes_packed_room [of vs]
      rv_reserve_keeps(2) [OF assms, of "length vs * 5"]
    by (cases vs) (simp_all add: rv_ok_def)
  from tw_write_packed_bytes [OF this] this show ?thesis
    using rv_reserve_keeps(3) [OF assms, of "length vs * 5"]
    by (auto simp: rv_writes_def tw_encode_packed_u32_def rv_ok_def rv_bytes_def Let_def)
qed

subsection \<open>The length formula\<close>

lemma ilog2_step: "2 \<le> n \<Longrightarrow> ilog2 n = Suc (ilog2 (n div 2))"
  by (subst ilog2.simps) simp

lemma ilog2_div128:
  assumes "128 \<le> n"
  shows "ilog2 n = 7 + ilog2 (n div 128)"
proof -
  have n: "n div 2 div 2 div 2 div 2 div 2 div 2 div 2 = n div 128"
    by (simp add: div_mult2_eq [symmetric])
  have "ilog2 n = 7 + ilog2 (n div 2 div 2 div 2 div 2 div 2 div 2 div 2)"
    using assms by (simp add: ilog2_step div_mult2_eq [symmetric] del: div_by_Suc_0)
  then show ?thesis unfolding n .
qed

lemma length_vbytes_ilog2: "0 < n \<Longrightarrow> length (vbytes n) = ilog2 n div 7 + 1"
proof (induction n rule: vbytes.induct)
  case (1 n)
  show ?case
  proof (cases "n < 128")
    case True
    have "ilog2 n < 7"
      using True by (simp add: ilog2.simps)
    then show ?thesis using True by (simp add: vbytes.simps [of n])
  next
    case False
    then have "0 < n div 128" by simp
    with "1.IH" False show ?thesis
      by (simp add: vbytes.simps [of n] ilog2_div128)
  qed
qed

lemma ilog2_bound: "n < 2 ^ k \<Longrightarrow> 0 < k \<Longrightarrow> ilog2 n < k"
proof (induction k arbitrary: n)
  case 0
  then show ?case by simp
next
  case (Suc k)
  show ?case
  proof (cases "n < 2")
    case False
    then have "0 < k" using Suc.prems(1) by (cases k) auto
    moreover have "n div 2 < 2 ^ k" using Suc.prems(1) by simp
    ultimately have "ilog2 (n div 2) < k" by (rule Suc.IH [rotated])
    then show ?thesis using False by (simp add: ilog2_step)
  qed (simp add: ilog2.simps)
qed

lemma ilog2_or_1:
  assumes "0 < n"
  shows "ilog2 (n OR Suc 0) = ilog2 n"
proof (cases "even n")
  case True
  with assms have n: "2 \<le> n" by (auto elim!: evenE)
  have "Suc n div 2 = n div 2" using True by simp
  with True n show ?thesis
    by (simp add: or_Suc_0_eq ilog2_step [of n] ilog2_step [of "Suc n"])
qed (simp add: or_Suc_0_eq)

lemma prost_len_formula:
  assumes "l < 64"
  shows "(l * 9 + 73) div 64 = l div 7 + (1::nat)"
proof -
  define q r where "q = l div 7" and "r = l mod 7"
  have l: "l = 7 * q + r" and r: "r \<le> 6"
    by (simp_all add: q_def r_def less_Suc_eq_le [symmetric])
  have "q \<le> 9" using assms by (simp add: q_def)
  with l have "64 * (q + 1) \<le> l * 9 + 73" by simp
  moreover have "l * 9 + 73 < 64 * (q + 1) + 64" using l r by simp
  ultimately have "(l * 9 + 73) div 64 = q + 1"
    by (intro div_nat_eqI) simp_all
  then show ?thesis by (simp add: q_def)
qed

lemma tw_varint_len_eq: "tw_varint_len v = length (vbytes (unat v))"
proof (cases "unat v = 0")
  case True
  then show ?thesis
    by (simp add: tw_varint_len_def unsigned_or_eq ilog2.simps vbytes.simps)
next
  case False
  have "ilog2 (unat v) < 64"
    using unat_word_lt_exp [of v] by (intro ilog2_bound) simp_all
  then show ?thesis
    using False prost_len_formula [of "ilog2 (unat v)"]
    by (simp add: tw_varint_len_def unsigned_or_eq ilog2_or_1 length_vbytes_ilog2)
qed

subsection \<open>ZigZag is a bijection\<close>

lemma minus_and_1: "- ((v::u64) AND 1) = (if odd v then - 1 else 0)"
  by (simp add: and_one_eq odd_iff_mod_2_eq_one)

lemma sar63: "signed_drop_bit 63 (v::i64) = (if bit v 63 then - 1 else 0)"
proof (rule bit_word_eqI)
  fix n assume "n < LENGTH(64)"
  then show "bit (signed_drop_bit 63 v) n \<longleftrightarrow> bit (if bit v 63 then - 1 else 0 :: i64) n"
    by (cases "n = 0") (auto simp: bit_simps)
qed

lemma bit_zigzag_encode:
  "bit (tw_zigzag_encode v) n \<longleftrightarrow> n < 64 \<and> ((0 < n \<and> bit v (n - 1)) \<noteq> bit v 63)"
  unfolding tw_zigzag_encode_def sar63 bit_xor_iff bit_push_bit_iff
  by (auto simp: bit_simps Suc_le_eq)

lemma bit_zigzag_decode:
  "bit (tw_zigzag_decode u) n \<longleftrightarrow> n < 64 \<and> ((n < 63 \<and> bit u (Suc n)) \<noteq> odd u)"
  unfolding tw_zigzag_decode_def minus_and_1 bit_xor_iff bit_drop_bit_eq comp_def
  using not_bit_length [of u] by (cases "n = 63") (auto simp: bit_simps dest: bit_imp_le_length)

lemma zigzag_decode_encode: "tw_zigzag_decode (tw_zigzag_encode v) = v"
proof (rule bit_word_eqI)
  fix n assume "n < LENGTH(64)"
  then show "bit (tw_zigzag_decode (tw_zigzag_encode v)) n \<longleftrightarrow> bit v n"
    unfolding bit_zigzag_decode bit_0 [symmetric] bit_zigzag_encode by (cases "n = 63") auto
qed

lemma zigzag_encode_decode: "tw_zigzag_encode (tw_zigzag_decode u) = u"
proof (rule bit_word_eqI)
  fix n assume "n < LENGTH(64)"
  then show "bit (tw_zigzag_encode (tw_zigzag_decode u)) n \<longleftrightarrow> bit u n"
    unfolding bit_zigzag_encode bit_zigzag_decode by (cases n) (auto simp: bit_0)
qed

subsection \<open>The decoder against the format\<close>

lemma tw_decode_varint_loop_eq:
  "tw_decode_varint_loop v (14 + 7 * i) i bs = varint_loop VarintTooLong UnexpectedEof v (i + 2) bs"
proof (induction bs arbitrary: v i)
  case (Cons b bs)
  have "14 + 7 * i = 7 * (i + 2)" "14 + 7 * i + 7 = 14 + 7 * (i + 1)" by simp_all
  then show ?case
    using Cons.IH [of _ "i + 1"] by (simp add: Let_def)
qed simp

lemma tw_decode_varint_eq: "tw_decode_varint bs = varint_read VarintTooLong UnexpectedEof bs"
proof -
  have low: "(ucast (b AND 0x7F) :: u64) = ucast b" if "b < 0x80" for b :: u8
    using that
    by (simp add: word_unat_eq_iff unat_ucast_u64_u8 unat_and_mask7 word_less_nat_alt)
  show ?thesis
  proof (cases bs)
    case Nil
    then show ?thesis by (simp add: tw_decode_varint_def varint_read_loop)
  next
    case (Cons b0 bs')
    show ?thesis
    proof (cases bs')
      case Nil
      with Cons low show ?thesis by (simp add: tw_decode_varint_def varint_read_loop Let_def)
    next
      case c: (Cons b1 bs'')
      have "tw_decode_varint_loop v 14 0 bs'' = varint_loop VarintTooLong UnexpectedEof v 2 bs''" for v
        using tw_decode_varint_loop_eq [of v 0 bs''] by (simp add: numeral_2_eq_2)
      with Cons c low show ?thesis
        by (simp add: tw_decode_varint_def varint_read_loop Let_def numeral_2_eq_2)
    qed
  qed
qed

subsection \<open>Packed fields and skipping\<close>

text \<open>
  \<^verbatim>\<open>tw_decode_packed_varints\<close>, with its one- and two-byte fast paths; every turn
  consumes at least one byte.
\<close>

function tw_decode_packed_loop :: "bytes \<Rightarrow> nat \<Rightarrow> u64 list \<Rightarrow> (u64 list, TypewayDecodeError) result" where
  "tw_decode_packed_loop packed offset acc =
     (if offset < length packed then
        let b = packed ! offset
        in if b < 0x80 then tw_decode_packed_loop packed (offset + 1) (acc @ [ucast b])
           else if offset + 1 < length packed \<and> packed ! (offset + 1) < 0x80
           then tw_decode_packed_loop packed (offset + 2)
                  (acc @ [ucast (b AND 0x7F) OR push_bit 7 (ucast (packed ! (offset + 1)))])
           else and_then (tw_decode_varint (drop offset packed))
                  (\<lambda>(val, consumed). tw_decode_packed_loop packed (offset + consumed) (acc @ [val]))
      else Ok acc)"
  by pat_completeness auto
termination
  by (relation "measure (\<lambda>(packed, offset, acc). length packed - offset)")
    (auto simp: tw_decode_varint_eq dest: varint_read_bounds(1))

definition tw_decode_packed_varints :: "bytes \<Rightarrow> (u64 list, TypewayDecodeError) result" where
  "tw_decode_packed_varints packed = tw_decode_packed_loop packed 0 []"

text \<open>
  \<^verbatim>\<open>tw_skip_wire_value\<close>; \<^verbatim>\<open>hdr + len as usize\<close> is 64-bit addition.
\<close>

definition tw_skip_wire_value :: "bytes \<Rightarrow> u8 \<Rightarrow> (nat, TypewayDecodeError) result" where
  "tw_skip_wire_value bs wire_type =
     (if wire_type = 0 then
        and_then (tw_decode_varint bs) (\<lambda>(_, consumed). Ok consumed)
      else if wire_type = 1 then
        (if length bs < 8 then Err UnexpectedEof else Ok 8)
      else if wire_type = 2 then
        and_then (tw_decode_varint bs)
          (\<lambda>(len, hdr).
             let total = unat (word_of_nat hdr + len :: usize)
             in if length bs < total then Err UnexpectedEof else Ok total)
      else if wire_type = 5 then
        (if length bs < 4 then Err UnexpectedEof else Ok 4)
      else Err (UnknownWireType wire_type))"

declare tw_decode_packed_loop.simps [simp del]

interpretation tw_varint: self_delimiting
  "\<lambda>v::u64. vbytes (unat v)" tw_decode_varint "\<lambda>_. True"
proof unfold_locales
  fix v :: u64 and rest
  have "unat v < 2 ^ 64" using unat_word_lt_exp [of v] by simp
  then show "tw_decode_varint (vbytes (unat v) @ rest) = Ok (v, length (vbytes (unat v)))"
    by (simp add: tw_decode_varint_eq varint_read_vbytes)
qed simp

text \<open>The two fast paths read what \<^verbatim>\<open>tw_decode_varint\<close> reads.\<close>

lemma tw_decode_packed_step:
  assumes "off < length packed"
  shows "tw_decode_packed_loop packed off acc =
    and_then (tw_decode_varint (drop off packed))
      (\<lambda>(v, n). tw_decode_packed_loop packed (off + n) (acc @ [v]))"
proof (cases "off + 1 < length packed")
  case True
  then have "drop off packed \<noteq> []" "\<not> length packed - off < 2"
    "drop off packed ! 0 = packed ! off" "drop off packed ! 1 = packed ! (off + 1)"
    by auto
  with True show ?thesis
    by (subst tw_decode_packed_loop.simps)
      (simp add: tw_decode_varint_def [of "drop off packed"] Let_def)
next
  case False
  then have "drop off packed \<noteq> []" "length packed - off < 2"
    "drop off packed ! 0 = packed ! off"
    using assms by auto
  with False assms show ?thesis
    by (subst tw_decode_packed_loop.simps)
      (simp add: tw_decode_varint_def [of "drop off packed"] Let_def)
qed

lemma tw_decode_packed_end: "tw_decode_packed_loop packed (length packed) acc = Ok acc"
  by (subst tw_decode_packed_loop.simps) simp

lemma tw_decode_packed_vbytes:
  "tw_decode_packed_varints (concat (map (\<lambda>v::u64. vbytes (unat v)) vs)) = Ok vs"
  unfolding tw_decode_packed_varints_def
  using tw_varint.loop_collects
    [where buf = "concat (map (\<lambda>v::u64. vbytes (unat v)) vs)" and pre = "[]" and acc = "[]"
       and step = "tw_decode_packed_loop (concat (map (\<lambda>v::u64. vbytes (unat v)) vs))",
     OF tw_decode_packed_step tw_decode_packed_end]
  by (simp add: list_all_iff)

subsection \<open>Skipping\<close>

lemma tw_skip_wire_value_le: "tw_skip_wire_value bs wt = Ok n \<Longrightarrow> n \<le> length bs"
  by (auto simp: tw_skip_wire_value_def tw_decode_varint_eq result_simps Let_def not_less
      dest: varint_read_bounds split: if_splits)

lemma tw_skip_delimited:
  assumes "tw_decode_varint bs = Ok (len, hdr)" "hdr + unat len < 2 ^ 64"
  shows "tw_skip_wire_value bs 2 =
    (if length bs < hdr + unat len then Err UnexpectedEof else Ok (hdr + unat len))"
proof -
  have "unat (word_of_nat hdr + len :: usize) = hdr + unat len"
    using assms(2) by (subst unat_add_lem [THEN iffD1]) (simp_all add: unat_of_nat)
  with assms(1) show ?thesis by (simp add: tw_skip_wire_value_def Let_def)
qed

subsection \<open>Properties\<close>

text \<open>The growing varint writer of \<^verbatim>\<open>typeway-protobuf\<close>, which writes through a
  raw pointer after \<^verbatim>\<open>reserve(10)\<close>, never writes outside the allocation (no undefined
  behaviour) whatever the capacity, keeps the vector well formed, leaves what it held alone and
  appends a number of bytes that is exactly what \<^verbatim>\<open>tw_varint_len\<close> predicts; and
  \<^verbatim>\<open>tw_decode_varint\<close> reads the value back from these bytes, whatever follows them.\<close>

theorem tw_varint_write_read:
  assumes "rv_ok b"
  shows "\<exists>b' bs. tw_encode_varint b v = Some b' \<and> rv_ok b' \<and> rv_bytes b' = rv_bytes b @ bs \<and>
    length bs = tw_varint_len v \<and>
    (\<forall>rest. tw_decode_varint (bs @ rest) = Ok (v, tw_varint_len v))"
  using tw_encode_varint_writes [OF assms, of v] tw_varint.get_put [of v]
  by (auto simp: rv_writes_def tw_varint_len_eq)

theorem tw_varint_write_read_witness:
  "\<exists>b' bs. tw_encode_varint \<lparr>rv_mem = [7, 0], rv_len = 1\<rparr> 300 = Some b' \<and> rv_ok b' \<and>
    rv_bytes b' = rv_bytes \<lparr>rv_mem = [7, 0], rv_len = 1\<rparr> @ bs \<and>
    length bs = tw_varint_len 300 \<and>
    (\<forall>rest. tw_decode_varint (bs @ rest) = Ok (300, tw_varint_len 300))"
  by (rule tw_varint_write_read) (simp add: rv_ok_def)

text \<open>C29. The unchecked writer is safe under its documented precondition (ten free bytes,
  \<^verbatim>\<open>UNSAFE.md\<close>) and then appends what the checked writer appends.\<close>

theorem tw_unchecked_safe:
  assumes "rv_ok b" "rv_len b + 10 \<le> length (rv_mem b)"
  shows "\<exists>b1 b2. tw_encode_varint_unchecked b v = Some b1 \<and> tw_encode_varint b v = Some b2 \<and>
    rv_ok b1 \<and> rv_bytes b1 = rv_bytes b2 \<and> rv_len b1 = rv_len b + tw_varint_len v \<and>
    length (rv_mem b1) = length (rv_mem b)"
proof -
  have room: "rv_len b + length (vbytes (unat v)) \<le> length (rv_mem b)"
    using assms(2) length_vbytes_u64 [of v] by linarith
  from tw_write_varint_bytes [OF this] this tw_encode_varint_writes [OF assms(1), of v] show ?thesis
    by (auto simp: rv_writes_def tw_encode_varint_unchecked_def rv_ok_def tw_varint_len_eq)
      (simp add: rv_bytes_def)
qed

theorem tw_unchecked_safe_witness:
  "\<exists>b1 b2. tw_encode_varint_unchecked \<lparr>rv_mem = replicate 12 0, rv_len = 2\<rparr> 18446744073709551615
      = Some b1 \<and> tw_encode_varint \<lparr>rv_mem = replicate 12 0, rv_len = 2\<rparr> 18446744073709551615 = Some b2 \<and>
    rv_ok b1 \<and> rv_bytes b1 = rv_bytes b2 \<and>
    rv_len b1 = rv_len \<lparr>rv_mem = replicate 12 (0::u8), rv_len = 2\<rparr> + tw_varint_len 18446744073709551615 \<and>
    length (rv_mem b1) = length (rv_mem \<lparr>rv_mem = replicate 12 0, rv_len = 2\<rparr>)"
  by (rule tw_unchecked_safe) (simp_all add: rv_ok_def)

text \<open>A packed \<^verbatim>\<open>repeated uint32\<close> field: the writer that reserves five bytes per
  value stays in its allocation, and the decoder with its one- and two-byte fast paths returns
  exactly the values, in order, from the bytes that were appended.\<close>

theorem tw_packed_roundtrip:
  assumes "rv_ok b"
  shows "\<exists>b' payload. tw_encode_packed_u32 b vs = Some b' \<and> rv_ok b' \<and>
    rv_bytes b' = rv_bytes b @ payload \<and> tw_decode_packed_varints payload = Ok (map ucast vs)"
proof -
  have "map (\<lambda>v. vbytes (unat v)) vs = map (\<lambda>v::u64. vbytes (unat v)) (map ucast vs)"
    by (simp add: unat_ucast_u32_u64)
  with tw_encode_packed_u32_writes [OF assms, of vs] tw_decode_packed_vbytes [of "map ucast vs"]
  show ?thesis by (auto simp: rv_writes_def)
qed

theorem tw_packed_roundtrip_witness:
  "\<exists>b' payload. tw_encode_packed_u32 \<lparr>rv_mem = [], rv_len = 0\<rparr> [1, 300, 4294967295] = Some b' \<and>
    rv_ok b' \<and> rv_bytes b' = rv_bytes \<lparr>rv_mem = [], rv_len = 0\<rparr> @ payload \<and>
    tw_decode_packed_varints payload = Ok (map ucast [1::u32, 300, 4294967295])"
  by (rule tw_packed_roundtrip) (simp add: rv_ok_def)

text \<open>The two decoders of a varint are total functions of the input: on any bytes
  \<^verbatim>\<open>tw_decode_varint\<close> returns the value of the leading group of continuation bytes
  modulo \<open>2 ^ 64\<close> and its length, or, when no such group of at
  most ten bytes is there, the too-long error if there is an eleventh byte to look at and the
  end-of-input error if not; it never reads past the input.\<close>

theorem tw_decode_varint_total:
  "tw_decode_varint bs =
    (if vscan bs < length bs \<and> vscan bs < 10
     then Ok (word_of_nat (vvalue (take (Suc (vscan bs)) bs)), Suc (vscan bs))
     else if 10 < length bs then Err VarintTooLong else Err UnexpectedEof)"
  by (simp add: tw_decode_varint_eq varint_read_def Let_def)

text \<open>ZigZag encoding is a bijection of the 64-bit words: each direction undoes the
  other.\<close>

theorem tw_zigzag_bijection:
  "tw_zigzag_decode (tw_zigzag_encode v) = v \<and> tw_zigzag_encode (tw_zigzag_decode u) = u"
  by (simp add: zigzag_decode_encode zigzag_encode_decode)

text \<open>Skipping an unknown field never moves past the input, for any wire type and any
  bytes.\<close>

theorem tw_skip_in_bounds:
  assumes "tw_skip_wire_value bs wt = Ok n"
  shows "n \<le> length bs"
  using assms by (rule tw_skip_wire_value_le)

theorem tw_skip_in_bounds_witness: "(3::nat) \<le> length [2::u8, 8, 9, 77]"
  by (rule tw_skip_in_bounds [of _ 2])
    (simp add: tw_skip_wire_value_def tw_decode_varint_def Let_def)

text \<open>What skipping promises is lost at the top of the length range: the 64-bit sum of
  the header length and the claimed length wraps, and a field that claims \<open>2 ^ 64 - 10\<close>
  bytes is skipped as if it were empty, the offset not moving at all.\<close>

theorem tw_skip_wraps:
  "tw_skip_wire_value (vbytes (2 ^ 64 - 10) @ rest) 2 = Ok 0"
proof -
  have "tw_decode_varint (vbytes (unat (18446744073709551606::u64)) @ rest)
      = Ok (18446744073709551606, length (vbytes (unat (18446744073709551606::u64))))"
    by (rule tw_varint.get_put) simp
  moreover have "length (vbytes 18446744073709551606) = 10"
    by (simp add: vbytes.simps)
  ultimately show ?thesis by (simp add: tw_skip_wire_value_def)
qed

end
