(* ===== verification/Grpc_Framing.thy ===== *)
theory Grpc_Framing
  imports Varint_Spec Rust_Str
begin

text \<open>
  \<^verbatim>\<open>typeway-grpc/src/framing.rs\<close>: the five-byte header (flag, big-endian length) in
  front of every gRPC message, the reader of one frame and the reader of a whole body, and the
  trailers frame of \<^verbatim>\<open>web.rs\<close>. Lengths go through \<^verbatim>\<open>as u32\<close> as
  in the code, so that what happens to a message of 4 GiB or more is part of the model.
\<close>

subsection \<open>Big-endian lengths\<close>

definition to_be_bytes :: "u32 \<Rightarrow> bytes" where
  "to_be_bytes v =
     [ucast (drop_bit 24 v), ucast (drop_bit 16 v), ucast (drop_bit 8 v), ucast v]"

definition from_be_bytes :: "u8 \<Rightarrow> u8 \<Rightarrow> u8 \<Rightarrow> u8 \<Rightarrow> u32" where
  "from_be_bytes a b c d =
     push_bit 24 (ucast a) OR push_bit 16 (ucast b) OR push_bit 8 (ucast c) OR ucast d"

lemma from_to_be_bytes:
  "from_be_bytes (ucast (drop_bit 24 v)) (ucast (drop_bit 16 v)) (ucast (drop_bit 8 v)) (ucast v) = v"
proof (rule bit_word_eqI)
  fix n assume n: "n < LENGTH(32)"
  consider "n < 8" | "8 \<le> n" "n < 16" | "16 \<le> n" "n < 24" | "24 \<le> n" by linarith
  then show "bit (from_be_bytes (ucast (drop_bit 24 v)) (ucast (drop_bit 16 v))
      (ucast (drop_bit 8 v)) (ucast v)) n \<longleftrightarrow> bit v n"
    unfolding from_be_bytes_def using n
    by cases (auto simp: bit_or_iff bit_push_bit_iff bit_ucast_iff bit_drop_bit_eq)
qed

lemma bit_u8_high: "8 \<le> n \<Longrightarrow> \<not> bit (b::u8) n"
  using bit_imp_le_length [of b n] by auto

lemma to_from_be_bytes: "to_be_bytes (from_be_bytes a b c d) = [a, b, c, d]"
  unfolding to_be_bytes_def from_be_bytes_def
  by (auto intro!: bit_word_eqI
      simp: bit_or_iff bit_push_bit_iff bit_ucast_iff bit_drop_bit_eq bit_u8_high)

lemma length_to_be_bytes [simp]: "length (to_be_bytes v) = 4"
  by (simp add: to_be_bytes_def)

subsection \<open>One frame\<close>

datatype FramingError =
    TooShort nat
  | CompressedNotSupported
  | Incomplete nat nat

definition encode_grpc_frame :: "bytes \<Rightarrow> bytes" where
  "encode_grpc_frame message =
     (let len = word_of_nat (length message) :: u32 in 0 # to_be_bytes len @ message)"

definition decode_grpc_frame :: "bytes \<Rightarrow> (bytes, FramingError) result" where
  "decode_grpc_frame data =
     (if length data < 5 then Err (TooShort (length data))
      else if data ! 0 \<noteq> 0 then Err CompressedNotSupported
      else let len = unat (from_be_bytes (data ! 1) (data ! 2) (data ! 3) (data ! 4))
           in if length data < 5 + len then Err (Incomplete len (length data - 5))
              else Ok (take len (drop 5 data)))"

subsection \<open>All frames of a body\<close>

text \<open>\<^verbatim>\<open>decode_grpc_frames\<close>: the loop over the offset, as recursion on what is left.\<close>

function decode_grpc_frames_loop ::
  "bytes \<Rightarrow> nat \<Rightarrow> bytes list \<Rightarrow> bytes list \<times> bytes option" where
  "decode_grpc_frames_loop data offset frames =
     (if offset + 5 \<le> length data then
        let flag = data ! offset;
            len = unat (from_be_bytes (data ! (offset + 1)) (data ! (offset + 2))
                          (data ! (offset + 3)) (data ! (offset + 4)));
            offset' = offset + 5
        in if length data < offset' + len then (frames, None)
           else let frame = take len (drop offset' data)
                in if flag = 0x80 then (frames, Some frame)
                   else decode_grpc_frames_loop data (offset' + len) (frames @ [frame])
      else (frames, None))"
  by pat_completeness auto
termination by (relation "measure (\<lambda>(data, offset, frames). length data - offset)") auto

declare decode_grpc_frames_loop.simps [simp del]

definition decode_grpc_frames :: "bytes \<Rightarrow> bytes list \<times> bytes option" where
  "decode_grpc_frames data = decode_grpc_frames_loop data 0 []"

subsection \<open>The trailers frame of gRPC-Web\<close>

definition crlf :: string where
  "crlf = [CHR 0x0D, CHR 0x0A]"

definition trailers_text :: "string \<Rightarrow> string option \<Rightarrow> string" where
  "trailers_text grpc_status grpc_message =
     ''grpc-status: '' @ grpc_status @ crlf @
     (case grpc_message of None \<Rightarrow> [] | Some msg \<Rightarrow> ''grpc-message: '' @ msg @ crlf)"

definition encode_trailers_frame :: "string \<Rightarrow> string option \<Rightarrow> bytes" where
  "encode_trailers_frame grpc_status grpc_message =
     (let trailer_bytes = as_bytes (trailers_text grpc_status grpc_message);
          len = word_of_nat (length trailer_bytes) :: u32
      in 0x80 # to_be_bytes len @ trailer_bytes)"

subsection \<open>Frames as a self-delimiting encoding\<close>

definition put_frame :: "u8 \<times> bytes \<Rightarrow> bytes" where
  "put_frame f = fst f # to_be_bytes (word_of_nat (length (snd f))) @ snd f"

definition frame_fits :: "bytes \<Rightarrow> bool" where
  "frame_fits m \<longleftrightarrow> length m < 2 ^ 32"

text \<open>What a header announces: the length of the message modulo \<open>2 ^ 32\<close>.\<close>

lemma put_frame_header:
  "put_frame (flag, m) @ rest = flag # ucast (drop_bit 24 (word_of_nat (length m) :: u32)) #
     ucast (drop_bit 16 (word_of_nat (length m) :: u32)) #
     ucast (drop_bit 8 (word_of_nat (length m) :: u32)) #
     ucast (word_of_nat (length m) :: u32) # m @ rest"
  by (simp add: put_frame_def to_be_bytes_def)

lemma length_put_frame [simp]: "length (put_frame f) = 5 + length (snd f)"
  by (simp add: put_frame_def)

lemma frame_len: "unat (word_of_nat n :: u32) = n mod 2 ^ 32"
  by (simp add: unat_of_nat)

lemma encode_grpc_frame_put: "encode_grpc_frame m = put_frame (0, m)"
  by (simp add: encode_grpc_frame_def put_frame_def)

lemma encode_trailers_frame_put:
  "encode_trailers_frame s msg = put_frame (0x80, as_bytes (trailers_text s msg))"
  by (simp add: encode_trailers_frame_def put_frame_def Let_def)

lemma decode_put_frame:
  "decode_grpc_frame (put_frame (0, m) @ rest) = Ok (take (length m mod 2 ^ 32) (m @ rest))"
proof -
  have "length m mod 2 ^ 32 \<le> length (m @ rest)"
    by (simp add: trans_le_add1)
  then show ?thesis
    unfolding decode_grpc_frame_def put_frame_header
    by (simp add: from_to_be_bytes frame_len numeral_2_eq_2 numeral_3_eq_3)
qed

text \<open>The frame at the head of a body, as the loop of \<^verbatim>\<open>decode_grpc_frames\<close> reads it.\<close>

definition get_frame :: "bytes \<Rightarrow> ((u8 \<times> bytes) \<times> nat, unit) result" where
  "get_frame data =
     (if length data < 5 then Err ()
      else let len = unat (from_be_bytes (data ! 1) (data ! 2) (data ! 3) (data ! 4))
           in if length data < 5 + len then Err ()
              else Ok ((data ! 0, take len (drop 5 data)), 5 + len))"

interpretation grpc_frame: self_delimiting put_frame get_frame "\<lambda>f. frame_fits (snd f)"
proof unfold_locales
  fix f :: "u8 \<times> bytes" and rest
  assume fits: "frame_fits (snd f)"
  obtain flag m where f: "f = (flag, m)" by fastforce
  have "unat (word_of_nat (length m) :: u32) = length m"
    using fits by (simp add: f frame_fits_def frame_len)
  then show "get_frame (put_frame f @ rest) = Ok (f, length (put_frame f))"
    unfolding get_frame_def f put_frame_header
    by (simp add: from_to_be_bytes numeral_2_eq_2 numeral_3_eq_3)
qed simp

lemma decode_grpc_frames_step:
  "decode_grpc_frames_loop data off frames =
     (case get_frame (drop off data) of
        Ok ((flag, m), n) \<Rightarrow>
          (if flag = 0x80 then (frames, Some m)
           else decode_grpc_frames_loop data (off + n) (frames @ [m]))
      | _ \<Rightarrow> (frames, None))"
proof (cases "off + 5 \<le> length data")
  case True
  then have "drop off data ! 0 = data ! off" "drop off data ! 1 = data ! (off + 1)"
    "drop off data ! 2 = data ! (off + 2)" "drop off data ! 3 = data ! (off + 3)"
    "drop off data ! 4 = data ! (off + 4)"
    by simp_all
  moreover have "drop 5 (drop off data) = drop (off + 5) data"
    by (simp add: add.commute)
  ultimately show ?thesis
    using True
    by (subst decode_grpc_frames_loop.simps)
      (simp add: get_frame_def Let_def less_diff_conv2 ac_simps del: drop_drop)
next
  case False
  then show ?thesis
    by (subst decode_grpc_frames_loop.simps) (simp add: get_frame_def)
qed

text \<open>
  A body of data frames followed by a trailers frame reads back as the messages and the
  trailers, whatever follows.
\<close>

lemma decode_grpc_frames_put:
  "list_all frame_fits ms \<Longrightarrow> list_all (\<lambda>g. g \<noteq> 0x80) fs \<Longrightarrow> length fs = length ms \<Longrightarrow>
   data = pre @ concat (map put_frame (zip fs ms)) @ post \<Longrightarrow>
   decode_grpc_frames_loop data (length pre) acc =
     decode_grpc_frames_loop data (length (pre @ concat (map put_frame (zip fs ms)))) (acc @ ms)"
proof (induction ms arbitrary: fs pre acc)
  case Nil
  then show ?case by simp
next
  case (Cons m ms)
  then obtain g fs' where fs: "fs = g # fs'" by (cases fs) auto
  have dp: "drop (length pre) data = put_frame (g, m) @ concat (map put_frame (zip fs' ms)) @ post"
    using Cons.prems(4) by (simp add: fs)
  have "decode_grpc_frames_loop data (length pre) acc
      = decode_grpc_frames_loop data (length (pre @ put_frame (g, m))) (acc @ [m])"
    using Cons.prems(1,2) unfolding decode_grpc_frames_step [of data "length pre"] dp
    by (simp add: fs grpc_frame.get_put)
  also have "\<dots> = decode_grpc_frames_loop data
      (length ((pre @ put_frame (g, m)) @ concat (map put_frame (zip fs' ms)))) ((acc @ [m]) @ ms)"
    using Cons.prems by (intro Cons.IH) (simp_all add: fs)
  finally show ?case by (simp add: fs)
qed

lemma grpc_frames_with_trailers:
  assumes "list_all frame_fits ms" "frame_fits (as_bytes (trailers_text s msg))"
  shows "decode_grpc_frames
      (concat (map encode_grpc_frame ms) @ encode_trailers_frame s msg @ rest)
    = (ms, Some (as_bytes (trailers_text s msg)))"
proof -
  let ?fs = "replicate (length ms) (0::u8)"
  let ?post = "encode_trailers_frame s msg @ rest"
  have z: "map encode_grpc_frame ms = map put_frame (zip ?fs ms)"
    by (induction ms) (simp_all add: encode_grpc_frame_put)
  let ?data = "concat (map put_frame (zip ?fs ms)) @ ?post"
  have "decode_grpc_frames ?data
      = decode_grpc_frames_loop ?data (length (concat (map put_frame (zip ?fs ms)))) ms"
    unfolding decode_grpc_frames_def
    using decode_grpc_frames_put [of ms ?fs ?data "[]" ?post "[]"] assms(1)
    by (simp add: list_all_length)
  also have "\<dots> = (ms, Some (as_bytes (trailers_text s msg)))"
    using grpc_frame.get_put [of "(0x80, as_bytes (trailers_text s msg))"] assms(2)
    by (simp add: decode_grpc_frames_step encode_trailers_frame_put)
  finally show ?thesis unfolding z .
qed

subsection \<open>Properties\<close>

text \<open>Framing and unframing one gRPC message, for messages of any length: what comes back
  is the prefix of the length taken modulo \<open>2 ^ 32\<close>, so the round trip is the identity
  exactly below 4 GiB and a longer message is truncated without an error.\<close>

theorem grpc_frame_roundtrip:
  "decode_grpc_frame (encode_grpc_frame m) = Ok (take (length m mod 2 ^ 32) m) \<and>
   (decode_grpc_frame (encode_grpc_frame m) = Ok m \<longleftrightarrow> length m < 2 ^ 32)"
proof -
  have "length m mod 2 ^ 32 = length m \<longleftrightarrow> length m < 2 ^ 32"
    by (simp add: mod_eq_self_iff_div_eq_0 div_eq_0_iff)
  moreover have "take k m = m \<longleftrightarrow> length m \<le> k" for k
    by (metis length_take min.absorb_iff1 take_all)
  moreover have "length m mod 2 ^ 32 \<le> length m" by simp
  ultimately have "take (length m mod 2 ^ 32) m = m \<longleftrightarrow> length m < 2 ^ 32"
    by (metis le_antisym)
  with decode_put_frame [of m "[]"] show ?thesis
    unfolding encode_grpc_frame_put by simp
qed

text \<open>Reading one frame is total and exact on any bytes: it reports a header that is not
  there, a compressed frame and a payload that is not all there, in this order, with the counts
  the error names; otherwise the payload is the announced slice of the input.\<close>

theorem decode_grpc_frame_cases:
  "case decode_grpc_frame data of
     Ok m \<Rightarrow> \<exists>rest. data = encode_grpc_frame m @ rest \<and> length m < 2 ^ 32
   | Err (TooShort got) \<Rightarrow> got = length data \<and> got < 5
   | Err CompressedNotSupported \<Rightarrow> 5 \<le> length data \<and> hd data \<noteq> 0
   | Err (Incomplete expected got) \<Rightarrow> 5 + got = length data \<and> got < expected
   | Panic \<Rightarrow> False"
proof (cases "length data < 5 \<or> data ! 0 \<noteq> 0")
  case True
  then show ?thesis
    by (cases data) (auto simp: decode_grpc_frame_def)
next
  case False
  then obtain b1 b2 b3 b4 rest where data: "data = 0 # b1 # b2 # b3 # b4 # rest"
    by (auto simp: not_less numeral_eq_Suc Suc_le_length_iff)
  define len where "len = from_be_bytes b1 b2 b3 b4"
  have be: "to_be_bytes len = [b1, b2, b3, b4]"
    by (simp add: len_def to_from_be_bytes)
  have lt: "unat len < 2 ^ 32" using unat_word_lt_exp [of len] by simp
  have dec: "decode_grpc_frame data =
      (if length rest < unat len then Err (Incomplete (unat len) (length rest))
       else Ok (take (unat len) rest))"
    by (simp add: decode_grpc_frame_def data len_def numeral_2_eq_2 numeral_3_eq_3)
  show ?thesis
  proof (cases "length rest < unat len")
    case True
    then show ?thesis unfolding dec by (simp add: data)
  next
    case False
    then have "encode_grpc_frame (take (unat len) rest) @ drop (unat len) rest = data"
      by (simp add: encode_grpc_frame_def be data)
    then show ?thesis using False lt unfolding dec by auto
  qed
qed

text \<open>A gRPC-Web body, read by the client: any number of framed messages (each below
  4 GiB) followed by the trailers frame that \<^verbatim>\<open>encode_trailers_frame\<close> writes reads
  back as exactly these messages in order and the text of the trailers, whatever bytes follow.\<close>

theorem grpc_web_body_roundtrip:
  assumes "list_all frame_fits ms" "frame_fits (as_bytes (trailers_text s msg))"
  shows "decode_grpc_frames
      (concat (map encode_grpc_frame ms) @ encode_trailers_frame s msg @ rest)
    = (ms, Some (as_bytes (trailers_text s msg)))"
  using assms by (rule grpc_frames_with_trailers)

theorem grpc_web_body_roundtrip_witness:
  "decode_grpc_frames
      (concat (map encode_grpc_frame [[1, 2], [], [3]]) @ encode_trailers_frame ''0'' None @ [9])
    = ([[1, 2], [], [3]], Some (as_bytes (trailers_text ''0'' None)))"
  by (rule grpc_web_body_roundtrip) (simp_all add: frame_fits_def trailers_text_def crlf_def)

text \<open>The reader of a whole body does not look at the flag beyond the trailers bit: a
  frame marked as compressed (or with any other flag but \<open>0x80\<close>) is returned as a data
  frame, although its payload is not the message.\<close>

theorem decode_grpc_frames_any_flag:
  assumes "frame_fits m" "flag \<noteq> 0x80"
  shows "decode_grpc_frames (put_frame (flag, m)) = ([m], None)"
  using decode_grpc_frames_put [of "[m]" "[flag]" "put_frame (flag, m)" "[]" "[]" "[]"] assms
  by (simp add: decode_grpc_frames_def decode_grpc_frames_step get_frame_def)

theorem decode_grpc_frames_any_flag_witness:
  "decode_grpc_frames (put_frame (1, [31, 139])) = ([[31, 139]], None)"
  by (rule decode_grpc_frames_any_flag) (simp_all add: frame_fits_def)

end
