(* ===== verification/Http_Headers.thy ===== *)
theory Http_Headers
  imports Rust_Str
begin

text \<open>
  The vocabulary of the \<^verbatim>\<open>http\<close> crate: a header map from lower-case names to
  values, messages with their body, and what the code relies on of header values: \<open>parse_hv\<close>
  is \<^verbatim>\<open>str::parse::<HeaderValue>\<close>, \<open>to_str\<close> is
  \<^verbatim>\<open>HeaderValue::to_str\<close>. Both are parameters of the definitions that use them;
  \<open>header_values\<close> states their documented behaviour on printable ASCII.
\<close>

type_synonym header_map = "string \<rightharpoonup> string"

record 'b request =
  rq_method :: string
  rq_uri :: string
  rq_headers :: header_map
  rq_body :: 'b

record 'b response =
  rs_status :: nat
  rs_headers :: header_map
  rs_body :: 'b

definition printable :: "char \<Rightarrow> bool" where
  "printable c \<longleftrightarrow> 0x20 \<le> (of_char c :: nat) \<and> (of_char c :: nat) \<le> 0x7E"

definition header_values ::
  "(string \<Rightarrow> string option) \<Rightarrow> (string \<Rightarrow> string option) \<Rightarrow> bool" where
  "header_values parse_hv to_str \<longleftrightarrow>
     (\<forall>v. list_all printable v \<longrightarrow> parse_hv v = Some v \<and> to_str v = Some v)"

lemma header_values_printable:
  "header_values parse_hv to_str \<Longrightarrow> list_all printable v \<Longrightarrow> parse_hv v = Some v"
  "header_values parse_hv to_str \<Longrightarrow> list_all printable v \<Longrightarrow> to_str v = Some v"
  by (simp_all add: header_values_def)

text \<open>An instance for the witnesses: values of printable ASCII only.\<close>

definition ascii_hv :: "string \<Rightarrow> string option" where
  "ascii_hv v = (if list_all printable v then Some v else None)"

lemma ascii_hv_values: "header_values ascii_hv ascii_hv"
  by (simp add: header_values_def ascii_hv_def)

lemma graphic_printable: "graphic c \<Longrightarrow> printable c"
  by (simp add: graphic_def printable_def)

lemma printable_dec: "list_all printable (dec n)"
  using dec_graphic by (auto simp: list_all_iff graphic_printable)

end
