(* ===== verification/Grpc_Compression.thy ===== *)
theory Grpc_Compression
  imports Grpc_Framing Http_Headers
begin

text \<open>
  \<^verbatim>\<open>typeway-grpc/src/compression.rs\<close>: negotiation of the algorithm from request
  headers and the framing of compressed messages. \<^verbatim>\<open>flate2\<close> is the record
  \<open>flate\<close> of its four codecs; the \<^verbatim>\<open>http\<close> crate's
  \<^verbatim>\<open>HeaderValue::to_str\<close> is the parameter \<open>to_str\<close>. Headers are a map from
  lower-case names to values.
\<close>

datatype Compression = Gzip | Deflate

definition compression_as_str :: "Compression \<Rightarrow> string" where
  "compression_as_str c = (case c of Gzip \<Rightarrow> ''gzip'' | Deflate \<Rightarrow> ''deflate'')"

definition compression_of_str :: "string \<Rightarrow> Compression option" where
  "compression_of_str s =
     (if s = ''gzip'' then Some Gzip else if s = ''deflate'' then Some Deflate else None)"

definition incoming_compression ::
  "(string \<Rightarrow> string option) \<Rightarrow> header_map \<Rightarrow> Compression option" where
  "incoming_compression to_str headers =
     Option.bind (Option.bind (headers ''grpc-encoding'') to_str) compression_of_str"

fun first_supported :: "string list \<Rightarrow> Compression option" where
  "first_supported [] = None"
| "first_supported (part # parts) =
     (case compression_of_str (trim part) of
        Some c \<Rightarrow> Some c
      | None \<Rightarrow> first_supported parts)"

definition negotiate_compression ::
  "(string \<Rightarrow> string option) \<Rightarrow> header_map \<Rightarrow> Compression option" where
  "negotiate_compression to_str headers =
     Option.bind (Option.bind (headers ''grpc-accept-encoding'') to_str)
       (\<lambda>accept. first_supported (split_on CHR '','' accept))"

record 'io flate =
  gz_encode :: "bytes \<Rightarrow> bytes + 'io"
  gz_decode :: "bytes \<Rightarrow> bytes + 'io"
  zlib_encode :: "bytes \<Rightarrow> bytes + 'io"
  zlib_decode :: "bytes \<Rightarrow> bytes + 'io"

datatype 'io CompressionError =
    Io 'io
  | FrameTooShort
  | FrameIncomplete
  | CompressedButNoAlgorithm

fun from_io :: "bytes + 'io \<Rightarrow> (bytes, 'io CompressionError) result" where
  "from_io (Inl bs) = Ok bs"
| "from_io (Inr e) = Err (Io e)"

definition compress :: "'io flate \<Rightarrow> bytes \<Rightarrow> Compression \<Rightarrow> (bytes, 'io CompressionError) result"
  where
  "compress fl data algo =
     (case algo of
        Gzip \<Rightarrow> from_io (gz_encode fl data)
      | Deflate \<Rightarrow> from_io (zlib_encode fl data))"

definition decompress :: "'io flate \<Rightarrow> bytes \<Rightarrow> Compression \<Rightarrow> (bytes, 'io CompressionError) result"
  where
  "decompress fl data algo =
     (case algo of
        Gzip \<Rightarrow> from_io (gz_decode fl data)
      | Deflate \<Rightarrow> from_io (zlib_decode fl data))"

definition encode_compressed_frame ::
  "'io flate \<Rightarrow> bytes \<Rightarrow> Compression \<Rightarrow> (bytes, 'io CompressionError) result" where
  "encode_compressed_frame fl message algo =
     and_then (compress fl message algo)
       (\<lambda>compressed.
          let len = word_of_nat (length compressed) :: u32
          in Ok (1 # to_be_bytes len @ compressed))"

definition decode_frame_with_decompression ::
  "'io flate \<Rightarrow> bytes \<Rightarrow> Compression option \<Rightarrow> (bytes, 'io CompressionError) result" where
  "decode_frame_with_decompression fl data compression =
     (if length data < 5 then Err FrameTooShort
      else let compressed_flag = data ! 0;
               len = unat (from_be_bytes (data ! 1) (data ! 2) (data ! 3) (data ! 4))
           in if length data < 5 + len then Err FrameIncomplete
              else let payload = take len (drop 5 data)
                   in if compressed_flag = 1
                      then (case compression of
                              Some algo \<Rightarrow> decompress fl payload algo
                            | None \<Rightarrow> Err CompressedButNoAlgorithm)
                      else Ok payload)"

text \<open>Documented behaviour of \<^verbatim>\<open>flate2\<close>: decoding what was encoded gives it back.\<close>

definition flate_inverse :: "'io flate \<Rightarrow> bool" where
  "flate_inverse fl \<longleftrightarrow>
     (\<forall>data z. gz_encode fl data = Inl z \<longrightarrow> gz_decode fl z = Inl data) \<and>
     (\<forall>data z. zlib_encode fl data = Inl z \<longrightarrow> zlib_decode fl z = Inl data)"

lemma decompress_compress:
  "flate_inverse fl \<Longrightarrow> compress fl data algo = Ok z \<Longrightarrow> decompress fl z algo = Ok data"
  by (cases algo; cases "gz_encode fl data"; cases "zlib_encode fl data")
    (auto simp: compress_def decompress_def flate_inverse_def)

lemma decode_with_frame:
  assumes "frame_fits z"
  shows "decode_frame_with_decompression fl (put_frame (flag, z) @ rest) compression =
    (if flag = 1
     then (case compression of Some algo \<Rightarrow> decompress fl z algo | None \<Rightarrow> Err CompressedButNoAlgorithm)
     else Ok z)"
proof -
  have "unat (word_of_nat (length z) :: u32) = length z"
    using assms by (simp add: frame_fits_def frame_len)
  then show ?thesis
    unfolding decode_frame_with_decompression_def put_frame_header
    by (simp add: from_to_be_bytes numeral_2_eq_2 numeral_3_eq_3)
qed

lemma first_supported_cases:
  "case first_supported parts of
     Some c \<Rightarrow> \<exists>pre part post. parts = pre @ part # post \<and>
       trim part = compression_as_str c \<and> list_all (\<lambda>p. compression_of_str (trim p) = None) pre
   | None \<Rightarrow> list_all (\<lambda>p. compression_of_str (trim p) = None) parts"
proof (induction parts)
  case (Cons part parts)
  show ?case
  proof (cases "compression_of_str (trim part)")
    case None
    show ?thesis
    proof (cases "first_supported parts")
      case (Some c)
      with Cons.IH obtain pre p post where *: "parts = pre @ p # post"
        "trim p = compression_as_str c" "list_all (\<lambda>p. compression_of_str (trim p) = None) pre"
        by auto
      have "part # parts = (part # pre) @ p # post" using *(1) by simp
      moreover have "list_all (\<lambda>p. compression_of_str (trim p) = None) (part # pre)"
        using *(3) None by simp
      moreover have "first_supported (part # parts) = Some c" using None Some by simp
      ultimately show ?thesis using *(2) by (simp only: option.case) blast
    qed (use Cons.IH None in simp)
  next
    case (Some c)
    then have "trim part = compression_as_str c"
      by (auto simp: compression_of_str_def compression_as_str_def split: if_splits)
    then have "part # parts = [] @ part # parts \<and> trim part = compression_as_str c \<and>
        list_all (\<lambda>p. compression_of_str (trim p) = None) []" by simp
    with Some show ?thesis by (simp only: first_supported.simps option.case) blast
  qed
qed simp

text \<open>An instance of the record for the witnesses: both codecs put a magic byte in front.\<close>

definition magic_flate :: "string flate" where
  "magic_flate =
     \<lparr>gz_encode = \<lambda>d. Inl (31 # d),
      gz_decode = \<lambda>d. (case d of b # r \<Rightarrow> if b = 31 then Inl r else Inr ''gzip'' | [] \<Rightarrow> Inr ''eof''),
      zlib_encode = \<lambda>d. Inl (120 # d),
      zlib_decode = \<lambda>d. (case d of b # r \<Rightarrow> if b = 120 then Inl r else Inr ''zlib'' | [] \<Rightarrow> Inr ''eof'')\<rparr>"

subsection \<open>Properties\<close>

text \<open>A compressed message survives framing: when the compressed payload fits the 32-bit
  length, decoding the frame with the algorithm that wrote it returns the message, decoding it
  without an algorithm is the error that says so, and the plain reader of \<^verbatim>\<open>framing.rs\<close>
  refuses it.\<close>

theorem compressed_frame_roundtrip:
  assumes "flate_inverse fl" "compress fl message algo = Ok z" "length z < 2 ^ 32"
  shows "\<exists>frame. encode_compressed_frame fl message algo = Ok frame \<and>
    decode_frame_with_decompression fl (frame @ rest) (Some algo) = Ok message \<and>
    decode_frame_with_decompression fl (frame @ rest) None = Err CompressedButNoAlgorithm \<and>
    decode_grpc_frame (frame @ rest) = Err CompressedNotSupported"
proof (intro exI conjI)
  show "encode_compressed_frame fl message algo = Ok (put_frame (1, z))"
    by (simp add: encode_compressed_frame_def assms(2) put_frame_def)
  have fits: "frame_fits z" using assms(3) by (simp add: frame_fits_def)
  show "decode_frame_with_decompression fl (put_frame (1, z) @ rest) (Some algo) = Ok message"
    using decompress_compress [OF assms(1,2)] by (simp add: decode_with_frame [OF fits])
  show "decode_frame_with_decompression fl (put_frame (1, z) @ rest) None
      = Err CompressedButNoAlgorithm"
    by (simp add: decode_with_frame [OF fits])
  show "decode_grpc_frame (put_frame (1, z) @ rest) = Err CompressedNotSupported"
    unfolding decode_grpc_frame_def put_frame_header by simp
qed

theorem compressed_frame_roundtrip_witness:
  "\<exists>frame. encode_compressed_frame magic_flate [1, 2] Gzip = Ok frame \<and>
    decode_frame_with_decompression magic_flate (frame @ []) (Some Gzip) = Ok [1, 2] \<and>
    decode_frame_with_decompression magic_flate (frame @ []) None = Err CompressedButNoAlgorithm \<and>
    decode_grpc_frame (frame @ []) = Err CompressedNotSupported"
  by (rule compressed_frame_roundtrip [where z = "[31, 1, 2]"])
    (simp_all add: flate_inverse_def magic_flate_def compress_def)

text \<open>Negotiation takes the first algorithm the server supports in the client's order of
  preference: what is chosen is one of the trimmed entries of the header, every entry before it
  names no supported algorithm, and nothing is chosen exactly when no entry does.\<close>

theorem negotiate_first_supported:
  assumes "headers ''grpc-accept-encoding'' = Some v" "to_str v = Some accept"
  shows "case negotiate_compression to_str headers of
      Some c \<Rightarrow> \<exists>pre part post. split_on CHR '','' accept = pre @ part # post \<and>
        trim part = compression_as_str c \<and> list_all (\<lambda>p. compression_of_str (trim p) = None) pre
    | None \<Rightarrow> list_all (\<lambda>p. compression_of_str (trim p) = None) (split_on CHR '','' accept)"
  using first_supported_cases [of "split_on CHR '','' accept"]
  by (simp add: negotiate_compression_def assms)

theorem negotiate_first_supported_witness:
  "case negotiate_compression Some [''grpc-accept-encoding'' \<mapsto> ''br, deflate,gzip''] of
      Some c \<Rightarrow> \<exists>pre part post. split_on CHR '','' ''br, deflate,gzip'' = pre @ part # post \<and>
        trim part = compression_as_str c \<and> list_all (\<lambda>p. compression_of_str (trim p) = None) pre
    | None \<Rightarrow> list_all (\<lambda>p. compression_of_str (trim p) = None)
        (split_on CHR '','' ''br, deflate,gzip'')"
  by (rule negotiate_first_supported [where v = "''br, deflate,gzip''"]) simp_all

end
