(* ===== verification/Grpc_Status.thy ===== *)
theory Grpc_Status
  imports Http_Headers
begin

text \<open>
  \<^verbatim>\<open>typeway-grpc/src/status.rs\<close>: status codes and their numbers, names and HTTP
  equivalents, the percent encoding of \<^verbatim>\<open>grpc-message\<close>, the headers of a status
  and \<^verbatim>\<open>grpc-timeout\<close>. An \<^verbatim>\<open>i32\<close> is an integer here (nothing is
  computed with it); a \<^verbatim>\<open>Duration\<close> is its number of nanoseconds. The variant
  \<^verbatim>\<open>GrpcCode::Ok\<close> is \<open>OkCode\<close>.
\<close>

subsection \<open>Codes\<close>

datatype GrpcCode =
    OkCode | Cancelled | Unknown | InvalidArgument | DeadlineExceeded | NotFound | AlreadyExists
  | PermissionDenied | ResourceExhausted | FailedPrecondition | Aborted | OutOfRange
  | Unimplemented | Internal | Unavailable | DataLoss | Unauthenticated

fun as_i32 :: "GrpcCode \<Rightarrow> int" where
  "as_i32 OkCode = 0"
| "as_i32 Cancelled = 1"
| "as_i32 Unknown = 2"
| "as_i32 InvalidArgument = 3"
| "as_i32 DeadlineExceeded = 4"
| "as_i32 NotFound = 5"
| "as_i32 AlreadyExists = 6"
| "as_i32 PermissionDenied = 7"
| "as_i32 ResourceExhausted = 8"
| "as_i32 FailedPrecondition = 9"
| "as_i32 Aborted = 10"
| "as_i32 OutOfRange = 11"
| "as_i32 Unimplemented = 12"
| "as_i32 Internal = 13"
| "as_i32 Unavailable = 14"
| "as_i32 DataLoss = 15"
| "as_i32 Unauthenticated = 16"

definition from_i32 :: "int \<Rightarrow> GrpcCode" where
  "from_i32 code =
     (case map_of
        [(0, OkCode), (1, Cancelled), (2, Unknown), (3, InvalidArgument), (4, DeadlineExceeded),
         (5, NotFound), (6, AlreadyExists), (7, PermissionDenied), (8, ResourceExhausted),
         (9, FailedPrecondition), (10, Aborted), (11, OutOfRange), (12, Unimplemented),
         (13, Internal), (14, Unavailable), (15, DataLoss), (16, Unauthenticated)] code of
        Some c \<Rightarrow> c
      | None \<Rightarrow> Unknown)"

fun code_name :: "GrpcCode \<Rightarrow> string" where
  "code_name OkCode = ''OK''"
| "code_name Cancelled = ''CANCELLED''"
| "code_name Unknown = ''UNKNOWN''"
| "code_name InvalidArgument = ''INVALID_ARGUMENT''"
| "code_name DeadlineExceeded = ''DEADLINE_EXCEEDED''"
| "code_name NotFound = ''NOT_FOUND''"
| "code_name AlreadyExists = ''ALREADY_EXISTS''"
| "code_name PermissionDenied = ''PERMISSION_DENIED''"
| "code_name ResourceExhausted = ''RESOURCE_EXHAUSTED''"
| "code_name FailedPrecondition = ''FAILED_PRECONDITION''"
| "code_name Aborted = ''ABORTED''"
| "code_name OutOfRange = ''OUT_OF_RANGE''"
| "code_name Unimplemented = ''UNIMPLEMENTED''"
| "code_name Internal = ''INTERNAL''"
| "code_name Unavailable = ''UNAVAILABLE''"
| "code_name DataLoss = ''DATA_LOSS''"
| "code_name Unauthenticated = ''UNAUTHENTICATED''"

definition http_to_grpc_code :: "nat \<Rightarrow> GrpcCode" where
  "http_to_grpc_code s =
     (if 200 \<le> s \<and> s \<le> 299 then OkCode
      else if s = 400 then InvalidArgument else if s = 401 then Unauthenticated
      else if s = 403 then PermissionDenied else if s = 404 then NotFound
      else if s = 409 then AlreadyExists else if s = 429 then ResourceExhausted
      else if s = 499 then Cancelled else if s = 500 then Internal
      else if s = 501 then Unimplemented else if s = 503 then Unavailable
      else if s = 504 then DeadlineExceeded else Unknown)"

subsection \<open>Percent encoding of the message\<close>

definition encode_message_byte :: "u8 \<Rightarrow> string" where
  "encode_message_byte b =
     (if 0x20 \<le> b \<and> b \<le> 0x7E \<and> b \<noteq> byte_of CHR ''%'' then [char_of_byte b]
      else [CHR ''%'', hex_upper (unat b div 16), hex_upper (unat b mod 16)])"

definition encode_grpc_message :: "string \<Rightarrow> string" where
  "encode_grpc_message message = concat (map encode_message_byte (as_bytes message))"

text \<open>The loop of \<^verbatim>\<open>decode_grpc_message\<close>, on the bytes from index \<open>i\<close> on.\<close>

fun decode_message_bytes :: "bytes \<Rightarrow> bytes" where
  "decode_message_bytes [] = []"
| "decode_message_bytes (b # r) =
     (case r of
        h # l # r' \<Rightarrow>
          (if b = byte_of CHR ''%'' then
             (case (to_digit16 (char_of_byte h), to_digit16 (char_of_byte l)) of
                (Some hi, Some lo) \<Rightarrow> word_of_nat (hi * 16 + lo) # decode_message_bytes r'
              | _ \<Rightarrow> b # decode_message_bytes r)
           else b # decode_message_bytes r)
      | _ \<Rightarrow> b # decode_message_bytes r)"

definition decode_grpc_message :: "string \<Rightarrow> string" where
  "decode_grpc_message message =
     (let out = decode_message_bytes (as_bytes message)
      in if utf8_valid out then of_bytes out else message)"

subsection \<open>The status and its headers\<close>

record GrpcStatus =
  st_code :: GrpcCode
  st_message :: string

definition status_ok :: GrpcStatus where
  "status_ok = \<lparr>st_code = OkCode, st_message = []\<rparr>"

definition status_not_found :: "string \<Rightarrow> GrpcStatus" where
  "status_not_found msg = \<lparr>st_code = NotFound, st_message = msg\<rparr>"

definition status_invalid_argument :: "string \<Rightarrow> GrpcStatus" where
  "status_invalid_argument msg = \<lparr>st_code = InvalidArgument, st_message = msg\<rparr>"

definition status_unauthenticated :: "string \<Rightarrow> GrpcStatus" where
  "status_unauthenticated msg = \<lparr>st_code = Unauthenticated, st_message = msg\<rparr>"

definition status_permission_denied :: "string \<Rightarrow> GrpcStatus" where
  "status_permission_denied msg = \<lparr>st_code = PermissionDenied, st_message = msg\<rparr>"

definition status_internal :: "string \<Rightarrow> GrpcStatus" where
  "status_internal msg = \<lparr>st_code = Internal, st_message = msg\<rparr>"

definition status_unimplemented :: "string \<Rightarrow> GrpcStatus" where
  "status_unimplemented msg = \<lparr>st_code = Unimplemented, st_message = msg\<rparr>"

definition status_unavailable :: "string \<Rightarrow> GrpcStatus" where
  "status_unavailable msg = \<lparr>st_code = Unavailable, st_message = msg\<rparr>"

definition status_already_exists :: "string \<Rightarrow> GrpcStatus" where
  "status_already_exists msg = \<lparr>st_code = AlreadyExists, st_message = msg\<rparr>"

definition status_resource_exhausted :: "string \<Rightarrow> GrpcStatus" where
  "status_resource_exhausted msg = \<lparr>st_code = ResourceExhausted, st_message = msg\<rparr>"

text \<open>Decimal notation of a signed number, and \<^verbatim>\<open>parse::<i32>\<close>.\<close>

definition dec_int :: "int \<Rightarrow> string" where
  "dec_int i = (if i < 0 then CHR ''-'' # dec (nat (- i)) else dec (nat i))"

definition parse_i32 :: "string \<Rightarrow> int option" where
  "parse_i32 s =
     (if s \<noteq> [] \<and> hd s = CHR ''-'' then
        (if tl s = [] then None
         else case digits_val 0 (tl s) of
                None \<Rightarrow> None
              | Some n \<Rightarrow> if n \<le> 2 ^ 31 then Some (- int n) else None)
      else map_option int (parse_uint 31 s))"

definition status_to_headers :: "GrpcStatus \<Rightarrow> (string \<times> string) list" where
  "status_to_headers st =
     (''grpc-status'', dec_int (as_i32 (st_code st))) #
     (if st_message st = [] then []
      else [(''grpc-message'', encode_grpc_message (st_message st))])"

text \<open>
  \<^verbatim>\<open>impl IntoGrpcStatus for http::StatusCode\<close>; the table of reason phrases belongs
  to the \<^verbatim>\<open>http\<close> crate.
\<close>

definition http_into_grpc_status :: "(nat \<Rightarrow> string option) \<Rightarrow> nat \<Rightarrow> GrpcStatus" where
  "http_into_grpc_status canonical_reason s =
     \<lparr>st_code = http_to_grpc_code s,
      st_message = (case canonical_reason s of Some r \<Rightarrow> r | None \<Rightarrow> [])\<rparr>"

subsection \<open>Timeouts\<close>

text \<open>
  \<^verbatim>\<open>parse_grpc_timeout\<close>, in nanoseconds. \<^verbatim>\<open>split_at\<close> panics when the
  last byte is inside a character.
\<close>

definition checked_mul_u64 :: "nat \<Rightarrow> nat \<Rightarrow> nat option" where
  "checked_mul_u64 a b = (if a * b < 2 ^ 64 then Some (a * b) else None)"

definition parse_grpc_timeout :: "string \<Rightarrow> (nat option, unit) result" where
  "parse_grpc_timeout value =
     (let value = trim value
      in if value = [] then Ok None
         else if length value < 2 then Ok None
         else if utf8_tail (byte_of (last value)) then Panic
         else case parse_uint 64 (butlast value) of
                None \<Rightarrow> Ok None
              | Some num \<Rightarrow>
                  (let unit_char = last value
                   in Ok (if unit_char = CHR ''H'' then
                            map_option (\<lambda>s. s * 10 ^ 9) (checked_mul_u64 num 3600)
                          else if unit_char = CHR ''M'' then
                            map_option (\<lambda>s. s * 10 ^ 9) (checked_mul_u64 num 60)
                          else if unit_char = CHR ''S'' then Some (num * 10 ^ 9)
                          else if unit_char = CHR ''m'' then Some (num * 10 ^ 6)
                          else if unit_char = CHR ''u'' then Some (num * 10 ^ 3)
                          else if unit_char = CHR ''n'' then Some num
                          else None)))"

subsection \<open>Lemmas\<close>

lemma from_i32_as_i32 [simp]: "from_i32 (as_i32 c) = c"
  by (cases c) (simp_all add: from_i32_def)

lemma as_i32_range: "0 \<le> as_i32 c" "as_i32 c \<le> 16"
  by (cases c; simp)+

lemma as_i32_from_i32: "0 \<le> n \<Longrightarrow> n \<le> 16 \<Longrightarrow> as_i32 (from_i32 n) = n"
proof -
  have "list_all (\<lambda>m. as_i32 (from_i32 m) = m) [0..16]" by code_simp
  then show "0 \<le> n \<Longrightarrow> n \<le> 16 \<Longrightarrow> ?thesis" by (simp add: list_all_iff)
qed

lemma from_i32_other: "n < 0 \<or> 16 < n \<Longrightarrow> from_i32 n = Unknown"
  by (auto simp: from_i32_def)

lemma parse_dec_int:
  assumes "0 \<le> i" "i < 2 ^ 31"
  shows "parse_i32 (dec_int i) = Some i"
proof -
  have "hd (dec (nat i)) \<in> set (dec (nat i))" by simp
  with dec_graphic [of "hd (dec (nat i))" "nat i"] have "hd (dec (nat i)) \<noteq> CHR ''-''"
    by (auto simp: digit_val_def)
  moreover have "nat i < 2 ^ 31" using assms(2) by simp
  ultimately show ?thesis
    using assms(1) by (simp add: parse_i32_def dec_int_def parse_uint_dec)
qed

lemma decode_message_plain:
  assumes "b \<noteq> byte_of CHR ''%''"
  shows "decode_message_bytes (b # r) = b # decode_message_bytes r"
  using assms by (auto split: list.splits)

lemma decode_message_escape:
  "decode_message_bytes (as_bytes [CHR ''%'', hex_upper (unat b div 16), hex_upper (unat b mod 16)] @ r)
    = b # decode_message_bytes r"
proof -
  have b: "unat b < 256" using unat_word_lt_exp [of b] by simp
  then have "to_digit16 (hex_upper (unat b div 16)) = Some (unat b div 16)"
    "to_digit16 (hex_upper (unat b mod 16)) = Some (unat b mod 16)"
    by (intro to_digit16_hex_upper; simp)+
  then show ?thesis by (simp del: of_nat_add of_nat_mult)
qed

lemma decode_message_encode:
  "decode_message_bytes (as_bytes (concat (map encode_message_byte bs))) = bs"
proof (induction bs)
  case (Cons b bs)
  show ?case
  proof (cases "0x20 \<le> b \<and> b \<le> 0x7E \<and> b \<noteq> byte_of CHR ''%''")
    case True
    then show ?thesis
      using Cons.IH
      by (simp add: encode_message_byte_def decode_message_plain del: decode_message_bytes.simps)
  next
    case False
    then have e: "encode_message_byte b
        = [CHR ''%'', hex_upper (unat b div 16), hex_upper (unat b mod 16)]"
      by (simp only: encode_message_byte_def if_False)
    show ?thesis
      using decode_message_escape [of b] Cons.IH
      by (simp only: list.map concat.simps as_bytes_simps(3) e)
  qed
qed simp

lemma grpc_message_decode_encode:
  "utf8_valid (as_bytes m) \<Longrightarrow> decode_grpc_message (encode_grpc_message m) = m"
  by (simp add: decode_grpc_message_def encode_grpc_message_def decode_message_encode)

lemma encode_message_printable: "list_all printable (encode_grpc_message m)"
proof -
  have "list_all printable (encode_message_byte b)" for b
  proof -
    have b: "unat b < 256" using unat_word_lt_exp [of b] by simp
    then have "graphic (hex_upper (unat b div 16))" "graphic (hex_upper (unat b mod 16))"
      by (intro hex_upper_graphic [THEN conjunct1]; simp)+
    then show ?thesis
      by (auto simp: encode_message_byte_def printable_def graphic_def word_le_nat_alt)
  qed
  then show ?thesis
    by (simp add: encode_grpc_message_def list_all_iff)
qed

lemma encode_grpc_message_Nil [simp]: "encode_grpc_message m = [] \<longleftrightarrow> m = []"
  by (cases m) (auto simp: encode_grpc_message_def encode_message_byte_def)

lemma decode_message_no_percent:
  "CHR ''%'' \<notin> set m \<Longrightarrow> decode_message_bytes (as_bytes m) = as_bytes m"
proof (induction m)
  case (Cons c m)
  then have "byte_of c \<noteq> byte_of CHR ''%''" by auto
  with Cons show ?case by (simp add: decode_message_plain del: decode_message_bytes.simps)
qed simp

lemma parse_grpc_timeout_panic:
  "parse_grpc_timeout v = Panic \<longleftrightarrow> 2 \<le> length (trim v) \<and> utf8_tail (byte_of (last (trim v)))"
  unfolding parse_grpc_timeout_def Let_def
  by (cases "trim v = []"; cases "length (trim v) < 2"; cases "utf8_tail (byte_of (last (trim v)))")
    (simp_all split: option.split)

subsection \<open>Properties\<close>

text \<open>Codes and their numbers: every code is recovered from its number, the numbers are
  exactly \<open>0\<close> to \<open>16\<close>, and any other number reads as \<open>Unknown\<close>.\<close>

theorem grpc_code_roundtrip:
  "from_i32 (as_i32 c) = c \<and> as_i32 c \<in> {0..16} \<and>
   (if n \<in> {0..16} then as_i32 (from_i32 n) = n else from_i32 n = Unknown)"
  using as_i32_range [of c] as_i32_from_i32 [of n] from_i32_other [of n]
  by (auto simp: not_le)

text \<open>The \<^verbatim>\<open>grpc-message\<close> encoding: for every string (valid UTF-8) decoding
  the encoding returns the string, what is sent contains only printable ASCII (so no line break
  and nothing a header value refuses), two strings never share an encoding, and a string without
  a percent sign that is sent raw is also read back unchanged.\<close>

theorem grpc_message_roundtrip:
  assumes "utf8_valid (as_bytes m)"
  shows "decode_grpc_message (encode_grpc_message m) = m \<and>
    list_all printable (encode_grpc_message m) \<and>
    (\<forall>m'. encode_grpc_message m' = encode_grpc_message m \<longrightarrow> m' = m) \<and>
    (CHR ''%'' \<notin> set m \<longrightarrow> decode_grpc_message m = m)"
proof (intro conjI allI impI)
  fix m' assume "encode_grpc_message m' = encode_grpc_message m"
  then have "as_bytes m' = as_bytes m"
    by (metis decode_message_encode encode_grpc_message_def)
  then show "m' = m" by (metis of_bytes_as_bytes)
next
  assume "CHR ''%'' \<notin> set m"
  then show "decode_grpc_message m = m"
    by (simp add: decode_grpc_message_def decode_message_no_percent Let_def)
qed (simp_all add: grpc_message_decode_encode assms encode_message_printable)

theorem grpc_message_roundtrip_witness:
  "decode_grpc_message (encode_grpc_message ''50% of [x]'') = ''50% of [x]'' \<and>
    list_all printable (encode_grpc_message ''50% of [x]'')"
  using grpc_message_roundtrip [of "''50% of [x]''"] by (simp add: byte_of_def)

text \<open>Timeouts: a value that is a 64-bit decimal number followed by one of the six units
  is read as that duration, hours and minutes only when the seconds fit 64 bits; the reader never
  fails with an error, and it panics exactly when the trimmed value has at least two bytes and
  ends inside a multi-byte character.\<close>

theorem grpc_timeout_values:
  assumes "n < 2 ^ 64"
  shows "parse_grpc_timeout (dec n @ ''H'')
      = Ok (if n * 3600 < 2 ^ 64 then Some (n * 3600 * 10 ^ 9) else None) \<and>
    parse_grpc_timeout (dec n @ ''M'')
      = Ok (if n * 60 < 2 ^ 64 then Some (n * 60 * 10 ^ 9) else None) \<and>
    parse_grpc_timeout (dec n @ ''S'') = Ok (Some (n * 10 ^ 9)) \<and>
    parse_grpc_timeout (dec n @ ''m'') = Ok (Some (n * 10 ^ 6)) \<and>
    parse_grpc_timeout (dec n @ ''u'') = Ok (Some (n * 10 ^ 3)) \<and>
    parse_grpc_timeout (dec n @ ''n'') = Ok (Some n) \<and>
    (parse_grpc_timeout v = Panic \<longleftrightarrow>
      2 \<le> length (trim v) \<and> utf8_tail (byte_of (last (trim v)))) \<and>
    parse_grpc_timeout v \<noteq> Err ()"
proof -
  have trim: "trim (dec n @ [c]) = dec n @ [c]" if "graphic c" for c
    using that dec_graphic [of "hd (dec n)" n] by (intro trim_graphic) auto
  have len: "\<not> length (dec n @ [c]) < 2" for c
    using dec_not_Nil [of n] by (cases "dec n") auto
  have main: "parse_grpc_timeout (dec n @ [c]) =
      Ok (if c = CHR ''H'' then map_option (\<lambda>s. s * 10 ^ 9) (checked_mul_u64 n 3600)
          else if c = CHR ''M'' then map_option (\<lambda>s. s * 10 ^ 9) (checked_mul_u64 n 60)
          else if c = CHR ''S'' then Some (n * 10 ^ 9)
          else if c = CHR ''m'' then Some (n * 10 ^ 6)
          else if c = CHR ''u'' then Some (n * 10 ^ 3)
          else if c = CHR ''n'' then Some n else None)"
    if "graphic c" for c
  proof -
    have "\<not> utf8_tail (byte_of c)"
      using that by (auto simp: graphic_def utf8_tail_def word_le_nat_alt)
    then show ?thesis
      using that len [of c] assms by (simp add: parse_grpc_timeout_def trim parse_uint_dec)
  qed
  have "parse_grpc_timeout (dec n @ ''H'')
      = Ok (if n * 3600 < 2 ^ 64 then Some (n * 3600 * 10 ^ 9) else None)"
    "parse_grpc_timeout (dec n @ ''M'')
      = Ok (if n * 60 < 2 ^ 64 then Some (n * 60 * 10 ^ 9) else None)"
    "parse_grpc_timeout (dec n @ ''S'') = Ok (Some (n * 10 ^ 9))"
    "parse_grpc_timeout (dec n @ ''m'') = Ok (Some (n * 10 ^ 6))"
    "parse_grpc_timeout (dec n @ ''u'') = Ok (Some (n * 10 ^ 3))"
    "parse_grpc_timeout (dec n @ ''n'') = Ok (Some n)"
    by (subst main; simp add: graphic_def checked_mul_u64_def)+
  moreover have "parse_grpc_timeout v = Panic \<longleftrightarrow>
      2 \<le> length (trim v) \<and> utf8_tail (byte_of (last (trim v)))"
    by (rule parse_grpc_timeout_panic)
  moreover have "parse_grpc_timeout v \<noteq> Err ()"
    by (simp add: parse_grpc_timeout_def Let_def split: option.split)
  ultimately show ?thesis by blast
qed

theorem grpc_timeout_values_witness:
  "parse_grpc_timeout (dec 30 @ ''H'')
      = Ok (if 30 * 3600 < (2 ^ 64::nat) then Some (30 * 3600 * 10 ^ 9) else None) \<and>
    parse_grpc_timeout (dec 30 @ ''M'')
      = Ok (if 30 * 60 < (2 ^ 64::nat) then Some (30 * 60 * 10 ^ 9) else None) \<and>
    parse_grpc_timeout (dec 30 @ ''S'') = Ok (Some (30 * 10 ^ 9)) \<and>
    parse_grpc_timeout (dec 30 @ ''m'') = Ok (Some (30 * 10 ^ 6)) \<and>
    parse_grpc_timeout (dec 30 @ ''u'') = Ok (Some (30 * 10 ^ 3)) \<and>
    parse_grpc_timeout (dec 30 @ ''n'') = Ok (Some 30) \<and>
    (parse_grpc_timeout [CHR ''5'', CHR 0xC3, CHR 0xA9] = Panic \<longleftrightarrow>
      2 \<le> length (trim [CHR ''5'', CHR 0xC3, CHR 0xA9]) \<and>
      utf8_tail (byte_of (last (trim [CHR ''5'', CHR 0xC3, CHR 0xA9])))) \<and>
    parse_grpc_timeout [CHR ''5'', CHR 0xC3, CHR 0xA9] \<noteq> Err ()"
  by (rule grpc_timeout_values) simp

text \<open>A concrete panic: the five-hundred of some unknown unit written with an accented
  letter, a valid string, aborts the reader that promises \<^verbatim>\<open>None\<close>.\<close>

theorem grpc_timeout_panics:
  "utf8_valid (as_bytes [CHR ''5'', CHR 0xC3, CHR 0xA9]) \<and>
   parse_grpc_timeout [CHR ''5'', CHR 0xC3, CHR 0xA9] = Panic"
  by (simp add: parse_grpc_timeout_def trim_def trim_start_def trim_end_def drop_ws.simps
      ascii_ws_def ws2_def ws3_def utf8_tail_def byte_of_def)

end
