(* ===== verification/Grpc_Body.thy ===== *)
theory Grpc_Body
  imports Grpc_Status
begin

text \<open>
  \<^verbatim>\<open>typeway-grpc/src/trailer_body.rs\<close>: the two response bodies that end in gRPC
  trailers, as state machines driven by \<^verbatim>\<open>poll_frame\<close>. The contract every such
  body keeps towards the HTTP layer is the locale \<open>trailer_body\<close>. The channel behind
  \<^verbatim>\<open>GrpcStreamBody\<close> (tokio) is the list of the results its next polls give;
  an exhausted list is a closed channel.
\<close>

datatype frame = Data bytes | Trailers header_map

datatype 'a poll = Ready 'a | Pending

subsection \<open>Trailers of a status\<close>

definition status_to_trailers :: "(string \<Rightarrow> string option) \<Rightarrow> GrpcStatus \<Rightarrow> header_map" where
  "status_to_trailers parse_hv status =
     (let trailers = [''grpc-status'' \<mapsto> dec_int (as_i32 (st_code status))]
      in if st_message status = [] then trailers
         else (case parse_hv (encode_grpc_message (st_message status)) of
                 Some val \<Rightarrow> trailers(''grpc-message'' \<mapsto> val)
               | None \<Rightarrow> trailers))"

subsection \<open>GrpcBody\<close>

record GrpcBody =
  gb_data :: "bytes option"
  gb_trailers :: "header_map option"

definition grpc_body_with_status ::
  "(string \<Rightarrow> string option) \<Rightarrow> bytes \<Rightarrow> GrpcStatus \<Rightarrow> GrpcBody" where
  "grpc_body_with_status parse_hv data status =
     \<lparr>gb_data = Some data, gb_trailers = Some (status_to_trailers parse_hv status)\<rparr>"

definition grpc_body_ok :: "(string \<Rightarrow> string option) \<Rightarrow> bytes \<Rightarrow> GrpcBody" where
  "grpc_body_ok parse_hv data =
     \<lparr>gb_data = Some data,
      gb_trailers = Some (status_to_trailers parse_hv \<lparr>st_code = OkCode, st_message = []\<rparr>)\<rparr>"

definition grpc_body_error :: "(string \<Rightarrow> string option) \<Rightarrow> GrpcStatus \<Rightarrow> GrpcBody" where
  "grpc_body_error parse_hv status =
     \<lparr>gb_data = None, gb_trailers = Some (status_to_trailers parse_hv status)\<rparr>"

definition grpc_body_poll :: "GrpcBody \<Rightarrow> GrpcBody \<times> frame option poll" where
  "grpc_body_poll b =
     (let b' = b\<lparr>gb_data := None\<rparr>;
          trailers_step = (case gb_trailers b' of
             Some t \<Rightarrow> (b'\<lparr>gb_trailers := None\<rparr>, Ready (Some (Trailers t)))
           | None \<Rightarrow> (b', Ready None))
      in case gb_data b of
           Some data \<Rightarrow> if data \<noteq> [] then (b', Ready (Some (Data data))) else trailers_step
         | None \<Rightarrow> trailers_step)"

definition grpc_body_is_end_stream :: "GrpcBody \<Rightarrow> bool" where
  "grpc_body_is_end_stream b \<longleftrightarrow> gb_data b = None \<and> gb_trailers b = None"

definition grpc_body_size_hint :: "GrpcBody \<Rightarrow> nat" where
  "grpc_body_size_hint b = (case gb_data b of Some data \<Rightarrow> length data | None \<Rightarrow> 0)"

subsection \<open>GrpcStreamBody\<close>

record GrpcStreamBody =
  sb_receiver :: "bytes poll list"
  sb_status :: GrpcStatus
  sb_done :: bool

definition poll_recv :: "bytes poll list \<Rightarrow> bytes poll list \<times> bytes option poll" where
  "poll_recv r = (case r of
     [] \<Rightarrow> ([], Ready None)
   | Ready d # r' \<Rightarrow> (r', Ready (Some d))
   | Pending # r' \<Rightarrow> (r', Pending))"

definition stream_body_new :: "bytes poll list \<Rightarrow> GrpcStreamBody" where
  "stream_body_new receiver =
     \<lparr>sb_receiver = receiver, sb_status = \<lparr>st_code = OkCode, st_message = []\<rparr>, sb_done = False\<rparr>"

definition stream_body_with_status :: "bytes poll list \<Rightarrow> GrpcStatus \<Rightarrow> GrpcStreamBody" where
  "stream_body_with_status receiver status =
     \<lparr>sb_receiver = receiver, sb_status = status, sb_done = False\<rparr>"

definition stream_body_poll ::
  "(string \<Rightarrow> string option) \<Rightarrow> GrpcStreamBody \<Rightarrow> GrpcStreamBody \<times> frame option poll" where
  "stream_body_poll parse_hv b =
     (if sb_done b then (b, Ready None)
      else case poll_recv (sb_receiver b) of
             (r, Ready (Some data)) \<Rightarrow> (b\<lparr>sb_receiver := r\<rparr>, Ready (Some (Data data)))
           | (r, Ready None) \<Rightarrow>
               (b\<lparr>sb_receiver := r, sb_done := True\<rparr>,
                Ready (Some (Trailers (status_to_trailers parse_hv (sb_status b)))))
           | (r, Pending) \<Rightarrow> (b\<lparr>sb_receiver := r\<rparr>, Pending))"

subsection \<open>The contract of a body\<close>

text \<open>The results of \<open>n\<close> polls.\<close>

fun poll_n :: "('s \<Rightarrow> 's \<times> 'r) \<Rightarrow> nat \<Rightarrow> 's \<Rightarrow> 'r list" where
  "poll_n poll 0 s = []"
| "poll_n poll (Suc n) s = snd (poll s) # poll_n poll n (fst (poll s))"

text \<open>
  \<open>poll\<close> advances the body; \<open>ended\<close> marks a body that has given its trailers; \<open>todo\<close> bounds the
  polls until then.
\<close>

locale trailer_body =
  fixes poll :: "'s \<Rightarrow> 's \<times> frame option poll"
    and inv :: "'s \<Rightarrow> bool"
    and ended :: "'s \<Rightarrow> bool"
    and todo :: "'s \<Rightarrow> nat"
  assumes poll_ended: "inv s \<Longrightarrow> ended s \<Longrightarrow> poll s = (s, Ready None)"
    and poll_next: "inv s \<Longrightarrow> \<not> ended s \<Longrightarrow> poll s = (s', r) \<Longrightarrow>
      (\<exists>t. r = Ready (Some (Trailers t)) \<and> inv s' \<and> ended s') \<or>
      ((r = Pending \<or> (\<exists>d. r = Ready (Some (Data d)))) \<and> inv s' \<and> \<not> ended s' \<and> todo s' < todo s)"
begin

lemma polls_ended: "inv s \<Longrightarrow> ended s \<Longrightarrow> poll_n poll n s = replicate n (Ready None)"
  by (induction n) (simp_all add: poll_ended)

text \<open>
  Enough polls give data (or nothing yet), then the trailers once, then the end for ever.
\<close>

lemma polls_shape:
  "inv s \<Longrightarrow> \<not> ended s \<Longrightarrow> todo s < n \<Longrightarrow>
   \<exists>ds t. poll_n poll n s = ds @ Ready (Some (Trailers t)) # replicate (n - Suc (length ds)) (Ready None) \<and>
     length ds \<le> todo s \<and> list_all (\<lambda>r. r = Pending \<or> (\<exists>d. r = Ready (Some (Data d)))) ds"
proof (induction n arbitrary: s)
  case (Suc n)
  obtain s' r where p: "poll s = (s', r)" by fastforce
  from poll_next [OF Suc.prems(1,2) p] show ?case
  proof (elim disjE exE conjE)
    fix t assume *: "r = Ready (Some (Trailers t))" "inv s'" "ended s'"
    then have "poll_n poll (Suc n) s
        = [] @ Ready (Some (Trailers t)) # replicate (Suc n - Suc (length [])) (Ready None)"
      by (simp add: p polls_ended)
    then show ?thesis by (intro exI [of _ "[]"] exI [of _ t]) simp
  next
    assume *: "inv s'" "\<not> ended s'" "todo s' < todo s"
    from Suc.IH [OF *(1,2)] *(3) Suc.prems(3) obtain ds t where
      "poll_n poll n s' = ds @ Ready (Some (Trailers t)) # replicate (n - Suc (length ds)) (Ready None)"
      "length ds \<le> todo s'" "list_all (\<lambda>r. r = Pending \<or> (\<exists>d. r = Ready (Some (Data d)))) ds"
      by auto
    moreover assume "r = Pending"
    ultimately show ?thesis
      using p *(3) by (intro exI [of _ "r # ds"] exI [of _ t]) simp
  next
    fix d
    assume *: "inv s'" "\<not> ended s'" "todo s' < todo s"
    from Suc.IH [OF *(1,2)] *(3) Suc.prems(3) obtain ds t where
      "poll_n poll n s' = ds @ Ready (Some (Trailers t)) # replicate (n - Suc (length ds)) (Ready None)"
      "length ds \<le> todo s'" "list_all (\<lambda>r. r = Pending \<or> (\<exists>d. r = Ready (Some (Data d)))) ds"
      by auto
    moreover assume "r = Ready (Some (Data d))"
    ultimately show ?thesis
      using p *(3) by (intro exI [of _ "r # ds"] exI [of _ t]) simp
  qed
qed simp

end

definition grpc_body_inv :: "GrpcBody \<Rightarrow> bool" where
  "grpc_body_inv b \<longleftrightarrow> (gb_trailers b = None \<longrightarrow> gb_data b = None)"

definition grpc_body_todo :: "GrpcBody \<Rightarrow> nat" where
  "grpc_body_todo b = (case gb_data b of Some d \<Rightarrow> (if d = [] then 0 else 1) | None \<Rightarrow> 0)"

interpretation grpc_body: trailer_body
  grpc_body_poll grpc_body_inv grpc_body_is_end_stream grpc_body_todo
proof unfold_locales
  fix b assume "grpc_body_inv b" "grpc_body_is_end_stream b"
  then show "grpc_body_poll b = (b, Ready None)"
    by (cases b) (simp add: grpc_body_poll_def grpc_body_is_end_stream_def)
next
  fix b b' r
  assume "grpc_body_inv b" "\<not> grpc_body_is_end_stream b" "grpc_body_poll b = (b', r)"
  then show "(\<exists>t. r = Ready (Some (Trailers t)) \<and> grpc_body_inv b' \<and> grpc_body_is_end_stream b') \<or>
      ((r = Pending \<or> (\<exists>d. r = Ready (Some (Data d)))) \<and> grpc_body_inv b' \<and>
       \<not> grpc_body_is_end_stream b' \<and> grpc_body_todo b' < grpc_body_todo b)"
    by (auto simp: grpc_body_poll_def grpc_body_is_end_stream_def grpc_body_inv_def
        grpc_body_todo_def Let_def split: option.splits if_splits)
qed

interpretation stream_body: trailer_body
  "stream_body_poll parse_hv" "\<lambda>_. True" sb_done "\<lambda>b. length (sb_receiver b)"
proof unfold_locales
  fix b :: GrpcStreamBody and b' r
  assume "\<not> sb_done b" "stream_body_poll parse_hv b = (b', r)"
  then show "(\<exists>t. r = Ready (Some (Trailers t)) \<and> True \<and> sb_done b') \<or>
      ((r = Pending \<or> (\<exists>d. r = Ready (Some (Data d)))) \<and> True \<and> \<not> sb_done b' \<and>
       length (sb_receiver b') < length (sb_receiver b))"
    by (auto simp: stream_body_poll_def poll_recv_def split: list.splits poll.splits)
qed (simp add: stream_body_poll_def)

lemma stream_body_poll_open:
  "stream_body_poll p \<lparr>sb_receiver = [], sb_status = st, sb_done = False\<rparr>
    = (\<lparr>sb_receiver = [], sb_status = st, sb_done = True\<rparr>,
       Ready (Some (Trailers (status_to_trailers p st))))"
  "stream_body_poll p \<lparr>sb_receiver = Ready d # r, sb_status = st, sb_done = False\<rparr>
    = (\<lparr>sb_receiver = r, sb_status = st, sb_done = False\<rparr>, Ready (Some (Data d)))"
  "stream_body_poll p \<lparr>sb_receiver = Pending # r, sb_status = st, sb_done = False\<rparr>
    = (\<lparr>sb_receiver = r, sb_status = st, sb_done = False\<rparr>, Pending)"
  by (simp_all add: stream_body_poll_def poll_recv_def)

subsection \<open>Properties\<close>

text \<open>The trailers carry the status faithfully: whatever the message (valid UTF-8), the
  value of \<^verbatim>\<open>grpc-message\<close> is accepted as a header value, and a client that parses
  \<^verbatim>\<open>grpc-status\<close> and decodes \<^verbatim>\<open>grpc-message\<close> (absent meaning
  empty) recovers the code and the message.\<close>

theorem status_trailers_roundtrip:
  assumes "header_values parse_hv to_str" "utf8_valid (as_bytes (st_message st))"
  shows "\<exists>code. status_to_trailers parse_hv st ''grpc-status'' = Some code \<and>
    map_option from_i32 (Option.bind (to_str code) parse_i32) = Some (st_code st) \<and>
    (case Option.bind (status_to_trailers parse_hv st ''grpc-message'') to_str of
       Some m \<Rightarrow> decode_grpc_message m | None \<Rightarrow> []) = st_message st"
proof -
  have r: "0 \<le> as_i32 (st_code st)" "as_i32 (st_code st) < 2 ^ 31"
    using as_i32_range [of "st_code st"] by simp_all
  then have "list_all printable (dec_int (as_i32 (st_code st)))"
    by (simp add: dec_int_def printable_dec)
  then have c: "to_str (dec_int (as_i32 (st_code st))) = Some (dec_int (as_i32 (st_code st)))"
    by (rule header_values_printable(2) [OF assms(1)])
  note m = header_values_printable [OF assms(1) encode_message_printable]
  show ?thesis
    by (simp add: status_to_trailers_def Let_def c m parse_dec_int [OF r]
        grpc_message_decode_encode [OF assms(2)])
qed

theorem status_trailers_roundtrip_witness:
  "\<exists>code. status_to_trailers ascii_hv \<lparr>st_code = NotFound, st_message = ''no % here''\<rparr> ''grpc-status''
      = Some code \<and>
    map_option from_i32 (Option.bind (ascii_hv code) parse_i32)
      = Some (st_code \<lparr>st_code = NotFound, st_message = ''no % here''\<rparr>) \<and>
    (case Option.bind (status_to_trailers ascii_hv
        \<lparr>st_code = NotFound, st_message = ''no % here''\<rparr> ''grpc-message'') ascii_hv of
       Some m \<Rightarrow> decode_grpc_message m | None \<Rightarrow> [])
      = st_message \<lparr>st_code = NotFound, st_message = ''no % here''\<rparr>"
  by (rule status_trailers_roundtrip) (simp_all add: ascii_hv_values byte_of_def)

text \<open>A unary body, polled to its end, gives its data frame once (unless it is empty), then
  the trailers once, then nothing for ever; an error body gives the trailers alone.\<close>

theorem grpc_body_polls:
  "poll_n grpc_body_poll (2 + k) (grpc_body_with_status parse_hv data st) =
     (if data = [] then [Ready (Some (Trailers (status_to_trailers parse_hv st))), Ready None]
      else [Ready (Some (Data data)), Ready (Some (Trailers (status_to_trailers parse_hv st)))])
     @ replicate k (Ready None) \<and>
   poll_n grpc_body_poll (1 + k) (grpc_body_error parse_hv st) =
     Ready (Some (Trailers (status_to_trailers parse_hv st))) # replicate k (Ready None)"
proof -
  have e: "poll_n grpc_body_poll n \<lparr>gb_data = None, gb_trailers = None\<rparr> = replicate n (Ready None)" for n
    by (rule grpc_body.polls_ended) (simp_all add: grpc_body_inv_def grpc_body_is_end_stream_def)
  show ?thesis
    using e [of k] e [of "Suc k"]
    by (simp add: numeral_2_eq_2 grpc_body_poll_def grpc_body_with_status_def
        grpc_body_error_def Let_def)
qed

text \<open>A streaming body forwards what the channel delivers, in order and without loss or
  duplication, passes on "not ready", sends the trailers of its status exactly once when the
  channel closes, and then ends for ever, without looking at the channel again.\<close>

theorem stream_body_polls:
  "poll_n (stream_body_poll parse_hv) (length events + Suc k) (stream_body_with_status events st) =
     map (\<lambda>e. case e of Ready d \<Rightarrow> Ready (Some (Data d)) | Pending \<Rightarrow> Pending) events
     @ Ready (Some (Trailers (status_to_trailers parse_hv st))) # replicate k (Ready None)"
proof (induction events)
  case Nil
  have "poll_n (stream_body_poll parse_hv) k \<lparr>sb_receiver = [], sb_status = st, sb_done = True\<rparr>
      = replicate k (Ready None)"
    by (rule stream_body.polls_ended) simp_all
  then show ?case
    by (simp add: stream_body_with_status_def stream_body_poll_open)
next
  case (Cons e events)
  then show ?case
    by (cases e) (simp_all add: stream_body_with_status_def stream_body_poll_open)
qed

end
