(* ===== verification/Grpc_Web.thy ===== *)
theory Grpc_Web
  imports Grpc_Framing Grpc_Body
begin

text \<open>
  \<^verbatim>\<open>typeway-grpc/src/web.rs\<close>, \<^verbatim>\<open>multiplex.rs\<close>,
  \<^verbatim>\<open>health.rs\<close> and \<^verbatim>\<open>typeway-server/src/grpc_direct.rs\<close>:
  recognising gRPC and gRPC-Web requests, the gRPC-Web translation around an inner service, the
  health switch, and the direct dispatch of one handler. A service is a function from requests to
  responses (its only effect the code relies on); a collected body is the list of its frames, or
  the failure to collect it.
\<close>

subsection \<open>Recognising requests\<close>

definition content_type ::
  "(string \<Rightarrow> string option) \<Rightarrow> 'b request \<Rightarrow> string option" where
  "content_type to_str req = Option.bind (rq_headers req ''content-type'') to_str"

definition is_grpc_web_request :: "(string \<Rightarrow> string option) \<Rightarrow> 'b request \<Rightarrow> bool" where
  "is_grpc_web_request to_str req =
     (case content_type to_str req of
        Some ct \<Rightarrow> starts_with ''application/grpc-web'' ct | None \<Rightarrow> False)"

definition is_grpc_request :: "(string \<Rightarrow> string option) \<Rightarrow> 'b request \<Rightarrow> bool" where
  "is_grpc_request to_str req =
     (case content_type to_str req of
        Some ct \<Rightarrow> starts_with ''application/grpc'' ct | None \<Rightarrow> False)"

text \<open>\<^verbatim>\<open>multiplex.rs\<close>: one of the two services gets the request.\<close>

definition multiplexer_call ::
  "(string \<Rightarrow> string option) \<Rightarrow> ('b request \<Rightarrow> 'r) \<Rightarrow> ('b request \<Rightarrow> 'r) \<Rightarrow> 'b request \<Rightarrow> 'r"
  where
  "multiplexer_call to_str rest grpc req =
     (if is_grpc_request to_str req then grpc req else rest req)"

subsection \<open>The gRPC-Web layer\<close>

type_synonym collected = "(frame list, unit) result"

fun data_bytes :: "frame list \<Rightarrow> bytes" where
  "data_bytes [] = []"
| "data_bytes (Data d # fs) = d @ data_bytes fs"
| "data_bytes (Trailers t # fs) = data_bytes fs"

datatype web_body = Inner collected | Full bytes

definition grpc_web_call ::
  "(string \<Rightarrow> string option) \<Rightarrow> ('b request \<Rightarrow> collected response) \<Rightarrow> 'b request \<Rightarrow> web_body response"
  where
  "grpc_web_call to_str inner req =
     (if \<not> is_grpc_web_request to_str req then
        let res = inner req
        in \<lparr>rs_status = rs_status res, rs_headers = rs_headers res, rs_body = Inner (rs_body res)\<rparr>
      else
        let is_json = (case content_type to_str req of
              Some ct \<Rightarrow> str_contains ''grpc-web+json'' ct | None \<Rightarrow> False);
            req' = req\<lparr>rq_headers := (rq_headers req)(''content-type'' \<mapsto>
              (if is_json then ''application/grpc+json'' else ''application/grpc''))\<rparr>;
            res = inner req';
            grpc_status = Option.bind (rs_headers res ''grpc-status'') to_str;
            grpc_message = Option.bind (rs_headers res ''grpc-message'') to_str;
            headers = ((rs_headers res)(''grpc-status'' := None, ''grpc-message'' := None))
              (''content-type'' \<mapsto>
                (if is_json then ''application/grpc-web+json'' else ''application/grpc-web''));
            body_bytes = (case rs_body res of Ok frames \<Rightarrow> data_bytes frames | _ \<Rightarrow> []);
            trailers_frame = encode_trailers_frame
              (case grpc_status of Some s \<Rightarrow> s | None \<Rightarrow> ''0'') grpc_message
        in \<lparr>rs_status = rs_status res, rs_headers = headers,
            rs_body = Full (body_bytes @ trailers_frame)\<rparr>)"

subsection \<open>The health switch\<close>

record HealthService = hs_serving :: bool

datatype HealthStatus = Serving | NotServing

definition health_new :: HealthService where
  "health_new = \<lparr>hs_serving = True\<rparr>"

definition health_check :: "HealthService \<Rightarrow> HealthStatus" where
  "health_check h = (if hs_serving h then Serving else NotServing)"

definition set_not_serving :: "HealthService \<Rightarrow> HealthService" where
  "set_not_serving h = h\<lparr>hs_serving := False\<rparr>"

definition set_serving :: "HealthService \<Rightarrow> HealthService" where
  "set_serving h = h\<lparr>hs_serving := True\<rparr>"

definition health_handle_request :: "HealthService \<Rightarrow> string" where
  "health_handle_request h =
     (let status = (case health_check h of Serving \<Rightarrow> ''SERVING'' | NotServing \<Rightarrow> ''NOT_SERVING'')
      in ''{\"status\":\"'' @ status @ ''\"}'')"

definition is_health_path :: "string \<Rightarrow> bool" where
  "is_health_path path \<longleftrightarrow>
     path = ''/grpc.health.v1.Health/Check'' \<or> starts_with ''/grpc.health.v1'' path"

subsection \<open>Direct dispatch and error responses\<close>

text \<open>
  \<^verbatim>\<open>into_direct_handler\<close>: the derived decoder and encoder of the message types and
  the text of the decoding error are parameters.
\<close>

definition into_direct_handler ::
  "(bytes \<Rightarrow> 'req + 'e) \<Rightarrow> ('e \<Rightarrow> string) \<Rightarrow> ('resp \<Rightarrow> bytes) \<Rightarrow> ('req \<Rightarrow> 'resp) \<Rightarrow>
   bytes \<Rightarrow> (bytes, GrpcStatus) result" where
  "into_direct_handler decode show_e encode handler body =
     (case decode body of
        Inr e \<Rightarrow> Err \<lparr>st_code = InvalidArgument, st_message = ''decode error: '' @ show_e e\<rparr>
      | Inl req \<Rightarrow> Ok (encode (handler req)))"

definition dispatch_direct ::
  "(string \<Rightarrow> string option) \<Rightarrow> (bytes \<Rightarrow> (bytes, GrpcStatus) result) \<Rightarrow> bytes \<Rightarrow>
   (GrpcBody response) option" where
  "dispatch_direct parse_hv handler body_bytes =
     (let unframed = (if 5 \<le> length body_bytes then drop 5 body_bytes else body_bytes)
      in case handler unframed of
           Ok response_bytes \<Rightarrow>
             Some \<lparr>rs_status = 200,
               rs_headers = [''content-type'' \<mapsto> ''application/grpc+proto'', ''grpc-status'' \<mapsto> ''0''],
               rs_body = grpc_body_ok parse_hv
                 (0 # to_be_bytes (word_of_nat (length response_bytes)) @ response_bytes)\<rparr>
         | Err status \<Rightarrow>
             Some \<lparr>rs_status = 200,
               rs_headers = [''content-type'' \<mapsto> ''application/grpc+proto'',
                 ''grpc-status'' \<mapsto> dec_int (as_i32 (st_code status))],
               rs_body = grpc_body_error parse_hv status\<rparr>
         | Panic \<Rightarrow> None)"

text \<open>
  \<^verbatim>\<open>grpc_error_response\<close> of \<^verbatim>\<open>grpc_dispatch.rs\<close>: here the message
  goes into the header as it is.
\<close>

definition grpc_error_response ::
  "(string \<Rightarrow> string option) \<Rightarrow> GrpcStatus \<Rightarrow> GrpcBody response" where
  "grpc_error_response parse_hv status =
     (let headers = [''content-type'' \<mapsto> ''application/grpc'',
                     ''grpc-status'' \<mapsto> dec_int (as_i32 (st_code status))]
      in \<lparr>rs_status = 200,
          rs_headers =
            (if st_message status = [] then headers
             else (case parse_hv (st_message status) of
                     Some val \<Rightarrow> headers(''grpc-message'' \<mapsto> val)
                   | None \<Rightarrow> headers)),
          rs_body = grpc_body_error parse_hv status\<rparr>)"

text \<open>
  What the client of \<^verbatim>\<open>client.rs\<close> reads of a response: code and decoded message,
  both from the headers.
\<close>

definition client_status ::
  "(string \<Rightarrow> string option) \<Rightarrow> header_map \<Rightarrow> int \<times> string" where
  "client_status to_str headers =
     ((case Option.bind (Option.bind (headers ''grpc-status'') to_str) parse_i32 of
         Some n \<Rightarrow> n | None \<Rightarrow> 0),
      (case Option.bind (headers ''grpc-message'') to_str of
         Some m \<Rightarrow> decode_grpc_message m | None \<Rightarrow> []))"

text \<open>An exchange for the witnesses.\<close>

definition unary_request :: "unit request" where
  "unary_request = \<lparr>rq_method = ''POST'', rq_uri = ''/S/M'',
     rq_headers = [''content-type'' \<mapsto> ''application/grpc-web+proto''], rq_body = ()\<rparr>"

definition unary_inner :: "unit request \<Rightarrow> collected response" where
  "unary_inner = (\<lambda>_. \<lparr>rs_status = 200, rs_headers = [''grpc-status'' \<mapsto> ''5''],
     rs_body = Ok [Data (encode_grpc_frame [1, 2])]\<rparr>)"

subsection \<open>Lemmas\<close>

lemma starts_with_trans: "starts_with (p @ q) s \<Longrightarrow> starts_with p s"
  by (auto simp: starts_with_iff)

lemma web_is_grpc: "is_grpc_web_request to_str req \<Longrightarrow> is_grpc_request to_str req"
  using starts_with_trans [of "''application/grpc''" "''-web''"]
  by (auto simp: is_grpc_web_request_def is_grpc_request_def split: option.splits)

lemma printable_code: "list_all printable (dec_int (as_i32 c))"
  using as_i32_range [of c] by (simp add: dec_int_def printable_dec)

lemma parse_code: "parse_i32 (dec_int (as_i32 c)) = Some (as_i32 c)"
  using as_i32_range [of c] by (intro parse_dec_int) simp_all

lemma digit_char_0: "digit_char 0 = CHR ''0''"
  by (simp add: digit_char_def char_of_def bit_0)

lemma data_bytes_data: "data_bytes (map Data ds) = concat ds"
  by (induction ds) simp_all

subsection \<open>Properties\<close>

text \<open>A gRPC-Web exchange: the inner service is called once, with the content type of plain
  gRPC; the messages it returns (in however many body frames) and the status in its headers reach
  the browser as the data frames, in order, and the text of the trailers frame; the status headers
  are gone and the content type is the gRPC-Web one.\<close>

theorem grpc_web_exchange:
  assumes "is_grpc_web_request to_str req"
    and "inner (req\<lparr>rq_headers := (rq_headers req)(''content-type'' \<mapsto> inner_ct)\<rparr>) = res"
    and "inner_ct = (if str_contains ''grpc-web+json'' (the (content_type to_str req))
      then ''application/grpc+json'' else ''application/grpc'')"
    and "rs_body res = Ok frames" "data_bytes frames = concat (map encode_grpc_frame ms)"
    and "list_all frame_fits ms"
    and "Option.bind (rs_headers res ''grpc-status'') to_str = Some s"
    and "Option.bind (rs_headers res ''grpc-message'') to_str = msg"
    and "frame_fits (as_bytes (trailers_text s msg))"
  shows "\<exists>body. rs_body (grpc_web_call to_str inner req) = Full body \<and>
    decode_grpc_frames body = (ms, Some (as_bytes (trailers_text s msg))) \<and>
    rs_headers (grpc_web_call to_str inner req) ''grpc-status'' = None \<and>
    rs_headers (grpc_web_call to_str inner req) ''grpc-message'' = None \<and>
    starts_with ''application/grpc-web''
      (the (rs_headers (grpc_web_call to_str inner req) ''content-type''))"
proof -
  obtain ct where ct: "content_type to_str req = Some ct"
    using assms(1) by (auto simp: is_grpc_web_request_def split: option.splits)
  have body: "rs_body (grpc_web_call to_str inner req)
      = Full (concat (map encode_grpc_frame ms) @ encode_trailers_frame s msg)"
    using assms(1-3) ct
    by (simp add: grpc_web_call_def Let_def assms(4,5,7,8))
  have "decode_grpc_frames (concat (map encode_grpc_frame ms) @ encode_trailers_frame s msg @ [])
      = (ms, Some (as_bytes (trailers_text s msg)))"
    using assms(6,9) by (rule grpc_frames_with_trailers)
  with body show ?thesis
    using assms(1) by (simp add: grpc_web_call_def Let_def starts_with_def)
qed

theorem grpc_web_exchange_witness:
  "\<exists>body. rs_body (grpc_web_call ascii_hv unary_inner unary_request) = Full body \<and>
    decode_grpc_frames body = ([[1, 2]], Some (as_bytes (trailers_text ''5'' None))) \<and>
    rs_headers (grpc_web_call ascii_hv unary_inner unary_request) ''grpc-status'' = None \<and>
    rs_headers (grpc_web_call ascii_hv unary_inner unary_request) ''grpc-message'' = None \<and>
    starts_with ''application/grpc-web''
      (the (rs_headers (grpc_web_call ascii_hv unary_inner unary_request) ''content-type''))"
  by (rule grpc_web_exchange [where frames = "[Data (encode_grpc_frame [1, 2])]", OF _ refl refl])
    (simp_all add: unary_request_def unary_inner_def is_grpc_web_request_def content_type_def ascii_hv_def
      printable_def starts_with_def frame_fits_def trailers_text_def crlf_def)

text \<open>The layers agree on whose request it is: every gRPC-Web request is a gRPC request (so
  the multiplexer hands it to the gRPC side), the translation leaves any other request and its
  response alone, and the request the inner service gets is again a gRPC one that is not
  translated a second time.\<close>

theorem grpc_web_layering:
  assumes "header_values parse_hv to_str"
  shows "(is_grpc_web_request to_str req \<longrightarrow> multiplexer_call to_str rest grpc req = grpc req) \<and>
    (\<not> is_grpc_web_request to_str req \<longrightarrow>
      rs_body (grpc_web_call to_str inner req) = Inner (rs_body (inner req)) \<and>
      rs_headers (grpc_web_call to_str inner req) = rs_headers (inner req) \<and>
      rs_status (grpc_web_call to_str inner req) = rs_status (inner req)) \<and>
    (\<forall>ct \<in> {''application/grpc+json'', ''application/grpc''}.
      is_grpc_request to_str (req\<lparr>rq_headers := (rq_headers req)(''content-type'' \<mapsto> ct)\<rparr>) \<and>
      \<not> is_grpc_web_request to_str (req\<lparr>rq_headers := (rq_headers req)(''content-type'' \<mapsto> ct)\<rparr>))"
proof -
  have "to_str ''application/grpc+json'' = Some ''application/grpc+json''"
    "to_str ''application/grpc'' = Some ''application/grpc''"
    by (rule header_values_printable(2) [OF assms], simp add: printable_def)+
  then show ?thesis
    using web_is_grpc [of to_str req]
    by (simp add: multiplexer_call_def grpc_web_call_def Let_def is_grpc_request_def
        is_grpc_web_request_def content_type_def starts_with_def)
qed

theorem grpc_web_layering_witness:
  "multiplexer_call ascii_hv (\<lambda>_. ''rest'') (\<lambda>_. ''grpc'') unary_request = ''grpc''"
  by (rule grpc_web_layering [OF ascii_hv_values, THEN conjunct1, THEN mp])
    (simp add: is_grpc_web_request_def content_type_def unary_request_def ascii_hv_def
      printable_def starts_with_def)

text \<open>The layer looks for the status in the response headers only: a status that an inner
  service sends where HTTP/2 puts it, in the trailers of the body, is dropped and the browser is
  told \<open>0\<close> (success).\<close>

theorem grpc_web_loses_trailer_status:
  assumes "is_grpc_web_request to_str req"
    and "\<And>r. rs_headers (inner r) ''grpc-status'' = None"
    and "\<And>r. rs_headers (inner r) ''grpc-message'' = None"
    and "\<And>r. rs_body (inner r) = Ok [Trailers (status_to_trailers parse_hv st)]"
  shows "rs_body (grpc_web_call to_str inner req)
    = Full (encode_trailers_frame (dec_int (as_i32 OkCode)) None)"
  using assms by (simp add: grpc_web_call_def Let_def dec_int_def dec.simps digit_char_0)

theorem grpc_web_loses_trailer_status_witness:
  "rs_body (grpc_web_call ascii_hv
      (\<lambda>_. \<lparr>rs_status = 200, rs_headers = Map.empty,
        rs_body = Ok [Trailers (status_to_trailers ascii_hv (status_internal ''boom''))]\<rparr>)
      \<lparr>rq_method = ''POST'', rq_uri = ''/S/M'',
       rq_headers = [''content-type'' \<mapsto> ''application/grpc-web''], rq_body = ()\<rparr>)
    = Full (encode_trailers_frame (dec_int (as_i32 OkCode)) None)"
  by (rule grpc_web_loses_trailer_status)
    (simp_all add: is_grpc_web_request_def content_type_def ascii_hv_def printable_def
      starts_with_def)

text \<open>Direct dispatch of a handler, for a framed request and a response below 4 GiB: the
  handler gets exactly the message, the client reads the handler's response back from the body,
  the trailers say success; when the handler fails, the client reads its code.\<close>

theorem dispatch_direct_correct:
  assumes "header_values parse_hv to_str"
  shows "case handler m of
      Ok resp \<Rightarrow> (\<exists>res data. dispatch_direct parse_hv handler (encode_grpc_frame m) = Some res \<and>
        client_status to_str (rs_headers res) = (0, []) \<and> gb_data (rs_body res) = Some data \<and>
        gb_trailers (rs_body res) = Some (status_to_trailers parse_hv status_ok) \<and>
        (length resp < 2 ^ 32 \<longrightarrow> decode_grpc_frame data = Ok resp))
    | Err st \<Rightarrow> (\<exists>res. dispatch_direct parse_hv handler (encode_grpc_frame m) = Some res \<and>
        client_status to_str (rs_headers res) = (as_i32 (st_code st), []) \<and>
        gb_data (rs_body res) = None \<and>
        gb_trailers (rs_body res) = Some (status_to_trailers parse_hv st))
    | Panic \<Rightarrow> dispatch_direct parse_hv handler (encode_grpc_frame m) = None"
proof -
  have un: "(if 5 \<le> length (encode_grpc_frame m) then drop 5 (encode_grpc_frame m)
      else encode_grpc_frame m) = m"
    by (simp add: encode_grpc_frame_def Let_def to_be_bytes_def)
  note code = header_values_printable(2) [OF assms printable_code]
  have zero: "to_str ''0'' = Some ''0''" "parse_i32 ''0'' = Some 0"
    using header_values_printable(2) [OF assms, of "''0''"]
    by (simp_all add: printable_def parse_i32_def parse_uint_def digit_val_def)
  show ?thesis
  proof (cases "handler m")
    case (Ok resp)
    have "length resp < 2 ^ 32 \<Longrightarrow> decode_grpc_frame (encode_grpc_frame resp) = Ok resp"
      using decode_put_frame [of resp "[]"] by (simp add: encode_grpc_frame_put)
    then show ?thesis
      using Ok zero unfolding dispatch_direct_def un
      by (simp add: client_status_def grpc_body_ok_def status_ok_def encode_grpc_frame_def Let_def)
  next
    case (Err st)
    then show ?thesis
      unfolding dispatch_direct_def un
      by (simp add: client_status_def grpc_body_error_def code parse_code)
  next
    case Panic
    then show ?thesis unfolding dispatch_direct_def un by simp
  qed
qed

theorem dispatch_direct_correct_witness:
  "case (\<lambda>m. Err (status_not_found ''no'') :: (bytes, GrpcStatus) result) [1] of
      Ok resp \<Rightarrow> False
    | Err st \<Rightarrow> (\<exists>res. dispatch_direct ascii_hv (\<lambda>m. Err (status_not_found ''no''))
          (encode_grpc_frame [1]) = Some res \<and>
        client_status ascii_hv (rs_headers res) = (as_i32 (st_code st), []) \<and>
        gb_data (rs_body res) = None \<and>
        gb_trailers (rs_body res) = Some (status_to_trailers ascii_hv st))
    | Panic \<Rightarrow> False"
  using dispatch_direct_correct
    [OF ascii_hv_values, of "\<lambda>m. Err (status_not_found ''no'')" "[1]"] by simp

text \<open>An error response of the dispatcher tells the client two different messages: the
  trailers carry it percent-encoded and read back exactly, the header carries it raw and the
  client decodes it all the same, so that the two agree exactly on messages that decoding leaves
  alone.\<close>

theorem grpc_error_two_messages:
  assumes "header_values parse_hv to_str" "list_all printable m" "utf8_valid (as_bytes m)"
    "st_message st = m"
  shows "client_status to_str (rs_headers (grpc_error_response parse_hv st))
      = (as_i32 (st_code st), decode_grpc_message m) \<and>
    (\<exists>t. gb_trailers (rs_body (grpc_error_response parse_hv st)) = Some t \<and>
      client_status to_str t = (as_i32 (st_code st), m))"
proof -
  note code = header_values_printable(2) [OF assms(1) printable_code]
  note raw = header_values_printable [OF assms(1,2)]
  note enc = header_values_printable [OF assms(1) encode_message_printable]
  show ?thesis
    using assms(4) grpc_message_decode_encode [OF assms(3)]
    by (auto simp: grpc_error_response_def client_status_def grpc_body_error_def Let_def
        status_to_trailers_def code parse_code raw enc decode_grpc_message_def)
qed

theorem grpc_error_two_messages_witness:
  "client_status ascii_hv (rs_headers (grpc_error_response ascii_hv (status_internal ''50%25'')))
      = (as_i32 (st_code (status_internal ''50%25'')), decode_grpc_message ''50%25'') \<and>
    (\<exists>t. gb_trailers (rs_body (grpc_error_response ascii_hv (status_internal ''50%25''))) = Some t \<and>
      client_status ascii_hv t = (as_i32 (st_code (status_internal ''50%25'')), ''50%25''))"
  by (rule grpc_error_two_messages [OF ascii_hv_values])
    (simp_all add: printable_def byte_of_def status_internal_def)

end
