(* ===== verification/Base64.thy ===== *)
theory Base64
  imports Rust_Str
begin

text \<open>
  The inline \<^verbatim>\<open>base64_encode\<close> module of
  \<^verbatim>\<open>typeway-grpc/src/proto_codec.rs\<close>: the encoder works on chunks of three
  bytes through a 24-bit word, the decoder shifts six bits at a time through a 32-bit buffer.
\<close>

definition b64_chars :: string where
  "b64_chars = ''ABCDEFGHIJKLMNOPQRSTUVWXYZabcdefghijklmnopqrstuvwxyz0123456789+/''"

definition b64_char :: "u32 \<Rightarrow> char" where
  "b64_char w = b64_chars ! unat (w AND 0x3F)"

definition b64_triple :: "u8 \<Rightarrow> u8 \<Rightarrow> u8 \<Rightarrow> u32" where
  "b64_triple b0 b1 b2 = push_bit 16 (ucast b0) OR push_bit 8 (ucast b1) OR ucast b2"

fun base64_encode :: "bytes \<Rightarrow> string" where
  "base64_encode [] = []"
| "base64_encode [b0] =
     (let t = b64_triple b0 0 0
      in [b64_char (drop_bit 18 t), b64_char (drop_bit 12 t), CHR ''='', CHR ''=''])"
| "base64_encode [b0, b1] =
     (let t = b64_triple b0 b1 0
      in [b64_char (drop_bit 18 t), b64_char (drop_bit 12 t), b64_char (drop_bit 6 t), CHR ''=''])"
| "base64_encode (b0 # b1 # b2 # rest) =
     (let t = b64_triple b0 b1 b2
      in b64_char (drop_bit 18 t) # b64_char (drop_bit 12 t) # b64_char (drop_bit 6 t) #
         b64_char t # base64_encode rest)"

definition b64_val :: "char \<Rightarrow> nat option" where
  "b64_val c =
     (let n = of_char c :: nat
      in if 65 \<le> n \<and> n \<le> 90 then Some (n - 65)
         else if 97 \<le> n \<and> n \<le> 122 then Some (n - 97 + 26)
         else if 48 \<le> n \<and> n \<le> 57 then Some (n - 48 + 52)
         else if c = CHR ''+'' then Some 62
         else if c = CHR ''/'' then Some 63
         else None)"

fun base64_decode_loop :: "u32 \<Rightarrow> nat \<Rightarrow> string \<Rightarrow> bytes option" where
  "base64_decode_loop buf bits [] = Some []"
| "base64_decode_loop buf bits (c # s) =
     (case b64_val c of
        None \<Rightarrow> None
      | Some val \<Rightarrow>
          (let buf' = push_bit 6 buf OR word_of_nat val; bits' = bits + 6
           in if 8 \<le> bits'
              then map_option ((#) (ucast (drop_bit (bits' - 8) buf')))
                     (base64_decode_loop (buf' AND (push_bit (bits' - 8) 1 - 1)) (bits' - 8) s)
              else base64_decode_loop buf' bits' s))"

definition trim_end_eq :: "string \<Rightarrow> string" where
  "trim_end_eq s = rev (dropWhile (\<lambda>c. c = CHR ''='') (rev s))"

definition base64_decode :: "string \<Rightarrow> bytes option" where
  "base64_decode input = base64_decode_loop 0 0 (trim_end_eq input)"

subsection \<open>Lemmas\<close>

lemma b64_alphabet: "list_all (\<lambda>n. b64_val (b64_chars ! n) = Some n \<and>
    b64_chars ! n \<noteq> CHR ''='') [0..<64]"
  by (simp add: b64_chars_def b64_val_def upt_rec)

lemma unat_and_mask6: "unat ((w::u32) AND 0x3F) < 64"
proof -
  have "w AND 0x3F = take_bit 6 w" by (simp add: take_bit_eq_mask mask_eq_exp_minus_1)
  then show ?thesis unfolding \<open>w AND 0x3F = take_bit 6 w\<close> unsigned_take_bit_eq
    by (simp add: take_bit_eq_mod)
qed

lemma b64_val_char [simp]: "b64_val (b64_char w) = Some (unat (w AND 0x3F))" "b64_char w \<noteq> CHR ''=''"
  using b64_alphabet unat_and_mask6 [of w] by (auto simp: list_all_iff b64_char_def)

lemma b64_mask: "(w::u32) AND 0x3F = take_bit 6 w"
  by (simp add: take_bit_eq_mask mask_eq_exp_minus_1)

lemma bit_triple:
  "bit (b64_triple b0 b1 b2) n \<longleftrightarrow>
    (16 \<le> n \<and> bit b0 (n - 16)) \<or> (8 \<le> n \<and> bit b1 (n - 8)) \<or> bit b2 n"
  using bit_imp_le_length [of b0 "n - 16"] bit_imp_le_length [of b1 "n - 8"]
    bit_imp_le_length [of b2 n]
  by (auto simp: b64_triple_def bit_or_iff bit_push_bit_iff bit_ucast_iff)

lemma shift_back: "k \<le> n \<Longrightarrow> k + (n - k) = n" "2 \<le> n \<Longrightarrow> Suc (Suc (n - 2)) = n" for n :: nat
  by simp_all

lemma bit_u8_out: "8 \<le> n \<Longrightarrow> \<not> bit (b::u8) n"
  using bit_imp_le_length [of b n] by auto

text \<open>The three bytes a group of four characters stands for.\<close>

lemma b64_group:
  fixes b0 b1 b2 :: u8
  defines "t \<equiv> b64_triple b0 b1 b2"
  defines "v0 \<equiv> take_bit 6 (drop_bit 18 t)" and "v1 \<equiv> take_bit 6 (drop_bit 12 t)"
    and "v2 \<equiv> take_bit 6 (drop_bit 6 t)" and "v3 \<equiv> take_bit 6 t"
  defines "w1 \<equiv> push_bit 6 v0 OR v1"
  defines "w2 \<equiv> push_bit 6 (take_bit 4 w1) OR v2"
  defines "w3 \<equiv> push_bit 6 (take_bit 2 w2) OR v3"
  shows "ucast (drop_bit 4 w1) = b0" "ucast (drop_bit 2 w2) = b1" "ucast w3 = b2"
proof -
  show "ucast (drop_bit 4 w1) = b0"
    by (rule bit_word_eqI)
      (auto simp: w1_def v0_def v1_def t_def bit_triple bit_simps bit_u8_out shift_back not_less)
  show "ucast (drop_bit 2 w2) = b1"
    by (rule bit_word_eqI)
      (auto simp: w2_def w1_def v0_def v1_def v2_def t_def bit_triple bit_simps bit_u8_out shift_back not_less)
  show "ucast w3 = b2"
    by (rule bit_word_eqI)
      (auto simp: w3_def w2_def w1_def v0_def v1_def v2_def v3_def t_def bit_triple bit_simps bit_u8_out shift_back not_less)
qed

lemma and_low_masks:
  "(w::u32) AND (push_bit 4 1 - 1) = take_bit 4 w" "(w::u32) AND (push_bit 2 1 - 1) = take_bit 2 w"
  "(w::u32) AND (push_bit 0 1 - 1) = 0"
  by (simp_all add: take_bit_eq_mask mask_eq_exp_minus_1)

lemma word_of_unat6: "(word_of_nat (unat ((w::u32) AND 0x3F)) :: u32) = take_bit 6 w"
proof -
  have "(word_of_nat (unat x) :: u32) = x" for x :: u32 by simp
  then show ?thesis unfolding b64_mask .
qed

lemma b64_loop_char:
  "base64_decode_loop buf bits (b64_char w # s) =
     (let buf' = push_bit 6 buf OR take_bit 6 w; bits' = bits + 6
      in if 8 \<le> bits'
         then map_option ((#) (ucast (drop_bit (bits' - 8) buf')))
                (base64_decode_loop (buf' AND (push_bit (bits' - 8) 1 - 1)) (bits' - 8) s)
         else base64_decode_loop buf' bits' s)"
  by (simp only: base64_decode_loop.simps b64_val_char option.case Let_def word_of_unat6)

lemma b64_loop_group:
  fixes b0 b1 b2 :: u8
  defines "t \<equiv> b64_triple b0 b1 b2"
  defines "v0 \<equiv> take_bit 6 (drop_bit 18 t)" and "v1 \<equiv> take_bit 6 (drop_bit 12 t)"
    and "v2 \<equiv> take_bit 6 (drop_bit 6 t)"
  defines "w1 \<equiv> push_bit 6 v0 OR v1"
  defines "w2 \<equiv> push_bit 6 (take_bit 4 w1) OR v2"
  shows "base64_decode_loop 0 0 (b64_char (drop_bit 18 t) # b64_char (drop_bit 12 t) # s)
      = map_option ((#) b0) (base64_decode_loop (take_bit 4 w1) 4 s)"
    and "base64_decode_loop (take_bit 4 w1) 4 (b64_char (drop_bit 6 t) # s)
      = map_option ((#) b1) (base64_decode_loop (take_bit 2 w2) 2 s)"
    and "base64_decode_loop (take_bit 2 w2) 2 (b64_char t # s)
      = map_option ((#) b2) (base64_decode_loop 0 0 s)"
proof -
  note g = b64_group [of b0 b1 b2, folded t_def, folded v0_def v1_def v2_def, folded w1_def,
      folded w2_def]
  have zero: "push_bit 6 (0::u32) OR v0 = v0" by simp
  show "base64_decode_loop 0 0 (b64_char (drop_bit 18 t) # b64_char (drop_bit 12 t) # s)
      = map_option ((#) b0) (base64_decode_loop (take_bit 4 w1) 4 s)"
    unfolding b64_loop_char Let_def v0_def [symmetric] v1_def [symmetric] zero w1_def [symmetric]
    using g(1) and_low_masks(1) by simp
  show "base64_decode_loop (take_bit 4 w1) 4 (b64_char (drop_bit 6 t) # s)
      = map_option ((#) b1) (base64_decode_loop (take_bit 2 w2) 2 s)"
    unfolding b64_loop_char Let_def v2_def [symmetric] w2_def [symmetric]
    using g(2) and_low_masks(2) by simp
  show "base64_decode_loop (take_bit 2 w2) 2 (b64_char t # s)
      = map_option ((#) b2) (base64_decode_loop 0 0 s)"
    unfolding b64_loop_char Let_def using g(3) by simp
qed

text \<open>The leftover bits of an incomplete group are not looked at.\<close>

lemma b64_loop_end: "base64_decode_loop buf bits [] = Some []"
  by simp

lemma base64_loop_encode:
  "base64_decode_loop 0 0 (filter (\<lambda>c. c \<noteq> CHR ''='') (base64_encode bs)) = Some bs"
proof (induction bs rule: base64_encode.induct)
  case (2 b0)
  then show ?case by (simp add: Let_def b64_loop_group(1) del: base64_decode_loop.simps(2))
next
  case (3 b0 b1)
  then show ?case
  proof -
    let ?t = "b64_triple b0 b1 0"
    have f: "filter (\<lambda>c. c \<noteq> CHR ''='') (base64_encode [b0, b1])
        = [b64_char (drop_bit 18 ?t), b64_char (drop_bit 12 ?t), b64_char (drop_bit 6 ?t)]"
      by (simp add: Let_def)
    show ?thesis
      unfolding f b64_loop_group(1) [of b0 b1 0] b64_loop_group(2) [of b0 b1 0] by simp
  qed
next
  case (4 b0 b1 b2 rest)
  let ?t = "b64_triple b0 b1 b2"
  have f: "filter (\<lambda>c. c \<noteq> CHR ''='') (base64_encode (b0 # b1 # b2 # rest))
      = b64_char (drop_bit 18 ?t) # b64_char (drop_bit 12 ?t) # b64_char (drop_bit 6 ?t) #
        b64_char ?t # filter (\<lambda>c. c \<noteq> CHR ''='') (base64_encode rest)"
    by (simp add: Let_def)
  show ?case
    unfolding f b64_loop_group(1) [of b0 b1 b2] b64_loop_group(2) [of b0 b1 b2]
      b64_loop_group(3) [of b0 b1 b2] using 4 by simp
qed simp

lemma trim_end_eq_encode:
  "trim_end_eq (base64_encode bs) = filter (\<lambda>c. c \<noteq> CHR ''='') (base64_encode bs)"
proof -
  have pad: "\<exists>body k. base64_encode bs = body @ replicate k CHR ''='' \<and> CHR ''='' \<notin> set body"
  proof (induction bs rule: base64_encode.induct)
    case (2 b0)
    let ?t = "b64_triple b0 0 0"
    show ?case
      by (intro exI [of _ "[b64_char (drop_bit 18 ?t), b64_char (drop_bit 12 ?t)]"] exI [of _ 2])
        (use b64_val_char(2) b64_val_char(2) [symmetric] in \<open>auto simp: Let_def numeral_2_eq_2\<close>)
  next
    case (3 b0 b1)
    let ?t = "b64_triple b0 b1 0"
    show ?case
      by (intro exI [of _ "[b64_char (drop_bit 18 ?t), b64_char (drop_bit 12 ?t),
          b64_char (drop_bit 6 ?t)]"] exI [of _ 1])
        (use b64_val_char(2) b64_val_char(2) [symmetric] in \<open>auto simp: Let_def\<close>)
  next
    case (4 b0 b1 b2 rest)
    then obtain body k where *: "base64_encode rest = body @ replicate k CHR ''=''"
      "CHR ''='' \<notin> set body" by blast
    let ?t = "b64_triple b0 b1 b2"
    show ?case
      by (intro exI [of _ "b64_char (drop_bit 18 ?t) # b64_char (drop_bit 12 ?t) #
          b64_char (drop_bit 6 ?t) # b64_char ?t # body"] exI [of _ k])
        (use b64_val_char(2) b64_val_char(2) [symmetric] * in \<open>auto simp: Let_def\<close>)
  qed simp
  then obtain body k where *: "base64_encode bs = body @ replicate k CHR ''=''"
    "CHR ''='' \<notin> set body" by blast
  have "dropWhile (\<lambda>c. c = CHR ''='') (rev body) = rev body"
    using *(2) by (cases "rev body") auto
  moreover have "filter (\<lambda>c. c \<noteq> CHR ''='') body = body"
    using *(2) by (intro filter_True) auto
  ultimately show ?thesis
    unfolding trim_end_eq_def *(1) by (simp add: dropWhile_append)
qed

lemma base64_decode_encode: "base64_decode (base64_encode bs) = Some bs"
  by (simp add: base64_decode_def trim_end_eq_encode base64_loop_encode)

end
