(* ===== verification/Json_Value.thy ===== *)
theory Json_Value
  imports Rust_Str
begin

text \<open>
  \<^verbatim>\<open>serde_json::Value\<close> as the code uses it: a number is an unsigned, a negative or
  a floating-point one; an object is the list of its entries in key order (the crate's
  \<^verbatim>\<open>Map\<close> is a B-tree unless a feature is set that this workspace does not set).
  Floating-point values are their IEEE 754 bit patterns, with the conversions of the language
  (round to nearest even, saturating casts to integers) written out.
\<close>

subsection \<open>Floating point\<close>

type_synonym f64 = "64 word"
type_synonym f32 = "32 word"

definition round_even :: "nat \<Rightarrow> nat \<Rightarrow> nat" where
  "round_even n d =
     (if d = 0 then n
      else let q = n div 2 ^ d; r = n mod 2 ^ d; half = 2 ^ (d - 1)
           in if half < r \<or> (r = half \<and> odd q) then q + 1 else q)"

text \<open>The bits of the double nearest to a natural number; a carry of the rounding moves into the
  exponent by itself.\<close>

definition f64_mag :: "nat \<Rightarrow> nat" where
  "f64_mag n =
     (if n = 0 then 0
      else let k = ilog2 n;
               sig = (if k \<le> 52 then n * 2 ^ (52 - k) else round_even n (k - 52))
           in (k + 1022) * 2 ^ 52 + sig)"

definition u64_to_f64 :: "u64 \<Rightarrow> f64" where
  "u64_to_f64 n = word_of_nat (f64_mag (unat n))"

definition i64_to_f64 :: "i64 \<Rightarrow> f64" where
  "i64_to_f64 v =
     (if sint v < 0 then word_of_nat (2 ^ 63 + f64_mag (nat (- sint v)))
      else word_of_nat (f64_mag (nat (sint v))))"

definition f64_exp :: "f64 \<Rightarrow> nat" where
  "f64_exp b = unat b div 2 ^ 52 mod 2 ^ 11"

definition f64_man :: "f64 \<Rightarrow> nat" where
  "f64_man b = unat b mod 2 ^ 52"

definition f64_is_zero :: "f64 \<Rightarrow> bool" where
  "f64_is_zero b \<longleftrightarrow> unat b mod 2 ^ 63 = 0"

definition f64_is_finite :: "f64 \<Rightarrow> bool" where
  "f64_is_finite b \<longleftrightarrow> f64_exp b \<noteq> 2047"

text \<open>The integer part of the absolute value of a finite double.\<close>

definition f64_trunc :: "f64 \<Rightarrow> nat" where
  "f64_trunc b =
     (if f64_exp b < 1023 then 0
      else let sig = f64_man b + 2 ^ 52
           in if 1075 \<le> f64_exp b then sig * 2 ^ (f64_exp b - 1075)
              else sig div 2 ^ (1075 - f64_exp b))"

definition f64_is_nan :: "f64 \<Rightarrow> bool" where
  "f64_is_nan b \<longleftrightarrow> f64_exp b = 2047 \<and> f64_man b \<noteq> 0"

definition f64_to_u64 :: "f64 \<Rightarrow> u64" where
  "f64_to_u64 b =
     (if f64_is_nan b \<or> 2 ^ 63 \<le> unat b then 0
      else if f64_exp b = 2047 then word_of_nat (2 ^ 64 - 1)
      else word_of_nat (min (f64_trunc b) (2 ^ 64 - 1)))"

definition f64_to_i64 :: "f64 \<Rightarrow> i64" where
  "f64_to_i64 b =
     (if f64_is_nan b then 0
      else if 2 ^ 63 \<le> unat b then
        (if f64_exp b = 2047 then word_of_int (- (2 ^ 63))
         else word_of_int (- int (min (f64_trunc b) (2 ^ 63))))
      else if f64_exp b = 2047 then word_of_nat (2 ^ 63 - 1)
      else word_of_nat (min (f64_trunc b) (2 ^ 63 - 1)))"

definition f64_to_f32 :: "f64 \<Rightarrow> f32" where
  "f64_to_f32 b =
     (let sign = (if 2 ^ 63 \<le> unat b then 2 ^ 31 else 0 :: nat);
          e = f64_exp b; sig = f64_man b + 2 ^ 52;
          mag = (if f64_is_nan b then 0x7FC00000
                 else if 1150 < e then 0x7F800000
                 else if 897 \<le> e then (e - 897) * 2 ^ 23 + round_even sig 29
                 else if e = 0 then 0
                 else round_even sig (29 + (897 - e)))
      in word_of_nat (sign + mag))"

definition f32_is_finite :: "f32 \<Rightarrow> bool" where
  "f32_is_finite b \<longleftrightarrow> unat b div 2 ^ 23 mod 2 ^ 8 \<noteq> 255"

text \<open>Exact, for finite values.\<close>

definition f32_to_f64 :: "f32 \<Rightarrow> f64" where
  "f32_to_f64 b =
     (let sign = (if 2 ^ 31 \<le> unat b then 2 ^ 63 else 0 :: nat);
          e = unat b div 2 ^ 23 mod 2 ^ 8; m = unat b mod 2 ^ 23;
          mag = (if e = 0 then
                   (if m = 0 then 0
                    else let k = ilog2 m in (k + 873) * 2 ^ 52 + m * 2 ^ (52 - k))
                 else (e + 896) * 2 ^ 52 + m * 2 ^ 29)
      in word_of_nat (sign + mag))"

subsection \<open>Values\<close>

datatype json =
    JNull
  | JBool bool
  | JPos u64
  | JNeg i64
  | JFloat f64
  | JStr string
  | JArr "json list"
  | JObj "(string \<times> json) list"

fun as_u64 :: "json \<Rightarrow> u64 option" where
  "as_u64 (JPos n) = Some n"
| "as_u64 _ = None"

fun as_i64 :: "json \<Rightarrow> i64 option" where
  "as_i64 (JPos n) = (if unat n < 2 ^ 63 then Some n else None)"
| "as_i64 (JNeg n) = Some n"
| "as_i64 _ = None"

fun as_f64 :: "json \<Rightarrow> f64 option" where
  "as_f64 (JPos n) = Some (u64_to_f64 n)"
| "as_f64 (JNeg n) = Some (i64_to_f64 n)"
| "as_f64 (JFloat f) = Some f"
| "as_f64 _ = None"

fun as_bool :: "json \<Rightarrow> bool option" where
  "as_bool (JBool b) = Some b"
| "as_bool _ = None"

fun as_str :: "json \<Rightarrow> string option" where
  "as_str (JStr s) = Some s"
| "as_str _ = None"

fun as_object :: "json \<Rightarrow> (string \<times> json) list option" where
  "as_object (JObj m) = Some m"
| "as_object _ = None"

fun as_array :: "json \<Rightarrow> json list option" where
  "as_array (JArr xs) = Some xs"
| "as_array _ = None"

text \<open>\<^verbatim>\<open>json!\<close> of a signed integer and of floats.\<close>

definition json_i64 :: "i64 \<Rightarrow> json" where
  "json_i64 v = (if sint v < 0 then JNeg v else JPos v)"

definition json_f64 :: "f64 \<Rightarrow> json" where
  "json_f64 f = (if f64_is_finite f then JFloat f else JNull)"

definition json_f32 :: "f32 \<Rightarrow> json" where
  "json_f32 f = (if f32_is_finite f then JFloat (f32_to_f64 f) else JNull)"

text \<open>\<^verbatim>\<open>Map::insert\<close>: in the byte order of the keys.\<close>

fun str_less :: "string \<Rightarrow> string \<Rightarrow> bool" where
  "str_less s [] = False"
| "str_less [] (d # t) = True"
| "str_less (c # s) (d # t) =
     (if c = d then str_less s t else (of_char c :: nat) < of_char d)"

fun obj_insert :: "string \<Rightarrow> 'v \<Rightarrow> (string \<times> 'v) list \<Rightarrow> (string \<times> 'v) list" where
  "obj_insert k v [] = [(k, v)]"
| "obj_insert k v ((k', v') # m) =
     (if k = k' then (k, v) # m
      else if str_less k k' then (k, v) # (k', v') # m
      else (k', v') # obj_insert k v m)"

lemma str_less_irrefl: "\<not> str_less s s"
  by (induction s) simp_all

lemma str_less_trans: "str_less s t \<Longrightarrow> str_less t u \<Longrightarrow> str_less s u"
proof (induction s t arbitrary: u rule: str_less.induct)
  case (3 c s d t)
  then show ?case by (cases u) (auto split: if_splits)
qed (case_tac u; simp)+

lemma str_less_linear: "s \<noteq> t \<Longrightarrow> str_less s t \<or> str_less t s"
proof (induction s t rule: str_less.induct)
  case (3 c s d t)
  have "c = d \<or> (of_char c :: nat) < of_char d \<or> (of_char d :: nat) < of_char c"
    by (metis linorder_less_linear of_char_eq_iff)
  with 3 show ?case by (auto split: if_splits)
next
  case (1 s)
  then show ?case by (cases s) simp_all
qed simp

lemma map_of_obj_insert: "map_of (obj_insert k v m) = (map_of m)(k \<mapsto> v)"
  by (induction m) (auto simp: fun_eq_iff)

definition obj_sorted :: "(string \<times> 'v) list \<Rightarrow> bool" where
  "obj_sorted m \<longleftrightarrow> sorted_wrt str_less (map fst m)"

lemma fst_set_obj_insert: "fst ` set (obj_insert k v m) = insert k (fst ` set m)"
proof (induction m)
  case (Cons e m)
  then show ?case by (cases e) auto
qed simp

lemma obj_sorted_insert: "obj_sorted m \<Longrightarrow> obj_sorted (obj_insert k v m)"
proof (induction m)
  case Nil
  then show ?case by (simp add: obj_sorted_def)
next
  case (Cons e m)
  obtain k' v' where e: "e = (k', v')" by fastforce
  have keys: "\<forall>x \<in> fst ` set m. str_less k' x" and m: "obj_sorted m"
    using Cons.prems by (auto simp: obj_sorted_def e)
  show ?case
  proof (cases "k = k'")
    case True
    then show ?thesis using Cons.prems by (simp add: e obj_sorted_def)
  next
    case ne: False
    show ?thesis
    proof (cases "str_less k k'")
      case True
      then show ?thesis
        using Cons.prems keys by (auto simp: e obj_sorted_def ne dest: str_less_trans)
    next
      case False
      then have "str_less k' k" using str_less_linear [OF ne] by blast
      moreover have "set (map fst (obj_insert k v m)) = insert k (fst ` set m)"
        using fst_set_obj_insert [of k v m] by simp
      ultimately show ?thesis
        using Cons.IH [OF m] keys False ne by (auto simp: e obj_sorted_def)
    qed
  qed
qed

end
