(* ===== verification/Le_Bytes.thy ===== *)
theory Le_Bytes
  imports Rust_Prelude
begin

text \<open>Little-endian bytes of words, \<^verbatim>\<open>to_le_bytes\<close> and \<^verbatim>\<open>from_le_bytes\<close>.\<close>

definition le_bytes64 :: "u64 \<Rightarrow> bytes" where
  "le_bytes64 v = map (\<lambda>i. ucast (drop_bit (8 * i) v)) [0..<8]"

definition le_bytes32 :: "u32 \<Rightarrow> bytes" where
  "le_bytes32 v = map (\<lambda>i. ucast (drop_bit (8 * i) v)) [0..<4]"

definition from_le64 :: "bytes \<Rightarrow> u64" where
  "from_le64 bs = foldr (\<lambda>b acc. ucast b OR push_bit 8 acc) bs 0"

definition from_le32 :: "bytes \<Rightarrow> u32" where
  "from_le32 bs = foldr (\<lambda>b acc. ucast b OR push_bit 8 acc) bs 0"

lemma bit_fold_le:
  fixes v :: "'a::len word"
  shows "bit (foldr (\<lambda>b acc. ucast b OR push_bit 8 acc) (map (\<lambda>i. ucast (drop_bit (8 * i) v) :: u8) [k..<n]) (0 :: 'a word)) j
    \<longleftrightarrow> j < LENGTH('a) \<and> j < 8 * (n - k) \<and> bit v (8 * k + j)"
proof (induction "n - k" arbitrary: k j)
  case (Suc m)
  then have kn: "k < n" by simp
  have m: "m = n - Suc k" using Suc.hyps(2) by simp
  show ?case
  proof (cases "j < 8")
    case True
    with kn show ?thesis by (auto simp: upt_conv_Cons bit_simps)
  next
    case False
    have e: "8 * Suc k + (j - 8) = 8 * k + j" "j - 8 < 8 * (n - Suc k) \<longleftrightarrow> j < 8 * (n - k)"
      using False kn by auto
    show ?thesis
      using False kn Suc.hyps(1) [OF m, of "j - 8"] unfolding e
      by (auto simp: upt_conv_Cons bit_simps)
  qed
qed simp

lemma from_le64_bytes [simp]: "from_le64 (le_bytes64 v) = v"
  by (rule bit_word_eqI) (simp add: from_le64_def le_bytes64_def bit_fold_le)

lemma from_le32_bytes [simp]: "from_le32 (le_bytes32 v) = v"
  by (rule bit_word_eqI) (simp add: from_le32_def le_bytes32_def bit_fold_le)

lemma length_le_bytes [simp]: "length (le_bytes64 v) = 8" "length (le_bytes32 w) = 4"
  by (simp_all add: le_bytes64_def le_bytes32_def)

end
