(* ===== verification/Proto_Codec.thy ===== *)
theory Proto_Codec
  imports Tw_Varint Base64 Json_Value Le_Bytes
begin

text \<open>
  \<^verbatim>\<open>typeway-grpc/src/proto_codec.rs\<close>: the runtime transcoder between JSON and the
  protobuf wire format, driven by field definitions. Serialising a JSON value to text, parsing
  text as JSON and the wording of a UTF-8 error belong to \<^verbatim>\<open>serde_json\<close> and the
  formatter; they are the record \<open>codec_env\<close>. \<^verbatim>\<open>CodecError\<close>'s first three
  variants are primed where \<^verbatim>\<open>TypewayDecodeError\<close> has the name already.
\<close>

subsection \<open>Field definitions and errors\<close>

datatype ProtoFieldDef = ProtoFieldDef
  (pf_name: string) (pf_type: string) (pf_tag: u32) (pf_repeated: bool) (pf_is_map: bool)
  (pf_map_key_type: "string option") (pf_map_value_type: "string option")
  (pf_nested: "ProtoFieldDef list option")

datatype CodecError =
    VarintTooLong'
  | UnexpectedEof'
  | UnknownWireType' u8
  | ValueConversion string
  | EncodingFailed string

record codec_env =
  ce_to_vec :: "json \<Rightarrow> bytes + string"
  ce_from_slice :: "bytes \<Rightarrow> json option"
  ce_utf8_error :: "bytes \<Rightarrow> string"

subsection \<open>Varints\<close>

function encode_varint :: "u64 \<Rightarrow> bytes" where
  "encode_varint value =
     (let byte = ucast (value AND 0x7F) :: u8; value' = drop_bit 7 value
      in if value' = 0 then [byte] else (byte OR 0x80) # encode_varint value')"
  by pat_completeness auto
termination
proof (relation "measure unat")
  fix v :: u64 and x xa
  assume "xa = drop_bit 7 v" "xa \<noteq> 0"
  moreover have "unat (drop_bit 7 v) < unat v" if "drop_bit 7 v \<noteq> 0"
  proof -
    have "v \<noteq> 0" using that by auto
    then have "0 < unat v" by (metis bot_nat_0.not_eq_extremum unsigned_eq_0_iff)
    then show ?thesis unfolding unat_drop_bit7 by simp
  qed
  ultimately show "(xa, v) \<in> measure unat" by simp
qed simp

declare encode_varint.simps [simp del]

fun decode_varint_loop :: "u64 \<Rightarrow> nat \<Rightarrow> nat \<Rightarrow> bytes \<Rightarrow> (u64 \<times> nat, CodecError) result" where
  "decode_varint_loop value shift i [] = Err UnexpectedEof'"
| "decode_varint_loop value shift i (byte # rest) =
     (if 70 \<le> shift then Err VarintTooLong'
      else let value' = value OR push_bit shift (ucast (byte AND 0x7F))
           in if byte AND 0x80 = 0 then Ok (value', i + 1)
              else decode_varint_loop value' (shift + 7) (i + 1) rest)"

definition decode_varint :: "bytes \<Rightarrow> (u64 \<times> nat, CodecError) result" where
  "decode_varint bs = decode_varint_loop 0 0 0 bs"

definition zigzag_decode :: "u64 \<Rightarrow> i64" where
  "zigzag_decode v = drop_bit 1 v XOR (- (v AND 1))"

definition zigzag_encode :: "i64 \<Rightarrow> u64" where
  "zigzag_encode v = push_bit 1 v XOR signed_drop_bit 63 v"

subsection \<open>Types\<close>

definition varint_types :: "string list" where
  "varint_types = [''int32'', ''int64'', ''uint32'', ''uint64'', ''sint32'', ''sint64'', ''bool'', ''enum'']"

definition fixed64_types :: "string list" where
  "fixed64_types = [''double'', ''fixed64'', ''sfixed64'']"

definition fixed32_types :: "string list" where
  "fixed32_types = [''float'', ''fixed32'', ''sfixed32'']"

definition wire_type_for :: "string \<Rightarrow> u8" where
  "wire_type_for t =
     (if t \<in> set varint_types then 0
      else if t \<in> set fixed64_types then 1
      else if t \<in> set fixed32_types then 5
      else 2)"

definition is_proto3_default :: "json \<Rightarrow> string \<Rightarrow> bool" where
  "is_proto3_default value t \<longleftrightarrow>
     (if t \<in> {''int32'', ''int64'', ''uint32'', ''uint64'', ''sint32'', ''sint64'', ''fixed32'',
              ''fixed64'', ''sfixed32'', ''sfixed64'', ''enum''}
      then as_i64 value = Some 0 \<or> as_u64 value = Some 0 \<or>
           (case as_f64 value of Some f \<Rightarrow> f64_is_zero f | None \<Rightarrow> False)
      else if t \<in> {''float'', ''double''}
      then (case as_f64 value of Some f \<Rightarrow> f64_is_zero f | None \<Rightarrow> False)
      else if t = ''bool'' then as_bool value = Some False
      else if t \<in> {''string'', ''bytes''} then as_str value = Some ''''
      else False)"

definition is_scalar_type :: "string \<Rightarrow> bool" where
  "is_scalar_type t \<longleftrightarrow>
     t \<in> set varint_types \<or> t \<in> set fixed64_types \<or> t \<in> set fixed32_types \<or>
     t \<in> {''string'', ''bytes''}"

definition is_packable_type :: "string \<Rightarrow> bool" where
  "is_packable_type t \<longleftrightarrow>
     t \<in> set varint_types \<or> t \<in> set fixed32_types \<or> t \<in> set fixed64_types"

subsection \<open>Wire values\<close>

datatype WireValue =
    Varint u64
  | Fixed64 bytes
  | LengthDelimited bytes
  | Fixed32 bytes

text \<open>
  \<^verbatim>\<open>hdr_consumed + len\<close> wraps on 64 bits; the slice
  \<^verbatim>\<open>bytes[hdr..end]\<close> panics when the sum has wrapped below \<open>hdr\<close>.
\<close>

definition decode_wire_value :: "bytes \<Rightarrow> u8 \<Rightarrow> (WireValue \<times> nat, CodecError) result" where
  "decode_wire_value bs wt =
     (if wt = 0 then and_then (decode_varint bs) (\<lambda>(val, consumed). Ok (Varint val, consumed))
      else if wt = 1 then
        (if length bs < 8 then Err UnexpectedEof' else Ok (Fixed64 (take 8 bs), 8))
      else if wt = 2 then
        and_then (decode_varint bs)
          (\<lambda>(len, hdr).
             let end = unat (word_of_nat hdr + len :: usize)
             in if length bs < end then Err UnexpectedEof'
                else if end < hdr then Panic
                else Ok (LengthDelimited (take (end - hdr) (drop hdr bs)), end))
      else if wt = 5 then
        (if length bs < 4 then Err UnexpectedEof' else Ok (Fixed32 (take 4 bs), 4))
      else Err (UnknownWireType' wt))"

text \<open>The scalar branches of \<^verbatim>\<open>wire_value_to_json\<close>; \<open>None\<close> where the match goes on.\<close>

definition conversion_error :: "string \<Rightarrow> CodecError" where
  "conversion_error t =
     ValueConversion (''cannot convert wire value to JSON for proto type '' @ [CHR 0x27] @ t @ [CHR 0x27])"

definition scalar_to_json ::
  "codec_env \<Rightarrow> WireValue \<Rightarrow> string \<Rightarrow> (json, CodecError) result option" where
  "scalar_to_json env wv t =
     (case wv of
        Varint v \<Rightarrow>
          (if t = ''uint32'' \<or> t = ''uint64'' then Some (Ok (JPos v))
           else if t = ''int32'' then Some (Ok (json_i64 (scast (ucast v :: i32))))
           else if t = ''int64'' then Some (Ok (json_i64 v))
           else if t = ''sint32'' then Some (Ok (json_i64 (scast (ucast (zigzag_decode v) :: i32))))
           else if t = ''sint64'' then Some (Ok (json_i64 (zigzag_decode v)))
           else if t = ''bool'' then Some (Ok (JBool (v \<noteq> 0)))
           else if t = ''enum'' then Some (Ok (JPos v))
           else Some (Err (conversion_error t)))
      | Fixed64 bs \<Rightarrow>
          (if t = ''double'' then Some (Ok (json_f64 (from_le64 bs)))
           else if t = ''fixed64'' then Some (Ok (JPos (from_le64 bs)))
           else if t = ''sfixed64'' then Some (Ok (json_i64 (from_le64 bs)))
           else Some (Err (conversion_error t)))
      | Fixed32 bs \<Rightarrow>
          (if t = ''float'' then Some (Ok (json_f32 (from_le32 bs)))
           else if t = ''fixed32'' then Some (Ok (JPos (ucast (from_le32 bs))))
           else if t = ''sfixed32'' then Some (Ok (json_i64 (scast (from_le32 bs))))
           else Some (Err (conversion_error t)))
      | LengthDelimited data \<Rightarrow>
          (if t = ''string'' then
             Some (if utf8_valid data then Ok (JStr (of_bytes data))
                   else Err (ValueConversion
                     (''invalid UTF-8 in string field: '' @ ce_utf8_error env data)))
           else if t = ''bytes'' then Some (Ok (JStr (base64_encode data)))
           else None))"

text \<open>A message field without definitions: JSON text, or base64.\<close>

definition opaque_to_json :: "codec_env \<Rightarrow> bytes \<Rightarrow> json" where
  "opaque_to_json env data =
     (case ce_from_slice env data of Some v \<Rightarrow> v | None \<Rightarrow> JStr (base64_encode data))"

subsection \<open>JSON to binary\<close>

definition json_as_u64 :: "json \<Rightarrow> (u64, CodecError) result" where
  "json_as_u64 value =
     (case as_u64 value of Some n \<Rightarrow> Ok n
      | None \<Rightarrow> (case as_i64 value of Some n \<Rightarrow> Ok n
      | None \<Rightarrow> (case as_f64 value of Some f \<Rightarrow> Ok (f64_to_u64 f)
      | None \<Rightarrow> Err (EncodingFailed ''expected numeric value''))))"

definition json_as_i64 :: "json \<Rightarrow> (i64, CodecError) result" where
  "json_as_i64 value =
     (case as_i64 value of Some n \<Rightarrow> Ok n
      | None \<Rightarrow> (case as_u64 value of Some n \<Rightarrow> Ok n
      | None \<Rightarrow> (case as_f64 value of Some f \<Rightarrow> Ok (f64_to_i64 f)
      | None \<Rightarrow> Err (EncodingFailed ''expected numeric value''))))"

definition json_to_varint :: "json \<Rightarrow> string \<Rightarrow> (u64, CodecError) result" where
  "json_to_varint value t =
     (if t = ''bool'' then Ok (if as_bool value = Some True then 1 else 0)
      else if t = ''sint32'' then
        and_then (json_as_i64 value) (\<lambda>n. Ok (zigzag_encode (scast (ucast n :: i32))))
      else if t = ''sint64'' then and_then (json_as_i64 value) (\<lambda>n. Ok (zigzag_encode n))
      else if t = ''int32'' \<or> t = ''int64'' then json_as_i64 value
      else json_as_u64 value)"

text \<open>The branches of \<^verbatim>\<open>encode_field\<close> that write a fixed-width payload.\<close>

definition encode_fixed64 :: "string \<Rightarrow> json \<Rightarrow> (bytes, CodecError) result" where
  "encode_fixed64 t value =
     (if t = ''double'' then
        (case as_f64 value of Some n \<Rightarrow> Ok (le_bytes64 n)
         | None \<Rightarrow> Err (EncodingFailed ''expected number for double''))
      else if t = ''fixed64'' then and_then (json_as_u64 value) (\<lambda>n. Ok (le_bytes64 n))
      else if t = ''sfixed64'' then and_then (json_as_i64 value) (\<lambda>n. Ok (le_bytes64 n))
      else Err (EncodingFailed (''unhandled 64-bit type: '' @ t)))"

definition encode_fixed32 :: "string \<Rightarrow> json \<Rightarrow> (bytes, CodecError) result" where
  "encode_fixed32 t value =
     (if t = ''float'' then
        (case as_f64 value of Some n \<Rightarrow> Ok (le_bytes32 (f64_to_f32 n))
         | None \<Rightarrow> Err (EncodingFailed ''expected number for float''))
      else if t = ''fixed32'' then and_then (json_as_u64 value) (\<lambda>n. Ok (le_bytes32 (ucast n)))
      else if t = ''sfixed32'' then and_then (json_as_i64 value) (\<lambda>n. Ok (le_bytes32 (ucast n)))
      else Err (EncodingFailed (''unhandled 32-bit type: '' @ t)))"

definition put_delimited :: "bytes \<Rightarrow> bytes" where
  "put_delimited data = encode_varint (word_of_nat (length data)) @ data"

definition field_tag :: "u32 \<Rightarrow> u8 \<Rightarrow> u64" where
  "field_tag tag wt = push_bit 3 (ucast tag) OR ucast wt"

text \<open>
  The definitions of a map entry's key and value. Nested definitions are the only recursion:
  \<open>fd_rank\<close> counts them.
\<close>

definition key_field :: "string \<Rightarrow> ProtoFieldDef" where
  "key_field t = ProtoFieldDef ''key'' t 1 False False None None None"

definition value_field :: "string \<Rightarrow> ProtoFieldDef" where
  "value_field t = ProtoFieldDef ''value'' t 2 False False None None None"

fun fd_rank :: "ProtoFieldDef \<Rightarrow> nat" where
  "fd_rank (ProtoFieldDef _ _ _ _ _ _ _ nested) =
     1 + (case nested of None \<Rightarrow> 0 | Some fs \<Rightarrow> sum_list (map fd_rank fs))"

definition fields_rank :: "ProtoFieldDef list \<Rightarrow> nat" where
  "fields_rank fs = sum_list (map fd_rank fs)"

lemma fd_rank_pos: "1 \<le> fd_rank f"
  by (cases f) simp

lemma fd_rank_mem: "f \<in> set fs \<Longrightarrow> fd_rank f \<le> fields_rank fs"
  by (simp add: fields_rank_def member_le_sum_list)

lemma fd_rank_mem_pos: "f \<in> set fs \<Longrightarrow> fd_rank f \<le> fields_rank fs \<and> 1 \<le> fields_rank fs"
  using fd_rank_mem [of f fs] fd_rank_pos [of f] by linarith

lemma fd_rank_entry [simp]: "fd_rank (key_field t) = 1" "fd_rank (value_field t) = 1"
  by (simp_all add: key_field_def value_field_def)

lemma fields_rank_nested: "pf_nested f = Some fs \<Longrightarrow> fields_rank fs < fd_rank f"
  by (cases f) (simp add: fields_rank_def)

function json_to_proto_binary ::
    "codec_env \<Rightarrow> json \<Rightarrow> ProtoFieldDef list \<Rightarrow> (bytes, CodecError) result"
  and encode_field :: "codec_env \<Rightarrow> ProtoFieldDef \<Rightarrow> json \<Rightarrow> (bytes, CodecError) result" where
  "json_to_proto_binary env json fds =
     (case as_object json of
        None \<Rightarrow> Ok []
      | Some m \<Rightarrow>
          concat_mapM
            (\<lambda>field.
               case map_of m (pf_name field) of
                 None \<Rightarrow> Ok []
               | Some value \<Rightarrow>
                   (if value = JNull then Ok []
                    else if \<not> pf_repeated field \<and> \<not> pf_is_map field \<and>
                            is_proto3_default value (pf_type field) then Ok []
                    else if pf_is_map field then
                      (case as_object value of
                         None \<Rightarrow> Ok []
                       | Some obj \<Rightarrow>
                           (let key_type = (case pf_map_key_type field of Some t \<Rightarrow> t | None \<Rightarrow> ''string'');
                                val_type = (case pf_map_value_type field of Some t \<Rightarrow> t | None \<Rightarrow> ''string'')
                            in concat_mapM
                                 (\<lambda>(k, v).
                                    and_then (encode_field env (key_field key_type) (JStr k))
                                      (\<lambda>kb. and_then (encode_field env (value_field val_type) v)
                                         (\<lambda>vb. Ok (encode_varint (field_tag (pf_tag field) 2)
                                                    @ put_delimited (kb @ vb)))))
                                 obj))
                    else if pf_repeated field then
                      (case as_array value of
                         None \<Rightarrow> Ok []
                       | Some arr \<Rightarrow> concat_mapM (encode_field env field) arr)
                    else encode_field env field value))
            fds)"
| "encode_field env field value =
     (let t = pf_type field; wt = wire_type_for t; tag_value = field_tag (pf_tag field) wt
      in if wt = 0 then
           and_then (json_to_varint value t) (\<lambda>v. Ok (encode_varint tag_value @ encode_varint v))
         else if wt = 1 then
           and_then (encode_fixed64 t value) (\<lambda>p. Ok (encode_varint tag_value @ p))
         else if wt = 2 then
           (if t = ''string'' then
              (case as_str value of
                 Some s \<Rightarrow> Ok (encode_varint tag_value @ put_delimited (as_bytes s))
               | None \<Rightarrow> Err (EncodingFailed ''expected string for string field''))
            else if t = ''bytes'' then
              (case as_str value of
                 Some s \<Rightarrow>
                   (let data = (case base64_decode s of Some d \<Rightarrow> d | None \<Rightarrow> as_bytes s)
                    in Ok (encode_varint tag_value @ put_delimited data))
               | None \<Rightarrow> Err (EncodingFailed ''expected string (base64) for bytes field''))
            else
              (case pf_nested field of
                 Some nested \<Rightarrow>
                   and_then (json_to_proto_binary env value nested)
                     (\<lambda>nb. Ok (encode_varint tag_value @ put_delimited nb))
               | None \<Rightarrow>
                   (case ce_to_vec env value of
                      Inl jb \<Rightarrow> Ok (encode_varint tag_value @ put_delimited jb)
                    | Inr e \<Rightarrow> Err (EncodingFailed (''JSON serialization failed: '' @ e)))))
         else and_then (encode_fixed32 t value) (\<lambda>p. Ok (encode_varint tag_value @ p)))"
  by pat_completeness auto
termination
  by (relation "measure (\<lambda>x. case x of
    Inl (_, _, fds) \<Rightarrow> 2 * fields_rank fds + 1
  | Inr (_, field, _) \<Rightarrow> 2 * fd_rank field)")
    (auto dest!: fd_rank_mem_pos fields_rank_nested)

declare json_to_proto_binary.simps [simp del] encode_field.simps [simp del]

subsection \<open>The varint codec against the format\<close>

lemma encode_varint_vbytes: "encode_varint v = vbytes (unat v)"
proof (induction v rule: encode_varint.induct)
  case (1 v)
  have low: "(ucast (v AND 0x7F) :: u8) = ucast v AND 0x7F"
    by (rule bit_word_eqI) (auto simp: bit_simps)
  have zero: "drop_bit 7 v = 0 \<longleftrightarrow> v < 0x80"
  proof -
    have "drop_bit 7 v = 0 \<longleftrightarrow> unat (drop_bit 7 v) = 0" by (simp only: unat_eq_0)
    then show ?thesis unfolding unat_drop_bit7 by (auto simp: word_less_nat_alt)
  qed
  show ?case
  proof (cases "v < 0x80")
    case True
    have "(ucast v :: u8) AND 0x7F = ucast v"
      using True by (simp add: word_unat_eq_iff unat_and_mask7 unat_ucast_u8 word_less_nat_alt)
    with True zero low show ?thesis
      by (subst encode_varint.simps) (simp add: vbytes_u64(1))
  next
    case False
    with zero have nz: "drop_bit 7 v \<noteq> 0" by simp
    have "encode_varint v = cont_byte v # encode_varint (drop_bit 7 v)"
      using nz by (subst encode_varint.simps) (simp only: Let_def if_False low cont_byte_def)
    with "1.IH" [OF refl refl nz] show ?thesis
      by (simp only: vbytes_u64(2) [OF False])
  qed
qed

lemma high_bit_clear: "(b::u8) AND 0x80 = 0 \<longleftrightarrow> b < 0x80"
proof -
  have "b AND 0x80 = push_bit 7 (drop_bit 7 b)"
  proof (rule bit_word_eqI)
    fix n assume "n < LENGTH(8)"
    then have "n < 7 \<or> n = 7" by auto
    moreover have "bit (0x80::u8) n \<longleftrightarrow> n = 7"
      using bit_exp_iff [of 7 n, where 'a = "8 word"] by auto
    ultimately show "bit (b AND 0x80) n \<longleftrightarrow> bit (push_bit 7 (drop_bit 7 b)) n"
      by (auto simp: bit_and_iff bit_push_bit_iff bit_drop_bit_eq)
  qed
  moreover have "push_bit 7 (drop_bit 7 b) = 0 \<longleftrightarrow> unat b < 128"
  proof -
    have "unat b < 256" using unat_word_lt_exp [of b] by simp
    then have "unat (push_bit 7 (drop_bit 7 b)) = unat b div 128 * 128"
      by (simp add: push_bit_eq_mult unat_mult_lem [THEN iffD1] unat_drop_bit7)
    then show ?thesis by (simp add: unat_eq_0 [symmetric] div_eq_0_iff)
  qed
  ultimately show ?thesis by (simp add: word_less_nat_alt)
qed

lemma decode_varint_loop_eq:
  "decode_varint_loop v (7 * i) i bs = varint_loop VarintTooLong' UnexpectedEof' v i bs"
proof (induction bs arbitrary: v i)
  case (Cons b bs)
  show ?case
    using Cons.IH [of _ "i + 1"] by (simp add: Let_def high_bit_clear add.commute)
qed simp

lemma decode_varint_eq: "decode_varint bs = varint_read VarintTooLong' UnexpectedEof' bs"
  using decode_varint_loop_eq [of 0 0 bs] by (simp add: decode_varint_def varint_read_loop)

interpretation grpc_varint: self_delimiting encode_varint decode_varint "\<lambda>_. True"
proof unfold_locales
  fix v :: u64 and rest
  have "unat v < 2 ^ 64" using unat_word_lt_exp [of v] by simp
  then show "decode_varint (encode_varint v @ rest) = Ok (v, length (encode_varint v))"
    by (simp add: encode_varint_vbytes decode_varint_eq varint_read_vbytes)
qed (simp add: encode_varint_vbytes)

lemma decode_varint_bounds:
  "decode_varint bs = Ok (v, n) \<Longrightarrow> 0 < n \<and> n \<le> length bs \<and> n \<le> 10"
  using varint_read_bounds [of VarintTooLong' UnexpectedEof' bs v n] by (simp add: decode_varint_eq)

lemma decode_varint_not_Panic: "decode_varint bs \<noteq> Panic"
  by (simp add: decode_varint_eq varint_read_not_Panic)

fun payload_length :: "WireValue \<Rightarrow> nat" where
  "payload_length (LengthDelimited data) = length data"
| "payload_length _ = 0"

lemma decode_wire_value_bounds:
  "decode_wire_value bs wt = Ok (wv, n) \<Longrightarrow>
    0 < n \<and> n \<le> length bs \<and> payload_length wv < n"
  by (auto simp: decode_wire_value_def result_simps Let_def not_less
      dest!: decode_varint_bounds split: if_splits)

subsection \<open>Binary to JSON\<close>

fun scalar_value :: "codec_env \<Rightarrow> WireValue \<Rightarrow> string \<Rightarrow> (json, CodecError) result" where
  "scalar_value env wv t =
     (case scalar_to_json env wv t of Some r \<Rightarrow> r | None \<Rightarrow> Err (conversion_error t))"

text \<open>
  \<^verbatim>\<open>unpack_scalars\<close>; it calls \<^verbatim>\<open>wire_value_to_json\<close> on varint and fixed
  values only, where that function is \<open>scalar_value\<close> (lemma \<open>wire_scalar\<close> below).
\<close>

function unpack_scalars_loop ::
  "codec_env \<Rightarrow> bytes \<Rightarrow> string \<Rightarrow> nat \<Rightarrow> (json list, CodecError) result" where
  "unpack_scalars_loop env data t offset =
     (if offset < length data then
        (if t \<in> set varint_types then
           and_then (decode_varint (drop offset data))
             (\<lambda>(val, consumed).
                and_then (scalar_value env (Varint val) t)
                  (\<lambda>j. result_map ((#) j) (unpack_scalars_loop env data t (offset + consumed))))
         else if t \<in> set fixed32_types then
           (if length data < offset + 4 then Err UnexpectedEof'
            else and_then (scalar_value env (Fixed32 (take 4 (drop offset data))) t)
                   (\<lambda>j. result_map ((#) j) (unpack_scalars_loop env data t (offset + 4))))
         else if t \<in> set fixed64_types then
           (if length data < offset + 8 then Err UnexpectedEof'
            else and_then (scalar_value env (Fixed64 (take 8 (drop offset data))) t)
                   (\<lambda>j. result_map ((#) j) (unpack_scalars_loop env data t (offset + 8))))
         else Err (EncodingFailed (''cannot unpack type: '' @ t)))
      else Ok [])"
  by pat_completeness auto
termination
  by (relation "measure (\<lambda>(env, data, t, offset). length data - offset)")
    (auto dest: decode_varint_bounds)

definition unpack_scalars :: "codec_env \<Rightarrow> bytes \<Rightarrow> string \<Rightarrow> (json list, CodecError) result" where
  "unpack_scalars env data t = unpack_scalars_loop env data t 0"

text \<open>
  The accumulator of repeated fields, an association list in order of first appearance (the code's
  hash map; its keys are distinct, so the order of the final insertions does not matter).
\<close>

fun rep_extend :: "string \<Rightarrow> json list \<Rightarrow> (string \<times> json list) list \<Rightarrow> (string \<times> json list) list" where
  "rep_extend k vs [] = [(k, vs)]"
| "rep_extend k vs ((k', vs') # m) =
     (if k = k' then (k, vs' @ vs) # m else (k', vs') # rep_extend k vs m)"

definition obj_insert_all :: "(string \<times> json list) list \<Rightarrow> (string \<times> json) list \<Rightarrow> (string \<times> json) list"
  where
  "obj_insert_all rep m = fold (\<lambda>(k, vs). obj_insert k (JArr vs)) rep m"

function (sequential) proto_fields_loop ::
    "codec_env \<Rightarrow> bytes \<Rightarrow> ProtoFieldDef list \<Rightarrow> nat \<Rightarrow> (string \<times> json) list \<Rightarrow>
     (string \<times> json list) list \<Rightarrow> (json, CodecError) result"
  and proto_binary_to_json ::
    "codec_env \<Rightarrow> bytes \<Rightarrow> ProtoFieldDef list \<Rightarrow> (json, CodecError) result"
  and wire_value_to_json ::
    "codec_env \<Rightarrow> WireValue \<Rightarrow> string \<Rightarrow> ProtoFieldDef list option \<Rightarrow> (json, CodecError) result"
where
  "proto_fields_loop env bs fds offset m rep =
     (if offset < length bs then
        and_then (decode_varint (drop offset bs)) (\<lambda>(tag_and_wire, consumed).
          let offset1 = offset + consumed;
              field_number = ucast (drop_bit 3 tag_and_wire) :: u32;
              wire_type = ucast (tag_and_wire AND 7) :: u8
          in and_then (decode_wire_value (drop offset1 bs) wire_type) (\<lambda>(wire_val, consumed2).
            let offset2 = offset1 + consumed2
            in (case find (\<lambda>f. pf_tag f = field_number) fds of
                  None \<Rightarrow> proto_fields_loop env bs fds offset2 m rep
                | Some field \<Rightarrow>
                    (case (pf_repeated field \<and> is_packable_type (pf_type field), wire_val) of
                       (True, LengthDelimited data) \<Rightarrow>
                         and_then (unpack_scalars env data (pf_type field))
                           (\<lambda>unpacked. proto_fields_loop env bs fds offset2 m
                              (rep_extend (pf_name field) unpacked rep))
                     | _ \<Rightarrow>
                         and_then (wire_value_to_json env wire_val (pf_type field) (pf_nested field))
                           (\<lambda>json_value.
                              if pf_repeated field
                              then proto_fields_loop env bs fds offset2 m
                                     (rep_extend (pf_name field) [json_value] rep)
                              else proto_fields_loop env bs fds offset2
                                     (obj_insert (pf_name field) json_value m) rep)))))
      else Ok (JObj (obj_insert_all rep m)))"
| "proto_binary_to_json env bs fds = proto_fields_loop env bs fds 0 [] []"
| "wire_value_to_json env wv t nested =
     (case scalar_to_json env wv t of
        Some r \<Rightarrow> r
      | None \<Rightarrow>
          (case (wv, nested) of
             (LengthDelimited data, Some fds) \<Rightarrow> proto_binary_to_json env data fds
           | (LengthDelimited data, None) \<Rightarrow> Ok (opaque_to_json env data)
           | _ \<Rightarrow> Err (conversion_error t)))"
  by pat_completeness auto
termination
proof (relation "measure (\<lambda>x. case x of
    Inl (_, bs, _, offset, _, _) \<Rightarrow> 3 * (length bs - offset)
  | Inr (Inl (_, bs, _)) \<Rightarrow> 3 * length bs + 1
  | Inr (Inr (_, wv, _, _)) \<Rightarrow> 3 * payload_length wv + 2)", goal_cases)
qed (auto dest!: decode_varint_bounds decode_wire_value_bounds)

declare proto_fields_loop.simps [simp del] proto_binary_to_json.simps [simp del]
  wire_value_to_json.simps [simp del] unpack_scalars_loop.simps [simp del]

lemma wire_scalar:
  "(\<And>data. wv \<noteq> LengthDelimited data) \<Longrightarrow> wire_value_to_json env wv t nested = scalar_value env wv t"
  by (cases wv) (auto simp: wire_value_to_json.simps scalar_to_json_def)

subsection \<open>The end of a length-delimited value\<close>

lemma delimited_end:
  assumes "decode_varint bs = Ok (len, hdr)"
  shows "unat (word_of_nat hdr + len :: usize) = (hdr + unat len) mod 2 ^ 64"
    "unat (word_of_nat hdr + len :: usize) < hdr \<longleftrightarrow> 2 ^ 64 \<le> hdr + unat len"
proof -
  have h: "hdr \<le> 10" using decode_varint_bounds [OF assms] by simp
  have l: "unat len < 2 ^ 64" using unat_word_lt_exp [of len] by simp
  show u: "unat (word_of_nat hdr + len :: usize) = (hdr + unat len) mod 2 ^ 64"
    using h by (simp add: unat_word_ariths unat_of_nat)
  show "unat (word_of_nat hdr + len :: usize) < hdr \<longleftrightarrow> 2 ^ 64 \<le> hdr + unat len"
  proof (cases "hdr + unat len < 2 ^ 64")
    case False
    then have "(hdr + unat len) mod 2 ^ 64 = hdr + unat len - 2 ^ 64"
      using h l by (simp add: mod_if)
    with False l show ?thesis unfolding u by linarith
  qed (simp add: u)
qed

lemma decode_wire_value_delimited:
  assumes "decode_varint bs = Ok (len, hdr)"
  shows "decode_wire_value bs 2 =
    (if hdr + unat len < 2 ^ 64 then
       (if length bs < hdr + unat len then Err UnexpectedEof'
        else Ok (LengthDelimited (take (unat len) (drop hdr bs)), hdr + unat len))
     else if length bs < hdr + unat len - 2 ^ 64 then Err UnexpectedEof' else Panic)"
proof (cases "hdr + unat len < 2 ^ 64")
  case True
  then have "unat (word_of_nat hdr + len :: usize) = hdr + unat len"
    unfolding delimited_end(1) [OF assms] by simp
  then show ?thesis using True by (simp add: decode_wire_value_def assms)
next
  case False
  have l: "unat len < 2 ^ 64" using unat_word_lt_exp [of len] by simp
  have "hdr \<le> 10" using decode_varint_bounds [OF assms] by simp
  with False l have "unat (word_of_nat hdr + len :: usize) = hdr + unat len - 2 ^ 64"
    unfolding delimited_end(1) [OF assms] by (simp add: mod_if)
  moreover from this have "unat (word_of_nat hdr + len :: usize) < hdr"
    using False l by linarith
  ultimately show ?thesis using False by (simp add: decode_wire_value_def assms Let_def)
qed

lemma decode_wire_value_Panic:
  "decode_wire_value bs wt = Panic \<longleftrightarrow>
    wt = 2 \<and> (\<exists>len hdr. decode_varint bs = Ok (len, hdr) \<and> 2 ^ 64 \<le> hdr + unat len \<and>
      hdr + unat len - 2 ^ 64 \<le> length bs)"
proof (cases "wt = 2")
  case True
  show ?thesis
  proof (cases "decode_varint bs")
    case (Ok r)
    obtain len hdr where r: "r = (len, hdr)" by fastforce
    show ?thesis
      using decode_wire_value_delimited [OF Ok [unfolded r]] Ok True r by auto
  next
    case (Err e)
    then show ?thesis using True by (simp add: decode_wire_value_def)
  next
    case Panic
    then show ?thesis using decode_varint_not_Panic [of bs] by simp
  qed
next
  case False
  then show ?thesis
    using decode_varint_not_Panic [of bs]
    by (auto simp: decode_wire_value_def result_simps split: if_splits)
qed

subsection \<open>Properties\<close>

text \<open>The runtime transcoder and the derived codecs speak the same format: the two varint
  decoders accept the same inputs with the same result and refuse the others for the same reason,
  and the two encoders write the same bytes.\<close>

theorem varint_codecs_agree:
  assumes "rv_ok b"
  shows "(decode_varint bs = Ok r \<longleftrightarrow> tw_decode_varint bs = Ok r) \<and>
    (decode_varint bs = Err UnexpectedEof' \<longleftrightarrow> tw_decode_varint bs = Err UnexpectedEof) \<and>
    (decode_varint bs = Err VarintTooLong' \<longleftrightarrow> tw_decode_varint bs = Err VarintTooLong) \<and>
    (\<exists>b'. tw_encode_varint b v = Some b' \<and> rv_bytes b' = rv_bytes b @ encode_varint v)"
  using tw_encode_varint_writes [OF assms, of v]
  by (auto simp: decode_varint_eq tw_decode_varint_eq varint_read_def Let_def rv_writes_def
      encode_varint_vbytes)

theorem varint_codecs_agree_witness:
  "\<exists>b'. tw_encode_varint \<lparr>rv_mem = [], rv_len = 0\<rparr> 70000 = Some b' \<and>
    rv_bytes b' = rv_bytes \<lparr>rv_mem = [], rv_len = 0\<rparr> @ encode_varint 70000"
  by (rule varint_codecs_agree [THEN conjunct2, THEN conjunct2, THEN conjunct2])
    (simp add: rv_ok_def)

text \<open>The inline base64 codec: decoding an encoding returns the bytes, for every input.\<close>

theorem base64_roundtrip: "base64_decode (base64_encode bs) = Some bs"
  by (rule base64_decode_encode)

text \<open>Reading a wire value is in bounds, and the only inputs that make it panic are
  length-delimited values whose length wraps the 64-bit end position.\<close>

theorem decode_wire_value_safe:
  "case decode_wire_value bs wt of
     Ok (wv, n) \<Rightarrow> 0 < n \<and> n \<le> length bs \<and> payload_length wv < n
   | Err e \<Rightarrow> True
   | Panic \<Rightarrow> wt = 2 \<and> (\<exists>len hdr. decode_varint bs = Ok (len, hdr) \<and> 2 ^ 64 \<le> hdr + unat len)"
  using decode_wire_value_bounds [of bs wt] decode_wire_value_Panic [of bs wt]
  by (auto split: result.split)

text \<open>So a message of eleven bytes takes the transcoder down: a field header followed by the
  length \<open>2 ^ 64 - 1\<close> makes the decoder panic, whatever the field definitions.\<close>

theorem proto_decoder_panics:
  "proto_binary_to_json env (0x0A # encode_varint 0xFFFFFFFFFFFFFFFF @ rest) fds = Panic"
proof -
  let ?bs = "0x0A # encode_varint 0xFFFFFFFFFFFFFFFF @ rest"
  have tag: "decode_varint ?bs = Ok (10, 1)"
    by (simp add: decode_varint_def)
  have len: "decode_varint (encode_varint 0xFFFFFFFFFFFFFFFF @ rest)
      = Ok (0xFFFFFFFFFFFFFFFF, length (encode_varint 0xFFFFFFFFFFFFFFFF))"
    by (rule grpc_varint.get_put) simp
  have ten: "length (encode_varint 0xFFFFFFFFFFFFFFFF) = 10"
    by (simp add: encode_varint_vbytes vbytes.simps)
  have "decode_wire_value (encode_varint 0xFFFFFFFFFFFFFFFF @ rest) 2 = Panic"
    unfolding decode_wire_value_delimited [OF len] by (simp add: ten)
  then show ?thesis
    by (subst proto_binary_to_json.simps, subst proto_fields_loop.simps) (simp add: tag Let_def)
qed

text \<open>Maps with a key type other than string cannot be sent at all: JSON keys are strings, and
  encoding the first entry of a non-empty object under an integer key type is an error.\<close>

theorem map_integer_key_fails:
  assumes "pf_is_map f" "pf_map_key_type f = Some t" "t \<in> set varint_types" "t \<noteq> ''bool''"
    and "map_of m (pf_name f) = Some (JObj ((k, v) # obj))"
  shows "json_to_proto_binary env (JObj m) (f # fds) = Err (EncodingFailed ''expected numeric value'')"
proof -
  have wt: "wire_type_for t = 0" using assms(3) by (simp add: wire_type_for_def)
  have "json_to_varint (JStr k) t = Err (EncodingFailed ''expected numeric value'')"
    using assms(4) by (simp add: json_to_varint_def json_as_i64_def json_as_u64_def)
  then have "encode_field env (key_field t) (JStr k) = Err (EncodingFailed ''expected numeric value'')"
    by (subst encode_field.simps) (simp add: key_field_def wt Let_def)
  then show ?thesis
    using assms by (subst json_to_proto_binary.simps) (simp add: Let_def)
qed

theorem map_integer_key_fails_witness:
  "json_to_proto_binary \<lparr>ce_to_vec = \<lambda>_. Inl [], ce_from_slice = \<lambda>_. None, ce_utf8_error = \<lambda>_. []\<rparr>
     (JObj [(''m'', JObj [(''1'', JStr ''x'')])])
     [ProtoFieldDef ''m'' ''map'' 1 False True (Some ''int32'') (Some ''string'') None]
   = Err (EncodingFailed ''expected numeric value'')"
  by (rule map_integer_key_fails [where t = "''int32''"]) (simp_all add: varint_types_def)

end
