(* ===== verification/Path_Spec.thy ===== *)
theory Path_Spec
  imports Rust_Str
begin

text \<open>
  \<^verbatim>\<open>typeway-core/src/path.rs\<close> and the \<^verbatim>\<open>Path\<close> extractor of
  \<^verbatim>\<open>typeway-server/src/extract.rs\<close>. A path type (an \<^verbatim>\<open>HCons\<close>
  list) is a list of segments; the trait implementations, which the compiler selects by the shape
  of the list, are the equations of \<open>extract_path\<close> and \<open>path_pattern\<close>. \<open>parse ty\<close> is
  \<^verbatim>\<open>FromStr\<close> of a captured type. Only \<^verbatim>\<open>HCons<CaptureRest, HNil>\<close>
  implements \<^verbatim>\<open>ExtractPath\<close>: a rest capture is last (\<open>path_ok\<close>).
\<close>

datatype 'ty path_segment = Lit string | Capture 'ty | CaptureRest

datatype 'v captured = Value 'v | Rest "string list"

fun path_ok :: "'ty path_segment list \<Rightarrow> bool" where
  "path_ok [] = True"
| "path_ok (CaptureRest # p) = (p = [])"
| "path_ok (_ # p) = path_ok p"

fun extract_path ::
  "('ty \<Rightarrow> string \<Rightarrow> 'v option) \<Rightarrow> 'ty path_segment list \<Rightarrow> string list \<Rightarrow> 'v captured list option"
  where
  "extract_path parse [] segments = (if segments = [] then Some [] else None)"
| "extract_path parse (Lit l # p) segments =
     (case segments of
        seg # rest \<Rightarrow> if seg = l then extract_path parse p rest else None
      | [] \<Rightarrow> None)"
| "extract_path parse (Capture ty # p) segments =
     (case segments of
        [] \<Rightarrow> None
      | seg # rest \<Rightarrow>
          (case parse ty seg of
             None \<Rightarrow> None
           | Some val \<Rightarrow> map_option ((#) (Value val)) (extract_path parse p rest)))"
| "extract_path parse (CaptureRest # p) segments = Some [Rest segments]"

fun path_pattern :: "'ty path_segment list \<Rightarrow> string" where
  "path_pattern [] = ''''"
| "path_pattern (Lit l # p) = ''/'' @ l @ path_pattern p"
| "path_pattern (Capture ty # p) = ''/{}'' @ path_pattern p"
| "path_pattern (CaptureRest # p) = ''/{*rest}''"

text \<open>\<^verbatim>\<open>path.split('/').filter(|s| !s.is_empty())\<close>.\<close>

definition path_segments :: "string \<Rightarrow> string list" where
  "path_segments path = filter (\<lambda>s. s \<noteq> '''') (split_on CHR ''/'' path)"

text \<open>
  \<^verbatim>\<open>Path::from_request_parts\<close>, with the offset the router left in the request
  extensions; the error is the status and its message.
\<close>

definition path_from_request ::
  "('ty \<Rightarrow> string \<Rightarrow> 'v option) \<Rightarrow> 'ty path_segment list \<Rightarrow> nat option \<Rightarrow> string \<Rightarrow>
   ('v captured list, nat \<times> string) result" where
  "path_from_request parse p prefix_offset full_path =
     (let offset = (case prefix_offset of Some o' \<Rightarrow> o' | None \<Rightarrow> 0);
          path = (if offset \<le> length full_path then drop offset full_path else '''')
      in ok_or (400, ''failed to parse path segments for pattern: '' @ path_pattern p)
           (extract_path parse p (path_segments path)))"

subsection \<open>Lemmas\<close>

lemma path_segments_sep: "CHR ''/'' \<notin> set s \<Longrightarrow>
  path_segments (s @ CHR ''/'' # t) = (if s = '''' then [] else [s]) @ path_segments t"
  by (simp add: path_segments_def split_on_append)

lemma path_segments_last: "CHR ''/'' \<notin> set s \<Longrightarrow>
  path_segments s = (if s = '''' then [] else [s])"
  by (simp add: path_segments_def split_on_no_sep)

lemma path_segments_slash [simp]: "path_segments (CHR ''/'' # t) = path_segments t"
  using path_segments_sep [of "''''" t] by simp

lemma path_segments_Nil [simp]: "path_segments '''' = []"
  by (simp add: path_segments_last)

text \<open>Joining segments and splitting again.\<close>

definition join_path :: "string list \<Rightarrow> string" where
  "join_path segs = concat (map (\<lambda>s. CHR ''/'' # s) segs)"

definition plain_segment :: "string \<Rightarrow> bool" where
  "plain_segment s \<longleftrightarrow> s \<noteq> '''' \<and> CHR ''/'' \<notin> set s"

lemma split_on_join:
  "sep \<notin> set s \<Longrightarrow> split_on sep (s @ concat (map (\<lambda>s. sep # s) segs)) = s # map id segs"
  if "list_all (\<lambda>s. sep \<notin> set s) segs"
  using that
proof (induction segs arbitrary: s)
  case Nil
  then show ?case by (simp add: split_on_no_sep)
next
  case (Cons t segs)
  then show ?case by (simp add: split_on_append)
qed

lemma path_segments_join:
  assumes "list_all plain_segment segs"
  shows "path_segments (join_path segs) = segs"
proof -
  have "list_all (\<lambda>s. CHR ''/'' \<notin> set s) segs" "filter (\<lambda>s. s \<noteq> '''') segs = segs"
    using assms by (auto simp: list_all_iff plain_segment_def intro: filter_True)
  then show ?thesis
    using split_on_join [of "CHR ''/''" segs "''''"]
    by (simp add: path_segments_def join_path_def)
qed

lemma split_on_no_sep_inside: "t \<in> set (split_on sep s) \<Longrightarrow> sep \<notin> set t"
proof (induction s arbitrary: t)
  case (Cons c s)
  then show ?case by (cases "split_on sep s") (auto split: if_splits)
qed simp

lemma path_segments_plain: "list_all plain_segment (path_segments path)"
  by (auto simp: list_all_iff path_segments_def plain_segment_def dest: split_on_no_sep_inside)

text \<open>The captured values are as many as the captures, and parsing is all that can fail.\<close>

fun captures :: "'ty path_segment list \<Rightarrow> nat" where
  "captures [] = 0"
| "captures (Lit l # p) = captures p"
| "captures (Capture ty # p) = Suc (captures p)"
| "captures (CaptureRest # p) = 1"

lemma length_extract_path:
  "extract_path parse p segs = Some vs \<Longrightarrow> length vs = captures p"
  by (induction parse p segs arbitrary: vs rule: extract_path.induct)
    (auto split: list.splits option.splits if_splits)

text \<open>Filling a path type with segments: what \<open>extract_path\<close> accepts.\<close>

fun fills :: "('ty \<Rightarrow> string \<Rightarrow> 'v option) \<Rightarrow> 'ty path_segment list \<Rightarrow> string list \<Rightarrow> bool" where
  "fills parse [] segs = (segs = [])"
| "fills parse (Lit l # p) segs = (\<exists>rest. segs = l # rest \<and> fills parse p rest)"
| "fills parse (Capture ty # p) segs =
     (\<exists>s rest. segs = s # rest \<and> parse ty s \<noteq> None \<and> fills parse p rest)"
| "fills parse (CaptureRest # p) segs = True"

lemma extract_path_fills: "extract_path parse p segs \<noteq> None \<longleftrightarrow> fills parse p segs"
  by (induction parse p segs rule: extract_path.induct)
    (auto split: list.splits option.splits)

end
