(* ===== verification/Router.thy ===== *)
theory Router
  imports Path_Spec Http_Headers
begin

text \<open>
  \<^verbatim>\<open>typeway-server/src/router.rs\<close>: registration of routes into one trie per
  method with a linear fallback, the lookup with its shortcuts, the prefix, the body limit and
  what the service does with a panicking handler. The \<^verbatim>\<open>matchit\<close> trie is
  what was inserted into it, in order; which insertions it refuses and which pattern it selects
  for a path are the two functions of the record \<open>matchit\<close>. Locks and futures are run in the
  order the code awaits them.
\<close>

subsection \<open>Tries\<close>

record matchit =
  mi_conflict :: "string list \<Rightarrow> string \<Rightarrow> bool"
  mi_select :: "string list \<Rightarrow> string \<Rightarrow> string option"

type_synonym 'v trie = "(string \<times> 'v) list"

definition trie_insert :: "matchit \<Rightarrow> string \<Rightarrow> 'v \<Rightarrow> 'v trie \<Rightarrow> 'v trie option" where
  "trie_insert mi p v t = (if mi_conflict mi (map fst t) p then None else Some (t @ [(p, v)]))"

definition trie_at :: "matchit \<Rightarrow> 'v trie \<Rightarrow> string \<Rightarrow> 'v option" where
  "trie_at mi t path = Option.bind (mi_select mi (map fst t) path) (map_of t)"

subsection \<open>State\<close>

datatype method_slot = GET | POST | PUT | DELETE | PATCH | HEAD | OPTIONS | OTHER

definition method_slot :: "string \<Rightarrow> method_slot" where
  "method_slot method =
     (if method = ''GET'' then GET else if method = ''POST'' then POST
      else if method = ''PUT'' then PUT else if method = ''DELETE'' then DELETE
      else if method = ''PATCH'' then PATCH else if method = ''HEAD'' then HEAD
      else if method = ''OPTIONS'' then OPTIONS else OTHER)"

definition all_slots :: "method_slot list" where
  "all_slots = [GET, POST, PUT, DELETE, PATCH, HEAD, OPTIONS, OTHER]"

fun slot_no :: "method_slot \<Rightarrow> nat" where
  "slot_no GET = 0"
| "slot_no POST = 1"
| "slot_no PUT = 2"
| "slot_no DELETE = 3"
| "slot_no PATCH = 4"
| "slot_no HEAD = 5"
| "slot_no OPTIONS = 6"
| "slot_no OTHER = 7"

definition method_bit :: "string \<Rightarrow> u8" where
  "method_bit method = push_bit (slot_no (method_slot method)) 1"

record MethodBucket =
  mb_trie :: "nat trie"
  mb_fallback :: "nat list"

type_synonym match_fn = "string list \<Rightarrow> bool"

record 'h RouteEntry =
  re_method :: string
  re_pattern :: string
  re_match_fn :: match_fn
  re_handler :: 'h

record ('h, 'ext, 'fb) RouterInner =
  ri_routes :: "'h RouteEntry list"
  ri_index :: "method_slot \<Rightarrow> MethodBucket"
  ri_any_trie :: "unit trie"
  ri_any_seen :: "string set"
  ri_any_has_fallback :: bool
  ri_methods_present :: u8
  ri_state_injector :: "('ext \<Rightarrow> 'ext) option"
  ri_fallback :: "'fb option"
  ri_max_body_size :: nat
  ri_prefix :: "string list option"
  ri_prefix_str :: "string option"

definition router_new :: "('h, 'ext, 'fb) RouterInner" where
  "router_new =
     \<lparr>ri_routes = [], ri_index = (\<lambda>_. \<lparr>mb_trie = [], mb_fallback = []\<rparr>), ri_any_trie = [],
      ri_any_seen = {}, ri_any_has_fallback = False, ri_methods_present = 0,
      ri_state_injector = None, ri_fallback = None, ri_max_body_size = 2 * 1024 * 1024,
      ri_prefix = None, ri_prefix_str = None\<rparr>"

definition set_prefix :: "string \<Rightarrow> ('h, 'ext, 'fb) RouterInner \<Rightarrow> ('h, 'ext, 'fb) RouterInner" where
  "set_prefix prefix r =
     (let segments = path_segments prefix
      in if segments = [] then r
         else r\<lparr>ri_prefix := Some segments, ri_prefix_str := Some (join_path segments)\<rparr>)"

definition set_max_body_size :: "nat \<Rightarrow> ('h, 'ext, 'fb) RouterInner \<Rightarrow> ('h, 'ext, 'fb) RouterInner" where
  "set_max_body_size limit r = r\<lparr>ri_max_body_size := limit\<rparr>"

definition set_state_injector ::
  "('ext \<Rightarrow> 'ext) \<Rightarrow> ('h, 'ext, 'fb) RouterInner \<Rightarrow> ('h, 'ext, 'fb) RouterInner" where
  "set_state_injector injector r = r\<lparr>ri_state_injector := Some injector\<rparr>"

definition set_fallback :: "'fb \<Rightarrow> ('h, 'ext, 'fb) RouterInner \<Rightarrow> ('h, 'ext, 'fb) RouterInner" where
  "set_fallback fb r = r\<lparr>ri_fallback := Some fb\<rparr>"

subsection \<open>Patterns\<close>

text \<open>\<^verbatim>\<open>out.push(byte as char)\<close>: the character with that code, in UTF-8.\<close>

definition push_latin1 :: "char \<Rightarrow> string" where
  "push_latin1 c =
     (let n = of_char c :: nat
      in if n < 128 then [c] else [char_of (0xC0 + n div 64), char_of (0x80 + n mod 64)])"

function to_matchit_loop :: "nat \<Rightarrow> string \<Rightarrow> string" where
  "to_matchit_loop counter s =
     (case s of
        [] \<Rightarrow> []
      | c # r \<Rightarrow>
          (if c = CHR ''{'' then
             (case find_char CHR ''}'' r of
                Some rel_end \<Rightarrow>
                  (let inner = take rel_end r
                   in if inner = []
                      then ''{p'' @ dec counter @ ''}'' @ to_matchit_loop (counter + 1) (drop (rel_end + 1) r)
                      else ''{'' @ inner @ ''}'' @ to_matchit_loop counter (drop (rel_end + 1) r))
              | None \<Rightarrow> s)
           else push_latin1 c @ to_matchit_loop counter r))"
  by pat_completeness auto
termination by (relation "measure (\<lambda>(counter, s). length s)") auto

declare to_matchit_loop.simps [simp del]

definition to_matchit_pattern :: "string \<Rightarrow> string" where
  "to_matchit_pattern pat = to_matchit_loop 0 pat"

subsection \<open>Registration\<close>

definition add_route ::
  "matchit \<Rightarrow> string \<Rightarrow> string \<Rightarrow> match_fn \<Rightarrow> 'h \<Rightarrow> ('h, 'ext, 'fb) RouterInner \<Rightarrow>
   ('h, 'ext, 'fb) RouterInner" where
  "add_route mi method pattern match_fn handler r =
     (let idx = length (ri_routes r);
          matchit_pattern = to_matchit_pattern pattern;
          slot = method_slot method;
          bucket = ri_index r slot;
          bucket' = (case trie_insert mi matchit_pattern idx (mb_trie bucket) of
              Some t \<Rightarrow> bucket\<lparr>mb_trie := t\<rparr>
            | None \<Rightarrow> bucket\<lparr>mb_fallback := mb_fallback bucket @ [idx]\<rparr>);
          seen = matchit_pattern \<in> ri_any_seen r;
          any' = (if seen then Some (ri_any_trie r)
                  else trie_insert mi matchit_pattern () (ri_any_trie r))
      in r\<lparr>ri_methods_present := ri_methods_present r OR method_bit method,
           ri_index := (ri_index r)(slot := bucket'),
           ri_any_seen := insert matchit_pattern (ri_any_seen r),
           ri_any_trie := (case any' of Some t \<Rightarrow> t | None \<Rightarrow> ri_any_trie r),
           ri_any_has_fallback := (case any' of Some t \<Rightarrow> ri_any_has_fallback r | None \<Rightarrow> True),
           ri_routes := ri_routes r @
             [\<lparr>re_method = method, re_pattern = pattern, re_match_fn = match_fn,
               re_handler = handler\<rparr>]\<rparr>)"

subsection \<open>Lookup\<close>

definition strip_route_prefix :: "string option \<Rightarrow> string \<Rightarrow> string option" where
  "strip_route_prefix prefix_str path =
     (case prefix_str of
        Some prefix \<Rightarrow>
          (case strip_prefix prefix path of
             Some rest \<Rightarrow>
               (if rest = '''' then Some ''/''
                else if starts_with ''/'' rest then Some rest else None)
           | None \<Rightarrow> None)
      | None \<Rightarrow> Some (if path = '''' then ''/'' else path))"

definition lookup_in_bucket ::
  "matchit \<Rightarrow> MethodBucket \<Rightarrow> 'h RouteEntry list \<Rightarrow> string \<Rightarrow> nat option" where
  "lookup_in_bucket mi bucket routes lookup_path =
     (let segs = path_segments lookup_path;
          scan = (if mb_fallback bucket = [] then None
                  else find (\<lambda>i. re_match_fn (routes ! i) segs) (mb_fallback bucket))
      in case trie_at mi (mb_trie bucket) lookup_path of
           Some idx \<Rightarrow> if re_match_fn (routes ! idx) segs then Some idx else scan
         | None \<Rightarrow> scan)"

datatype LookupOutcome = Hit nat | MethodNotAllowed | NotFound

definition resolve :: "matchit \<Rightarrow> ('h, 'ext, 'fb) RouterInner \<Rightarrow> string \<Rightarrow> string \<Rightarrow> LookupOutcome" where
  "resolve mi r method lookup_path =
     (case lookup_in_bucket mi (ri_index r (method_slot method)) (ri_routes r) lookup_path of
        Some i \<Rightarrow> Hit i
      | None \<Rightarrow>
          (if ri_methods_present r = method_bit method then NotFound
           else
             let any_path_shape =
                   ri_any_has_fallback r \<or> trie_at mi (ri_any_trie r) lookup_path \<noteq> None;
                 path_matched = any_path_shape \<and>
                   list_ex (\<lambda>s. lookup_in_bucket mi (ri_index r s) (ri_routes r) lookup_path \<noteq> None)
                     all_slots
             in if path_matched then MethodNotAllowed else NotFound))"

definition find_handler_by_pattern ::
  "string \<Rightarrow> string \<Rightarrow> ('h, 'ext, 'fb) RouterInner \<Rightarrow> 'h option" where
  "find_handler_by_pattern method pattern r =
     map_option re_handler (find (\<lambda>e. re_method e = method \<and> re_pattern e = pattern) (ri_routes r))"

subsection \<open>Routing a request\<close>

record 'ext parts =
  pt_method :: string
  pt_path :: string
  pt_prefix_offset :: "nat option"
  pt_ext :: 'ext

text \<open>What a handler or the fallback service comes to: a response, or a panic of its future.\<close>

type_synonym reply = "(string response, unit) result"
type_synonym 'ext handler_fn = "'ext parts \<Rightarrow> bytes \<Rightarrow> reply"
type_synonym ('ext, 'body) fallback_fn = "'ext parts \<Rightarrow> 'body \<Rightarrow> reply"

definition make_status_response :: "nat \<Rightarrow> string \<Rightarrow> string response" where
  "make_status_response status body =
     \<lparr>rs_status = status, rs_headers = Map.empty, rs_body = body\<rparr>"

definition not_found_response :: "string response" where
  "not_found_response = make_status_response 404 ''Not Found''"

definition method_not_allowed_response :: "string response" where
  "method_not_allowed_response = make_status_response 405 ''Method Not Allowed''"

text \<open>
  \<open>collect_limited\<close> is \<^verbatim>\<open>http_body_util::Limited\<close> around the body, collected:
  \<open>None\<close> when the limit is exceeded or the body fails.
\<close>

definition collect_body_limited ::
  "(nat \<Rightarrow> 'body \<Rightarrow> bytes option) \<Rightarrow> 'body \<Rightarrow> nat \<Rightarrow> (bytes, string response) result" where
  "collect_body_limited collect_limited body max_bytes =
     (case collect_limited max_bytes body of
        Some bs \<Rightarrow> Ok bs
      | None \<Rightarrow> Err (make_status_response 413
          (''request body too large (max '' @ dec max_bytes @ '' bytes)'')))"

definition with_extensions :: "('h, 'ext, 'fb) RouterInner \<Rightarrow> 'ext parts \<Rightarrow> 'ext parts" where
  "with_extensions r pts =
     (let p1 = (case ri_prefix_str r of
                  Some prefix_str \<Rightarrow> pts\<lparr>pt_prefix_offset := Some (length prefix_str)\<rparr>
                | None \<Rightarrow> pts)
      in (case ri_state_injector r of
            Some injector \<Rightarrow> p1\<lparr>pt_ext := injector (pt_ext p1)\<rparr>
          | None \<Rightarrow> p1))"

definition route ::
  "matchit \<Rightarrow> (nat \<Rightarrow> 'body \<Rightarrow> bytes option) \<Rightarrow>
   ('ext handler_fn, 'ext, ('ext, 'body) fallback_fn) RouterInner \<Rightarrow> 'ext parts \<Rightarrow> 'body \<Rightarrow> reply" where
  "route mi collect_limited r pts body =
     (let miss = (case ri_fallback r of
                    Some fb \<Rightarrow> fb pts body
                  | None \<Rightarrow> Ok not_found_response)
      in case strip_route_prefix (ri_prefix_str r) (pt_path pts) of
           None \<Rightarrow> miss
         | Some lookup_path \<Rightarrow>
             (case resolve mi r (pt_method pts) lookup_path of
                Hit i \<Rightarrow>
                  (case collect_body_limited collect_limited body (ri_max_body_size r) of
                     Ok body_bytes \<Rightarrow> re_handler (ri_routes r ! i) (with_extensions r pts) body_bytes
                   | Err resp \<Rightarrow> Ok resp
                   | Panic \<Rightarrow> Panic)
              | MethodNotAllowed \<Rightarrow> Ok method_not_allowed_response
              | NotFound \<Rightarrow> miss))"

definition route_with_bytes ::
  "matchit \<Rightarrow> ('ext handler_fn, 'ext, 'fb) RouterInner \<Rightarrow> 'ext parts \<Rightarrow> bytes \<Rightarrow> reply" where
  "route_with_bytes mi r pts body_bytes =
     (case strip_route_prefix (ri_prefix_str r) (pt_path pts) of
        None \<Rightarrow> Ok not_found_response
      | Some lookup_path \<Rightarrow>
          (case resolve mi r (pt_method pts) lookup_path of
             Hit i \<Rightarrow> re_handler (ri_routes r ! i) (with_extensions r pts) body_bytes
           | MethodNotAllowed \<Rightarrow> Ok method_not_allowed_response
           | NotFound \<Rightarrow> Ok not_found_response))"

text \<open>\<^verbatim>\<open>RouterService::call\<close>: a panic becomes a 500.\<close>

definition router_service_call ::
  "matchit \<Rightarrow> (nat \<Rightarrow> 'body \<Rightarrow> bytes option) \<Rightarrow>
   ('ext handler_fn, 'ext, ('ext, 'body) fallback_fn) RouterInner \<Rightarrow> 'ext parts \<Rightarrow> 'body \<Rightarrow>
   string response" where
  "router_service_call mi collect_limited r pts body =
     (case route mi collect_limited r pts body of
        Ok response \<Rightarrow> response
      | _ \<Rightarrow> make_status_response 500 ''Internal Server Error'')"

subsection \<open>Well-formed routers\<close>

text \<open>
  What registration maintains: every index in a bucket is a route of that method's slot, under
  its own pattern in the trie; every route is in its bucket; the bits record the populated slots;
  and the unified trie knows every pattern of every bucket unless the flag says it may not.
\<close>

definition in_trie :: "('h, 'ext, 'fb) RouterInner \<Rightarrow> nat \<Rightarrow> bool" where
  "in_trie r i \<longleftrightarrow> i < length (ri_routes r) \<and>
     (to_matchit_pattern (re_pattern (ri_routes r ! i)), i)
       \<in> set (mb_trie (ri_index r (method_slot (re_method (ri_routes r ! i)))))"

definition in_fallback :: "('h, 'ext, 'fb) RouterInner \<Rightarrow> nat \<Rightarrow> bool" where
  "in_fallback r i \<longleftrightarrow> i < length (ri_routes r) \<and>
     i \<in> set (mb_fallback (ri_index r (method_slot (re_method (ri_routes r ! i)))))"

definition router_ok :: "('h, 'ext, 'fb) RouterInner \<Rightarrow> bool" where
  "router_ok r \<longleftrightarrow>
     (\<forall>s p i. (p, i) \<in> set (mb_trie (ri_index r s)) \<longrightarrow> i < length (ri_routes r) \<and>
        method_slot (re_method (ri_routes r ! i)) = s \<and>
        p = to_matchit_pattern (re_pattern (ri_routes r ! i))) \<and>
     (\<forall>s i. i \<in> set (mb_fallback (ri_index r s)) \<longrightarrow> i < length (ri_routes r) \<and>
        method_slot (re_method (ri_routes r ! i)) = s) \<and>
     (\<forall>i < length (ri_routes r). in_trie r i \<or> in_fallback r i) \<and>
     (\<forall>s. bit (ri_methods_present r) (slot_no s)
        \<longleftrightarrow> (\<exists>i < length (ri_routes r). method_slot (re_method (ri_routes r ! i)) = s)) \<and>
     ri_any_seen r = (\<lambda>e. to_matchit_pattern (re_pattern e)) ` set (ri_routes r) \<and>
     (ri_any_has_fallback r \<or>
        (\<forall>i < length (ri_routes r).
           to_matchit_pattern (re_pattern (ri_routes r ! i)) \<in> fst ` set (ri_any_trie r)))"

subsection \<open>Registration keeps routers well formed\<close>

lemma slot_no_inj: "slot_no s = slot_no t \<longleftrightarrow> s = t"
  by (cases s; cases t) simp_all

lemma slot_no_lt: "slot_no s < 8"
  by (cases s) simp_all

lemma bit_method_bit: "bit (method_bit m) (slot_no s) \<longleftrightarrow> s = method_slot m"
  using slot_no_lt [of s] slot_no_lt [of "method_slot m"]
  by (auto simp: method_bit_def bit_exp_iff slot_no_inj)

lemma router_new_ok: "router_ok router_new"
  by (auto simp: router_ok_def router_new_def)

lemma all_slots_mem: "s \<in> set all_slots"
  by (cases s) (simp_all add: all_slots_def)

lemma trie_insert_cases:
  "trie_insert mi p v t = None \<or> trie_insert mi p v t = Some (t @ [(p, v)])"
  by (simp add: trie_insert_def)

text \<open>The parts of the invariant.\<close>

lemma router_okD:
  assumes "router_ok r"
  shows "(p, i) \<in> set (mb_trie (ri_index r s)) \<Longrightarrow> i < length (ri_routes r) \<and>
      method_slot (re_method (ri_routes r ! i)) = s \<and>
      p = to_matchit_pattern (re_pattern (ri_routes r ! i))"
    and "i \<in> set (mb_fallback (ri_index r s)) \<Longrightarrow> i < length (ri_routes r) \<and>
      method_slot (re_method (ri_routes r ! i)) = s"
    and "i < length (ri_routes r) \<Longrightarrow> in_trie r i \<or> in_fallback r i"
    and "bit (ri_methods_present r) (slot_no s)
      \<longleftrightarrow> (\<exists>i < length (ri_routes r). method_slot (re_method (ri_routes r ! i)) = s)"
    and "ri_any_seen r = (\<lambda>e. to_matchit_pattern (re_pattern e)) ` set (ri_routes r)"
    and "\<not> ri_any_has_fallback r \<Longrightarrow> i < length (ri_routes r) \<Longrightarrow>
      to_matchit_pattern (re_pattern (ri_routes r ! i)) \<in> fst ` set (ri_any_trie r)"
proof -
  note c = assms [unfolded router_ok_def]
  note c1 = c [THEN conjunct1] and c2 = c [THEN conjunct2]
  note c3 = c2 [THEN conjunct2] note c4 = c3 [THEN conjunct2] note c5 = c4 [THEN conjunct2]
  show "(p, i) \<in> set (mb_trie (ri_index r s)) \<Longrightarrow> i < length (ri_routes r) \<and>
      method_slot (re_method (ri_routes r ! i)) = s \<and>
      p = to_matchit_pattern (re_pattern (ri_routes r ! i))"
    using c1 by blast
  show "i \<in> set (mb_fallback (ri_index r s)) \<Longrightarrow> i < length (ri_routes r) \<and>
      method_slot (re_method (ri_routes r ! i)) = s"
    using c2 [THEN conjunct1] by blast
  show "i < length (ri_routes r) \<Longrightarrow> in_trie r i \<or> in_fallback r i"
    using c3 [THEN conjunct1] by blast
  show "bit (ri_methods_present r) (slot_no s)
      \<longleftrightarrow> (\<exists>i < length (ri_routes r). method_slot (re_method (ri_routes r ! i)) = s)"
    using c4 [THEN conjunct1] by blast
  show "ri_any_seen r = (\<lambda>e. to_matchit_pattern (re_pattern e)) ` set (ri_routes r)"
    by (rule c5 [THEN conjunct1])
  show "\<not> ri_any_has_fallback r \<Longrightarrow> i < length (ri_routes r) \<Longrightarrow>
      to_matchit_pattern (re_pattern (ri_routes r ! i)) \<in> fst ` set (ri_any_trie r)"
    using c5 [THEN conjunct2] by blast
qed

lemma add_route_ok:
  assumes ok: "router_ok r"
  shows "router_ok (add_route mi method pattern mf h r)"
proof -
  let ?r = "add_route mi method pattern mf h r"
  let ?n = "length (ri_routes r)" and ?p = "to_matchit_pattern pattern"
  let ?s = "method_slot method"
  let ?e = "\<lparr>re_method = method, re_pattern = pattern, re_match_fn = mf, re_handler = h\<rparr>"
  have routes: "ri_routes ?r = ri_routes r @ [?e]"
    by (simp add: add_route_def Let_def)
  have old: "ri_routes ?r ! i = ri_routes r ! i" if "i < ?n" for i
    using that by (simp add: routes nth_append)
  have new: "ri_routes ?r ! ?n = ?e"
    by (simp add: routes nth_append)
  have len: "length (ri_routes ?r) = Suc ?n" by (simp add: routes)
  have trie: "mb_trie (ri_index ?r s) = mb_trie (ri_index r s) @
      (if s = ?s \<and> trie_insert mi ?p ?n (mb_trie (ri_index r ?s)) \<noteq> None then [(?p, ?n)] else [])" for s
    using trie_insert_cases [of mi ?p ?n "mb_trie (ri_index r ?s)"]
    by (auto simp: add_route_def Let_def)
  have fb: "mb_fallback (ri_index ?r s) = mb_fallback (ri_index r s) @
      (if s = ?s \<and> trie_insert mi ?p ?n (mb_trie (ri_index r ?s)) = None then [?n] else [])" for s
    using trie_insert_cases [of mi ?p ?n "mb_trie (ri_index r ?s)"]
    by (auto simp: add_route_def Let_def)
  have any: "ri_any_has_fallback ?r \<or> (fst ` set (ri_any_trie r) \<subseteq> fst ` set (ri_any_trie ?r) \<and>
      (?p \<in> ri_any_seen r \<or> ?p \<in> fst ` set (ri_any_trie ?r)) \<and>
      ri_any_has_fallback ?r = ri_any_has_fallback r)"
    using trie_insert_cases [of mi ?p "()" "ri_any_trie r"]
    by (auto simp: add_route_def Let_def)
  have "in_trie r i \<Longrightarrow> in_trie ?r i" "in_fallback r i \<Longrightarrow> in_fallback ?r i" for i
    by (auto simp: in_trie_def in_fallback_def old trie fb len)
  moreover have "in_trie ?r ?n \<or> in_fallback ?r ?n"
    by (auto simp: in_trie_def in_fallback_def new trie fb len)
  ultimately have cover: "\<forall>i < length (ri_routes ?r). in_trie ?r i \<or> in_fallback ?r i"
    using router_okD(3) [OF ok] by (auto simp: len less_Suc_eq)
  have bits: "bit (ri_methods_present ?r) (slot_no s)
      \<longleftrightarrow> (\<exists>i < length (ri_routes ?r). method_slot (re_method (ri_routes ?r ! i)) = s)" for s
  proof -
    have "bit (ri_methods_present ?r) (slot_no s)
        \<longleftrightarrow> bit (ri_methods_present r) (slot_no s) \<or> s = ?s"
      by (simp add: add_route_def Let_def bit_or_iff bit_method_bit)
    then show ?thesis
      using router_okD(4) [OF ok, of s] by (auto simp: len less_Suc_eq old new)
  qed
  have seen: "ri_any_seen ?r = (\<lambda>e. to_matchit_pattern (re_pattern e)) ` set (ri_routes ?r)"
    using router_okD(5) [OF ok] unfolding routes by (auto simp: add_route_def Let_def)
  have anyall: "ri_any_has_fallback ?r \<or> (\<forall>i < length (ri_routes ?r).
      to_matchit_pattern (re_pattern (ri_routes ?r ! i)) \<in> fst ` set (ri_any_trie ?r))"
  proof (cases "ri_any_has_fallback ?r")
    case False
    with any have nf: "\<not> ri_any_has_fallback r" and sub: "fst ` set (ri_any_trie r) \<subseteq> fst ` set (ri_any_trie ?r)"
      and p: "?p \<in> ri_any_seen r \<or> ?p \<in> fst ` set (ri_any_trie ?r)" by blast+
    have "?p \<in> fst ` set (ri_any_trie ?r)"
    proof (cases "?p \<in> ri_any_seen r")
      case True
      then obtain e where "e \<in> set (ri_routes r)" "?p = to_matchit_pattern (re_pattern e)"
        unfolding router_okD(5) [OF ok] by blast
      then obtain i where "i < ?n" "?p = to_matchit_pattern (re_pattern (ri_routes r ! i))"
        by (auto simp: in_set_conv_nth)
      then show ?thesis using router_okD(6) [OF ok nf, of i] sub by auto
    qed (use p in blast)
    then show ?thesis
      using router_okD(6) [OF ok nf] sub by (auto simp: len less_Suc_eq old new)
  qed simp
  show ?thesis
    unfolding router_ok_def
  proof (intro conjI allI impI)
    fix s p i assume "(p, i) \<in> set (mb_trie (ri_index ?r s))"
    then show "i < length (ri_routes ?r)" "method_slot (re_method (ri_routes ?r ! i)) = s"
      "p = to_matchit_pattern (re_pattern (ri_routes ?r ! i))"
      using router_okD(1) [OF ok, of p i s]
      by (auto simp: trie len old new split: if_splits)
  next
    fix s i assume "i \<in> set (mb_fallback (ri_index ?r s))"
    then show "i < length (ri_routes ?r)" "method_slot (re_method (ri_routes ?r ! i)) = s"
      using router_okD(2) [OF ok, of i s] by (auto simp: fb len old new split: if_splits)
  qed (use cover bits seen anyall in auto)
qed

subsection \<open>Lookup against its specification\<close>

text \<open>
  What the code relies on of \<^verbatim>\<open>matchit\<close>: for some relation \<open>shape\<close> between
  patterns and paths, a pattern is selected exactly when an inserted one has the path's shape.
\<close>

definition matchit_ok :: "matchit \<Rightarrow> (string \<Rightarrow> string \<Rightarrow> bool) \<Rightarrow> bool" where
  "matchit_ok mi shape \<longleftrightarrow>
     (\<forall>ps path. case mi_select mi ps path of
        Some p \<Rightarrow> p \<in> set ps \<and> shape p path
      | None \<Rightarrow> list_all (\<lambda>p. \<not> shape p path) ps)"

text \<open>The routes kept in a linear fallback match only paths of their pattern's shape.\<close>

definition fallback_shaped ::
  "(string \<Rightarrow> string \<Rightarrow> bool) \<Rightarrow> ('h, 'ext, 'fb) RouterInner \<Rightarrow> string \<Rightarrow> bool" where
  "fallback_shaped shape r path \<longleftrightarrow>
     (\<forall>i. in_fallback r i \<longrightarrow> re_match_fn (ri_routes r ! i) (path_segments path) \<longrightarrow>
        shape (to_matchit_pattern (re_pattern (ri_routes r ! i))) path)"

text \<open>The lookup without the two shortcuts.\<close>

definition resolve_spec :: "matchit \<Rightarrow> ('h, 'ext, 'fb) RouterInner \<Rightarrow> string \<Rightarrow> string \<Rightarrow> LookupOutcome" where
  "resolve_spec mi r method path =
     (case lookup_in_bucket mi (ri_index r (method_slot method)) (ri_routes r) path of
        Some i \<Rightarrow> Hit i
      | None \<Rightarrow>
          (if \<exists>s. lookup_in_bucket mi (ri_index r s) (ri_routes r) path \<noteq> None
           then MethodNotAllowed else NotFound))"

lemma matchit_okD:
  assumes "matchit_ok mi shape"
  shows "mi_select mi ps path = Some p \<Longrightarrow> p \<in> set ps \<and> shape p path"
    and "mi_select mi ps path = None \<Longrightarrow> p \<in> set ps \<Longrightarrow> \<not> shape p path"
  using assms [unfolded matchit_ok_def, THEN spec, of ps, THEN spec, of path] by (simp_all add: list_all_iff)

lemma trie_at_Some:
  assumes "matchit_ok mi shape" "trie_at mi t path = Some v"
  shows "\<exists>p. (p, v) \<in> set t \<and> shape p path"
  using assms(2) matchit_okD(1) [OF assms(1), of "map fst t" path]
  by (auto simp: trie_at_def bind_eq_Some_conv dest: map_of_SomeD)

lemma trie_at_None:
  assumes "matchit_ok mi shape" "trie_at mi t path = None" "(p, v) \<in> set t"
  shows "\<not> shape p path"
proof (cases "mi_select mi (map fst t) path")
  case None
  moreover have "p \<in> set (map fst t)" using assms(3) by force
  ultimately show ?thesis using matchit_okD(2) [OF assms(1)] by blast
next
  case (Some q)
  then have "q \<in> set (map fst t)" using matchit_okD(1) [OF assms(1)] by blast
  then have "map_of t q \<noteq> None" by (simp add: map_of_eq_None_iff)
  with Some assms(2) show ?thesis by (simp add: trie_at_def)
qed

lemma lookup_sound:
  assumes ok: "router_ok r" and mi: "matchit_ok mi shape"
    and "lookup_in_bucket mi (ri_index r s) (ri_routes r) path = Some i"
  shows "i < length (ri_routes r)" "method_slot (re_method (ri_routes r ! i)) = s"
    "re_match_fn (ri_routes r ! i) (path_segments path)"
    "shape (to_matchit_pattern (re_pattern (ri_routes r ! i))) path \<or> in_fallback r i"
proof -
  consider (t) "trie_at mi (mb_trie (ri_index r s)) path = Some i"
      "re_match_fn (ri_routes r ! i) (path_segments path)"
    | (f) "find (\<lambda>i. re_match_fn (ri_routes r ! i) (path_segments path))
        (mb_fallback (ri_index r s)) = Some i"
    using assms(3) by (auto simp: lookup_in_bucket_def Let_def split: option.splits if_splits)
  then have "i < length (ri_routes r) \<and> method_slot (re_method (ri_routes r ! i)) = s \<and>
      re_match_fn (ri_routes r ! i) (path_segments path) \<and>
      (shape (to_matchit_pattern (re_pattern (ri_routes r ! i))) path \<or> in_fallback r i)"
  proof cases
    case t
    from trie_at_Some [OF mi t(1)] obtain p where p: "(p, i) \<in> set (mb_trie (ri_index r s))"
      "shape p path" by blast
    with router_okD(1) [OF ok p(1)] t(2) show ?thesis by simp
  next
    case f
    then have "i \<in> set (mb_fallback (ri_index r s))"
      "re_match_fn (ri_routes r ! i) (path_segments path)"
      by (auto simp: find_Some_iff in_set_conv_nth)
    with router_okD(2) [OF ok this(1)] show ?thesis by (auto simp: in_fallback_def)
  qed
  then show "i < length (ri_routes r)" "method_slot (re_method (ri_routes r ! i)) = s"
    "re_match_fn (ri_routes r ! i) (path_segments path)"
    "shape (to_matchit_pattern (re_pattern (ri_routes r ! i))) path \<or> in_fallback r i"
    by blast+
qed

lemma resolve_fast_path:
  assumes ok: "router_ok r" and mi: "matchit_ok mi shape"
    and "ri_methods_present r = method_bit method"
    and "lookup_in_bucket mi (ri_index r s) (ri_routes r) path = Some i"
  shows "s = method_slot method"
proof -
  from lookup_sound(1,2) [OF ok mi assms(4)] have "bit (ri_methods_present r) (slot_no s)"
    unfolding router_okD(4) [OF ok] by blast
  then show ?thesis unfolding assms(3) by (simp add: bit_method_bit)
qed

lemma resolve_shape_path:
  assumes ok: "router_ok r" and mi: "matchit_ok mi shape" and fb: "fallback_shaped shape r path"
    and "\<not> ri_any_has_fallback r" "trie_at mi (ri_any_trie r) path = None"
  shows "lookup_in_bucket mi (ri_index r s) (ri_routes r) path = None"
proof (rule ccontr)
  assume "lookup_in_bucket mi (ri_index r s) (ri_routes r) path \<noteq> None"
  then obtain i where i: "lookup_in_bucket mi (ri_index r s) (ri_routes r) path = Some i" by blast
  note l = lookup_sound [OF ok mi i]
  have sh: "shape (to_matchit_pattern (re_pattern (ri_routes r ! i))) path"
    using l(3,4) fb by (auto simp: fallback_shaped_def)
  from router_okD(6) [OF ok assms(4) l(1)] obtain u where
    "(to_matchit_pattern (re_pattern (ri_routes r ! i)), u) \<in> set (ri_any_trie r)" by force
  from trie_at_None [OF mi assms(5) this] sh show False by blast
qed

lemma resolve_eq_spec:
  assumes ok: "router_ok r" and mi: "matchit_ok mi shape" and fb: "fallback_shaped shape r path"
  shows "resolve mi r method path = resolve_spec mi r method path"
proof (cases "lookup_in_bucket mi (ri_index r (method_slot method)) (ri_routes r) path")
  case None
  have ex: "list_ex (\<lambda>s. lookup_in_bucket mi (ri_index r s) (ri_routes r) path \<noteq> None) all_slots
      \<longleftrightarrow> (\<exists>s. lookup_in_bucket mi (ri_index r s) (ri_routes r) path \<noteq> None)"
    using all_slots_mem by (auto simp: list_ex_iff)
  show ?thesis
  proof (cases "ri_methods_present r = method_bit method")
    case True
    then have "\<not> (\<exists>s. lookup_in_bucket mi (ri_index r s) (ri_routes r) path \<noteq> None)"
      using resolve_fast_path [OF ok mi True] None by fastforce
    then show ?thesis using True None by (simp add: resolve_def resolve_spec_def)
  next
    case False
    show ?thesis
    proof (cases "ri_any_has_fallback r \<or> trie_at mi (ri_any_trie r) path \<noteq> None")
      case True
      then show ?thesis
        using False None ex by (simp add: resolve_def resolve_spec_def Let_def)
    next
      case nshape: False
      then have "\<not> (\<exists>s. lookup_in_bucket mi (ri_index r s) (ri_routes r) path \<noteq> None)"
        using resolve_shape_path [OF ok mi fb] by fastforce
      then show ?thesis
        using nshape None by (simp add: resolve_def resolve_spec_def Let_def)
    qed
  qed
qed (simp add: resolve_def resolve_spec_def)

text \<open>The prefix and the extractor.\<close>

lemma strip_route_prefix_segments:
  assumes "strip_route_prefix prefix path = Some lp"
  shows "path_segments (drop (case prefix of Some p \<Rightarrow> length p | None \<Rightarrow> 0) path) = path_segments lp"
    "(case prefix of Some p \<Rightarrow> length p | None \<Rightarrow> 0) \<le> length path"
  using assms
  by (auto simp: strip_route_prefix_def strip_prefix_Some split: option.splits if_splits)

subsection \<open>Patterns of path types\<close>

text \<open>The segments of the pattern a path type registers: captures are numbered from left to right.\<close>

fun matchit_segments :: "nat \<Rightarrow> 'ty path_segment list \<Rightarrow> string list" where
  "matchit_segments k [] = []"
| "matchit_segments k (Lit l # p) = l # matchit_segments k p"
| "matchit_segments k (Capture ty # p) = (''{p'' @ dec k @ ''}'') # matchit_segments (Suc k) p"
| "matchit_segments k (CaptureRest # p) = [''{*rest}'']"

definition plain_literal :: "string \<Rightarrow> bool" where
  "plain_literal l \<longleftrightarrow> CHR ''{'' \<notin> set l \<and> list_all (\<lambda>c. (of_char c :: nat) < 128) l"

definition plain_path :: "'ty path_segment list \<Rightarrow> bool" where
  "plain_path p \<longleftrightarrow> (\<forall>l. Lit l \<in> set p \<longrightarrow> plain_literal l)"

lemma to_matchit_plain:
  "plain_literal l \<Longrightarrow> to_matchit_loop k (l @ s) = l @ to_matchit_loop k s"
proof (induction l)
  case (Cons c l)
  then show ?case
    by (subst to_matchit_loop.simps) (auto simp: plain_literal_def push_latin1_def)
qed simp

lemma to_matchit_slash: "to_matchit_loop k (CHR ''/'' # s) = CHR ''/'' # to_matchit_loop k s"
  by (subst to_matchit_loop.simps) (simp add: push_latin1_def)

lemma to_matchit_capture:
  "to_matchit_loop k (''{}'' @ s) = ''{p'' @ dec k @ ''}'' @ to_matchit_loop (Suc k) s"
  by (subst to_matchit_loop.simps) simp

lemma to_matchit_rest: "to_matchit_loop k ''{*rest}'' = ''{*rest}''"
  by (simp add: to_matchit_loop.simps)

lemma to_matchit_path:
  "plain_path p \<Longrightarrow> to_matchit_loop k (path_pattern p) = join_path (matchit_segments k p)"
proof (induction p arbitrary: k)
  case Nil
  then show ?case by (simp add: to_matchit_loop.simps join_path_def)
next
  case (Cons x p)
  have p: "plain_path p" using Cons.prems by (auto simp: plain_path_def)
  show ?case
  proof (cases x)
    case (Lit l)
    then have "plain_literal l" using Cons.prems by (simp add: plain_path_def)
    then show ?thesis
      using Cons.IH [OF p] by (simp add: Lit to_matchit_slash to_matchit_plain join_path_def)
  next
    case (Capture ty)
    then show ?thesis
      using Cons.IH [OF p, of "Suc k"] to_matchit_capture [of k "path_pattern p"]
      by (simp add: to_matchit_slash join_path_def)
  next
    case CaptureRest
    then show ?thesis
      using to_matchit_rest [of k] by (simp add: to_matchit_slash join_path_def)
  qed
qed

lemma dec_inj: "dec m = dec n \<Longrightarrow> m = n"
  by (metis digits_val_dec option.inject)

lemma capture_names_ge:
  "(''{p'' @ dec j @ ''}'') \<in> set (matchit_segments k p) \<Longrightarrow> plain_path p \<Longrightarrow> k \<le> j"
proof (induction k p rule: matchit_segments.induct)
  case (2 k l p)
  then show ?case by (auto simp: plain_path_def plain_literal_def)
next
  case (3 k ty p)
  then show ?case by (auto simp: plain_path_def dest: dec_inj)
qed (auto simp: plain_path_def)

subsection \<open>A concrete trie, for the witnesses\<close>

fun shape_segments :: "string list \<Rightarrow> string list \<Rightarrow> bool" where
  "shape_segments [] segs = (segs = [])"
| "shape_segments (p # ps) segs =
     (if starts_with ''{*'' p then segs \<noteq> [] \<and> segs \<noteq> ['''']
      else (case segs of
              [] \<Rightarrow> False
            | s # ss \<Rightarrow> (if starts_with ''{'' p then s \<noteq> '''' else p = s) \<and> shape_segments ps ss))"

definition simple_shape :: "string \<Rightarrow> string \<Rightarrow> bool" where
  "simple_shape p path = shape_segments (split_on CHR ''/'' p) (split_on CHR ''/'' path)"

definition simple_matchit :: matchit where
  "simple_matchit = \<lparr>mi_conflict = (\<lambda>ps p. p \<in> set ps),
     mi_select = (\<lambda>ps path. find (\<lambda>p. simple_shape p path) ps)\<rparr>"

lemma simple_matchit_ok: "matchit_ok simple_matchit simple_shape"
  unfolding matchit_ok_def simple_matchit_def
  by (auto simp: find_None_iff find_Some_iff list_all_iff split: option.splits)

text \<open>A router as registration builds it.\<close>

fun register_all ::
  "matchit \<Rightarrow> (string \<times> string \<times> match_fn \<times> 'h) list \<Rightarrow> ('h, 'ext, 'fb) RouterInner \<Rightarrow>
   ('h, 'ext, 'fb) RouterInner" where
  "register_all mi [] r = r"
| "register_all mi ((m, p, f, h) # rs) r = register_all mi rs (add_route mi m p f h r)"

text \<open>Two routes of one shape under GET, and one of another shape under POST.\<close>

definition twin_routes :: "(string \<times> string \<times> match_fn \<times> string) list" where
  "twin_routes =
     [(''GET'', ''/u/{}'', \<lambda>segs. segs = [''u'', ''0''], ''a''),
      (''GET'', ''/u/{}'', \<lambda>segs. length segs = 2 \<and> hd segs = ''u'', ''b''),
      (''POST'', ''/v'', \<lambda>segs. segs = [''v''], ''c'')]"

definition twin_router :: "(string, unit, unit) RouterInner" where
  "twin_router = register_all simple_matchit twin_routes router_new"

lemma twin_router_ok: "router_ok twin_router"
  by (simp add: twin_router_def twin_routes_def add_route_ok router_new_ok)

lemma twin_patterns: "to_matchit_pattern ''/u/{}'' = ''/u/{p0}''" "to_matchit_pattern ''/v'' = ''/v''"
  by (simp_all add: to_matchit_pattern_def to_matchit_loop.simps push_latin1_def dec.simps
      digit_char_def char_of_def bit_0)

lemma twin_router_parts:
  "ri_index twin_router GET = \<lparr>mb_trie = [(''/u/{p0}'', 0)], mb_fallback = [1]\<rparr>"
  "ri_index twin_router POST = \<lparr>mb_trie = [(''/v'', 2)], mb_fallback = []\<rparr>"
  "s \<noteq> GET \<Longrightarrow> s \<noteq> POST \<Longrightarrow> ri_index twin_router s = \<lparr>mb_trie = [], mb_fallback = []\<rparr>"
  "ri_any_trie twin_router = [(''/u/{p0}'', ()), (''/v'', ())]"
  "ri_any_has_fallback twin_router = False"
  "ri_methods_present twin_router = 3"
  by (simp_all add: twin_router_def twin_routes_def add_route_def router_new_def trie_insert_def simple_matchit_def
      twin_patterns method_slot_def method_bit_def Let_def)

lemma twin_router_routes:
  "ri_routes twin_router =
    [\<lparr>re_method = ''GET'', re_pattern = ''/u/{}'', re_match_fn = (\<lambda>segs. segs = [''u'', ''0'']),
       re_handler = ''a''\<rparr>,
     \<lparr>re_method = ''GET'', re_pattern = ''/u/{}'',
       re_match_fn = (\<lambda>segs. length segs = 2 \<and> hd segs = ''u''), re_handler = ''b''\<rparr>,
     \<lparr>re_method = ''POST'', re_pattern = ''/v'', re_match_fn = (\<lambda>segs. segs = [''v'']),
       re_handler = ''c''\<rparr>]"
  by (simp add: twin_router_def twin_routes_def add_route_def router_new_def Let_def)

subsection \<open>Properties\<close>

lemma register_all_ok: "router_ok r \<Longrightarrow> router_ok (register_all mi rs r)"
  by (induction mi rs r rule: register_all.induct) (simp_all add: add_route_ok)

lemma register_all_routes:
  "ri_routes (register_all mi rs r) = ri_routes r @
    map (\<lambda>(m, p, f, h). \<lparr>re_method = m, re_pattern = p, re_match_fn = f, re_handler = h\<rparr>) rs"
  by (induction mi rs r rule: register_all.induct) (simp_all add: add_route_def Let_def)

text \<open>Registration never drops a route: after any sequence of registrations, whatever the trie
  refuses, the routes are the registered ones in order, every one of them is in the trie or in the
  fallback of its method's bucket, no bucket holds anything else, and the method bits and the
  unified trie are right about all of them.\<close>

theorem registration_keeps_routes:
  assumes "r = register_all mi rs router_new"
  shows "router_ok r \<and> map re_handler (ri_routes r) = map (\<lambda>(m, p, f, h). h) rs \<and>
   list_all (\<lambda>i. in_trie r i \<or> in_fallback r i) [0..<length rs]"
proof -
  have ok: "router_ok r" unfolding assms by (rule register_all_ok [OF router_new_ok])
  have "map re_handler (ri_routes r) = map (\<lambda>(m, p, f, h). h) rs" "length (ri_routes r) = length rs"
    unfolding assms by (auto simp: register_all_routes router_new_def)
  then show ?thesis using ok router_okD(3) [OF ok] by (simp add: list_all_iff)
qed

theorem registration_keeps_routes_witness:
  "router_ok twin_router \<and> map re_handler (ri_routes twin_router) = map (\<lambda>(m, p, f, h). h) twin_routes \<and>
   list_all (\<lambda>i. in_trie twin_router i \<or> in_fallback twin_router i) [0..<length twin_routes]"
  by (rule registration_keeps_routes [OF twin_router_def])

text \<open>C1. The lookup with its two shortcuts (only one method registered; no registered pattern of
  the path's shape) decides hit, 405 and 404 exactly as the lookup that walks every bucket, as
  long as routes in a linear fallback match only paths of their pattern's shape.\<close>

theorem resolve_shortcuts_sound:
  assumes "router_ok r" "matchit_ok mi shape" "fallback_shaped shape r path"
  shows "resolve mi r method path = resolve_spec mi r method path"
  using assms by (rule resolve_eq_spec)

theorem resolve_shortcuts_sound_witness:
  "resolve simple_matchit twin_router ''DELETE'' ''/u/7''
    = resolve_spec simple_matchit twin_router ''DELETE'' ''/u/7''"
proof (rule resolve_shortcuts_sound [OF twin_router_ok simple_matchit_ok])
  have "simple_shape ''/u/{p0}'' ''/u/7''"
    by (simp add: simple_shape_def starts_with_def)
  moreover have "in_fallback twin_router i \<Longrightarrow> i = 1" for i
    by (auto simp: in_fallback_def twin_router_routes twin_router_parts method_slot_def
        less_Suc_eq numeral_3_eq_3)
  moreover have "to_matchit_pattern (re_pattern (ri_routes twin_router ! 1)) = ''/u/{p0}''"
    by (simp add: twin_router_routes twin_patterns)
  ultimately show "fallback_shaped simple_shape twin_router ''/u/7''"
    unfolding fallback_shaped_def by metis
qed

text \<open>Without that condition the shortcut is wrong: two routes of one shape put the second one
  in the fallback, which splits the path and so ignores a trailing slash; GET then finds it under
  the slashed path, while DELETE on the same path is told 404 and not 405, because the unified
  trie does not know the slashed path.\<close>

theorem shortcut_misses_fallback:
  "resolve simple_matchit twin_router ''GET'' ''/u/7/'' = Hit 1 \<and>
   resolve simple_matchit twin_router ''DELETE'' ''/u/7/'' = NotFound \<and>
   resolve_spec simple_matchit twin_router ''DELETE'' ''/u/7/'' = MethodNotAllowed"
proof -
  have at: "trie_at simple_matchit [(''/u/{p0}'', v :: nat)] ''/u/7/'' = None"
    "trie_at simple_matchit [(''/v'', w :: nat)] ''/u/7/'' = None"
    "trie_at simple_matchit [] ''/u/7/'' = (None :: nat option)"
    "trie_at simple_matchit [(''/u/{p0}'', x :: unit), (''/v'', y)] ''/u/7/'' = None" for v w x y
    by (simp_all add: trie_at_def simple_matchit_def simple_shape_def starts_with_def)
  have segs: "path_segments ''u/7/'' = [''u'', ''7'']"
    by (simp add: path_segments_def)
  have get: "lookup_in_bucket simple_matchit (ri_index twin_router GET) (ri_routes twin_router) ''/u/7/''
      = Some 1"
    by (simp add: lookup_in_bucket_def twin_router_parts twin_router_routes at segs)
  have del: "lookup_in_bucket simple_matchit (ri_index twin_router DELETE) (ri_routes twin_router) ''/u/7/''
      = None"
    by (simp add: lookup_in_bucket_def twin_router_parts at)
  have "method_bit ''DELETE'' = 8" by (simp add: method_bit_def method_slot_def)
  moreover have "\<exists>s. lookup_in_bucket simple_matchit (ri_index twin_router s)
      (ri_routes twin_router) ''/u/7/'' \<noteq> None"
    using get by (metis option.distinct(1))
  ultimately show ?thesis
    using get del
    by (auto simp: resolve_def resolve_spec_def method_slot_def twin_router_parts at)
qed

lemma resolve_hit:
  assumes "router_ok r" "matchit_ok mi shape" "resolve mi r method path = Hit i"
  shows "i < length (ri_routes r) \<and> method_slot (re_method (ri_routes r ! i)) = method_slot method \<and>
    re_match_fn (ri_routes r ! i) (path_segments path)"
proof -
  from assms(3) have "lookup_in_bucket mi (ri_index r (method_slot method)) (ri_routes r) path = Some i"
    by (auto simp: resolve_def Let_def split: option.splits if_splits)
  from lookup_sound [OF assms(1,2) this] show ?thesis by simp
qed

text \<open>A hit is a registered route of the request's method whose match function accepts the
  segments of the path; a 405 means that a route of another method does.\<close>

theorem resolve_outcome_sound:
  assumes "router_ok r" "matchit_ok mi shape"
  shows "case resolve mi r method path of
      Hit i \<Rightarrow> i < length (ri_routes r) \<and>
        method_slot (re_method (ri_routes r ! i)) = method_slot method \<and>
        re_match_fn (ri_routes r ! i) (path_segments path)
    | MethodNotAllowed \<Rightarrow> (\<exists>i. i < length (ri_routes r) \<and>
        method_slot (re_method (ri_routes r ! i)) \<noteq> method_slot method \<and>
        re_match_fn (ri_routes r ! i) (path_segments path))
    | NotFound \<Rightarrow> True"
proof (cases "lookup_in_bucket mi (ri_index r (method_slot method)) (ri_routes r) path")
  case (Some i)
  then show ?thesis using lookup_sound [OF assms Some] by (simp add: resolve_def)
next
  case None
  show ?thesis
  proof (cases "resolve mi r method path")
    case MethodNotAllowed
    then obtain s j where j: "lookup_in_bucket mi (ri_index r s) (ri_routes r) path = Some j"
      using None by (auto simp: resolve_def Let_def list_ex_iff split: if_splits)
    then have "s \<noteq> method_slot method" using None by auto
    with lookup_sound [OF assms j] MethodNotAllowed show ?thesis by auto
  qed (use None in \<open>auto simp: resolve_def Let_def split: if_splits\<close>)
qed

theorem resolve_outcome_sound_witness:
  "case resolve simple_matchit twin_router ''GET'' ''/u/7/'' of
      Hit i \<Rightarrow> i < length (ri_routes twin_router) \<and>
        method_slot (re_method (ri_routes twin_router ! i)) = method_slot ''GET'' \<and>
        re_match_fn (ri_routes twin_router ! i) (path_segments ''/u/7/'')
    | MethodNotAllowed \<Rightarrow> (\<exists>i. i < length (ri_routes twin_router) \<and>
        method_slot (re_method (ri_routes twin_router ! i)) \<noteq> method_slot ''GET'' \<and>
        re_match_fn (ri_routes twin_router ! i) (path_segments ''/u/7/''))
    | NotFound \<Rightarrow> True"
  by (rule resolve_outcome_sound [OF twin_router_ok simple_matchit_ok])

text \<open>C2. Router and extractor agree: when a request under the configured prefix hits the route of
  a typed endpoint, the \<^verbatim>\<open>Path\<close> extractor of its handler, which splits the full
  path again behind the offset the router stored, never fails, and it yields the captures of that
  path type.\<close>

theorem hit_path_extracts:
  assumes "router_ok r" "matchit_ok mi shape"
    and "strip_route_prefix (ri_prefix_str r) (pt_path pts) = Some path"
    and "resolve mi r (pt_method pts) path = Hit i"
    and "re_match_fn (ri_routes r ! i) = (\<lambda>segs. extract_path parse p segs \<noteq> None)"
    and "pt_prefix_offset pts = None"
  shows "\<exists>vs. path_from_request parse p (pt_prefix_offset (with_extensions r pts))
      (pt_path (with_extensions r pts)) = Ok vs \<and> length vs = captures p"
proof -
  have off: "(case pt_prefix_offset (with_extensions r pts) of Some o' \<Rightarrow> o' | None \<Rightarrow> 0)
      = (case ri_prefix_str r of Some s \<Rightarrow> length s | None \<Rightarrow> 0)"
    "pt_path (with_extensions r pts) = pt_path pts"
    using assms(6) by (auto simp: with_extensions_def Let_def split: option.splits)
  note seg = strip_route_prefix_segments [OF assms(3)]
  from resolve_hit [OF assms(1,2,4)] have "re_match_fn (ri_routes r ! i) (path_segments path)" by simp
  then obtain vs where vs: "extract_path parse p (path_segments path) = Some vs"
    using assms(5) by auto
  then show ?thesis
    using length_extract_path [OF vs] seg unfolding path_from_request_def off
    by (simp add: Let_def)
qed

definition typed_router :: "(unit, unit, unit) RouterInner" where
  "typed_router = set_prefix ''api/'' (add_route simple_matchit ''GET''
     (path_pattern [Lit ''u'', Capture ()])
     (\<lambda>segs. extract_path (\<lambda>_ s. Some s) [Lit ''u'', Capture ()] segs \<noteq> None) () router_new)"

lemma typed_router_parts:
  "ri_index typed_router GET = \<lparr>mb_trie = [(''/u/{p0}'', 0)], mb_fallback = []\<rparr>"
  "ri_prefix_str typed_router = Some ''/api''"
  "ri_routes typed_router = [\<lparr>re_method = ''GET'', re_pattern = ''/u/{}'',
     re_match_fn = (\<lambda>segs. extract_path (\<lambda>_ s. Some s) [Lit ''u'', Capture ()] segs \<noteq> None),
     re_handler = ()\<rparr>]"
  by (simp_all add: typed_router_def set_prefix_def path_segments_def join_path_def add_route_def
      router_new_def trie_insert_def simple_matchit_def twin_patterns method_slot_def Let_def)

lemma typed_router_ok: "router_ok typed_router"
proof -
  have "router_ok r \<Longrightarrow> router_ok (set_prefix pre r)" for r :: "(unit, unit, unit) RouterInner" and pre
    by (simp add: set_prefix_def Let_def router_ok_def in_trie_def in_fallback_def)
  then show ?thesis unfolding typed_router_def by (simp only: add_route_ok router_new_ok)
qed

theorem hit_path_extracts_witness:
  "\<exists>vs. path_from_request (\<lambda>_ s. Some s) [Lit ''u'', Capture ()]
      (pt_prefix_offset (with_extensions typed_router
        \<lparr>pt_method = ''GET'', pt_path = ''/api/u/7'', pt_prefix_offset = None, pt_ext = ()\<rparr>))
      (pt_path (with_extensions typed_router
        \<lparr>pt_method = ''GET'', pt_path = ''/api/u/7'', pt_prefix_offset = None, pt_ext = ()\<rparr>)) = Ok vs \<and>
    length vs = captures [Lit ''u'', Capture ()]"
proof (rule hit_path_extracts [OF typed_router_ok simple_matchit_ok])
  let ?p = "\<lparr>pt_method = ''GET'', pt_path = ''/api/u/7'', pt_prefix_offset = None, pt_ext = ()\<rparr>"
  show "strip_route_prefix (ri_prefix_str typed_router) (pt_path ?p) = Some ''/u/7''"
    by (simp add: typed_router_parts strip_route_prefix_def strip_prefix_def starts_with_def)
  have "trie_at simple_matchit [(''/u/{p0}'', 0 :: nat)] ''/u/7'' = Some 0"
    by (simp add: trie_at_def simple_matchit_def simple_shape_def starts_with_def)
  moreover have "path_segments ''/u/7'' = [''u'', ''7'']"
    by (simp add: path_segments_def)
  ultimately show "resolve simple_matchit typed_router (pt_method ?p) ''/u/7'' = Hit 0"
    by (simp add: resolve_def method_slot_def typed_router_parts lookup_in_bucket_def)
qed (simp_all add: typed_router_parts)

lemma distinct_capture_names:
  "plain_path p \<Longrightarrow> distinct (filter (starts_with ''{'') (matchit_segments k p))"
proof (induction k p rule: matchit_segments.induct)
  case (2 k l p)
  then have "\<not> starts_with ''{'' l" by (auto simp: plain_path_def plain_literal_def starts_with_iff)
  with 2 show ?case by (simp add: plain_path_def)
next
  case (3 k ty p)
  then have "(''{p'' @ dec k @ ''}'') \<notin> set (matchit_segments (Suc k) p)"
    using capture_names_ge [of k "Suc k" p] by (auto simp: plain_path_def)
  with 3 show ?case by (auto simp: plain_path_def)
qed (simp_all)

text \<open>The pattern a typed endpoint registers: for any path type with ASCII literals without
  braces, the pattern given to the trie is the path with its literals unchanged and its captures
  numbered from left to right, so that no capture name occurs twice (which the trie requires).\<close>

theorem typed_pattern_for_trie:
  assumes "plain_path p"
  shows "to_matchit_pattern (path_pattern p) = join_path (matchit_segments 0 p) \<and>
    distinct (filter (starts_with ''{'') (matchit_segments 0 p))"
  using to_matchit_path [OF assms] distinct_capture_names [OF assms]
  by (simp add: to_matchit_pattern_def)

theorem typed_pattern_for_trie_witness:
  "to_matchit_pattern (path_pattern [Lit ''u'', Capture (), Lit ''p'', Capture (), CaptureRest])
      = join_path (matchit_segments 0 [Lit ''u'', Capture (), Lit ''p'', Capture (), CaptureRest]) \<and>
    distinct (filter (starts_with ''{'')
      (matchit_segments 0 [Lit ''u'', Capture (), Lit ''p'', Capture (), CaptureRest]))"
  by (rule typed_pattern_for_trie) (simp add: plain_path_def plain_literal_def)

text \<open>A literal outside ASCII is not unchanged: its bytes are pushed as characters of their
  own, so the trie gets another string (two characters for one accented letter) and the route's
  pattern is not its path.\<close>

theorem non_ascii_literal_garbled:
  "to_matchit_pattern (path_pattern [Lit [CHR 0xC3, CHR 0xA9]])
    = [CHR ''/'', CHR 0xC3, CHR 0x83, CHR 0xC2, CHR 0xA9]"
  by (simp add: to_matchit_pattern_def to_matchit_loop.simps push_latin1_def char_of_def bit_simps)

end
