(* ===== verification/Client_Path.thy ===== *)
theory Client_Path
  imports Router
begin

text \<open>
  \<^verbatim>\<open>BuildPath\<close> of \<^verbatim>\<open>typeway-client/src/call.rs\<close>: the client fills the
  placeholders of the endpoint's pattern with the displayed captures, one
  \<^verbatim>\<open>replacen("{}", value, 1)\<close> after the other, and the server splits and parses the
  path again (\<^verbatim>\<open>Path_Spec\<close>). The tuple of captures is the list of its displayed
  components.
\<close>

fun replacen_braces :: "string \<Rightarrow> string \<Rightarrow> string" where
  "replacen_braces v [] = []"
| "replacen_braces v (c # s) =
     (if c = CHR ''{'' \<and> s \<noteq> [] \<and> hd s = CHR ''}'' then v @ tl s else c # replacen_braces v s)"

definition build_path :: "string list \<Rightarrow> string \<Rightarrow> string" where
  "build_path values pattern = foldl (\<lambda>result c. replacen_braces c result) pattern values"

lemma replacen_skip: "CHR ''{'' \<notin> set l \<Longrightarrow> replacen_braces v (l @ s) = l @ replacen_braces v s"
  by (induction l) auto

lemma replacen_here: "replacen_braces v (''{}'' @ s) = v @ s"
  by simp

text \<open>A path type filled with displayed captures.\<close>

fun fill_segments :: "'ty path_segment list \<Rightarrow> string list \<Rightarrow> string list" where
  "fill_segments [] vs = []"
| "fill_segments (Lit l # p) vs = l # fill_segments p vs"
| "fill_segments (Capture ty # p) (v # vs) = v # fill_segments p vs"
| "fill_segments _ _ = []"

text \<open>One value per capture, each parsed back from its text; no rest capture.\<close>

fun fits_path :: "('ty \<Rightarrow> string \<Rightarrow> 'v option) \<Rightarrow> ('v \<Rightarrow> string) \<Rightarrow> 'ty path_segment list \<Rightarrow> 'v list \<Rightarrow> bool" where
  "fits_path parse show_v [] vs = (vs = [])"
| "fits_path parse show_v (Lit l # p) vs = fits_path parse show_v p vs"
| "fits_path parse show_v (Capture ty # p) vs =
     (case vs of [] \<Rightarrow> False
      | v # vs' \<Rightarrow> parse ty (show_v v) = Some v \<and> fits_path parse show_v p vs')"
| "fits_path parse show_v (CaptureRest # p) vs = False"

definition brace_free :: "string \<Rightarrow> bool" where
  "brace_free s \<longleftrightarrow> CHR ''{'' \<notin> set s"

lemma build_path_fill:
  "list_all brace_free vs \<Longrightarrow> plain_path p \<Longrightarrow> brace_free pre \<Longrightarrow>
   fits_path parse show_v p ws \<Longrightarrow> vs = map show_v ws \<Longrightarrow>
   build_path vs (pre @ path_pattern p) = pre @ join_path (fill_segments p vs)"
proof (induction p arbitrary: vs ws pre)
  case Nil
  then show ?case by (simp add: build_path_def join_path_def)
next
  case (Cons x p)
  have p: "plain_path p" using Cons.prems(2) by (auto simp: plain_path_def)
  show ?case
  proof (cases x)
    case (Lit l)
    then have "brace_free (pre @ ''/'' @ l)"
      using Cons.prems by (auto simp: plain_path_def plain_literal_def brace_free_def)
    from Cons.IH [OF Cons.prems(1) p this _ Cons.prems(5)] Cons.prems(4) Lit show ?thesis
      by (simp add: join_path_def)
  next
    case (Capture ty)
    with Cons.prems(4,5) obtain w ws' vs' where w: "ws = w # ws'" "vs = show_v w # vs'"
      "vs' = map show_v ws'" "fits_path parse show_v p ws'"
      by (auto split: list.splits)
    have v: "brace_free (show_v w)" "list_all brace_free vs'" using Cons.prems(1) w by simp_all
    have "replacen_braces (show_v w) ((pre @ ''/'') @ ''{}'' @ path_pattern p)
        = (pre @ ''/'') @ show_v w @ path_pattern p"
      using Cons.prems(3) by (subst replacen_skip) (simp_all add: brace_free_def)
    moreover have "brace_free (pre @ ''/'' @ show_v w)"
      using Cons.prems(3) v(1) by (simp add: brace_free_def)
    note Cons.IH [OF v(2) p this w(4,3)]
    ultimately show ?thesis
      by (simp add: Capture w(2) build_path_def join_path_def)
  next
    case CaptureRest
    then show ?thesis using Cons.prems(4) by simp
  qed
qed

lemma extract_fill:
  "fits_path parse show_v p ws \<Longrightarrow>
   extract_path parse p (fill_segments p (map show_v ws)) = Some (map Value ws)"
  by (induction parse show_v p ws rule: fits_path.induct) (auto split: list.splits)

lemma client_path_fills:
  assumes "plain_path p" "fits_path parse show_v p vs"
    and "list_all (\<lambda>s. plain_segment s \<and> brace_free s) (map show_v vs)"
    and "list_all plain_segment (fill_segments p (map show_v vs))"
  shows "extract_path parse p (path_segments (build_path (map show_v vs) (path_pattern p)))
    = Some (map Value vs)"
proof -
  have "list_all brace_free (map show_v vs)"
    using assms(3) by (simp add: list_all_iff)
  then have "build_path (map show_v vs) (path_pattern p) = join_path (fill_segments p (map show_v vs))"
    using build_path_fill [where pre = "''''", OF _ assms(1) _ assms(2) refl]
    by (simp add: brace_free_def)
  then show ?thesis
    using extract_fill [OF assms(2)] by (simp add: path_segments_join [OF assms(4)])
qed

subsection \<open>Properties\<close>

text \<open>C4. Client and server agree on paths: for a path type whose literals are plain segments and
  captures whose text is a non-empty segment without slash and brace and parses back to the value,
  the path the client builds, split by the server, extracts exactly the captures the client put
  in, in order.\<close>

theorem client_path_roundtrip:
  assumes "plain_path p" "fits_path parse show_v p vs"
    and "list_all (\<lambda>s. plain_segment s \<and> brace_free s) (map show_v vs)"
    and "list_all plain_segment (fill_segments p (map show_v vs))"
  shows "extract_path parse p (path_segments (build_path (map show_v vs) (path_pattern p)))
    = Some (map Value vs)"
  by (rule client_path_fills [OF assms])

theorem client_path_roundtrip_witness:
  "extract_path (\<lambda>_ s. Some s) [Lit ''users'', Capture (), Lit ''posts'', Capture ()]
     (path_segments (build_path (map id [''ann'', ''7''])
       (path_pattern [Lit ''users'', Capture (), Lit ''posts'', Capture ()])))
   = Some (map Value [''ann'', ''7''])"
  by (rule client_path_roundtrip)
    (simp_all add: plain_path_def plain_literal_def plain_segment_def brace_free_def)

text \<open>Captures are not escaped, so the agreement ends there: a capture that contains a slash
  is read by the server as two segments, and a capture that contains the placeholder swallows the
  next one.\<close>

theorem client_path_unescaped:
  "extract_path (\<lambda>_ s. Some s) [Lit ''files'', Capture ()]
     (path_segments (build_path [''a/b''] (path_pattern [Lit ''files'', Capture ()]))) = None \<and>
   extract_path (\<lambda>_ s. Some s) [Capture (), Capture ()]
     (path_segments (build_path [''x{}'', ''y''] (path_pattern [Capture (), Capture ()])))
   = Some [Value ''xy'', Value ''{}'']"
  by (simp add: build_path_def path_segments_def)

end
