(* ===== verification/Retry_Loop.thy ===== *)
theory Retry_Loop
  imports Rust_Str
begin

text \<open>
  What both clients promise of their retry loops, as the locale \<open>bounded_retry\<close>: the requests are
  numbered, \<open>res k\<close> is the result of the \<open>k\<close>-th, and a run is its result with the trace of the
  requests sent and the pauses made. The loop stops at the first success or error that is not
  retryable, and after \<open>limit\<close> requests at the latest.
\<close>

datatype retry_event = Send | Sleep nat

definition sends :: "retry_event list \<Rightarrow> nat" where
  "sends evs = length (filter (\<lambda>e. e = Send) evs)"

lemma sends_simps [simp]:
  "sends [] = 0" "sends (Send # evs) = Suc (sends evs)" "sends (Sleep d # evs) = sends evs"
  "sends (evs @ evs') = sends evs + sends evs'"
  by (simp_all add: sends_def)

definition keeps_failing :: "('e \<Rightarrow> bool) \<Rightarrow> (nat \<Rightarrow> ('v, 'e) result) \<Rightarrow> nat \<Rightarrow> bool" where
  "keeps_failing retryable res k \<longleftrightarrow> (\<forall>j < k. \<exists>e. res j = Err e \<and> retryable e)"

definition stops_at :: "('e \<Rightarrow> bool) \<Rightarrow> (nat \<Rightarrow> ('v, 'e) result) \<Rightarrow> nat \<Rightarrow> bool" where
  "stops_at retryable res k \<longleftrightarrow> \<not> (\<exists>e. res k = Err e \<and> retryable e)"

lemma keeps_failing_cases:
  "keeps_failing retryable res n \<or> (\<exists>k < n. keeps_failing retryable res k \<and> stops_at retryable res k)"
proof (induction n)
  case 0
  then show ?case by (simp add: keeps_failing_def)
next
  case (Suc n)
  then show ?case
  proof (elim disjE exE conjE)
    assume n: "keeps_failing retryable res n"
    show ?thesis
    proof (cases "stops_at retryable res n")
      case True
      with n show ?thesis by blast
    next
      case False
      with n show ?thesis by (auto simp: keeps_failing_def stops_at_def less_Suc_eq)
    qed
  qed (use less_SucI in blast)
qed

locale bounded_retry =
  fixes loop :: "(nat \<Rightarrow> ('v, 'e) result) \<Rightarrow> ('v, 'e) result \<times> retry_event list"
    and retryable :: "'e \<Rightarrow> bool"
    and limit :: nat
    and final :: "'e \<Rightarrow> 'e"
  assumes limit_pos: "0 < limit"
    and loop_stop: "k < limit \<Longrightarrow> keeps_failing retryable res k \<Longrightarrow> stops_at retryable res k \<Longrightarrow>
      fst (loop res) = res k \<and> sends (snd (loop res)) = Suc k"
    and loop_exhaust: "keeps_failing retryable res limit \<Longrightarrow> res (limit - 1) = Err e \<Longrightarrow>
      fst (loop res) = Err (final e) \<and> sends (snd (loop res)) = limit"
begin

lemma run_cases:
  obtains k where "k < limit" "keeps_failing retryable res k" "stops_at retryable res k"
      "fst (loop res) = res k" "sends (snd (loop res)) = Suc k"
  | e where "keeps_failing retryable res limit" "res (limit - 1) = Err e"
      "fst (loop res) = Err (final e)" "sends (snd (loop res)) = limit"
proof (cases "keeps_failing retryable res limit")
  case True
  then obtain e where "res (limit - 1) = Err e"
    using limit_pos unfolding keeps_failing_def by (metis diff_less zero_less_one)
  with loop_exhaust [OF True this] True that(2) show ?thesis by blast
next
  case False
  then obtain k where "k < limit" "keeps_failing retryable res k" "stops_at retryable res k"
    using keeps_failing_cases by blast
  with loop_stop [OF this] that(1) show ?thesis by blast
qed

lemma sends_bound: "1 \<le> sends (snd (loop res)) \<and> sends (snd (loop res)) \<le> limit"
  by (cases res rule: run_cases) (use limit_pos in auto)

lemma success_iff:
  "fst (loop res) = Ok v \<longleftrightarrow> (\<exists>k < limit. keeps_failing retryable res k \<and> res k = Ok v)"
proof
  assume "fst (loop res) = Ok v"
  then show "\<exists>k < limit. keeps_failing retryable res k \<and> res k = Ok v"
    by (cases res rule: run_cases) auto
next
  assume "\<exists>k < limit. keeps_failing retryable res k \<and> res k = Ok v"
  then obtain k where k: "k < limit" "keeps_failing retryable res k" "res k = Ok v" by blast
  then have "stops_at retryable res k" by (simp add: stops_at_def)
  with loop_stop [OF k(1,2)] k(3) show "fst (loop res) = Ok v" by simp
qed

text \<open>Only the results of the requests actually sent matter.\<close>

lemma run_prefix:
  assumes "\<And>k. k < sends (snd (loop res)) \<Longrightarrow> res' k = res k"
  shows "fst (loop res') = fst (loop res) \<and> sends (snd (loop res')) = sends (snd (loop res))"
proof (cases res rule: run_cases)
  case (1 k)
  then have "res' j = res j" if "j \<le> k" for j using assms that by simp
  then have "keeps_failing retryable res' k" "stops_at retryable res' k" "res' k = res k"
    using 1 by (auto simp: keeps_failing_def stops_at_def)
  with loop_stop [OF 1(1) this(1,2)] 1 show ?thesis by simp
next
  case (2 e)
  then have "res' j = res j" if "j < limit" for j using assms that by simp
  then have "keeps_failing retryable res' limit" "res' (limit - 1) = Err e"
    using 2 limit_pos by (auto simp: keeps_failing_def)
  with loop_exhaust [OF this] 2 show ?thesis by simp
qed

end

end
