(* ===== verification/Http_Client.thy ===== *)
theory Http_Client
  imports Retry_Loop Json_Value Http_Headers "HOL-Library.AList"
begin

text \<open>
  The HTTP client, \<^verbatim>\<open>typeway-client/src/client.rs\<close>,
  \<^verbatim>\<open>retry.rs\<close> and \<^verbatim>\<open>error.rs\<close>: one call, what counts as
  retryable, and the retry loop, which is proved to be a \<open>bounded_retry\<close>. What
  \<^verbatim>\<open>reqwest\<close> makes of a request is the result list \<open>res\<close>; the pause
  before a retry, computed with floating point and a random part, is the parameter \<open>backoff\<close>.
  Durations are nanoseconds, \<^verbatim>\<open>u32\<close> counters are words.
\<close>

record RetryPolicy =
  rp_max_retries :: u32
  rp_initial_backoff :: nat
  rp_max_backoff :: nat
  rp_backoff_multiplier :: f64
  rp_retry_on_status :: "nat list"
  rp_retry_on_timeout :: bool

definition retry_policy_default :: RetryPolicy where
  "retry_policy_default =
     \<lparr>rp_max_retries = 3, rp_initial_backoff = 100 * 10 ^ 6, rp_max_backoff = 10 * 10 ^ 9,
      rp_backoff_multiplier = u64_to_f64 2, rp_retry_on_status = [429, 502, 503, 504],
      rp_retry_on_timeout = True\<rparr>"

definition retry_policy_none :: RetryPolicy where
  "retry_policy_none =
     \<lparr>rp_max_retries = 0, rp_initial_backoff = 0, rp_max_backoff = 0,
      rp_backoff_multiplier = u64_to_f64 1, rp_retry_on_status = [], rp_retry_on_timeout = False\<rparr>"

definition with_max_retries :: "u32 \<Rightarrow> RetryPolicy \<Rightarrow> RetryPolicy" where
  "with_max_retries n p = p\<lparr>rp_max_retries := n\<rparr>"

definition with_initial_backoff :: "nat \<Rightarrow> RetryPolicy \<Rightarrow> RetryPolicy" where
  "with_initial_backoff d p = p\<lparr>rp_initial_backoff := d\<rparr>"

definition with_max_backoff :: "nat \<Rightarrow> RetryPolicy \<Rightarrow> RetryPolicy" where
  "with_max_backoff d p = p\<lparr>rp_max_backoff := d\<rparr>"

definition with_backoff_multiplier :: "f64 \<Rightarrow> RetryPolicy \<Rightarrow> RetryPolicy" where
  "with_backoff_multiplier f p = p\<lparr>rp_backoff_multiplier := f\<rparr>"

definition with_retry_on_status :: "nat list \<Rightarrow> RetryPolicy \<Rightarrow> RetryPolicy" where
  "with_retry_on_status codes p = p\<lparr>rp_retry_on_status := codes\<rparr>"

definition with_retry_on_timeout :: "bool \<Rightarrow> RetryPolicy \<Rightarrow> RetryPolicy" where
  "with_retry_on_timeout enabled p = p\<lparr>rp_retry_on_timeout := enabled\<rparr>"

definition should_retry_status :: "RetryPolicy \<Rightarrow> nat \<Rightarrow> bool" where
  "should_retry_status p status \<longleftrightarrow> status \<in> set (rp_retry_on_status p)"

text \<open>\<^verbatim>\<open>reqwest::Error\<close>: whether it is a timeout, and its text.\<close>

record reqwest_error =
  re_is_timeout :: bool
  re_text :: string

datatype ClientError =
    StatusError nat string
  | UrlError string
  | RequestError reqwest_error
  | Deserialize string
  | Serialize string
  | Timeout
  | RetryExhausted ClientError u32

fun is_timeout :: "ClientError \<Rightarrow> bool" where
  "is_timeout Timeout = True"
| "is_timeout (RequestError e) = re_is_timeout e"
| "is_timeout _ = False"

definition is_retryable :: "RetryPolicy \<Rightarrow> ClientError \<Rightarrow> bool" where
  "is_retryable policy e =
     (case e of
        StatusError status _ \<Rightarrow> should_retry_status policy status
      | Timeout \<Rightarrow>
          (if is_timeout e then rp_retry_on_timeout policy else rp_retry_on_timeout policy)
      | RequestError _ \<Rightarrow>
          (if is_timeout e then rp_retry_on_timeout policy else rp_retry_on_timeout policy)
      | _ \<Rightarrow> False)"

subsection \<open>One call\<close>

text \<open>
  The request as it is built: headers in the order they are appended. Joining the base URL with
  the path, the query encoder and the transport are parameters; interceptors are functions of the
  request.
\<close>

record http_request =
  hr_method :: string
  hr_url :: string
  hr_headers :: "(string \<times> string) list"
  hr_body :: "bytes option"
  hr_timeout :: "nat option"

record CallOverrides =
  co_extra_headers :: "((string \<times> string) list) option"
  co_query_string :: "string option"
  co_query_params :: "((string \<times> string) list) option"
  co_timeout :: "nat option"

record http_env =
  he_join :: "string \<Rightarrow> string + string"
  he_set_query :: "string \<Rightarrow> string \<Rightarrow> string"
  he_append_pair :: "string \<times> string \<Rightarrow> string \<Rightarrow> string"
  he_interceptors :: "(http_request \<Rightarrow> http_request) list"

text \<open>What the transport comes back with: a response whose body may still fail to arrive.\<close>

record http_reply =
  hp_status :: nat
  hp_headers :: header_map
  hp_body :: "bytes + reqwest_error"

definition build_request ::
  "http_env \<Rightarrow> string \<Rightarrow> string \<Rightarrow> (bytes, ClientError) result option \<Rightarrow> CallOverrides option \<Rightarrow>
   (http_request, ClientError) result" where
  "build_request env method path body overrides =
     (case he_join env path of
        Inr e \<Rightarrow> Err (UrlError e)
      | Inl url0 \<Rightarrow>
          (let url1 = (case Option.bind overrides co_query_string of
                 Some qs \<Rightarrow> (if qs \<noteq> '''' then he_set_query env qs url0 else url0)
               | None \<Rightarrow> url0);
               url2 = (case Option.bind overrides co_query_params of
                 Some ps \<Rightarrow> fold (he_append_pair env) ps url1
               | None \<Rightarrow> url1);
               req0 = \<lparr>hr_method = method, hr_url = url2, hr_headers = [], hr_body = None,
                 hr_timeout = None\<rparr>;
               req1 = (case body of
                 None \<Rightarrow> Ok req0
               | Some r \<Rightarrow> and_then r (\<lambda>b.
                   Ok (req0\<lparr>hr_headers := [(''content-type'', ''application/json'')],
                           hr_body := Some b\<rparr>)))
           in and_then req1 (\<lambda>q.
                let q1 = (case Option.bind overrides co_extra_headers of
                      Some hs \<Rightarrow> q\<lparr>hr_headers := hr_headers q @ hs\<rparr> | None \<Rightarrow> q);
                    q2 = (case Option.bind overrides co_timeout of
                      Some t \<Rightarrow> q1\<lparr>hr_timeout := Some t\<rparr> | None \<Rightarrow> q1)
                in Ok (fold (\<lambda>f r. f r) (he_interceptors env) q2))))"

text \<open>
  \<^verbatim>\<open>StatusCode::is_success\<close> is 200 to 299. \<^verbatim>\<open>text()\<close> of a body that
  fails to arrive is the empty string; \<open>parse\<close> is \<^verbatim>\<open>parse_response\<close> of the endpoint.
\<close>

definition call_inner ::
  "(bytes \<Rightarrow> ('r, ClientError) result) \<Rightarrow> (bytes \<Rightarrow> string) \<Rightarrow> http_reply + reqwest_error \<Rightarrow>
   ((nat \<times> header_map) \<times> 'r, ClientError) result" where
  "call_inner parse text_of sent =
     (case sent of
        Inr e \<Rightarrow> if re_is_timeout e then Err Timeout else Err (RequestError e)
      | Inl reply \<Rightarrow>
          (if \<not> (200 \<le> hp_status reply \<and> hp_status reply \<le> 299) then
             Err (StatusError (hp_status reply)
               (case hp_body reply of Inl b \<Rightarrow> text_of b | Inr _ \<Rightarrow> ''''))
           else case hp_body reply of
                  Inr e \<Rightarrow> Err (RequestError e)
                | Inl b \<Rightarrow> and_then (parse b) (\<lambda>r. Ok ((hp_status reply, hp_headers reply), r))))"

subsection \<open>The retry loop\<close>

text \<open>\<^verbatim>\<open>for attempt in 0..policy.max_retries\<close>, with \<open>n\<close> turns left.\<close>

fun retry_attempts ::
  "RetryPolicy \<Rightarrow> (nat \<Rightarrow> nat) \<Rightarrow> (nat \<Rightarrow> ('v, ClientError) result) \<Rightarrow> nat \<Rightarrow> nat \<Rightarrow> ClientError \<Rightarrow>
   ('v, ClientError) result \<times> retry_event list" where
  "retry_attempts policy backoff res 0 attempt last_error =
     (Err (RetryExhausted last_error (rp_max_retries policy + 1)), [])"
| "retry_attempts policy backoff res (Suc n) attempt last_error =
     (case res (attempt + 1) of
        Err e \<Rightarrow>
          (if \<not> is_retryable policy e then (Err e, [Sleep (backoff attempt), Send])
           else case retry_attempts policy backoff res n (attempt + 1) e of
                  (r, evs) \<Rightarrow> (r, Sleep (backoff attempt) # Send # evs))
      | r \<Rightarrow> (r, [Sleep (backoff attempt), Send]))"

definition call_with_retry_full ::
  "RetryPolicy \<Rightarrow> (nat \<Rightarrow> nat) \<Rightarrow> (nat \<Rightarrow> ('v, ClientError) result) \<Rightarrow>
   ('v, ClientError) result \<times> retry_event list" where
  "call_with_retry_full policy backoff res =
     (case res 0 of
        Err e \<Rightarrow>
          (if \<not> is_retryable policy e then (Err e, [Send])
           else case retry_attempts policy backoff res (unat (rp_max_retries policy)) 0 e of
                  (r, evs) \<Rightarrow> (r, Send # evs))
      | r \<Rightarrow> (r, [Send]))"

text \<open>
  The calls of \<^verbatim>\<open>Client\<close>; \<open>inner overrides k\<close> is the result of the \<open>k\<close>-th
  request. \<open>client_call\<close> and \<open>call_with_query\<close> drop the status and headers that
  \<open>call_full\<close> returns beside the body.
\<close>

type_synonym 'r reply_of = "((nat \<times> header_map) \<times> 'r, ClientError) result"

definition body_of :: "'r reply_of \<Rightarrow> ('r, ClientError) result" where
  "body_of r = result_map snd r"

definition call_full ::
  "RetryPolicy \<Rightarrow> (nat \<Rightarrow> nat) \<Rightarrow> (CallOverrides option \<Rightarrow> nat \<Rightarrow> 'r reply_of) \<Rightarrow>
   'r reply_of \<times> retry_event list" where
  "call_full policy backoff inner =
     (if rp_max_retries policy = 0 then (inner None 0, [Send])
      else call_with_retry_full policy backoff (inner None))"

definition client_call ::
  "RetryPolicy \<Rightarrow> (nat \<Rightarrow> nat) \<Rightarrow> (CallOverrides option \<Rightarrow> nat \<Rightarrow> 'r reply_of) \<Rightarrow>
   ('r, ClientError) result \<times> retry_event list" where
  "client_call policy backoff inner =
     (if rp_max_retries policy = 0 then (body_of (inner None 0), [Send])
      else map_prod body_of id (call_with_retry_full policy backoff (inner None)))"

definition call_with_query ::
  "RetryPolicy \<Rightarrow> (nat \<Rightarrow> nat) \<Rightarrow> (CallOverrides option \<Rightarrow> nat \<Rightarrow> 'r reply_of) \<Rightarrow>
   string + string \<Rightarrow> ('r, ClientError) result \<times> retry_event list" where
  "call_with_query policy backoff inner query =
     (case query of
        Inr e \<Rightarrow> (Err (Serialize e), [])
      | Inl query_string \<Rightarrow>
          (let overrides = \<lparr>co_extra_headers = None, co_query_string = Some query_string,
                 co_query_params = None, co_timeout = None\<rparr>
           in if rp_max_retries policy = 0 then (body_of (inner (Some overrides) 0), [Send])
              else call_with_retry_full policy backoff (\<lambda>k. body_of (inner (Some overrides) k))))"

subsection \<open>The request builder and the configuration\<close>

text \<open>
  A \<^verbatim>\<open>HeaderMap\<close> with single values is an association list; \<open>AList.update\<close> is its
  \<^verbatim>\<open>insert\<close>.
\<close>

record RequestBuilder =
  rb_extra_headers :: "(string \<times> string) list"
  rb_query_params :: "(string \<times> string) list"
  rb_timeout :: "nat option"

definition request_builder_new :: RequestBuilder where
  "request_builder_new = \<lparr>rb_extra_headers = [], rb_query_params = [], rb_timeout = None\<rparr>"

definition rb_header :: "string \<Rightarrow> string \<Rightarrow> RequestBuilder \<Rightarrow> RequestBuilder" where
  "rb_header name v b = b\<lparr>rb_extra_headers := AList.update name v (rb_extra_headers b)\<rparr>"

definition rb_query :: "string \<Rightarrow> string \<Rightarrow> RequestBuilder \<Rightarrow> RequestBuilder" where
  "rb_query key v b = b\<lparr>rb_query_params := rb_query_params b @ [(key, v)]\<rparr>"

definition rb_set_timeout :: "nat \<Rightarrow> RequestBuilder \<Rightarrow> RequestBuilder" where
  "rb_set_timeout d b = b\<lparr>rb_timeout := Some d\<rparr>"

definition rb_overrides :: "RequestBuilder \<Rightarrow> CallOverrides" where
  "rb_overrides b =
     \<lparr>co_extra_headers = (if rb_extra_headers b = [] then None else Some (rb_extra_headers b)),
      co_query_string = None,
      co_query_params = (if rb_query_params b = [] then None else Some (rb_query_params b)),
      co_timeout = rb_timeout b\<rparr>"

definition rb_send_full ::
  "RequestBuilder \<Rightarrow> (CallOverrides option \<Rightarrow> nat \<Rightarrow> 'r reply_of) \<Rightarrow> 'r reply_of \<times> retry_event list" where
  "rb_send_full b inner = (inner (Some (rb_overrides b)) 0, [Send])"

definition rb_send ::
  "RequestBuilder \<Rightarrow> (CallOverrides option \<Rightarrow> nat \<Rightarrow> 'r reply_of) \<Rightarrow>
   ('r, ClientError) result \<times> retry_event list" where
  "rb_send b inner = (body_of (inner (Some (rb_overrides b)) 0), [Send])"

record ClientConfig =
  cc_timeout :: "nat option"
  cc_connect_timeout :: "nat option"
  cc_retry_policy :: RetryPolicy
  cc_request_interceptors :: "(http_request \<Rightarrow> http_request) list"
  cc_default_headers :: "(string \<times> string) list"
  cc_cookie_store :: bool
  cc_enable_tracing :: bool

definition client_config_default :: ClientConfig where
  "client_config_default =
     \<lparr>cc_timeout = Some (30 * 10 ^ 9), cc_connect_timeout = Some (10 * 10 ^ 9),
      cc_retry_policy = retry_policy_default, cc_request_interceptors = [],
      cc_default_headers = [(''accept'', ''application/json'')], cc_cookie_store = False,
      cc_enable_tracing = False\<rparr>"

definition cfg_timeout :: "nat \<Rightarrow> ClientConfig \<Rightarrow> ClientConfig" where
  "cfg_timeout d c = c\<lparr>cc_timeout := Some d\<rparr>"

definition cfg_no_timeout :: "ClientConfig \<Rightarrow> ClientConfig" where
  "cfg_no_timeout c = c\<lparr>cc_timeout := None\<rparr>"

definition cfg_connect_timeout :: "nat \<Rightarrow> ClientConfig \<Rightarrow> ClientConfig" where
  "cfg_connect_timeout d c = c\<lparr>cc_connect_timeout := Some d\<rparr>"

definition cfg_no_connect_timeout :: "ClientConfig \<Rightarrow> ClientConfig" where
  "cfg_no_connect_timeout c = c\<lparr>cc_connect_timeout := None\<rparr>"

definition cfg_retry_policy :: "RetryPolicy \<Rightarrow> ClientConfig \<Rightarrow> ClientConfig" where
  "cfg_retry_policy p c = c\<lparr>cc_retry_policy := p\<rparr>"

definition cfg_request_interceptor ::
  "(http_request \<Rightarrow> http_request) \<Rightarrow> ClientConfig \<Rightarrow> ClientConfig" where
  "cfg_request_interceptor f c =
     c\<lparr>cc_request_interceptors := cc_request_interceptors c @ [f]\<rparr>"

definition cfg_default_header :: "string \<Rightarrow> string \<Rightarrow> ClientConfig \<Rightarrow> ClientConfig" where
  "cfg_default_header name v c =
     c\<lparr>cc_default_headers := AList.update name v (cc_default_headers c)\<rparr>"

text \<open>\<^verbatim>\<open>expect\<close> of a value that is no header value panics.\<close>

definition cfg_bearer_auth ::
  "(string \<Rightarrow> string option) \<Rightarrow> string \<Rightarrow> ClientConfig \<Rightarrow> (ClientConfig, unit) result" where
  "cfg_bearer_auth parse_hv token c =
     (case parse_hv (''Bearer '' @ token) of
        None \<Rightarrow> Panic
      | Some v \<Rightarrow> Ok (cfg_default_header ''authorization'' v c))"

subsection \<open>The loop is a bounded retry\<close>

lemma keeps_failing_Suc:
  "keeps_failing retryable (\<lambda>j. res (a + 1 + j)) (Suc k) \<longleftrightarrow>
   (\<exists>e. res (a + 1) = Err e \<and> retryable e) \<and>
   keeps_failing retryable (\<lambda>j. res (a + 1 + 1 + j)) k"
  by (auto simp: keeps_failing_def less_Suc_eq_0_disj)

lemma retry_attempts_stop:
  assumes "k < n" "keeps_failing (is_retryable policy) (\<lambda>j. res (a + 1 + j)) k"
    "stops_at (is_retryable policy) res (a + 1 + k)"
  shows "fst (retry_attempts policy backoff res n a e0) = res (a + 1 + k) \<and>
    sends (snd (retry_attempts policy backoff res n a e0)) = Suc k"
  using assms
proof (induction k arbitrary: n a e0)
  case 0
  then obtain m where "n = Suc m" by (cases n) auto
  with 0 show ?case by (auto simp: stops_at_def split: result.splits)
next
  case (Suc k)
  then obtain m where n: "n = Suc m" "k < m" by (cases n) auto
  from Suc.prems(2) obtain e where e: "res (a + 1) = Err e" "is_retryable policy e"
    and rest: "keeps_failing (is_retryable policy) (\<lambda>j. res (a + 1 + 1 + j)) k"
    unfolding keeps_failing_Suc by blast
  from Suc.prems(3) have "stops_at (is_retryable policy) res (a + 1 + 1 + k)" by (simp add: add.commute)
  from Suc.IH [OF n(2) rest this, of e] n e show ?case
    by (auto split: prod.splits)
qed

lemma retry_attempts_exhaust:
  assumes "keeps_failing (is_retryable policy) (\<lambda>j. res (a + 1 + j)) n"
    "if n = 0 then e = e0 else res (a + n) = Err e"
  shows "fst (retry_attempts policy backoff res n a e0) =
      Err (RetryExhausted e (rp_max_retries policy + 1)) \<and>
    sends (snd (retry_attempts policy backoff res n a e0)) = n"
  using assms
proof (induction n arbitrary: a e0)
  case (Suc n)
  from Suc.prems(1) obtain d where d: "res (a + 1) = Err d" "is_retryable policy d"
    and rest: "keeps_failing (is_retryable policy) (\<lambda>j. res (a + 1 + 1 + j)) n"
    unfolding keeps_failing_Suc by blast
  have "if n = 0 then e = d else res (a + 1 + n) = Err e" using Suc.prems(2) d by auto
  from Suc.IH [OF rest this] d show ?case by (auto split: prod.splits)
qed simp

interpretation http_retry: bounded_retry "call_with_retry_full policy backoff" "is_retryable policy"
  "unat (rp_max_retries policy) + 1" "\<lambda>e. RetryExhausted e (rp_max_retries policy + 1)"
  for policy :: RetryPolicy and backoff :: "nat \<Rightarrow> nat"
proof unfold_locales
  fix k and res :: "nat \<Rightarrow> ('a, ClientError) result"
  assume k: "k < unat (rp_max_retries policy) + 1" and f: "keeps_failing (is_retryable policy) res k"
    and s: "stops_at (is_retryable policy) res k"
  show "fst (call_with_retry_full policy backoff res) = res k \<and>
    sends (snd (call_with_retry_full policy backoff res)) = Suc k"
  proof (cases k)
    case 0
    with s show ?thesis by (auto simp: call_with_retry_full_def stops_at_def split: result.splits)
  next
    case (Suc j)
    from f Suc obtain e where e: "res 0 = Err e" "is_retryable policy e"
      by (auto simp: keeps_failing_def)
    have "keeps_failing (is_retryable policy) (\<lambda>i. res (0 + 1 + i)) j"
      using f Suc by (auto simp: keeps_failing_def)
    from retry_attempts_stop [OF _ this, of "unat (rp_max_retries policy)" backoff e] k s Suc e
    show ?thesis by (auto simp: call_with_retry_full_def split: prod.splits)
  qed
next
  fix e and res :: "nat \<Rightarrow> ('a, ClientError) result"
  assume f: "keeps_failing (is_retryable policy) res (unat (rp_max_retries policy) + 1)"
    and l: "res (unat (rp_max_retries policy) + 1 - 1) = Err e"
  obtain d where d: "res 0 = Err d" "is_retryable policy d"
    using f unfolding keeps_failing_def by (metis add_gr_0 less_numeral_extra(1))
  have r: "keeps_failing (is_retryable policy) (\<lambda>i. res (0 + 1 + i)) (unat (rp_max_retries policy))"
    using f by (auto simp: keeps_failing_def)
  have "if unat (rp_max_retries policy) = 0 then e = d else res (0 + unat (rp_max_retries policy)) = Err e"
    using l d by auto
  from retry_attempts_exhaust [OF r this, of backoff] d
  show "fst (call_with_retry_full policy backoff res) =
      Err (RetryExhausted e (rp_max_retries policy + 1)) \<and>
    sends (snd (call_with_retry_full policy backoff res)) = unat (rp_max_retries policy) + 1"
    by (auto simp: call_with_retry_full_def split: prod.splits)
qed simp

text \<open>The trace alternates: a request, then a pause before each further one.\<close>

definition alternating :: "(nat \<Rightarrow> nat) \<Rightarrow> nat \<Rightarrow> retry_event list" where
  "alternating backoff n = Send # concat (map (\<lambda>i. [Sleep (backoff i), Send]) [0..<n])"

lemma retry_attempts_trace:
  "snd (retry_attempts policy backoff res n a e0) =
   concat (map (\<lambda>i. [Sleep (backoff i), Send])
     [a..<a + sends (snd (retry_attempts policy backoff res n a e0))])"
proof (induction n arbitrary: a e0)
  case (Suc n)
  show ?case
  proof (cases "res (a + 1)")
    case (Err e)
    show ?thesis
    proof (cases "is_retryable policy e")
      case True
      obtain r evs where r: "retry_attempts policy backoff res n (Suc a) e = (r, evs)" by fastforce
      have "Sleep (backoff a) # Send # evs =
          concat (map (\<lambda>i. [Sleep (backoff i), Send]) [a..<Suc (a + sends evs)])"
        by (subst Suc.IH [of "Suc a" e, unfolded r snd_conv])
          (simp add: upt_conv_Cons del: upt_Suc)
      moreover have "snd (retry_attempts policy backoff res (Suc n) a e0) =
          Sleep (backoff a) # Send # evs" using Err True r by simp
      ultimately show ?thesis by (metis add_Suc_right sends_simps(2,3))
    qed (use Err in simp)
  qed simp_all
qed simp

lemma call_with_retry_trace:
  "snd (call_with_retry_full policy backoff res) =
   alternating backoff (sends (snd (call_with_retry_full policy backoff res)) - 1)"
proof (cases "res 0")
  case (Err e)
  obtain r evs where r: "retry_attempts policy backoff res (unat (rp_max_retries policy)) 0 e = (r, evs)"
    by fastforce
  have "evs = concat (map (\<lambda>i. [Sleep (backoff i), Send]) [0..<sends evs])"
    using retry_attempts_trace [of policy backoff res "unat (rp_max_retries policy)" 0 e] r by simp
  with Err r show ?thesis by (simp add: call_with_retry_full_def alternating_def)
qed (simp_all add: call_with_retry_full_def alternating_def)

lemma sends_alternating [simp]: "sends (alternating backoff n) = Suc n"
  by (induction n) (simp_all add: alternating_def)

lemma client_call_eq:
  "client_call policy backoff inner =
   (if rp_max_retries policy = 0 then (body_of (inner None 0), alternating backoff 0)
    else let run = call_with_retry_full policy backoff (inner None)
         in (body_of (fst run), alternating backoff (sends (snd run) - 1)))"
  using call_with_retry_trace [of policy backoff "inner None"]
  by (auto simp: client_call_def alternating_def map_prod_def case_prod_beta Let_def)

lemma body_of_Ok: "body_of r = Ok v \<longleftrightarrow> (\<exists>meta. r = Ok (meta, v))"
  by (cases r) (auto simp: body_of_def)

lemma max_retries_0: "rp_max_retries policy = 0 \<longleftrightarrow> unat (rp_max_retries policy) = 0"
  by (simp add: unat_eq_0)

subsection \<open>Property\<close>



end
