(* ===== verification/Circuit_Breaker.thy ===== *)
theory Circuit_Breaker
  imports Rust_Str
begin

text \<open>
  The circuit breaker of \<^verbatim>\<open>typeway-grpc/src/client.rs\<close>. Every operation holds
  the lock, so that a run is a sequence of operations, each at its time (nanoseconds of a monotonic
  clock); the step relation \<open>breaker_trace\<close> carries the history, latest entry first. The
  abstract breaker has no state: it looks at the history only.
\<close>

datatype BreakerState = Closed | Open | HalfOpen

record CircuitBreaker =
  cb_failures :: u32
  cb_state :: BreakerState
  cb_last_failure :: "nat option"
  cb_failure_threshold :: u32
  cb_reset_timeout :: nat

definition breaker_new :: "u32 \<Rightarrow> nat \<Rightarrow> CircuitBreaker" where
  "breaker_new failure_threshold reset_timeout =
     \<lparr>cb_failures = 0, cb_state = Closed, cb_last_failure = None,
      cb_failure_threshold = failure_threshold, cb_reset_timeout = reset_timeout\<rparr>"

definition allow_request :: "nat \<Rightarrow> CircuitBreaker \<Rightarrow> bool \<times> CircuitBreaker" where
  "allow_request now s =
     (case cb_state s of
        Closed \<Rightarrow> (True, s)
      | HalfOpen \<Rightarrow> (True, s)
      | Open \<Rightarrow>
          (case cb_last_failure s of
             Some last_failure \<Rightarrow>
               (if cb_reset_timeout s \<le> now - last_failure then (True, s\<lparr>cb_state := HalfOpen\<rparr>)
                else (False, s))
           | None \<Rightarrow> (False, s)))"

definition record_success :: "CircuitBreaker \<Rightarrow> CircuitBreaker" where
  "record_success s = s\<lparr>cb_failures := 0, cb_state := Closed\<rparr>"

text \<open>In a release build the counter wraps.\<close>

definition record_failure :: "nat \<Rightarrow> CircuitBreaker \<Rightarrow> CircuitBreaker" where
  "record_failure now s =
     (let s1 = s\<lparr>cb_failures := cb_failures s + 1, cb_last_failure := Some now\<rparr>
      in if cb_failure_threshold s \<le> cb_failures s1 then s1\<lparr>cb_state := Open\<rparr> else s1)"

subsection \<open>Runs\<close>

datatype breaker_event = Asked | Succeeded | Failed

type_synonym history = "(nat \<times> breaker_event) list"

definition latest :: "history \<Rightarrow> nat" where
  "latest h = (case h of [] \<Rightarrow> 0 | (t, _) # _ \<Rightarrow> t)"

inductive breaker_trace :: "u32 \<Rightarrow> nat \<Rightarrow> history \<Rightarrow> CircuitBreaker \<Rightarrow> bool"
  for threshold :: u32 and timeout :: nat where
  start: "breaker_trace threshold timeout [] (breaker_new threshold timeout)"
| ask: "breaker_trace threshold timeout h s \<Longrightarrow> latest h \<le> t \<Longrightarrow>
    breaker_trace threshold timeout ((t, Asked) # h) (snd (allow_request t s))"
| success: "breaker_trace threshold timeout h s \<Longrightarrow> latest h \<le> t \<Longrightarrow>
    breaker_trace threshold timeout ((t, Succeeded) # h) (record_success s)"
| failure: "breaker_trace threshold timeout h s \<Longrightarrow> latest h \<le> t \<Longrightarrow>
    breaker_trace threshold timeout ((t, Failed) # h) (record_failure t s)"

text \<open>The failures since the last success, and the time of the latest failure.\<close>

fun streak :: "history \<Rightarrow> nat" where
  "streak [] = 0"
| "streak ((t, Asked) # h) = streak h"
| "streak ((t, Succeeded) # h) = 0"
| "streak ((t, Failed) # h) = Suc (streak h)"

fun failed_at :: "history \<Rightarrow> nat option" where
  "failed_at [] = None"
| "failed_at ((t, Failed) # h) = Some t"
| "failed_at ((t, Asked) # h) = failed_at h"
| "failed_at ((t, Succeeded) # h) = failed_at h"

text \<open>The abstract breaker: it refuses while the last \<open>threshold\<close> results are all failures and the
  latest of them is less than the timeout ago. A threshold of zero counts as one.\<close>

definition refuses :: "u32 \<Rightarrow> nat \<Rightarrow> history \<Rightarrow> nat \<Rightarrow> bool" where
  "refuses threshold timeout h now \<longleftrightarrow>
     max 1 (unat threshold) \<le> streak h \<and>
     (case failed_at h of Some t \<Rightarrow> now < t + timeout | None \<Rightarrow> False)"

definition breaker_inv :: "u32 \<Rightarrow> nat \<Rightarrow> history \<Rightarrow> CircuitBreaker \<Rightarrow> bool" where
  "breaker_inv threshold timeout h s \<longleftrightarrow>
     cb_failure_threshold s = threshold \<and> cb_reset_timeout s = timeout \<and>
     unat (cb_failures s) = streak h \<and> cb_last_failure s = failed_at h \<and>
     streak h \<le> length h \<and>
     (\<forall>t. failed_at h = Some t \<longrightarrow> t \<le> latest h) \<and> (0 < streak h \<longrightarrow> failed_at h \<noteq> None) \<and>
     (case cb_state s of
        Closed \<Rightarrow> streak h < max 1 (unat threshold)
      | Open \<Rightarrow> max 1 (unat threshold) \<le> streak h
      | HalfOpen \<Rightarrow> max 1 (unat threshold) \<le> streak h \<and>
          (\<forall>t. failed_at h = Some t \<longrightarrow> t + timeout \<le> latest h))"

lemma unat_Suc_u32: "Suc (unat (n :: u32)) < 2 ^ 32 \<Longrightarrow> unat (n + 1) = Suc (unat n)"
  by (simp add: unat_word_ariths)

lemma breaker_inv_trace:
  "breaker_trace threshold timeout h s \<Longrightarrow> length h < 2 ^ 32 \<Longrightarrow> breaker_inv threshold timeout h s"
proof (induction rule: breaker_trace.induct)
  case start
  show ?case by (simp add: breaker_inv_def breaker_new_def)
next
  case (ask h s t)
  then have "breaker_inv threshold timeout h s" by simp
  with ask.hyps(2) show ?case
    by (auto simp: breaker_inv_def allow_request_def latest_def split: BreakerState.splits option.splits)
next
  case (success h s t)
  then have "breaker_inv threshold timeout h s" by simp
  with success.hyps(2) show ?case
    by (auto simp: breaker_inv_def record_success_def latest_def)
next
  case (failure h s t)
  then have inv: "breaker_inv threshold timeout h s" by simp
  then have n: "unat (cb_failures s + 1) = Suc (streak h)"
    using failure.prems by (subst unat_Suc_u32) (auto simp: breaker_inv_def)
  with inv failure.hyps(2) show ?case
    by (auto simp: breaker_inv_def record_failure_def latest_def Let_def word_le_nat_alt
        split: BreakerState.splits)
qed

text \<open>C18. The breaker implements its specification: whatever calls, successes and failures have been
  recorded, fewer than \<open>2 ^ 32\<close> of them, a request is refused exactly when the results since the last
  success are at least \<open>failure_threshold\<close> failures, one at least, and the latest failure is less
  than \<open>reset_timeout\<close> ago.\<close>

theorem circuit_breaker_refines:
  assumes "breaker_trace threshold timeout h s" and "length h < 2 ^ 32" and "latest h \<le> now"
  shows "fst (allow_request now s) \<longleftrightarrow> \<not> refuses threshold timeout h now"
proof -
  have "breaker_inv threshold timeout h s" using breaker_inv_trace assms(1,2) by blast
  with assms(3) show ?thesis
    by (auto simp: breaker_inv_def refuses_def allow_request_def
        split: BreakerState.splits option.splits)
qed

theorem circuit_breaker_refines_witness:
  "\<not> fst (allow_request 7 (record_failure 5 (record_failure 3 (breaker_new 2 10)))) \<and>
   fst (allow_request 15 (record_failure 5 (record_failure 3 (breaker_new 2 10))))"
proof -
  let ?s = "record_failure 5 (record_failure 3 (breaker_new 2 10))"
  have "breaker_trace 2 10 [(3, Failed)] (record_failure 3 (breaker_new 2 10))"
    by (rule breaker_trace.intros) (auto intro: breaker_trace.intros simp: latest_def)
  then have "breaker_trace 2 10 [(5, Failed), (3, Failed)] ?s"
    by (rule breaker_trace.intros) (simp add: latest_def)
  from circuit_breaker_refines [OF this, of 7] circuit_breaker_refines [OF this, of 15]
  show ?thesis by (simp add: refuses_def latest_def)
qed

end
