(* ===== verification/Error_Details.thy ===== *)
theory Error_Details
  imports Json_Value Grpc_Status "HOL-Library.Monad_Syntax" "HOL-Library.AList"
begin

text \<open>
  Rich error details, \<^verbatim>\<open>typeway-grpc/src/error_details.rs\<close>: the types, the
  builders, and the JSON form that the serde attributes give them, as functions to and from JSON
  values: an internally tagged enum (tag \<^verbatim>\<open>@type\<close>), a renamed field, two fields
  that are skipped when empty. Of a struct, fields of other names are ignored, a repeated or a
  missing field is an error. The text of a JSON value is \<^verbatim>\<open>serde_json\<close>'s, a
  parameter. A hash map is the list of its entries in the order of its iteration.
\<close>

record FieldViolation =
  fv_field :: string
  fv_description :: string

record RetryInfo =
  ri_retry_delay_seconds :: u64
  ri_retry_delay_nanos :: u32

record DebugInfo =
  di_stack_entries :: "string list"
  di_detail :: string

record ErrorInfo =
  ei_reason :: string
  ei_domain :: string
  ei_metadata :: "(string \<times> string) list"

record QuotaViolation =
  qv_subject :: string
  qv_description :: string

record PreconditionViolation =
  pv_violation_type :: string
  pv_subject :: string
  pv_description :: string

record ResourceInfo =
  rs_resource_type :: string
  rs_resource_name :: string
  rs_owner :: string
  rs_description :: string

record HelpLink =
  hl_description :: string
  hl_url :: string

record LocalizedMessage =
  lm_locale :: string
  lm_message :: string

datatype ErrorDetail =
    BadRequest "FieldViolation list"
  | RetryInfoDetail RetryInfo
  | DebugInfoDetail DebugInfo
  | ErrorInfoDetail ErrorInfo
  | QuotaFailure "QuotaViolation list"
  | PreconditionFailure "PreconditionViolation list"
  | ResourceInfoDetail ResourceInfo
  | Help "HelpLink list"
  | LocalizedMessageDetail LocalizedMessage

record RichGrpcStatus =
  rg_code :: i32
  rg_message :: string
  rg_details :: "ErrorDetail list"

subsection \<open>Builders\<close>

definition rich_status_new :: "GrpcCode \<Rightarrow> string \<Rightarrow> RichGrpcStatus" where
  "rich_status_new code message =
     \<lparr>rg_code = word_of_int (as_i32 code), rg_message = message, rg_details = []\<rparr>"

definition push_detail :: "ErrorDetail \<Rightarrow> RichGrpcStatus \<Rightarrow> RichGrpcStatus" where
  "push_detail d s = s\<lparr>rg_details := rg_details s @ [d]\<rparr>"

definition with_bad_request :: "FieldViolation list \<Rightarrow> RichGrpcStatus \<Rightarrow> RichGrpcStatus" where
  "with_bad_request violations s = push_detail (BadRequest violations) s"

text \<open>A \<^verbatim>\<open>Duration\<close> is its whole seconds and the rest in nanoseconds.\<close>

definition with_retry_info :: "u64 \<times> u32 \<Rightarrow> RichGrpcStatus \<Rightarrow> RichGrpcStatus" where
  "with_retry_info delay s =
     push_detail (RetryInfoDetail
       \<lparr>ri_retry_delay_seconds = fst delay, ri_retry_delay_nanos = snd delay\<rparr>) s"

definition with_debug_info :: "string list \<Rightarrow> string \<Rightarrow> RichGrpcStatus \<Rightarrow> RichGrpcStatus" where
  "with_debug_info entries detail s =
     push_detail (DebugInfoDetail \<lparr>di_stack_entries = entries, di_detail = detail\<rparr>) s"

definition with_error_info ::
  "string \<Rightarrow> string \<Rightarrow> (string \<times> string) list \<Rightarrow> RichGrpcStatus \<Rightarrow> RichGrpcStatus" where
  "with_error_info reason domain metadata s =
     push_detail (ErrorInfoDetail
       \<lparr>ei_reason = reason, ei_domain = domain, ei_metadata = metadata\<rparr>) s"

definition with_quota_failure :: "QuotaViolation list \<Rightarrow> RichGrpcStatus \<Rightarrow> RichGrpcStatus" where
  "with_quota_failure violations s = push_detail (QuotaFailure violations) s"

definition with_precondition_failure ::
  "PreconditionViolation list \<Rightarrow> RichGrpcStatus \<Rightarrow> RichGrpcStatus" where
  "with_precondition_failure violations s = push_detail (PreconditionFailure violations) s"

definition with_resource_info ::
  "string \<Rightarrow> string \<Rightarrow> string \<Rightarrow> string \<Rightarrow> RichGrpcStatus \<Rightarrow> RichGrpcStatus" where
  "with_resource_info ty name owner description s =
     push_detail (ResourceInfoDetail
       \<lparr>rs_resource_type = ty, rs_resource_name = name, rs_owner = owner,
        rs_description = description\<rparr>) s"

definition with_help :: "HelpLink list \<Rightarrow> RichGrpcStatus \<Rightarrow> RichGrpcStatus" where
  "with_help links s = push_detail (Help links) s"

definition with_localized_message :: "string \<Rightarrow> string \<Rightarrow> RichGrpcStatus \<Rightarrow> RichGrpcStatus" where
  "with_localized_message loc message s =
     push_detail (LocalizedMessageDetail \<lparr>lm_locale = loc, lm_message = message\<rparr>) s"

subsection \<open>To JSON\<close>

definition field_violation_json :: "FieldViolation \<Rightarrow> json" where
  "field_violation_json v =
     JObj [(''field'', JStr (fv_field v)), (''description'', JStr (fv_description v))]"

definition quota_violation_json :: "QuotaViolation \<Rightarrow> json" where
  "quota_violation_json v =
     JObj [(''subject'', JStr (qv_subject v)), (''description'', JStr (qv_description v))]"

definition precondition_violation_json :: "PreconditionViolation \<Rightarrow> json" where
  "precondition_violation_json v =
     JObj [(''type'', JStr (pv_violation_type v)), (''subject'', JStr (pv_subject v)),
       (''description'', JStr (pv_description v))]"

definition help_link_json :: "HelpLink \<Rightarrow> json" where
  "help_link_json l =
     JObj [(''description'', JStr (hl_description l)), (''url'', JStr (hl_url l))]"

definition metadata_json :: "(string \<times> string) list \<Rightarrow> (string \<times> json) list" where
  "metadata_json md =
     (if md = [] then [] else [(''metadata'', JObj (map (map_prod id JStr) md))])"

definition rpc_type :: "string \<Rightarrow> string" where
  "rpc_type name = ''type.googleapis.com/google.rpc.'' @ name"

fun detail_tag :: "ErrorDetail \<Rightarrow> string" where
  "detail_tag (BadRequest _) = rpc_type ''BadRequest''"
| "detail_tag (RetryInfoDetail _) = rpc_type ''RetryInfo''"
| "detail_tag (DebugInfoDetail _) = rpc_type ''DebugInfo''"
| "detail_tag (ErrorInfoDetail _) = rpc_type ''ErrorInfo''"
| "detail_tag (QuotaFailure _) = rpc_type ''QuotaFailure''"
| "detail_tag (PreconditionFailure _) = rpc_type ''PreconditionFailure''"
| "detail_tag (ResourceInfoDetail _) = rpc_type ''ResourceInfo''"
| "detail_tag (Help _) = rpc_type ''Help''"
| "detail_tag (LocalizedMessageDetail _) = rpc_type ''LocalizedMessage''"

fun detail_fields :: "ErrorDetail \<Rightarrow> (string \<times> json) list" where
  "detail_fields (BadRequest vs) = [(''field_violations'', JArr (map field_violation_json vs))]"
| "detail_fields (RetryInfoDetail r) =
     [(''retry_delay_seconds'', JPos (ri_retry_delay_seconds r)),
      (''retry_delay_nanos'', JPos (ucast (ri_retry_delay_nanos r)))]"
| "detail_fields (DebugInfoDetail d) =
     [(''stack_entries'', JArr (map JStr (di_stack_entries d))), (''detail'', JStr (di_detail d))]"
| "detail_fields (ErrorInfoDetail e) =
     [(''reason'', JStr (ei_reason e)), (''domain'', JStr (ei_domain e))] @
     metadata_json (ei_metadata e)"
| "detail_fields (QuotaFailure vs) = [(''violations'', JArr (map quota_violation_json vs))]"
| "detail_fields (PreconditionFailure vs) =
     [(''violations'', JArr (map precondition_violation_json vs))]"
| "detail_fields (ResourceInfoDetail r) =
     [(''resource_type'', JStr (rs_resource_type r)), (''resource_name'', JStr (rs_resource_name r)),
      (''owner'', JStr (rs_owner r)), (''description'', JStr (rs_description r))]"
| "detail_fields (Help links) = [(''links'', JArr (map help_link_json links))]"
| "detail_fields (LocalizedMessageDetail m) =
     [(''locale'', JStr (lm_locale m)), (''message'', JStr (lm_message m))]"

definition detail_json :: "ErrorDetail \<Rightarrow> json" where
  "detail_json d = JObj ((''@type'', JStr (detail_tag d)) # detail_fields d)"

definition rich_status_json :: "RichGrpcStatus \<Rightarrow> json" where
  "rich_status_json s =
     JObj ([(''code'', json_i64 (scast (rg_code s))), (''message'', JStr (rg_message s))] @
       (if rg_details s = [] then [] else [(''details'', JArr (map detail_json (rg_details s)))]))"

subsection \<open>From JSON\<close>

definition get_field :: "string \<Rightarrow> (string \<times> json) list \<Rightarrow> json list" where
  "get_field k m = map snd (filter (\<lambda>e. fst e = k) m)"

definition req_field :: "string \<Rightarrow> (string \<times> json) list \<Rightarrow> json option" where
  "req_field k m = (case get_field k m of [v] \<Rightarrow> Some v | _ \<Rightarrow> None)"

definition req_str :: "string \<Rightarrow> (string \<times> json) list \<Rightarrow> string option" where
  "req_str k m = Option.bind (req_field k m) as_str"

fun traverse :: "('a \<Rightarrow> 'b option) \<Rightarrow> 'a list \<Rightarrow> 'b list option" where
  "traverse f [] = Some []"
| "traverse f (x # xs) = do { y \<leftarrow> f x; ys \<leftarrow> traverse f xs; Some (y # ys) }"

definition req_list :: "(json \<Rightarrow> 'b option) \<Rightarrow> string \<Rightarrow> (string \<times> json) list \<Rightarrow> 'b list option" where
  "req_list f k m = do { j \<leftarrow> req_field k m; xs \<leftarrow> as_array j; traverse f xs }"

definition json_u32 :: "json \<Rightarrow> u32 option" where
  "json_u32 j = do { n \<leftarrow> as_u64 j; if unat n < 2 ^ 32 then Some (ucast n) else None }"

definition json_i32 :: "json \<Rightarrow> i32 option" where
  "json_i32 j =
     do { n \<leftarrow> as_i64 j;
          if - (2 ^ 31) \<le> sint n \<and> sint n < 2 ^ 31 then Some (word_of_int (sint n)) else None }"

definition field_violation_of :: "json \<Rightarrow> FieldViolation option" where
  "field_violation_of j =
     do { m \<leftarrow> as_object j; f \<leftarrow> req_str ''field'' m; d \<leftarrow> req_str ''description'' m;
          Some \<lparr>fv_field = f, fv_description = d\<rparr> }"

definition quota_violation_of :: "json \<Rightarrow> QuotaViolation option" where
  "quota_violation_of j =
     do { m \<leftarrow> as_object j; u \<leftarrow> req_str ''subject'' m; d \<leftarrow> req_str ''description'' m;
          Some \<lparr>qv_subject = u, qv_description = d\<rparr> }"

definition precondition_violation_of :: "json \<Rightarrow> PreconditionViolation option" where
  "precondition_violation_of j =
     do { m \<leftarrow> as_object j; t \<leftarrow> req_str ''type'' m; u \<leftarrow> req_str ''subject'' m;
          d \<leftarrow> req_str ''description'' m;
          Some \<lparr>pv_violation_type = t, pv_subject = u, pv_description = d\<rparr> }"

definition help_link_of :: "json \<Rightarrow> HelpLink option" where
  "help_link_of j =
     do { m \<leftarrow> as_object j; d \<leftarrow> req_str ''description'' m; u \<leftarrow> req_str ''url'' m;
          Some \<lparr>hl_description = d, hl_url = u\<rparr> }"

definition entry_of :: "string \<times> json \<Rightarrow> (string \<times> string) option" where
  "entry_of e = do { v \<leftarrow> as_str (snd e); Some (fst e, v) }"

definition metadata_of :: "(string \<times> json) list \<Rightarrow> (string \<times> string) list option" where
  "metadata_of m =
     (case get_field ''metadata'' m of
        [] \<Rightarrow> Some []
      | [j] \<Rightarrow> do { o' \<leftarrow> as_object j; es \<leftarrow> traverse entry_of o';
                    Some (fold (\<lambda>(k, v). AList.update k v) es []) }
      | _ \<Rightarrow> None)"

definition detail_of_fields :: "string \<Rightarrow> (string \<times> json) list \<Rightarrow> ErrorDetail option" where
  "detail_of_fields tag m =
     (if tag = rpc_type ''BadRequest'' then
        map_option BadRequest (req_list field_violation_of ''field_violations'' m)
      else if tag = rpc_type ''RetryInfo'' then
        do { s \<leftarrow> Option.bind (req_field ''retry_delay_seconds'' m) as_u64;
             n \<leftarrow> Option.bind (req_field ''retry_delay_nanos'' m) json_u32;
             Some (RetryInfoDetail \<lparr>ri_retry_delay_seconds = s, ri_retry_delay_nanos = n\<rparr>) }
      else if tag = rpc_type ''DebugInfo'' then
        do { es \<leftarrow> req_list as_str ''stack_entries'' m; d \<leftarrow> req_str ''detail'' m;
             Some (DebugInfoDetail \<lparr>di_stack_entries = es, di_detail = d\<rparr>) }
      else if tag = rpc_type ''ErrorInfo'' then
        do { r \<leftarrow> req_str ''reason'' m; d \<leftarrow> req_str ''domain'' m; md \<leftarrow> metadata_of m;
             Some (ErrorInfoDetail \<lparr>ei_reason = r, ei_domain = d, ei_metadata = md\<rparr>) }
      else if tag = rpc_type ''QuotaFailure'' then
        map_option QuotaFailure (req_list quota_violation_of ''violations'' m)
      else if tag = rpc_type ''PreconditionFailure'' then
        map_option PreconditionFailure (req_list precondition_violation_of ''violations'' m)
      else if tag = rpc_type ''ResourceInfo'' then
        do { t \<leftarrow> req_str ''resource_type'' m; n \<leftarrow> req_str ''resource_name'' m;
             w \<leftarrow> req_str ''owner'' m; d \<leftarrow> req_str ''description'' m;
             Some (ResourceInfoDetail \<lparr>rs_resource_type = t, rs_resource_name = n, rs_owner = w,
               rs_description = d\<rparr>) }
      else if tag = rpc_type ''Help'' then
        map_option Help (req_list help_link_of ''links'' m)
      else if tag = rpc_type ''LocalizedMessage'' then
        do { l \<leftarrow> req_str ''locale'' m; x \<leftarrow> req_str ''message'' m;
             Some (LocalizedMessageDetail \<lparr>lm_locale = l, lm_message = x\<rparr>) }
      else None)"

definition detail_of :: "json \<Rightarrow> ErrorDetail option" where
  "detail_of j =
     do { m \<leftarrow> as_object j; tag \<leftarrow> req_str ''@type'' m;
          detail_of_fields tag (filter (\<lambda>e. fst e \<noteq> ''@type'') m) }"

definition rich_status_of :: "json \<Rightarrow> RichGrpcStatus option" where
  "rich_status_of j =
     do { m \<leftarrow> as_object j; c \<leftarrow> Option.bind (req_field ''code'' m) json_i32;
          msg \<leftarrow> req_str ''message'' m;
          ds \<leftarrow> (if get_field ''details'' m = [] then Some [] else req_list detail_of ''details'' m);
          Some \<lparr>rg_code = c, rg_message = msg, rg_details = ds\<rparr> }"

definition parse_rich_status :: "(bytes \<Rightarrow> json option) \<Rightarrow> bytes \<Rightarrow> RichGrpcStatus option" where
  "parse_rich_status from_slice body = Option.bind (from_slice body) rich_status_of"

definition to_json_bytes :: "(json \<Rightarrow> bytes option) \<Rightarrow> RichGrpcStatus \<Rightarrow> bytes" where
  "to_json_bytes to_vec s = (case to_vec (rich_status_json s) of Some b \<Rightarrow> b | None \<Rightarrow> [])"

definition to_grpc_response_parts ::
  "(json \<Rightarrow> bytes option) \<Rightarrow> RichGrpcStatus \<Rightarrow> (string \<times> string) list \<times> bytes" where
  "to_grpc_response_parts to_vec s =
     ([(''grpc-status'', dec_int (sint (rg_code s))), (''grpc-message'', rg_message s)],
      (if rg_details s = [] then [] else to_json_bytes to_vec s))"

definition rich_into_grpc_status :: "RichGrpcStatus \<Rightarrow> GrpcStatus" where
  "rich_into_grpc_status s =
     \<lparr>st_code = from_i32 (sint (rg_code s)), st_message = rg_message s\<rparr>"

subsection \<open>Round trip\<close>

lemma traverse_map: "(\<And>x. x \<in> set xs \<Longrightarrow> f (g x) = Some x) \<Longrightarrow> traverse f (map g xs) = Some xs"
  by (induction xs) auto

lemmas field_defs =
  req_list_def req_str_def req_field_def get_field_def

lemma field_violation_rt [simp]: "field_violation_of (field_violation_json v) = Some v"
  by (simp add: field_violation_of_def field_violation_json_def field_defs)

lemma quota_violation_rt [simp]: "quota_violation_of (quota_violation_json v) = Some v"
  by (simp add: quota_violation_of_def quota_violation_json_def field_defs)

lemma precondition_violation_rt [simp]:
  "precondition_violation_of (precondition_violation_json v) = Some v"
  by (simp add: precondition_violation_of_def precondition_violation_json_def field_defs)

lemma help_link_rt [simp]: "help_link_of (help_link_json l) = Some l"
  by (simp add: help_link_of_def help_link_json_def field_defs)

lemma update_new: "k \<notin> fst ` set al \<Longrightarrow> AList.update k v al = al @ [(k, v)]"
  by (induction al) auto

lemma fold_update_distinct:
  assumes "distinct (map fst (acc @ es))"
  shows "fold (\<lambda>(k, v). AList.update k v) es acc = acc @ es"
  using assms
proof (induction es arbitrary: acc)
  case (Cons e es)
  obtain k v where e: "e = (k, v)" by fastforce
  have "k \<notin> fst ` set acc" using Cons.prems e by auto
  then have "AList.update k v acc = acc @ [e]" by (simp add: e update_new)
  with Cons.IH [of "acc @ [e]"] Cons.prems e show ?case by simp
qed simp

definition metadata_distinct :: "ErrorDetail \<Rightarrow> bool" where
  "metadata_distinct d =
     (case d of ErrorInfoDetail e \<Rightarrow> distinct (map fst (ei_metadata e)) | _ \<Rightarrow> True)"

lemma traverse_entries: "traverse entry_of (map (map_prod id JStr) es) = Some es"
  by (rule traverse_map) (simp add: entry_of_def map_prod_def case_prod_beta)

lemma metadata_rt:
  assumes "distinct (map fst md)"
  shows "metadata_of ((''reason'', r) # (''domain'', d) # metadata_json md) = Some md"
  using fold_update_distinct [of "[]" md] assms
  by (simp add: metadata_of_def metadata_json_def get_field_def traverse_entries)

lemma json_u32_rt [simp]: "json_u32 (JPos (ucast (n :: u32))) = Some n"
  using unsigned_less [of n, where ?'a = nat] by (simp add: json_u32_def unsigned_ucast_eq take_bit_word_eq_self take_bit_nat_eq_self)

lemma scast_i32_sint: "sint (scast (c :: i32) :: i64) = sint c"
proof -
  have "- (2 ^ 63) \<le> sint c" "sint c < 2 ^ 63"
    using sint_greater_eq [of c] sint_lt [of c] by simp_all
  then show ?thesis by (simp add: signed_scast_eq signed_take_bit_int_eq_self)
qed

lemma json_i32_rt [simp]: "json_i32 (json_i64 (scast (c :: i32))) = Some c"
proof -
  have r: "- (2 ^ 31) \<le> sint c" "sint c < 2 ^ 31"
    using sint_greater_eq [of c] sint_lt [of c] by simp_all
  have "as_i64 (json_i64 (scast c)) = Some (scast c :: i64)"
  proof (cases "sint c < 0")
    case False
    then have "unat (scast c :: i64) < 2 ^ 63"
      using r uint_sint [of "scast c :: i64"]
      by (simp add: scast_i32_sint take_bit_int_eq_self unat_eq_nat_uint)
    then show ?thesis using False by (simp add: json_i64_def scast_i32_sint)
  qed (simp add: json_i64_def scast_i32_sint)
  then show ?thesis using r by (simp add: json_i32_def scast_i32_sint)
qed

lemma tags_distinct: "rpc_type a = rpc_type b \<longleftrightarrow> a = b"
  by (simp add: rpc_type_def)

lemma req_before_metadata [simp]:
  "req_str ''reason'' ((''reason'', JStr r) # (''domain'', d) # metadata_json md) = Some r"
  "req_str ''domain'' ((''reason'', d) # (''domain'', JStr r) # metadata_json md) = Some r"
  by (simp_all add: field_defs metadata_json_def)

lemma detail_of_fields_rt:
  assumes "metadata_distinct d"
  shows "detail_of_fields (detail_tag d) (detail_fields d) = Some d"
proof (cases d)
  case (ErrorInfoDetail e)
  then show ?thesis
    using assms by (simp add: detail_of_fields_def tags_distinct metadata_distinct_def metadata_rt)
qed (simp_all add: detail_of_fields_def tags_distinct traverse_map field_defs)

lemma detail_fields_no_tag: "filter (\<lambda>e. fst e \<noteq> ''@type'') (detail_fields d) = detail_fields d"
  by (cases d) (simp_all add: metadata_json_def)

lemma detail_rt: "metadata_distinct d \<Longrightarrow> detail_of (detail_json d) = Some d"
proof -
  assume d: "metadata_distinct d"
  have "get_field ''@type'' (detail_fields d) = []"
    by (cases d) (simp_all add: get_field_def metadata_json_def)
  then show ?thesis
    using d by (simp add: detail_of_def detail_json_def req_str_def req_field_def get_field_def
        detail_fields_no_tag detail_of_fields_rt)
qed

lemma rich_status_rt:
  "list_all metadata_distinct (rg_details s) \<Longrightarrow> rich_status_of (rich_status_json s) = Some s"
  by (simp add: rich_status_of_def rich_status_json_def field_defs list_all_iff traverse_map detail_rt)

end
