(* ===== verification/Grpc_Client.thy ===== *)
theory Grpc_Client
  imports Http_Client Circuit_Breaker Grpc_Web Error_Details
begin

text \<open>
  The gRPC client, \<^verbatim>\<open>typeway-grpc/src/client.rs\<close>: one request and how its answer is
  read, the retry loop with the circuit breaker, unary and streaming calls. URL joining, the
  transport (\<^verbatim>\<open>reqwest\<close>), \<^verbatim>\<open>serde_json\<close> and the back-off times are
  parameters; the loop is proved to be a \<open>bounded_retry\<close>.
\<close>

subsection \<open>Policy, configuration, errors\<close>

record GrpcRetryPolicy =
  gp_max_retries :: u32
  gp_initial_backoff :: nat
  gp_max_backoff :: nat
  gp_multiplier :: f64
  gp_retry_on :: "GrpcCode list"

definition grpc_retry_default :: GrpcRetryPolicy where
  "grpc_retry_default =
     \<lparr>gp_max_retries = 3, gp_initial_backoff = 100 * 10 ^ 6, gp_max_backoff = 10 * 10 ^ 9,
      gp_multiplier = u64_to_f64 2, gp_retry_on = [Unavailable, ResourceExhausted, DeadlineExceeded]\<rparr>"

definition should_retry :: "GrpcRetryPolicy \<Rightarrow> GrpcCode \<Rightarrow> bool" where
  "should_retry p code \<longleftrightarrow> code \<in> set (gp_retry_on p)"

record GrpcClientConfig =
  gc_default_metadata :: "(string \<times> string) list"
  gc_timeout :: "nat option"
  gc_interceptors :: "(http_request \<Rightarrow> http_request) list"
  gc_retry :: "GrpcRetryPolicy option"

definition grpc_config_default :: GrpcClientConfig where
  "grpc_config_default =
     \<lparr>gc_default_metadata = [], gc_timeout = Some (30 * 10 ^ 9), gc_interceptors = [],
      gc_retry = None\<rparr>"

definition gcfg_metadata :: "string \<Rightarrow> string \<Rightarrow> GrpcClientConfig \<Rightarrow> GrpcClientConfig" where
  "gcfg_metadata key v c = c\<lparr>gc_default_metadata := gc_default_metadata c @ [(key, v)]\<rparr>"

definition gcfg_bearer_auth :: "string \<Rightarrow> GrpcClientConfig \<Rightarrow> GrpcClientConfig" where
  "gcfg_bearer_auth token c = gcfg_metadata ''authorization'' (''Bearer '' @ token) c"

definition gcfg_timeout :: "nat \<Rightarrow> GrpcClientConfig \<Rightarrow> GrpcClientConfig" where
  "gcfg_timeout d c = c\<lparr>gc_timeout := Some d\<rparr>"

definition gcfg_no_timeout :: "GrpcClientConfig \<Rightarrow> GrpcClientConfig" where
  "gcfg_no_timeout c = c\<lparr>gc_timeout := None\<rparr>"

definition gcfg_interceptor ::
  "(http_request \<Rightarrow> http_request) \<Rightarrow> GrpcClientConfig \<Rightarrow> GrpcClientConfig" where
  "gcfg_interceptor f c = c\<lparr>gc_interceptors := gc_interceptors c @ [f]\<rparr>"

datatype CodecErrorKind = EncodeKind | DecodeKind

datatype GrpcCodecError = GrpcCodecError CodecErrorKind string

datatype GrpcClientError =
    GrpcStatusError GrpcCode string "ErrorDetail list"
  | Transport string
  | Codec GrpcCodecError
  | InvalidUrl string
  | Framing string

fun rich_details :: "GrpcClientError \<Rightarrow> ErrorDetail list" where
  "rich_details (GrpcStatusError code message details) = details"
| "rich_details _ = []"

fun grpc_error_code :: "GrpcClientError \<Rightarrow> GrpcCode option" where
  "grpc_error_code (GrpcStatusError code message details) = Some code"
| "grpc_error_code _ = None"

fun codec_error_text :: "GrpcCodecError \<Rightarrow> string" where
  "codec_error_text (GrpcCodecError EncodeKind message) = ''gRPC encode error: '' @ message"
| "codec_error_text (GrpcCodecError DecodeKind message) = ''gRPC decode error: '' @ message"

fun grpc_error_text :: "GrpcClientError \<Rightarrow> string" where
  "grpc_error_text (GrpcStatusError code message details) =
     ''gRPC error '' @ dec_int (as_i32 code) @ '': '' @ message"
| "grpc_error_text (Transport e) = ''transport error: '' @ e"
| "grpc_error_text (Codec e) = ''codec error: '' @ codec_error_text e"
| "grpc_error_text (InvalidUrl e) = ''invalid URL: '' @ e"
| "grpc_error_text (Framing e) = ''framing error: '' @ e"

text \<open>The dash is three bytes.\<close>

fun framing_error_text :: "FramingError \<Rightarrow> string" where
  "framing_error_text (TooShort got) =
     ''frame too short: got '' @ dec got @ '' bytes, need at least 5''"
| "framing_error_text CompressedNotSupported =
     ''compressed gRPC frames are not supported '' @ [CHR 0xE2, CHR 0x80, CHR 0x94] @
     '' send uncompressed or use a gRPC proxy''"
| "framing_error_text (Incomplete expected got) =
     ''incomplete frame: expected '' @ dec expected @ '' bytes, got '' @ dec got"

subsection \<open>Codecs\<close>

record grpc_codec =
  codec_content_type :: string
  codec_encode :: "json \<Rightarrow> (bytes, GrpcCodecError) result"
  codec_decode :: "bytes \<Rightarrow> (json, GrpcCodecError) result"

definition json_codec ::
  "(json \<Rightarrow> bytes + string) \<Rightarrow> (bytes \<Rightarrow> json + string) \<Rightarrow> grpc_codec" where
  "json_codec to_vec from_slice =
     \<lparr>codec_content_type = ''application/grpc+json'',
      codec_encode = (\<lambda>v. case to_vec v of
        Inl b \<Rightarrow> Ok b | Inr e \<Rightarrow> Err (GrpcCodecError EncodeKind e)),
      codec_decode = (\<lambda>data. if data = [] then Ok (JObj [])
        else case from_slice data of
          Inl v \<Rightarrow> Ok v | Inr e \<Rightarrow> Err (GrpcCodecError DecodeKind e))\<rparr>"

subsection \<open>One request\<close>

definition error_details_of :: "(bytes \<Rightarrow> json option) \<Rightarrow> bytes \<Rightarrow> ErrorDetail list" where
  "error_details_of from_slice body =
     (if body = [] then []
      else let unframed = (case decode_grpc_frame body of Ok u \<Rightarrow> u | _ \<Rightarrow> [])
           in case parse_rich_status from_slice unframed of
                Some s \<Rightarrow> rg_details s
              | None \<Rightarrow> (case parse_rich_status from_slice body of
                           Some s \<Rightarrow> rg_details s
                         | None \<Rightarrow> []))"

definition grpc_read_reply ::
  "(string \<Rightarrow> string option) \<Rightarrow> (bytes \<Rightarrow> json option) \<Rightarrow> http_reply + reqwest_error \<Rightarrow>
   (bytes, GrpcClientError) result" where
  "grpc_read_reply to_str from_slice sent =
     (case sent of
        Inr e \<Rightarrow> Err (Transport (re_text e))
      | Inl reply \<Rightarrow>
          (case client_status to_str (hp_headers reply) of
             (grpc_status, grpc_message) \<Rightarrow>
               (if grpc_status \<noteq> 0 then
                  (let body = (case hp_body reply of Inl b \<Rightarrow> b | Inr _ \<Rightarrow> [])
                   in Err (GrpcStatusError (from_i32 grpc_status) grpc_message
                        (error_details_of from_slice body)))
                else case hp_body reply of
                       Inl b \<Rightarrow> Ok b
                     | Inr e \<Rightarrow> Err (Transport (re_text e)))))"

definition grpc_build_request ::
  "(string \<Rightarrow> string + string) \<Rightarrow> GrpcClientConfig \<Rightarrow> grpc_codec \<Rightarrow> string \<Rightarrow> string \<Rightarrow> json \<Rightarrow>
   (http_request, GrpcClientError) result" where
  "grpc_build_request join config codec service_path method request =
     (case join (''/'' @ service_path @ ''/'' @ method) of
        Inr e \<Rightarrow> Err (InvalidUrl e)
      | Inl url \<Rightarrow>
          and_then (map_err Codec (codec_encode codec request)) (\<lambda>encoded.
            let req = \<lparr>hr_method = ''POST'', hr_url = url,
                  hr_headers = [(''content-type'', codec_content_type codec), (''te'', ''trailers'')]
                    @ gc_default_metadata config,
                  hr_body = Some (encode_grpc_frame encoded), hr_timeout = gc_timeout config\<rparr>
            in Ok (fold (\<lambda>f r. f r) (gc_interceptors config) req)))"

definition send_request_once ::
  "(string \<Rightarrow> string option) \<Rightarrow> (bytes \<Rightarrow> json option) \<Rightarrow> (http_request \<Rightarrow> http_reply + reqwest_error) \<Rightarrow>
   (http_request, GrpcClientError) result \<Rightarrow> (bytes, GrpcClientError) result" where
  "send_request_once to_str from_slice transport built =
     and_then built (\<lambda>req. grpc_read_reply to_str from_slice (transport req))"

subsection \<open>Retries and the circuit breaker\<close>

definition grpc_retryable :: "GrpcRetryPolicy option \<Rightarrow> GrpcClientError \<Rightarrow> bool" where
  "grpc_retryable retry e =
     (case retry of
        Some policy \<Rightarrow>
          (case e of
             GrpcStatusError code _ _ \<Rightarrow> should_retry policy code
           | Transport _ \<Rightarrow> True
           | _ \<Rightarrow> False)
      | None \<Rightarrow> False)"

definition breaker_open_error :: GrpcClientError where
  "breaker_open_error = GrpcStatusError Unavailable ''circuit breaker open'' []"

text \<open>
  The loop, with \<open>n\<close> turns left of \<open>max_attempts\<close>. Attempt \<open>k\<close> asks the breaker at time
  \<open>fst (clock k)\<close> and records its result at \<open>snd (clock k)\<close>; \<open>res k\<close> is the result of
  its request; \<open>backoff\<close> gives the pauses.
\<close>

fun send_loop ::
  "GrpcRetryPolicy option \<Rightarrow> (nat \<Rightarrow> nat) \<Rightarrow> (nat \<Rightarrow> nat \<times> nat) \<Rightarrow> (nat \<Rightarrow> ('v, GrpcClientError) result) \<Rightarrow>
   nat \<Rightarrow> nat \<Rightarrow> nat \<Rightarrow> CircuitBreaker option \<Rightarrow> GrpcClientError option \<Rightarrow>
   (('v, GrpcClientError) result \<times> retry_event list) \<times> CircuitBreaker option" where
  "send_loop retry backoff clock res max_attempts 0 attempt breaker last_err =
     ((Err (case last_err of
              Some e \<Rightarrow> e | None \<Rightarrow> Transport ''all retry attempts exhausted''), []), breaker)"
| "send_loop retry backoff clock res max_attempts (Suc n) attempt breaker last_err =
     (let asked = map_option (allow_request (fst (clock attempt))) breaker;
          breaker1 = map_option snd asked
      in if map_option fst asked = Some False then ((Err breaker_open_error, []), breaker1)
         else let pause = (if 0 < attempt \<and> retry \<noteq> None then [Sleep (backoff (attempt - 1))] else [])
              in case res attempt of
                   Ok body \<Rightarrow> ((Ok body, pause @ [Send]), map_option record_success breaker1)
                 | Panic \<Rightarrow> ((Panic, pause @ [Send]), breaker1)
                 | Err e \<Rightarrow>
                     (let breaker2 = map_option (record_failure (snd (clock attempt))) breaker1
                      in if grpc_retryable retry e \<and> attempt + 1 < max_attempts then
                           (case send_loop retry backoff clock res max_attempts n (attempt + 1)
                                breaker2 (Some e) of
                              ((r, evs), b) \<Rightarrow> ((r, pause @ Send # evs), b))
                         else ((Err e, pause @ [Send]), breaker2)))"

text \<open>\<^verbatim>\<open>r.max_retries + 1\<close> wraps in a release build.\<close>

definition max_attempts :: "GrpcRetryPolicy option \<Rightarrow> nat" where
  "max_attempts retry = (case retry of Some r \<Rightarrow> unat (gp_max_retries r + 1) | None \<Rightarrow> 1)"

definition send_request ::
  "GrpcRetryPolicy option \<Rightarrow> (nat \<Rightarrow> nat) \<Rightarrow> (nat \<Rightarrow> nat \<times> nat) \<Rightarrow> CircuitBreaker option \<Rightarrow>
   (nat \<Rightarrow> ('v, GrpcClientError) result) \<Rightarrow>
   (('v, GrpcClientError) result \<times> retry_event list) \<times> CircuitBreaker option" where
  "send_request retry backoff clock breaker res =
     send_loop retry backoff clock res (max_attempts retry) (max_attempts retry) 0 breaker None"

subsection \<open>Calls\<close>

definition grpc_call ::
  "grpc_codec \<Rightarrow> (bytes, GrpcClientError) result \<Rightarrow> (json, GrpcClientError) result" where
  "grpc_call codec response =
     and_then response (\<lambda>data.
       and_then (map_err (\<lambda>e. Framing (framing_error_text e)) (decode_grpc_frame data))
         (\<lambda>unframed. map_err Codec (codec_decode codec unframed)))"

record ClientStream =
  str_frames :: "json list"
  str_index :: nat

definition call_server_stream ::
  "grpc_codec \<Rightarrow> (bytes, GrpcClientError) result \<Rightarrow> (ClientStream, GrpcClientError) result" where
  "call_server_stream codec response =
     and_then response (\<lambda>data.
       and_then (concat_mapM (\<lambda>frame. map_err Codec (result_map (\<lambda>v. [v]) (codec_decode codec frame)))
           (fst (decode_grpc_frames data)))
         (\<lambda>items. Ok \<lparr>str_frames = items, str_index = 0\<rparr>))"

definition stream_recv :: "ClientStream \<Rightarrow> json option \<times> ClientStream" where
  "stream_recv s =
     (if str_index s < length (str_frames s)
      then (Some (str_frames s ! str_index s), s\<lparr>str_index := str_index s + 1\<rparr>)
      else (None, s))"

definition stream_collect :: "ClientStream \<Rightarrow> json list" where
  "stream_collect s = str_frames s"

definition stream_len :: "ClientStream \<Rightarrow> nat" where
  "stream_len s = length (str_frames s)"

definition stream_is_empty :: "ClientStream \<Rightarrow> bool" where
  "stream_is_empty s \<longleftrightarrow> str_frames s = []"

subsection \<open>Without a breaker the loop is a bounded retry\<close>

lemma keeps_failing_step:
  "keeps_failing retryable (\<lambda>j. res (a + j)) (Suc k) \<longleftrightarrow>
   (\<exists>e. res a = Err e \<and> retryable e) \<and> keeps_failing retryable (\<lambda>j. res (Suc a + j)) k"
  by (auto simp: keeps_failing_def less_Suc_eq_0_disj)

lemma send_loop_stop:
  assumes "k < n" "keeps_failing (grpc_retryable retry) (\<lambda>j. res (a + j)) k"
    "stops_at (grpc_retryable retry) res (a + k)"
  shows "fst (fst (send_loop retry backoff clock res (a + n) n a None last_err)) = res (a + k) \<and>
    sends (snd (fst (send_loop retry backoff clock res (a + n) n a None last_err))) = Suc k"
  using assms
proof (induction k arbitrary: n a last_err)
  case 0
  then obtain m where "n = Suc m" by (cases n) auto
  with 0 show ?case by (auto simp: stops_at_def split: result.splits)
next
  case (Suc k)
  then obtain m where n: "n = Suc m" "k < m" by (cases n) auto
  from Suc.prems(2) obtain e where e: "res a = Err e" "grpc_retryable retry e"
    and rest: "keeps_failing (grpc_retryable retry) (\<lambda>j. res (Suc a + j)) k"
    unfolding keeps_failing_step by blast
  from Suc.prems(3) have "stops_at (grpc_retryable retry) res (Suc a + k)" by simp
  from Suc.IH [OF n(2) rest this, of "Some e"] n e show ?case
    by (auto split: prod.splits)
qed

lemma send_loop_exhaust:
  assumes "keeps_failing (grpc_retryable retry) (\<lambda>j. res (a + j)) (Suc m)" "res (a + m) = Err e"
  shows "fst (fst (send_loop retry backoff clock res (a + Suc m) (Suc m) a None last_err)) = Err e \<and>
    sends (snd (fst (send_loop retry backoff clock res (a + Suc m) (Suc m) a None last_err))) = Suc m"
  using assms
proof (induction m arbitrary: a last_err)
  case (Suc m)
  from Suc.prems(1) obtain d where d: "res a = Err d" "grpc_retryable retry d"
    and rest: "keeps_failing (grpc_retryable retry) (\<lambda>j. res (Suc a + j)) (Suc m)"
    unfolding keeps_failing_step by blast
  from Suc.prems(2) have "res (Suc a + m) = Err e" by simp
  from Suc.IH [OF rest this, of "Some d"] d show ?case by (auto split: prod.splits)
qed simp

interpretation grpc_retry: bounded_retry
  "\<lambda>res. fst (send_loop retry backoff clock res (Suc m) (Suc m) 0 None None)"
  "grpc_retryable retry" "Suc m" "\<lambda>e. e"
  for retry :: "GrpcRetryPolicy option" and backoff :: "nat \<Rightarrow> nat" and clock :: "nat \<Rightarrow> nat \<times> nat"
    and m :: nat
proof unfold_locales
  fix k and res :: "nat \<Rightarrow> ('a, GrpcClientError) result"
  assume "k < Suc m" "keeps_failing (grpc_retryable retry) res k" "stops_at (grpc_retryable retry) res k"
  then show "fst (fst (send_loop retry backoff clock res (Suc m) (Suc m) 0 None None)) = res k \<and>
      sends (snd (fst (send_loop retry backoff clock res (Suc m) (Suc m) 0 None None))) = Suc k"
    using send_loop_stop [of k "Suc m" retry res 0 backoff clock None] by simp
next
  fix e and res :: "nat \<Rightarrow> ('a, GrpcClientError) result"
  assume "keeps_failing (grpc_retryable retry) res (Suc m)" "res (Suc m - 1) = Err e"
  then show "fst (fst (send_loop retry backoff clock res (Suc m) (Suc m) 0 None None)) = Err e \<and>
      sends (snd (fst (send_loop retry backoff clock res (Suc m) (Suc m) 0 None None))) = Suc m"
    using send_loop_exhaust [of retry res 0 m e backoff clock None] by simp
qed simp

lemma max_attempts_None: "max_attempts None = Suc 0"
  by (simp add: max_attempts_def)

lemma max_attempts_Some:
  assumes "gp_max_retries p \<noteq> - 1"
  shows "max_attempts (Some p) = Suc (unat (gp_max_retries p))"
proof -
  have "1 + gp_max_retries p \<noteq> 0" using assms unfolding add_eq_0_iff .
  from unatSuc [OF this] show ?thesis by (simp add: max_attempts_def add.commute)
qed

text \<open>With a breaker that refuses, nothing is sent.\<close>

lemma send_request_refused:
  assumes "max_attempts retry \<noteq> 0" "\<not> fst (allow_request (fst (clock 0)) cb)"
  shows "send_request retry backoff clock (Some cb) res =
    ((Err breaker_open_error, []), Some (snd (allow_request (fst (clock 0)) cb)))"
  using assms
  by (cases "max_attempts retry"; cases "allow_request (fst (clock 0)) cb") (simp_all add: send_request_def ex_bool_eq)

text \<open>Nor with a policy of the largest number of retries: the loop has no turn at all.\<close>

lemma send_request_no_turn:
  "send_request (Some (p\<lparr>gp_max_retries := - 1\<rparr>)) backoff clock breaker res =
   ((Err (Transport ''all retry attempts exhausted''), []), breaker)"
  by (simp add: send_request_def max_attempts_def)

subsection \<open>The breaker under the loop\<close>

text \<open>The results recorded in a history.\<close>

definition outcomes :: "history \<Rightarrow> nat" where
  "outcomes h = length (filter (\<lambda>e. snd e \<noteq> Asked) h)"

lemma outcomes_simps [simp]:
  "outcomes [] = 0" "outcomes ((t, Asked) # h) = outcomes h"
  "outcomes ((t, Succeeded) # h) = Suc (outcomes h)" "outcomes ((t, Failed) # h) = Suc (outcomes h)"
  "outcomes (h @ h') = outcomes h + outcomes h'"
  by (simp_all add: outcomes_def)

definition clock_runs :: "(nat \<Rightarrow> nat \<times> nat) \<Rightarrow> bool" where
  "clock_runs clock \<longleftrightarrow>
     (\<forall>k. fst (clock k) \<le> snd (clock k) \<and> snd (clock k) \<le> fst (clock (Suc k)))"

lemma latest_Cons [simp]: "latest ((t, e) # h) = t"
  by (simp add: latest_def)

lemma send_loop_traces:
  assumes "breaker_trace threshold timeout h cb" "latest h \<le> fst (clock a)" "clock_runs clock"
    "\<And>k. res k \<noteq> Panic"
    "send_loop retry backoff clock res m n a (Some cb) last_err = ((r, evs), b)"
  shows "\<exists>h' cb'. b = Some cb' \<and> breaker_trace threshold timeout (h' @ h) cb' \<and>
    outcomes h' = sends evs"
  using assms
proof (induction n arbitrary: h cb a last_err evs r b)
  case 0
  then show ?case by (auto intro!: exI [of _ "[]"])
next
  case (Suc n)
  let ?t = "fst (clock a)" and ?u = "snd (clock a)"
  obtain ok cb1 where ask: "allow_request ?t cb = (ok, cb1)" by fastforce
  have tu: "?t \<le> ?u" "?u \<le> fst (clock (Suc a))" using Suc.prems(3) by (auto simp: clock_runs_def)
  have tr1: "breaker_trace threshold timeout ((?t, Asked) # h) cb1"
    using breaker_trace.ask [OF Suc.prems(1,2)] ask by simp
  define pause where "pause = (if 0 < a \<and> retry \<noteq> None then [Sleep (backoff (a - 1))] else [])"
  have p: "sends pause = 0" by (simp add: pause_def)
  show ?case
  proof (cases ok)
    case False
    then show ?thesis using Suc.prems(5) ask tr1
      by (auto simp: ex_bool_eq Let_def intro!: exI [of _ "[(?t, Asked)]"])
  next
    case ok: True
    show ?thesis
    proof (cases "res a")
      case (Ok body)
      have "breaker_trace threshold timeout ((?u, Succeeded) # (?t, Asked) # h) (record_success cb1)"
        using breaker_trace.success [OF tr1] tu(1) by simp
      then show ?thesis using Suc.prems(5) ask ok Ok p
        by (auto simp: Let_def pause_def [symmetric] intro!: exI [of _ "[(?u, Succeeded), (?t, Asked)]"])
    next
      case (Err e)
      let ?cb2 = "record_failure ?u cb1" and ?h2 = "(?u, Failed) # (?t, Asked) # h"
      have tr2: "breaker_trace threshold timeout ?h2 ?cb2"
        using breaker_trace.failure [OF tr1] tu(1) by simp
      show ?thesis
      proof (cases "grpc_retryable retry e \<and> a + 1 < m")
        case False
        then show ?thesis using Suc.prems(5) ask ok Err p tr2
          by (auto simp: Let_def pause_def [symmetric] intro!: exI [of _ "[(?u, Failed), (?t, Asked)]"])
      next
        case True
        obtain r' evs' b' where rest:
          "send_loop retry backoff clock res m n (Suc a) (Some ?cb2) (Some e) = ((r', evs'), b')"
          by (metis surj_pair)
        from Suc.IH [OF tr2 _ Suc.prems(3,4) rest] tu(2)
        obtain h' cb' where "b' = Some cb'" "breaker_trace threshold timeout (h' @ ?h2) cb'"
          "outcomes h' = sends evs'" by auto
        then show ?thesis using Suc.prems(5) ask ok Err p True rest
          by (auto simp: Let_def pause_def [symmetric]
              intro!: exI [of _ "h' @ [(?u, Failed), (?t, Asked)]"])
      qed
    qed (use Suc.prems(4) in simp)
  qed
qed

subsection \<open>Properties\<close>







end
