(* ===== verification/Negotiation.thy ===== *)
theory Negotiation
  imports Json_Value Http_Headers "HOL-Library.Multiset"
begin

text \<open>
  Content negotiation, \<^verbatim>\<open>typeway-server/src/negotiate.rs\<close>: the entries of an
  \<^verbatim>\<open>Accept\<close> header with their qualities, their sort, and the choice of a format. Reading
  a decimal as \<^verbatim>\<open>f32\<close> is the parameter \<open>parse_f32\<close>, the serializers of a value
  are the list \<open>renderers\<close>. The stable sort is written as the insertion sort that
  \<^verbatim>\<open>sort_by\<close> uses for up to twenty entries; for longer lists every stable sort gives the
  same result, as long as no quality is a NaN, whose comparison is no order.
\<close>

definition json_content_type :: string where
  "json_content_type = ''application/json''"

definition text_content_type :: string where
  "text_content_type = ''text/plain; charset=utf-8''"

definition html_content_type :: string where
  "html_content_type = ''text/html; charset=utf-8''"

definition csv_content_type :: string where
  "csv_content_type = ''text/csv''"

definition xml_content_type :: string where
  "xml_content_type = ''application/xml''"

subsection \<open>Comparison of qualities\<close>

definition f32_is_nan :: "f32 \<Rightarrow> bool" where
  "f32_is_nan b \<longleftrightarrow> unat b div 2 ^ 23 mod 2 ^ 8 = 255 \<and> unat b mod 2 ^ 23 \<noteq> 0"

text \<open>Sign and magnitude as an integer; the two zeros are equal.\<close>

definition f32_rank :: "f32 \<Rightarrow> int" where
  "f32_rank b = (if unat b < 2 ^ 31 then int (unat b) else - int (unat b - 2 ^ 31))"

definition f32_less :: "f32 \<Rightarrow> f32 \<Rightarrow> bool" where
  "f32_less a b \<longleftrightarrow> \<not> f32_is_nan a \<and> \<not> f32_is_nan b \<and> f32_rank a < f32_rank b"

definition f32_one :: f32 where
  "f32_one = 0x3F800000"

subsection \<open>The Accept header\<close>

definition split_first :: "char \<Rightarrow> string \<Rightarrow> string" where
  "split_first c s = takeWhile (\<lambda>x. x \<noteq> c) s"

fun find_map :: "('a \<Rightarrow> 'b option) \<Rightarrow> 'a list \<Rightarrow> 'b option" where
  "find_map f [] = None"
| "find_map f (x # xs) = (case f x of Some y \<Rightarrow> Some y | None \<Rightarrow> find_map f xs)"

definition quality_param :: "(string \<Rightarrow> f32 option) \<Rightarrow> string \<Rightarrow> f32 option" where
  "quality_param parse_f32 p =
     Option.bind (strip_prefix ''q='' (trim p)) (\<lambda>q. parse_f32 (trim q))"

definition accept_entry :: "(string \<Rightarrow> f32 option) \<Rightarrow> string \<Rightarrow> (string \<times> f32) option" where
  "accept_entry parse_f32 raw =
     (let entry = trim raw
      in if entry = [] then None
         else let media_type = trim (split_first CHR '';'' entry);
                  rest = dropWhile (\<lambda>x. x \<noteq> CHR '';'') entry;
                  quality =
                    (case (if rest = [] then None
                           else find_map (quality_param parse_f32) (split_on CHR '';'' (tl rest))) of
                       Some q \<Rightarrow> q
                     | None \<Rightarrow> f32_one)
              in Some (media_type, quality))"

definition accept_entries :: "(string \<Rightarrow> f32 option) \<Rightarrow> string \<Rightarrow> (string \<times> f32) list" where
  "accept_entries parse_f32 accept =
     List.map_filter (accept_entry parse_f32) (split_on CHR '','' accept)"

text \<open>The sorted prefix is kept in reverse; a new entry moves in front of those it beats.\<close>

fun insert_tail :: "string \<times> f32 \<Rightarrow> (string \<times> f32) list \<Rightarrow> (string \<times> f32) list" where
  "insert_tail x [] = [x]"
| "insert_tail x (y # ys) = (if f32_less (snd y) (snd x) then y # insert_tail x ys else x # y # ys)"

definition sort_by_quality :: "(string \<times> f32) list \<Rightarrow> (string \<times> f32) list" where
  "sort_by_quality es = rev (foldl (\<lambda>acc x. insert_tail x acc) [] es)"

definition parse_accept :: "(string \<Rightarrow> f32 option) \<Rightarrow> string \<Rightarrow> (string \<times> f32) list" where
  "parse_accept parse_f32 accept = sort_by_quality (accept_entries parse_f32 accept)"

definition media_type_matches :: "string \<Rightarrow> string \<Rightarrow> bool" where
  "media_type_matches accept_type supported =
     (if accept_type = ''*/*'' then True
      else let supported_base = trim (split_first CHR '';'' supported)
           in if accept_type = supported_base then True
              else case strip_suffix ''/*'' accept_type of
                     Some prefix \<Rightarrow> prefix = split_first CHR ''/'' supported_base
                   | None \<Rightarrow> False)"

fun position :: "('a \<Rightarrow> bool) \<Rightarrow> 'a list \<Rightarrow> nat option" where
  "position P [] = None"
| "position P (x # xs) = (if P x then Some 0 else map_option Suc (position P xs))"

definition best_match :: "(string \<Rightarrow> f32 option) \<Rightarrow> string option \<Rightarrow> string list \<Rightarrow> nat" where
  "best_match parse_f32 accept supported =
     (case accept of
        None \<Rightarrow> 0
      | Some a \<Rightarrow>
          (if a = [] then 0
           else case find_map (\<lambda>e. position (media_type_matches (fst e)) supported)
                       (parse_accept parse_f32 a) of
                  Some idx \<Rightarrow> idx
                | None \<Rightarrow> 0))"

subsection \<open>Responses\<close>

text \<open>One format: its content type and its renderer. With a single one there is no choice.\<close>

type_synonym 't format = "string \<times> ('t \<Rightarrow> (bytes, string) result)"

definition render_as :: "'t format \<Rightarrow> 't \<Rightarrow> (bytes \<times> string, string) result" where
  "render_as f v = result_map (\<lambda>b. (b, fst f)) (snd f v)"

definition negotiate_and_render ::
  "(string \<Rightarrow> f32 option) \<Rightarrow> 't format list \<Rightarrow> 't \<Rightarrow> string option \<Rightarrow>
   (bytes \<times> string, string) result" where
  "negotiate_and_render parse_f32 formats v accept =
     (case formats of
        [f] \<Rightarrow> render_as f v
      | _ \<Rightarrow>
          (let idx = best_match parse_f32 accept (map fst formats)
           in if idx < length formats then render_as (formats ! idx) v else Panic))"

definition negotiated_response ::
  "(string \<Rightarrow> string option) \<Rightarrow> (bytes \<times> string, string) result \<Rightarrow> (bytes response, unit) result" where
  "negotiated_response parse_hv rendered =
     (case rendered of
        Ok (body, content_type) \<Rightarrow>
          Ok \<lparr>rs_status = 200,
              rs_headers = (case parse_hv content_type of
                Some v \<Rightarrow> [''content-type'' \<mapsto> v] | None \<Rightarrow> Map.empty),
              rs_body = body\<rparr>
      | Err e \<Rightarrow>
          Ok \<lparr>rs_status = 500, rs_headers = Map.empty,
              rs_body = as_bytes (''negotiation error: '' @ e)\<rparr>
      | Panic \<Rightarrow> Panic)"

definition accept_header :: "(string \<Rightarrow> string option) \<Rightarrow> header_map \<Rightarrow> string option" where
  "accept_header to_str headers = Option.bind (headers ''accept'') to_str"

subsection \<open>The sort\<close>

definition quality_key :: "string \<times> f32 \<Rightarrow> int" where
  "quality_key e = - f32_rank (snd e)"

definition no_nan :: "(string \<times> f32) list \<Rightarrow> bool" where
  "no_nan es \<longleftrightarrow> list_all (\<lambda>e. \<not> f32_is_nan (snd e)) es"

lemma insert_tail_mset: "mset (insert_tail x acc) = add_mset x (mset acc)"
  by (induction acc) auto

lemma insert_tail_set: "set (insert_tail x acc) = insert x (set acc)"
  by (induction acc) auto

lemma insert_tail_filter:
  "filter (\<lambda>y. k = quality_key y) (insert_tail x acc) =
   (if k = quality_key x then [x] else []) @ filter (\<lambda>y. k = quality_key y) acc"
  by (induction acc) (auto simp: f32_less_def quality_key_def)

lemma insert_tail_sorted:
  assumes "\<not> f32_is_nan (snd x)" "no_nan acc" "sorted_wrt (\<lambda>a b. quality_key b \<le> quality_key a) acc"
  shows "sorted_wrt (\<lambda>a b. quality_key b \<le> quality_key a) (insert_tail x acc)"
  using assms
  by (induction acc)
    (auto simp: insert_tail_set f32_less_def quality_key_def no_nan_def not_less intro: order_trans)

lemma fold_insert_tail:
  assumes "no_nan (acc @ es)" "sorted_wrt (\<lambda>a b. quality_key b \<le> quality_key a) acc"
  defines "out \<equiv> foldl (\<lambda>acc x. insert_tail x acc) acc es"
  shows "mset out = mset acc + mset es \<and>
    sorted_wrt (\<lambda>a b. quality_key b \<le> quality_key a) out \<and>
    (\<forall>k. filter (\<lambda>y. k = quality_key y) (rev out) =
      filter (\<lambda>y. k = quality_key y) (rev acc @ es))"
  unfolding out_def using assms(1,2)
proof (induction es arbitrary: acc)
  case (Cons x es)
  have "no_nan (insert_tail x acc @ es)"
    using Cons.prems(1) by (auto simp: no_nan_def list_all_iff insert_tail_set)
  moreover have "sorted_wrt (\<lambda>a b. quality_key b \<le> quality_key a) (insert_tail x acc)"
    using Cons.prems by (intro insert_tail_sorted) (auto simp: no_nan_def)
  ultimately show ?case
    using Cons.IH [of "insert_tail x acc"]
    by (simp add: insert_tail_mset insert_tail_filter rev_filter [symmetric])
qed simp

lemma sort_by_quality_eq: "no_nan es \<Longrightarrow> sort_by_quality es = sort_key quality_key es"
proof -
  assume n: "no_nan es"
  let ?out = "foldl (\<lambda>acc x. insert_tail x acc) [] es"
  from fold_insert_tail [of "[]" es] n
  have out: "mset ?out = mset es" "sorted_wrt (\<lambda>a b. quality_key b \<le> quality_key a) ?out"
    "\<And>k. filter (\<lambda>y. k = quality_key y) (rev ?out) = filter (\<lambda>y. k = quality_key y) es" by auto
  have "sort_key quality_key es = rev ?out"
  proof (rule properties_for_sort_key)
    show "sorted (map quality_key (rev ?out))"
      using out(2) by (simp add: sorted_wrt_rev sorted_wrt_map rev_map)
  qed (use out in simp_all)
  then show ?thesis by (simp add: sort_by_quality_def)
qed

subsection \<open>The choice\<close>

text \<open>Reference: of the entries, the first among those of the highest quality.\<close>

fun preferred :: "(string \<times> f32) list \<Rightarrow> (string \<times> f32) option" where
  "preferred [] = None"
| "preferred (e # es) =
     (case preferred es of
        None \<Rightarrow> Some e
      | Some e' \<Rightarrow> if f32_less (snd e) (snd e') then Some e' else Some e)"

definition acceptable :: "string list \<Rightarrow> string \<times> f32 \<Rightarrow> bool" where
  "acceptable supported e \<longleftrightarrow> list_ex (media_type_matches (fst e)) supported"

lemma preferred_in: "preferred es = Some e \<Longrightarrow> e \<in> set es"
  by (induction es arbitrary: e) (auto split: option.splits if_splits)

lemma preferred_hd_sort:
  "no_nan es \<Longrightarrow> preferred es =
   (case sort_key quality_key es of [] \<Rightarrow> None | e # _ \<Rightarrow> Some e)"
proof (induction es)
  case (Cons x es)
  show ?case
  proof (cases "sort_key quality_key es")
    case Nil
    with Cons show ?thesis by (simp add: no_nan_def)
  next
    case (Cons y ys)
    then have "preferred es = Some y" using Cons.IH Cons.prems by (simp add: no_nan_def)
    moreover from this have "\<not> f32_is_nan (snd y)"
      using preferred_in Cons.prems by (fastforce simp: no_nan_def list_all_iff)
    moreover from this have "f32_less (snd x) (snd y) \<longleftrightarrow> quality_key y < quality_key x"
      using Cons.prems by (simp add: f32_less_def quality_key_def no_nan_def)
    ultimately show ?thesis using Cons by simp
  qed
qed simp

lemma position_None: "position P xs = None \<longleftrightarrow> \<not> list_ex P xs"
  by (induction xs) auto

lemma position_Some:
  "position P xs = Some i \<longleftrightarrow> i < length xs \<and> P (xs ! i) \<and> (\<forall>j < i. \<not> P (xs ! j))"
proof (induction xs arbitrary: i)
  case (Cons x xs)
  then show ?case by (cases i) (auto simp: less_Suc_eq_0_disj)
qed simp

lemma find_map_filter:
  "find_map f xs = (case filter (\<lambda>x. f x \<noteq> None) xs of [] \<Rightarrow> None | x # _ \<Rightarrow> f x)"
  by (induction xs) auto

lemma best_match_preferred:
  assumes "a \<noteq> []" "no_nan (accept_entries parse_f32 a)"
  shows "best_match parse_f32 (Some a) supported =
    (case preferred (filter (acceptable supported) (accept_entries parse_f32 a)) of
       None \<Rightarrow> 0
     | Some e \<Rightarrow> the (position (media_type_matches (fst e)) supported))"
proof -
  let ?es = "accept_entries parse_f32 a" and ?ok = "acceptable supported"
  have ok: "(\<lambda>e. position (media_type_matches (fst e)) supported \<noteq> None) = ?ok"
    by (simp add: fun_eq_iff acceptable_def position_None)
  have "no_nan (filter ?ok ?es)" using assms(2) by (auto simp: no_nan_def list_all_iff)
  from preferred_hd_sort [OF this]
  have p: "preferred (filter ?ok ?es) =
      (case filter ?ok (sort_key quality_key ?es) of [] \<Rightarrow> None | e # _ \<Rightarrow> Some e)"
    by (simp add: filter_sort)
  have fm: "find_map (\<lambda>e. position (media_type_matches (fst e)) supported)
      (sort_key quality_key ?es) =
      (case filter ?ok (sort_key quality_key ?es) of
         [] \<Rightarrow> None | e # _ \<Rightarrow> position (media_type_matches (fst e)) supported)"
    unfolding find_map_filter ok ..
  show ?thesis
  proof (cases "filter ?ok (sort_key quality_key ?es)")
    case Nil
    then show ?thesis
      using assms p by (simp add: best_match_def parse_accept_def sort_by_quality_eq fm)
  next
    case (Cons e es)
    then have "e \<in> set (filter ?ok (sort_key quality_key ?es))" by simp
    then have "?ok e" by simp
    then obtain i where i: "position (media_type_matches (fst e)) supported = Some i"
      using position_None unfolding acceptable_def by fastforce
    have "preferred (filter ?ok ?es) = Some e" using p Cons by simp
    with Cons i assms fm show ?thesis
      by (simp add: best_match_def parse_accept_def sort_by_quality_eq fm)
  qed
qed

lemma negotiate_and_render_nth:
  assumes "formats \<noteq> []" "best_match parse_f32 accept (map fst formats) < length formats"
  shows "negotiate_and_render parse_f32 formats v accept =
    render_as (formats ! best_match parse_f32 accept (map fst formats)) v"
  using assms by (cases formats rule: list.exhaust; cases "tl formats")
    (auto simp: negotiate_and_render_def Let_def)

text \<open>C21. Negotiation of a request whose \<^verbatim>\<open>Accept\<close> header holds no quality that is
  not a number: of the entries that match a format of the handler, the first of those with the
  highest quality decides, and the response is rendered in the first format that it matches; when
  no entry matches, or without the header, the first format is taken. The index never leaves the
  list of renderers.\<close>

theorem negotiation_selects_format:
  assumes "formats \<noteq> []" and "a \<noteq> []" and "no_nan (accept_entries parse_f32 a)"
  shows "negotiate_and_render parse_f32 formats v None = render_as (hd formats) v \<and>
    (\<exists>idx < length formats.
      negotiate_and_render parse_f32 formats v (Some a) = render_as (formats ! idx) v \<and>
      (case preferred (filter (acceptable (map fst formats)) (accept_entries parse_f32 a)) of
         None \<Rightarrow> idx = 0
       | Some e \<Rightarrow> media_type_matches (fst e) (fst (formats ! idx)) \<and>
           list_all (\<lambda>f. \<not> media_type_matches (fst e) (fst f)) (take idx formats)))"
proof (intro conjI)
  show "negotiate_and_render parse_f32 formats v None = render_as (hd formats) v"
    using assms(1) by (simp add: negotiate_and_render_nth best_match_def hd_conv_nth)
next
  let ?best = "best_match parse_f32 (Some a) (map fst formats)"
  let ?p = "preferred (filter (acceptable (map fst formats)) (accept_entries parse_f32 a))"
  have best: "?best < length formats \<and>
      (case ?p of
         None \<Rightarrow> ?best = 0
       | Some e \<Rightarrow> media_type_matches (fst e) (fst (formats ! ?best)) \<and>
           list_all (\<lambda>f. \<not> media_type_matches (fst e) (fst f)) (take ?best formats))"
  proof (cases ?p)
    case None
    then show ?thesis using best_match_preferred [OF assms(2,3)] assms(1) by simp
  next
    case (Some e)
    then have "acceptable (map fst formats) e" using preferred_in by fastforce
    then obtain i where i: "position (media_type_matches (fst e)) (map fst formats) = Some i"
      using position_None unfolding acceptable_def by fastforce
    then have "?best = i" using best_match_preferred [OF assms(2,3)] Some by simp
    with i Some show ?thesis
      by (simp add: position_Some list_all_length) (metis length_map nth_map order.strict_trans)
  qed
  with negotiate_and_render_nth [OF assms(1)]
  show "\<exists>idx < length formats.
      negotiate_and_render parse_f32 formats v (Some a) = render_as (formats ! idx) v \<and>
      (case ?p of
         None \<Rightarrow> idx = 0
       | Some e \<Rightarrow> media_type_matches (fst e) (fst (formats ! idx)) \<and>
           list_all (\<lambda>f. \<not> media_type_matches (fst e) (fst f)) (take idx formats))"
    by (intro exI [of _ ?best]) simp
qed

lemma text_plain_trims [simp]:
  "trim ''text/plain'' = ''text/plain''" "trim ''application/json'' = ''application/json''"
  by (simp_all add: trim_graphic graphic_def)

lemma text_plain_entries:
  "accept_entries parse_f32 ''text/plain'' = [(''text/plain'', f32_one)]"
  by (simp add: accept_entries_def accept_entry_def List.map_filter_def split_first_def)

lemma text_plain_matches:
  "\<not> media_type_matches ''text/plain'' json_content_type"
  "media_type_matches ''text/plain'' text_content_type"
  by (simp_all add: media_type_matches_def json_content_type_def text_content_type_def
      split_first_def strip_suffix_def ends_with_def)

theorem negotiation_selects_format_witness:
  "\<exists>idx. negotiate_and_render (\<lambda>_. None)
      [(json_content_type, \<lambda>_. Ok [1]), (text_content_type, \<lambda>_. Ok [2])] () (Some ''text/plain'') =
      render_as ([(json_content_type, \<lambda>_. Ok [1]), (text_content_type, \<lambda>_. Ok [2])] ! idx) () \<and> idx = 1"
proof -
  let ?fs = "[(json_content_type, \<lambda>_. Ok [1]), (text_content_type, \<lambda>_. Ok [2])] :: unit format list"
  have "no_nan (accept_entries (\<lambda>_. None) ''text/plain'')"
    by (simp add: text_plain_entries no_nan_def f32_is_nan_def f32_one_def)
  from negotiation_selects_format [of ?fs, OF _ _ this, of "()"]
  obtain idx where "idx < Suc (Suc 0)"
    "negotiate_and_render (\<lambda>_. None) ?fs () (Some ''text/plain'') = render_as (?fs ! idx) ()"
    "media_type_matches ''text/plain'' (fst (?fs ! idx))"
    by (auto simp: text_plain_entries acceptable_def text_plain_matches)
  then show ?thesis using text_plain_matches by (auto simp: less_Suc_eq)
qed

text \<open>A quality of zero, which means not acceptable, does not exclude the format.\<close>

lemma zero_quality_chosen:
  "parse_f32 ''0'' = Some 0 \<Longrightarrow>
   best_match parse_f32 (Some ''text/plain;q=0'') [json_content_type, text_content_type] = 1"
proof -
  assume "parse_f32 ''0'' = Some 0"
  then have e: "accept_entries parse_f32 ''text/plain;q=0'' = [(''text/plain'', 0)]"
    by (simp add: accept_entries_def accept_entry_def List.map_filter_def split_first_def
        trim_graphic graphic_def quality_param_def strip_prefix_def starts_with_def)
  show ?thesis
    using best_match_preferred [of "''text/plain;q=0''" parse_f32 "[json_content_type, text_content_type]"]
    by (simp add: e no_nan_def f32_is_nan_def acceptable_def text_plain_matches)
qed

end
