(* ===== verification/Transcode.thy ===== *)
theory Transcode
  imports Proto_Codec Http_Headers "HOL-Library.Monad_Syntax"
begin

text \<open>
  The transcoder of \<^verbatim>\<open>typeway-grpc/src/transcode.rs\<close> over the service description of
  \<^verbatim>\<open>spec.rs\<close>: methods and messages by name, an \<^verbatim>\<open>IndexMap\<close> being the
  list of its entries. The conversion of the field descriptions follows message types without a
  bound; it is a partial function, and \<open>None\<close> of it, and of the operations that use it, is a
  recursion that does not end.
\<close>

record FieldSpec =
  fs_name :: string
  fs_proto_type :: string
  fs_tag :: u32
  fs_repeated :: bool
  fs_optional :: bool
  fs_is_map :: bool
  fs_map_key_type :: "string option"
  fs_map_value_type :: "string option"
  fs_description :: "string option"

record MethodSpec =
  ms_name :: string
  ms_full_path :: string
  ms_rest_path :: string
  ms_http_method :: string
  ms_request_type :: string
  ms_response_type :: string
  ms_server_streaming :: bool
  ms_client_streaming :: bool
  ms_description :: "string option"
  ms_summary :: "string option"
  ms_tags :: "string list"
  ms_requires_auth :: bool

record MessageSpec =
  mg_name :: string
  mg_fields :: "FieldSpec list"
  mg_description :: "string option"

record ServiceInfo =
  si_name :: string
  si_package :: string
  si_full_name :: string
  si_description :: "string option"
  si_version :: "string option"

record GrpcServiceSpec =
  sp_proto :: string
  sp_service :: ServiceInfo
  sp_methods :: "(string \<times> MethodSpec) list"
  sp_messages :: "(string \<times> MessageSpec) list"

datatype TranscodeError =
    MethodNotFound string
  | MessageNotFound string
  | CodecFailed CodecError

definition empty_type :: string where
  "empty_type = ''google.protobuf.Empty''"

definition scalar_types :: "string list" where
  "scalar_types =
     [''int32'', ''int64'', ''uint32'', ''uint64'', ''sint32'', ''sint64'', ''bool'', ''enum'',
      ''double'', ''fixed64'', ''sfixed64'', ''string'', ''bytes'', ''float'', ''fixed32'',
      ''sfixed32'', empty_type]"

definition is_scalar :: "string \<Rightarrow> bool" where
  "is_scalar proto_type \<longleftrightarrow> proto_type \<in> set scalar_types"

subsection \<open>Field definitions\<close>

definition nested_message :: "GrpcServiceSpec \<Rightarrow> FieldSpec \<Rightarrow> FieldSpec list option" where
  "nested_message spec f =
     (if \<not> is_scalar (fs_proto_type f) \<and> \<not> fs_is_map f
      then map_option mg_fields (map_of (sp_messages spec) (fs_proto_type f)) else None)"

definition field_def :: "FieldSpec \<Rightarrow> ProtoFieldDef list option \<Rightarrow> ProtoFieldDef" where
  "field_def f nested =
     ProtoFieldDef (fs_name f) (fs_proto_type f) (fs_tag f) (fs_repeated f) (fs_is_map f)
       (fs_map_key_type f) (fs_map_value_type f) nested"

partial_function (option) field_specs_to_defs ::
  "GrpcServiceSpec \<Rightarrow> FieldSpec list \<Rightarrow> ProtoFieldDef list option" where
  "field_specs_to_defs spec fs =
     (case fs of
        [] \<Rightarrow> Some []
      | f # rest \<Rightarrow>
          (case nested_message spec f of
             None \<Rightarrow>
               Option.bind (field_specs_to_defs spec rest) (\<lambda>ds. Some (field_def f None # ds))
           | Some inner \<Rightarrow>
               Option.bind (field_specs_to_defs spec inner) (\<lambda>nested.
                 Option.bind (field_specs_to_defs spec rest) (\<lambda>ds.
                   Some (field_def f (Some nested) # ds)))))"

subsection \<open>The operations\<close>

definition find_method :: "GrpcServiceSpec \<Rightarrow> string \<Rightarrow> MethodSpec option" where
  "find_method spec full_path = find (\<lambda>m. ms_full_path m = full_path) (map snd (sp_methods spec))"

text \<open>The outer option is the recursion, the inner one a message that is not there.\<close>

definition message_fields :: "GrpcServiceSpec \<Rightarrow> string \<Rightarrow> ProtoFieldDef list option option" where
  "message_fields spec message_name =
     (if message_name = empty_type then Some (Some [])
      else case map_of (sp_messages spec) message_name of
             None \<Rightarrow> Some None
           | Some msg \<Rightarrow> map_option Some (field_specs_to_defs spec (mg_fields msg)))"

definition decode_request ::
  "codec_env \<Rightarrow> GrpcServiceSpec \<Rightarrow> string \<Rightarrow> bytes \<Rightarrow> (json, TranscodeError) result option" where
  "decode_request env spec path data =
     (case find_method spec path of
        None \<Rightarrow> Some (Err (MethodNotFound path))
      | Some m \<Rightarrow>
          (if ms_request_type m = empty_type \<or> data = [] then Some (Ok (JObj []))
           else map_option (\<lambda>found. case found of
                    None \<Rightarrow> Err (MessageNotFound (ms_request_type m))
                  | Some fds \<Rightarrow> map_err CodecFailed (proto_binary_to_json env data fds))
                  (message_fields spec (ms_request_type m))))"

definition encode_message ::
  "codec_env \<Rightarrow> GrpcServiceSpec \<Rightarrow> string \<Rightarrow> json \<Rightarrow> (bytes, TranscodeError) result option" where
  "encode_message env spec message_name v =
     (if message_name = empty_type then Some (Ok [])
      else map_option (\<lambda>found. case found of
               None \<Rightarrow> Err (MessageNotFound message_name)
             | Some fds \<Rightarrow> map_err CodecFailed (json_to_proto_binary env v fds))
             (message_fields spec message_name))"

definition encode_response ::
  "codec_env \<Rightarrow> GrpcServiceSpec \<Rightarrow> string \<Rightarrow> json \<Rightarrow> (bytes, TranscodeError) result option" where
  "encode_response env spec path v =
     (case find_method spec path of
        None \<Rightarrow> Some (Err (MethodNotFound path))
      | Some m \<Rightarrow>
          (if ms_response_type m = empty_type then Some (Ok [])
           else map_option (\<lambda>found. case found of
                    None \<Rightarrow> Err (MessageNotFound (ms_response_type m))
                  | Some fds \<Rightarrow> map_err CodecFailed (json_to_proto_binary env v fds))
                  (message_fields spec (ms_response_type m))))"

definition is_proto_binary_content_type :: "string \<Rightarrow> bool" where
  "is_proto_binary_content_type ct \<longleftrightarrow>
     ct = ''application/grpc'' \<or> ct = ''application/grpc+proto''"

definition is_grpc_json_content_type :: "string \<Rightarrow> bool" where
  "is_grpc_json_content_type ct \<longleftrightarrow> ct = ''application/grpc+json''"

definition grpc_content_type :: "(string \<Rightarrow> string option) \<Rightarrow> header_map \<Rightarrow> string" where
  "grpc_content_type to_str headers =
     (case Option.bind (headers ''content-type'') to_str of
        Some ct \<Rightarrow> ct | None \<Rightarrow> ''application/grpc'')"

subsection \<open>When the recursion ends\<close>

lemma field_specs_to_defs_ranked:
  assumes "\<And>fs f inner. fs \<in> (mg_fields \<circ> snd) ` set (sp_messages spec) \<Longrightarrow> f \<in> set fs \<Longrightarrow>
    nested_message spec f = Some inner \<Longrightarrow> rank inner < (rank fs :: nat)"
  shows "(\<forall>f \<in> set fs. \<forall>inner. nested_message spec f = Some inner \<longrightarrow> rank inner < n) \<Longrightarrow>
    field_specs_to_defs spec fs \<noteq> None"
proof (induction n arbitrary: fs rule: less_induct)
  case (less n)
  then show ?case
  proof (induction fs)
    case Nil
    then show ?case by (simp add: field_specs_to_defs.simps)
  next
    case (Cons f rest)
    have rest: "field_specs_to_defs spec rest \<noteq> None"
      using Cons.IH Cons.prems by simp
    show ?case
    proof (cases "nested_message spec f")
      case None
      with rest show ?thesis by (subst field_specs_to_defs.simps) auto
    next
      case (Some inner)
      then have "inner \<in> (mg_fields \<circ> snd) ` set (sp_messages spec)"
        by (auto simp: nested_message_def split: if_splits dest!: map_of_SomeD) force
      moreover have "rank inner < n" using Cons.prems(2) Some by auto
      ultimately have "field_specs_to_defs spec inner \<noteq> None"
        using Cons.prems(1) [of "rank inner" inner] assms by blast
      with rest Some show ?thesis by (subst field_specs_to_defs.simps) auto
    qed
  qed
qed

lemma field_specs_to_defs_cycle:
  assumes "field_specs_to_defs spec fs = Some ds" "f \<in> set inner"
    "nested_message spec f = Some inner"
  shows "f \<notin> set fs"
proof -
  have "spec = spec \<longrightarrow> f \<notin> set fs"
  proof (rule field_specs_to_defs.raw_induct [OF _ assms(1),
        where P = "\<lambda>sp fs ds. sp = spec \<longrightarrow> f \<notin> set fs"], rule impI)
    fix rec sp fs ds
    assume IH: "\<And>sp fs ds. rec sp fs = Some ds \<Longrightarrow> sp = spec \<longrightarrow> f \<notin> set fs"
      and body: "(case fs of
        [] \<Rightarrow> Some []
      | f # rest \<Rightarrow>
          (case nested_message sp f of
             None \<Rightarrow> Option.bind (rec sp rest) (\<lambda>ds. Some (field_def f None # ds))
           | Some inner \<Rightarrow>
               Option.bind (rec sp inner) (\<lambda>nested.
                 Option.bind (rec sp rest) (\<lambda>ds. Some (field_def f (Some nested) # ds))))) = Some ds"
      and sp: "sp = spec"
    show "f \<notin> set fs"
    proof (cases fs)
      case (Cons g rest)
      with body obtain y where "rec sp rest = Some y"
        by (auto split: option.splits simp: bind_eq_Some_conv)
      with IH sp have "f \<notin> set rest" by blast
      moreover have "g \<noteq> f"
      proof
        assume "g = f"
        with body Cons sp assms(3) obtain z where "rec sp inner = Some z"
          by (auto simp: bind_eq_Some_conv)
        with IH sp assms(2) show False by blast
      qed
      ultimately show ?thesis using Cons by simp
    qed simp
  qed
  then show ?thesis by simp
qed

text \<open>C20. The transcoder's field conversion ends on every message when the message types can be
  ranked so that each nested message has a lower rank than the message it stands in; it never ends
  on a message with a field whose own type contains that field again, such as the node of a linked
  list, which is a stack overflow of the server at the first request of that type.\<close>

theorem transcoder_conversion_ends:
  "((\<forall>fs \<in> (mg_fields \<circ> snd) ` set (sp_messages spec). \<forall>f \<in> set fs. \<forall>inner.
      nested_message spec f = Some inner \<longrightarrow> rank inner < (rank fs :: nat)) \<longrightarrow>
    list_all (\<lambda>(name, msg). field_specs_to_defs spec (mg_fields msg) \<noteq> None) (sp_messages spec)) \<and>
   (f \<in> set inner \<longrightarrow> nested_message spec f = Some inner \<longrightarrow> f \<in> set fs \<longrightarrow>
    field_specs_to_defs spec fs = None)"
proof (intro conjI impI)
  assume r: "\<forall>fs \<in> (mg_fields \<circ> snd) ` set (sp_messages spec). \<forall>f \<in> set fs. \<forall>inner.
      nested_message spec f = Some inner \<longrightarrow> rank inner < (rank fs :: nat)"
  show "list_all (\<lambda>(name, msg). field_specs_to_defs spec (mg_fields msg) \<noteq> None) (sp_messages spec)"
    unfolding list_all_iff
  proof
    fix e
    assume "e \<in> set (sp_messages spec)"
    then have "mg_fields (snd e) \<in> (mg_fields \<circ> snd) ` set (sp_messages spec)"
      by (metis comp_apply image_eqI)
    with r have "field_specs_to_defs spec (mg_fields (snd e)) \<noteq> None"
      by (intro field_specs_to_defs_ranked [of spec rank "mg_fields (snd e)" "rank (mg_fields (snd e))"]) blast+
    then show "case e of (name, msg) \<Rightarrow> field_specs_to_defs spec (mg_fields msg) \<noteq> None"
      by (simp add: case_prod_beta)
  qed
next
  assume "f \<in> set inner" "nested_message spec f = Some inner" "f \<in> set fs"
  then show "field_specs_to_defs spec fs = None"
    using field_specs_to_defs_cycle [of spec fs _ f inner] by (cases "field_specs_to_defs spec fs") auto
qed

definition link_field :: "string \<Rightarrow> string \<Rightarrow> FieldSpec" where
  "link_field name ty =
     \<lparr>fs_name = name, fs_proto_type = ty, fs_tag = 1, fs_repeated = False, fs_optional = False,
      fs_is_map = False, fs_map_key_type = None, fs_map_value_type = None,
      fs_description = None\<rparr>"

definition message_entry :: "string \<Rightarrow> FieldSpec list \<Rightarrow> string \<times> MessageSpec" where
  "message_entry name fs = (name, \<lparr>mg_name = name, mg_fields = fs, mg_description = None\<rparr>)"

definition spec_of_messages :: "(string \<times> MessageSpec) list \<Rightarrow> GrpcServiceSpec" where
  "spec_of_messages msgs =
     \<lparr>sp_proto = [],
      sp_service = \<lparr>si_name = [], si_package = [], si_full_name = [], si_description = None, si_version = None\<rparr>,
      sp_methods = [], sp_messages = msgs\<rparr>"

definition list_spec :: GrpcServiceSpec where
  "list_spec = spec_of_messages
     [message_entry ''Node'' [link_field ''next'' ''Node''], message_entry ''Leaf'' [link_field ''v'' ''int32'']]"

definition leaf_spec :: GrpcServiceSpec where
  "leaf_spec = spec_of_messages
     [message_entry ''Tree'' [link_field ''leaf'' ''Leaf''], message_entry ''Leaf'' [link_field ''v'' ''int32'']]"

theorem transcoder_conversion_ends_witness:
  "field_specs_to_defs list_spec [link_field ''next'' ''Node''] = None \<and>
   field_specs_to_defs leaf_spec [link_field ''leaf'' ''Leaf''] \<noteq> None"
proof
  have "nested_message list_spec (link_field ''next'' ''Node'') = Some [link_field ''next'' ''Node'']"
    by (simp add: nested_message_def list_spec_def spec_of_messages_def message_entry_def link_field_def is_scalar_def scalar_types_def empty_type_def)
  then show "field_specs_to_defs list_spec [link_field ''next'' ''Node''] = None"
    using transcoder_conversion_ends [of list_spec "\<lambda>_. 0" "link_field ''next'' ''Node''"
        "[link_field ''next'' ''Node'']" "[link_field ''next'' ''Node'']"] by simp
next
  show "field_specs_to_defs leaf_spec [link_field ''leaf'' ''Leaf''] \<noteq> None"
    using transcoder_conversion_ends [of leaf_spec
        "\<lambda>fs. if fs = [link_field ''leaf'' ''Leaf''] then 1 else 0"]
    by (simp add: nested_message_def leaf_spec_def spec_of_messages_def message_entry_def link_field_def is_scalar_def scalar_types_def empty_type_def)
qed

end
