(* ===== verification/Rust_Lines.thy ===== *)
theory Rust_Lines
  imports Rust_Str
begin

text \<open>
  The methods of \<^verbatim>\<open>str\<close> that the text parsers of the code call: lines, words,
  substring search and the trimming of a repeated pattern.
\<close>

definition newline :: char where
  "newline = CHR 0x0A"

text \<open>\<^verbatim>\<open>str::lines\<close>: a line ends with a newline, or with carriage return and newline.\<close>

definition strip_cr :: "string \<Rightarrow> string" where
  "strip_cr l = (if l \<noteq> [] \<and> last l = CHR 0x0D then butlast l else l)"

definition str_lines :: "string \<Rightarrow> string list" where
  "str_lines s =
     (let ps = split_on newline s
      in map strip_cr (butlast ps) @ (if last ps = [] then [] else [last ps]))"

text \<open>\<^verbatim>\<open>str::split_whitespace\<close>.\<close>

fun take_word :: "string \<Rightarrow> string \<times> string" where
  "take_word [] = ([], [])"
| "take_word (c # s) =
     (if 0 < ws_len (c # s) then ([], c # s)
      else (c # fst (take_word s), snd (take_word s)))"

lemma take_word_append: "fst (take_word s) @ snd (take_word s) = s"
  by (induction s) auto

lemma length_drop_ws: "length (drop_ws f s) \<le> length s"
proof (induction f s rule: drop_ws.induct)
  case (1 len s)
  then show ?case by (cases "s = [] \<or> len s = 0") (simp_all add: drop_ws.simps [of len s])
qed

lemma length_trim_start: "length (trim_start s) \<le> length s"
  by (simp add: trim_start_def length_drop_ws)

function split_ws :: "string \<Rightarrow> string list" where
  "split_ws s =
     (let t = trim_start s; w = fst (take_word t)
      in if w = [] then [] else w # split_ws (snd (take_word t)))"
  by pat_completeness auto
termination
proof (relation "measure length", simp, simp)
  fix s :: string
  assume w: "fst (take_word (trim_start s)) \<noteq> []"
  have "length (fst (take_word (trim_start s))) + length (snd (take_word (trim_start s)))
      = length (trim_start s)"
    by (metis length_append take_word_append)
  with w length_trim_start [of s] show "length (snd (take_word (trim_start s))) < length s"
    by (cases "fst (take_word (trim_start s))") auto
qed

declare split_ws.simps [simp del]

text \<open>\<^verbatim>\<open>find\<close> with a string, and the first piece of \<^verbatim>\<open>split\<close> at one.\<close>

fun find_str :: "string \<Rightarrow> string \<Rightarrow> nat option" where
  "find_str p [] = (if p = [] then Some 0 else None)"
| "find_str p (c # s) =
     (if starts_with p (c # s) then Some 0 else map_option Suc (find_str p s))"

definition split_first_str :: "string \<Rightarrow> string \<Rightarrow> string" where
  "split_first_str p s = (case find_str p s of None \<Rightarrow> s | Some i \<Rightarrow> take i s)"

text \<open>\<^verbatim>\<open>trim_start_matches\<close> and its mirror images drop the pattern as often as it stands there.\<close>

function trim_start_str :: "string \<Rightarrow> string \<Rightarrow> string" where
  "trim_start_str p s =
     (if p \<noteq> [] \<and> starts_with p s then trim_start_str p (drop (length p) s) else s)"
  by pat_completeness auto
termination
  by (relation "measure (\<lambda>(p, s). length s)") (auto simp: starts_with_iff)

declare trim_start_str.simps [simp del]

definition trim_end_str :: "string \<Rightarrow> string \<Rightarrow> string" where
  "trim_end_str p s = rev (trim_start_str (rev p) (rev s))"

definition trim_start_char :: "char \<Rightarrow> string \<Rightarrow> string" where
  "trim_start_char c s = dropWhile (\<lambda>x. x = c) s"

definition trim_end_char :: "char \<Rightarrow> string \<Rightarrow> string" where
  "trim_end_char c s = rev (dropWhile (\<lambda>x. x = c) (rev s))"

definition trim_char :: "char \<Rightarrow> string \<Rightarrow> string" where
  "trim_char c s = trim_start_char c (trim_end_char c s)"

text \<open>\<^verbatim>\<open>splitn(n, c)\<close>.\<close>

fun splitn :: "nat \<Rightarrow> char \<Rightarrow> string \<Rightarrow> string list" where
  "splitn 0 c s = []"
| "splitn (Suc 0) c s = [s]"
| "splitn (Suc (Suc n)) c s =
     (case find_char c s of
        None \<Rightarrow> [s]
      | Some i \<Rightarrow> take i s # splitn (Suc n) c (drop (Suc i) s))"

text \<open>\<^verbatim>\<open>Path::join\<close> on a system whose separator is the slash.\<close>

definition path_join :: "string \<Rightarrow> string \<Rightarrow> string" where
  "path_join dir p =
     (if starts_with ''/'' p \<or> dir = [] then p
      else if last dir = CHR ''/'' then dir @ p else dir @ ''/'' @ p)"

text \<open>\<^verbatim>\<open>[String]::join\<close>.\<close>

fun join_with :: "string \<Rightarrow> string list \<Rightarrow> string" where
  "join_with sep [] = []"
| "join_with sep [s] = s"
| "join_with sep (s # t # ss) = s @ sep @ join_with sep (t # ss)"

subsection \<open>Lines\<close>

lemma split_on_join_with:
  "ls \<noteq> [] \<Longrightarrow> list_all (\<lambda>l. c \<notin> set l) ls \<Longrightarrow> split_on c (join_with [c] ls) = ls"
proof (induction "[c]" ls rule: join_with.induct)
  case (3 s t ss)
  then show ?case using split_on_append [of c s "join_with [c] (t # ss)"] by simp
qed (auto simp: split_on_no_sep)

lemma join_append:
  "xs \<noteq> [] \<Longrightarrow> ys \<noteq> [] \<Longrightarrow> join_with sep (xs @ ys) = join_with sep xs @ sep @ join_with sep ys"
proof (induction sep xs rule: join_with.induct)
  case (2 sep s)
  then show ?case by (cases ys) auto
qed auto

lemma split_on_eq_empty: "split_on c s = [[]] \<longleftrightarrow> s = []"
  by (cases s) auto

lemma str_lines_nonempty: "s \<noteq> [] \<Longrightarrow> str_lines s \<noteq> []"
  by (cases "split_on newline s" rule: rev_cases)
     (auto simp: str_lines_def Let_def split_on_eq_empty)

lemma split_on_no_char: "l \<in> set (split_on c s) \<Longrightarrow> c \<notin> set l \<and> set l \<subseteq> set s"
proof (induction s arbitrary: l)
  case (Cons x s)
  have hd: "hd (split_on c s) \<in> set (split_on c s)" by simp
  from Cons.prems Cons.IH [OF hd] Cons.IH show ?case
    by (cases "split_on c s") (auto split: if_splits, blast+)
qed simp

lemma join_concat:
  "list_all (\<lambda>ls. ls \<noteq> []) lss \<Longrightarrow> join_with sep (map (join_with sep) lss) = join_with sep (concat lss)"
proof (induction lss)
  case (Cons ls lss)
  show ?case
  proof (cases lss)
    case (Cons l2 lss2)
    with Cons.prems have "concat lss \<noteq> []" by auto
    with Cons.prems Cons show ?thesis
      using join_append [of ls "concat lss" sep] Cons.IH by simp
  qed simp
qed simp

lemma strip_cr_id: "CHR 0x0D \<notin> set l \<Longrightarrow> strip_cr l = l"
  by (auto simp: strip_cr_def dest: last_in_set)

text \<open>A text of lines without line ends gives back its lines, without an empty last one.\<close>

definition line_text :: "string \<Rightarrow> bool" where
  "line_text l \<longleftrightarrow> newline \<notin> set l \<and> CHR 0x0D \<notin> set l"

lemma str_lines_join:
  assumes "ls \<noteq> []" "list_all line_text ls"
  shows "str_lines (join_with [newline] ls) = (if last ls = [] then butlast ls else ls)"
proof -
  have "split_on newline (join_with [newline] ls) = ls"
    using assms by (intro split_on_join_with) (auto simp: line_text_def list_all_iff)
  moreover have "map strip_cr (butlast ls) = butlast ls"
    using assms by (intro map_idI) (auto simp: line_text_def list_all_iff strip_cr_id dest: in_set_butlastD)
  ultimately show ?thesis
    using assms(1) append_butlast_last_id [of ls] by (simp add: str_lines_def Let_def)
qed

subsection \<open>Words\<close>

definition word_text :: "string \<Rightarrow> bool" where
  "word_text w \<longleftrightarrow> w \<noteq> [] \<and> list_all graphic w"

lemma take_word_graphic:
  "list_all graphic w \<Longrightarrow> take_word (w @ CHR 0x20 # s) = (w, CHR 0x20 # s)"
proof (induction w)
  case (Cons c w)
  then show ?case using ws_len_graphic [of "(c # w) @ CHR 0x20 # s"] by simp
qed (simp add: ascii_ws_def)

lemma take_word_graphic_end: "list_all graphic w \<Longrightarrow> take_word w = (w, [])"
proof (induction w)
  case (Cons c w)
  then show ?case using ws_len_graphic [of "c # w"] by simp
qed simp

lemma trim_start_space: "trim_start (CHR 0x20 # s) = trim_start s"
  by (simp add: trim_start_def drop_ws.simps [of ws_len "CHR 0x20 # s"] ascii_ws_def)

lemma split_ws_space: "split_ws (CHR 0x20 # s) = split_ws s"
  by (simp add: split_ws.simps [of "CHR 0x20 # s"] split_ws.simps [of s] trim_start_space)

lemma word_trim_start: "word_text w \<Longrightarrow> trim_start (w @ s) = w @ s"
  by (cases w) (auto simp: word_text_def intro: trim_start_graphic)

lemma split_ws_word: "word_text w \<Longrightarrow> split_ws (w @ CHR 0x20 # s) = w # split_ws s"
  by (simp add: split_ws.simps [of "w @ CHR 0x20 # s"] word_trim_start Let_def split_ws_space
      take_word_graphic [of w s] word_text_def [of w])

lemma split_ws_end: "word_text w \<Longrightarrow> split_ws w = [w]"
  using word_trim_start [of w "[]"]
  by (simp add: split_ws.simps [of w] split_ws.simps [of "[]"] trim_start_graphic Let_def
      take_word_graphic_end word_text_def)

subsection \<open>Trimming\<close>

lemma trim_start_str_no: "\<not> starts_with p s \<Longrightarrow> trim_start_str p s = s"
  by (subst trim_start_str.simps) simp

lemma trim_start_str_once:
  "p \<noteq> [] \<Longrightarrow> \<not> starts_with p s \<Longrightarrow> trim_start_str p (p @ s) = s"
  by (subst trim_start_str.simps) (simp add: trim_start_str_no)

lemma trim_end_char_no: "s = [] \<or> last s \<noteq> c \<Longrightarrow> trim_end_char c s = s"
  by (cases s rule: rev_cases) (auto simp: trim_end_char_def)

lemma trim_end_char_one: "s = [] \<or> last s \<noteq> c \<Longrightarrow> trim_end_char c (s @ [c]) = s"
  using trim_end_char_no [of s c] by (simp add: trim_end_char_def)

lemma trim_start_char_no: "s = [] \<or> hd s \<noteq> c \<Longrightarrow> trim_start_char c s = s"
  by (cases s) (auto simp: trim_start_char_def)

lemma trim_start_char_one: "s = [] \<or> hd s \<noteq> c \<Longrightarrow> trim_start_char c (c # s) = s"
  using trim_start_char_no [of s c] by (simp add: trim_start_char_def)

lemma trim_spaces: "trim (CHR 0x20 # s) = trim s"
  by (simp add: trim_def trim_start_space)

lemma trim_end_space: "trim_end (s @ [CHR 0x20]) = trim_end s"
  by (simp add: trim_end_def drop_ws.simps [of ws_len_rev "CHR 0x20 # rev s"] ascii_ws_def)

lemma find_str_no: "\<forall>c \<in> set s. c \<noteq> hd p \<Longrightarrow> p \<noteq> [] \<Longrightarrow> find_str p s = None"
  by (induction s) (auto simp: starts_with_def neq_Nil_conv)

lemma split_first_str_no: "\<forall>c \<in> set s. c \<noteq> hd p \<Longrightarrow> p \<noteq> [] \<Longrightarrow> split_first_str p s = s"
  by (simp add: split_first_str_def find_str_no)

end
