(* ===== verification/Proto_Gen.thy ===== *)
theory Proto_Gen
  imports Rust_Lines
begin

text \<open>
  The generator of \<^verbatim>\<open>.proto\<close> files: the protobuf face of a Rust type
  (\<^verbatim>\<open>typeway-grpc/src/mapping.rs\<close>, a trait whose implementations are values here) and
  the rpcs and the file of an API (\<^verbatim>\<open>proto_gen.rs\<close>). \<open>up\<close> is
  \<^verbatim>\<open>char::to_uppercase\<close> on the characters that are not ASCII.
\<close>

subsection \<open>Fields and messages\<close>

record ProtoField =
  fd_name :: string
  fd_proto_type :: string
  fd_tag :: u32
  fd_repeated :: bool
  fd_optional :: bool
  fd_is_map :: bool
  fd_map_key_type :: "string option"
  fd_map_value_type :: "string option"
  fd_doc :: "string option"

definition plain_field :: "string \<Rightarrow> string \<Rightarrow> u32 \<Rightarrow> bool \<Rightarrow> ProtoField" where
  "plain_field name proto_type tag repeated =
     \<lparr>fd_name = name, fd_proto_type = proto_type, fd_tag = tag, fd_repeated = repeated,
      fd_optional = False, fd_is_map = False, fd_map_key_type = None, fd_map_value_type = None,
      fd_doc = None\<rparr>"

definition or_string :: "string option \<Rightarrow> string" where
  "or_string t = (case t of Some s \<Rightarrow> s | None \<Rightarrow> ''string'')"

definition field_line :: "ProtoField \<Rightarrow> string" where
  "field_line f =
     (if fd_is_map f
      then ''  map<'' @ or_string (fd_map_key_type f) @ '', '' @ or_string (fd_map_value_type f) @
           ''> '' @ fd_name f @ '' = '' @ dec (unat (fd_tag f)) @ '';''
      else ''  '' @ (if fd_repeated f then ''repeated '' else if fd_optional f then ''optional '' else []) @
           fd_proto_type f @ '' '' @ fd_name f @ '' = '' @ dec (unat (fd_tag f)) @ '';'')"

definition doc_comment :: "string \<Rightarrow> string" where
  "doc_comment l = ''  // '' @ l"

definition to_proto_line :: "ProtoField \<Rightarrow> string" where
  "to_proto_line f =
     (case fd_doc f of
        Some doc \<Rightarrow>
          (if doc \<noteq> []
           then join_with [newline] (map doc_comment (str_lines doc)) @ [newline] @ field_line f
           else field_line f)
      | None \<Rightarrow> field_line f)"

definition build_message :: "string \<Rightarrow> ProtoField list \<Rightarrow> string" where
  "build_message name fs =
     join_with [newline] ([''message '' @ name @ '' {''] @ map to_proto_line fs @ [''}''])"

subsection \<open>The protobuf face of a type\<close>

record proto_type =
  pt_name :: string
  pt_is_message :: bool
  pt_is_repeated :: bool
  pt_is_map :: bool
  pt_map_key :: "string option"
  pt_map_value :: "string option"
  pt_message_definition :: "string option"
  pt_collect_messages :: "string list"
  pt_fields :: "ProtoField list"

text \<open>The defaults of the trait, used by every scalar type.\<close>

definition scalar_type :: "string \<Rightarrow> proto_type" where
  "scalar_type name =
     \<lparr>pt_name = name, pt_is_message = False, pt_is_repeated = False, pt_is_map = False,
      pt_map_key = None, pt_map_value = None, pt_message_definition = None,
      pt_collect_messages = [], pt_fields = []\<rparr>"

datatype rust_scalar =
  RString | RStr | RU32 | RU64 | RI32 | RI64 | RF32 | RF64 | RBool | RBytesStr | RVecU8 | RUnit
  | RUsize | RStatusCode

fun scalar_name :: "rust_scalar \<Rightarrow> string" where
  "scalar_name RString = ''string''"
| "scalar_name RStr = ''string''"
| "scalar_name RU32 = ''uint32''"
| "scalar_name RU64 = ''uint64''"
| "scalar_name RI32 = ''int32''"
| "scalar_name RI64 = ''int64''"
| "scalar_name RF32 = ''float''"
| "scalar_name RF64 = ''double''"
| "scalar_name RBool = ''bool''"
| "scalar_name RBytesStr = ''string''"
| "scalar_name RVecU8 = ''bytes''"
| "scalar_name RUnit = ''google.protobuf.Empty''"
| "scalar_name RUsize = ''uint64''"
| "scalar_name RStatusCode = ''int32''"

definition vec_type :: "proto_type \<Rightarrow> proto_type" where
  "vec_type t =
     (scalar_type (pt_name t))\<lparr>pt_is_repeated := True, pt_is_message := pt_is_message t,
       pt_message_definition := pt_message_definition t,
       pt_collect_messages := pt_collect_messages t\<rparr>"

text \<open>\<^verbatim>\<open>Option\<close>, \<^verbatim>\<open>Box\<close> and \<^verbatim>\<open>Arc\<close> have the same implementation.\<close>

definition wrapper_type :: "proto_type \<Rightarrow> proto_type" where
  "wrapper_type t =
     (scalar_type (pt_name t))\<lparr>pt_is_message := pt_is_message t,
       pt_message_definition := pt_message_definition t,
       pt_collect_messages := pt_collect_messages t\<rparr>"

definition map_type :: "proto_type \<Rightarrow> proto_type \<Rightarrow> proto_type" where
  "map_type k v =
     (scalar_type ''map'')\<lparr>pt_is_map := True, pt_map_key := Some (pt_name k),
       pt_map_value := Some (pt_name v),
       pt_collect_messages := pt_collect_messages k @ pt_collect_messages v\<rparr>"

subsection \<open>Names\<close>

definition ascii_upper :: "char \<Rightarrow> char" where
  "ascii_upper c =
     (let n = of_char c :: nat in if 97 \<le> n \<and> n \<le> 122 then char_of (n - 32) else c)"

text \<open>The number of bytes of the character that a byte begins.\<close>

definition utf8_len :: "char \<Rightarrow> nat" where
  "utf8_len c =
     (let n = of_char c :: nat in if n < 0x80 then 1 else if n < 0xE0 then 2 else if n < 0xF0 then 3 else 4)"

definition capitalize_word :: "(string \<Rightarrow> string) \<Rightarrow> string \<Rightarrow> string" where
  "capitalize_word up w =
     (case w of
        [] \<Rightarrow> []
      | c # r \<Rightarrow>
          (if utf8_len c = 1 then ascii_upper c # r
           else up (take (utf8_len c) w) @ drop (utf8_len c) w))"

definition to_pascal_case :: "(string \<Rightarrow> string) \<Rightarrow> string \<Rightarrow> string" where
  "to_pascal_case up s = concat (map (capitalize_word up) (split_on CHR ''_'' s))"

definition to_pascal_case_singular :: "(string \<Rightarrow> string) \<Rightarrow> string \<Rightarrow> string" where
  "to_pascal_case_singular up s =
     (let pascal = concat (map (capitalize_word up) (split_on CHR ''_'' s))
      in if ends_with ''s'' pascal \<and> 1 < length pascal then take (length pascal - 1) pascal else pascal)"

definition method_prefix :: "string \<Rightarrow> bool \<Rightarrow> string" where
  "method_prefix http_method last_is_capture =
     (if http_method = ''GET'' then (if last_is_capture then ''Get'' else ''List'')
      else if http_method = ''POST'' then ''Create''
      else if http_method = ''PUT'' then ''Update''
      else if http_method = ''PATCH'' then ''Update''
      else if http_method = ''DELETE'' then ''Delete''
      else if http_method = ''HEAD'' then ''Head''
      else if http_method = ''OPTIONS'' then ''Options''
      else ''Call'')"

definition path_to_rpc_name :: "(string \<Rightarrow> string) \<Rightarrow> string \<Rightarrow> string \<Rightarrow> string" where
  "path_to_rpc_name up http_method path =
     (let segments = filter (\<lambda>s. s \<noteq> [] \<and> \<not> starts_with ''{'' s) (split_on CHR ''/'' path);
          resource = (if segments = [] then ''Resource'' else to_pascal_case_singular up (last segments));
          nonempty = filter (\<lambda>s. s \<noteq> []) (split_on CHR ''/'' path);
          last_is_capture = (nonempty \<noteq> [] \<and> starts_with ''{'' (last nonempty))
      in method_prefix http_method last_is_capture @ resource)"

definition capture_field :: "nat \<Rightarrow> string \<Rightarrow> ProtoField" where
  "capture_field i seg =
     plain_field (if seg = ''{}'' then ''param'' @ dec (i + 1) else take (length seg - 2) (drop 1 seg))
       ''string'' (word_of_nat (i + 1)) False"

definition captures_from_pattern :: "string \<Rightarrow> ProtoField list" where
  "captures_from_pattern pattern =
     (let segs = filter (\<lambda>s. s = ''{}'' \<or> starts_with ''{'' s \<and> ends_with ''}'' s) (split_on CHR ''/'' pattern)
      in map (\<lambda>(i, seg). capture_field i seg) (enumerate 0 segs))"

subsection \<open>The rpc of an endpoint\<close>

record ProtoMessage =
  mm_name :: string
  mm_definition :: string

record RpcMethod =
  rpc_name :: string
  rpc_http_method :: string
  rpc_path_pattern :: string
  rpc_request_message :: "ProtoMessage option"
  rpc_response_message :: ProtoMessage
  rpc_server_streaming :: bool
  rpc_client_streaming :: bool

definition build_response_message :: "proto_type \<Rightarrow> string \<Rightarrow> ProtoMessage" where
  "build_response_message res name =
     (let type_name = pt_name res
      in if pt_is_message res
         then \<lparr>mm_name = type_name,
               mm_definition = (case pt_message_definition res of
                  Some d \<Rightarrow> d | None \<Rightarrow> build_message type_name [])\<rparr>
         else if type_name = ''google.protobuf.Empty''
         then \<lparr>mm_name = ''google.protobuf.Empty'', mm_definition = []\<rparr>
         else \<lparr>mm_name = name @ ''Response'',
               mm_definition = build_message (name @ ''Response'')
                 [plain_field ''value'' type_name 1 (pt_is_repeated res)]\<rparr>)"

definition to_rpc_bodyless :: "(string \<Rightarrow> string) \<Rightarrow> string \<Rightarrow> string \<Rightarrow> proto_type \<Rightarrow> RpcMethod" where
  "to_rpc_bodyless up http_method path res =
     (let name = path_to_rpc_name up http_method path;
          fs = captures_from_pattern path
      in \<lparr>rpc_name = name, rpc_http_method = http_method, rpc_path_pattern = path,
          rpc_request_message =
            (if fs = [] then None
             else Some \<lparr>mm_name = name @ ''Request'', mm_definition = build_message (name @ ''Request'') fs\<rparr>),
          rpc_response_message = build_response_message res name,
          rpc_server_streaming = False, rpc_client_streaming = False\<rparr>)"

text \<open>The tags are \<^verbatim>\<open>u32\<close>, and the sums wrap as in a release build.\<close>

definition request_fields :: "string \<Rightarrow> proto_type \<Rightarrow> ProtoField list" where
  "request_fields path req_type =
     (let fs = captures_from_pattern path
      in if pt_name req_type = ''google.protobuf.Empty'' then fs
         else if pt_is_message req_type \<and> pt_fields req_type \<noteq> []
         then fs @ map (\<lambda>f. f\<lparr>fd_tag := fd_tag f + word_of_nat (length fs)\<rparr>) (pt_fields req_type)
         else fs @ [plain_field ''body'' (pt_name req_type) (word_of_nat (length fs) + 1)
                      (pt_is_repeated req_type)])"

definition to_rpc_with_body ::
  "(string \<Rightarrow> string) \<Rightarrow> string \<Rightarrow> string \<Rightarrow> proto_type \<Rightarrow> proto_type \<Rightarrow> RpcMethod" where
  "to_rpc_with_body up http_method path req_type res =
     (let name = path_to_rpc_name up http_method path
      in \<lparr>rpc_name = name, rpc_http_method = http_method, rpc_path_pattern = path,
          rpc_request_message =
            Some \<lparr>mm_name = name @ ''Request'',
                  mm_definition = build_message (name @ ''Request'') (request_fields path req_type)\<rparr>,
          rpc_response_message = build_response_message res name,
          rpc_server_streaming = False, rpc_client_streaming = False\<rparr>)"

definition server_stream_rpc :: "RpcMethod \<Rightarrow> RpcMethod" where
  "server_stream_rpc r = r\<lparr>rpc_server_streaming := True\<rparr>"

definition client_stream_rpc :: "RpcMethod \<Rightarrow> RpcMethod" where
  "client_stream_rpc r = r\<lparr>rpc_client_streaming := True\<rparr>"

definition bidi_stream_rpc :: "RpcMethod \<Rightarrow> RpcMethod" where
  "bidi_stream_rpc r = r\<lparr>rpc_client_streaming := True, rpc_server_streaming := True\<rparr>"

subsection \<open>The file\<close>

text \<open>An \<^verbatim>\<open>IndexSet\<close> is the list of its elements in the order of their insertion.\<close>

definition set_insert :: "'a \<Rightarrow> 'a list \<Rightarrow> 'a list" where
  "set_insert x xs = (if x \<in> set xs then xs else xs @ [x])"

definition collect_definitions :: "RpcMethod list \<Rightarrow> string list" where
  "collect_definitions rpcs =
     fold (\<lambda>r ms. set_insert (mm_definition (rpc_response_message r))
             (case rpc_request_message r of Some q \<Rightarrow> set_insert (mm_definition q) ms | None \<Rightarrow> ms))
       rpcs []"

definition request_type_name :: "RpcMethod \<Rightarrow> string" where
  "request_type_name r =
     (case rpc_request_message r of Some q \<Rightarrow> mm_name q | None \<Rightarrow> ''google.protobuf.Empty'')"

definition rpc_lines :: "RpcMethod \<Rightarrow> string list" where
  "rpc_lines r =
     [''  // '' @ rpc_http_method r @ '' '' @ rpc_path_pattern r,
      ''  rpc '' @ rpc_name r @ ''('' @ (if rpc_client_streaming r then ''stream '' else []) @
        request_type_name r @ '') returns ('' @ (if rpc_server_streaming r then ''stream '' else []) @
        mm_name (rpc_response_message r) @ '');'']"

definition generate_proto_file :: "string \<Rightarrow> string \<Rightarrow> RpcMethod list \<Rightarrow> string" where
  "generate_proto_file service_name package rpcs =
     join_with [newline]
       ([''syntax = '' @ [CHR 0x22] @ ''proto3'' @ [CHR 0x22] @ '';'', [],
         ''package '' @ package @ '';'', [], ''service '' @ service_name @ '' {''] @
        concat (map rpc_lines rpcs) @ [''}'', []] @
        concat (map (\<lambda>m. [m, []]) (collect_definitions rpcs)))"

end
