(* ===== verification/Reflection.thy ===== *)
theory Reflection
  imports Proto_Gen
begin

text \<open>
  The reflection service, \<^verbatim>\<open>typeway-grpc/src/reflection.rs\<close>, and the descriptors
  of \<^verbatim>\<open>service.rs\<close>. The rpcs of an API, which the trait machinery collects, are a
  list.
\<close>

record ReflectionService =
  rf_proto_content :: string
  rf_service_names :: "string list"

definition reflection_new :: "string \<Rightarrow> string list \<Rightarrow> ReflectionService" where
  "reflection_new proto_content service_names =
     \<lparr>rf_proto_content = proto_content, rf_service_names = service_names\<rparr>"

definition list_services :: "ReflectionService \<Rightarrow> string list" where
  "list_services r = rf_service_names r"

definition file_containing_symbol :: "ReflectionService \<Rightarrow> string \<Rightarrow> string option" where
  "file_containing_symbol r symbol_name = Some (rf_proto_content r)"

definition replace_char :: "char \<Rightarrow> string \<Rightarrow> string \<Rightarrow> string" where
  "replace_char c to' s = concat (map (\<lambda>x. if x = c then to' else [x]) s)"

definition reflection_handle_request :: "ReflectionService \<Rightarrow> string \<Rightarrow> string" where
  "reflection_handle_request r request_body =
     (if str_contains ''list_services'' request_body then
        (let services = map (\<lambda>s. ''{\"name\":\"'' @ s @ ''\"}'') (rf_service_names r)
         in ''{\"listServicesResponse\":{\"service\":['' @ join_with '','' services @ '']}}'')
      else
        (let escaped = replace_char CHR 0x0A [CHR 0x5C, CHR ''n'']
               (replace_char CHR 0x22 [CHR 0x5C, CHR 0x22]
                 (replace_char CHR 0x5C [CHR 0x5C, CHR 0x5C] (rf_proto_content r)))
         in ''{\"fileDescriptorResponse\":{\"fileDescriptorProto\":\"'' @ escaped @ ''\"}}''))"

definition is_reflection_path :: "string \<Rightarrow> bool" where
  "is_reflection_path path \<longleftrightarrow>
     path = ''/grpc.reflection.v1alpha.ServerReflection/ServerReflectionInfo'' \<or>
     starts_with ''/grpc.reflection.v1alpha'' path"

subsection \<open>Descriptors\<close>

record GrpcMethodDescriptor =
  gm_name :: string
  gm_full_path :: string
  gm_http_method :: string
  gm_rest_path :: string
  gm_server_streaming :: bool
  gm_client_streaming :: bool

record GrpcServiceDescriptor =
  gd_name :: string
  gd_package :: string
  gd_methods :: "GrpcMethodDescriptor list"

definition find_method_desc :: "GrpcServiceDescriptor \<Rightarrow> string \<Rightarrow> GrpcMethodDescriptor option" where
  "find_method_desc d full_path = find (\<lambda>m. gm_full_path m = full_path) (gd_methods d)"

definition find_method_by_rpc_name :: "GrpcServiceDescriptor \<Rightarrow> string \<Rightarrow> GrpcMethodDescriptor option" where
  "find_method_by_rpc_name d name = find (\<lambda>m. gm_name m = name) (gd_methods d)"

text \<open>\<open>method_of\<close> is \<^verbatim>\<open>parse::<http::Method>\<close>; a name that is no method panics.\<close>

definition method_desc_of ::
  "(string \<Rightarrow> string option) \<Rightarrow> string \<Rightarrow> string \<Rightarrow> RpcMethod \<Rightarrow> (GrpcMethodDescriptor, unit) result" where
  "method_desc_of method_of service_name package r =
     (case method_of (rpc_http_method r) of
        None \<Rightarrow> Panic
      | Some m \<Rightarrow>
          Ok \<lparr>gm_name = rpc_name r,
              gm_full_path = ''/'' @ package @ ''.'' @ service_name @ ''/'' @ rpc_name r,
              gm_http_method = m, gm_rest_path = rpc_path_pattern r,
              gm_server_streaming = rpc_server_streaming r,
              gm_client_streaming = rpc_client_streaming r\<rparr>)"

definition service_descriptor ::
  "(string \<Rightarrow> string option) \<Rightarrow> RpcMethod list \<Rightarrow> string \<Rightarrow> string \<Rightarrow> (GrpcServiceDescriptor, unit) result" where
  "service_descriptor method_of rpcs service_name package =
     result_map (\<lambda>ms. \<lparr>gd_name = service_name, gd_package = package, gd_methods = ms\<rparr>)
       (concat_mapM (\<lambda>r. result_map (\<lambda>m. [m]) (method_desc_of method_of service_name package r)) rpcs)"

end
