(* ===== verification/Grpc_Dispatch.thy ===== *)
theory Grpc_Dispatch
  imports Router Client_Path Grpc_Client Transcode Reflection
begin

text \<open>
  The gRPC side of the server, \<^verbatim>\<open>typeway-server/src/grpc_dispatch.rs\<close>: the table
  of methods built from the REST router, the synthetic request for a handler, the answer put into
  gRPC frames, and the multiplexer that chooses between health, reflection, methods and REST. The
  transcoder is used through its two operations, a record of functions (\<open>Transcode\<close> models
  them); \<^verbatim>\<open>None\<close> stands also for a build without the feature. Futures run in the
  order they are awaited; a handler says how long it takes, in nanoseconds.
\<close>

subsection \<open>The method table\<close>

record 'ext gparts =
  gq_method :: string
  gq_path :: string
  gq_headers :: header_map
  gq_ext :: 'ext

text \<open>A response of a handler; \<open>rr_stream\<close> is the \<^verbatim>\<open>GrpcStreamMarker\<close>.\<close>

record rest_reply =
  rr_status :: nat
  rr_headers :: header_map
  rr_stream :: bool
  rr_body :: collected

type_synonym 'ext ghandler = "'ext gparts \<Rightarrow> bytes \<Rightarrow> (rest_reply, unit) result \<times> nat"
type_synonym 'ext gmiddleware = "'ext gparts \<Rightarrow> bytes \<Rightarrow> ('ext gparts \<times> bytes, rest_reply) result"

datatype 'ext GrpcRouteEntry =
    Standard "'ext ghandler" GrpcMethodDescriptor "'ext gmiddleware list"
  | Direct "bytes \<Rightarrow> (bytes, GrpcStatus) result"

record 'ext GrpcRouter =
  gr_handlers :: "string \<rightharpoonup> 'ext GrpcRouteEntry"
  gr_state_injector :: "('ext \<Rightarrow> 'ext) option"

definition grpc_router_from_router ::
  "('ext ghandler, 'ext, 'fb) RouterInner \<Rightarrow> GrpcServiceDescriptor \<Rightarrow> 'ext GrpcRouter" where
  "grpc_router_from_router router descriptor =
     \<lparr>gr_handlers = foldl (\<lambda>handlers m.
        (case find_handler_by_pattern (gm_http_method m) (gm_rest_path m) router of
           Some handler \<Rightarrow> handlers(gm_full_path m \<mapsto> Standard handler m [])
         | None \<Rightarrow> handlers)) Map.empty (gd_methods descriptor),
      gr_state_injector = ri_state_injector router\<rparr>"

definition add_direct_handler ::
  "string \<Rightarrow> (bytes \<Rightarrow> (bytes, GrpcStatus) result) \<Rightarrow> 'ext GrpcRouter \<Rightarrow> 'ext GrpcRouter" where
  "add_direct_handler grpc_path handler r =
     r\<lparr>gr_handlers := (gr_handlers r)(grpc_path \<mapsto> Direct handler)\<rparr>"

definition add_middleware :: "string \<Rightarrow> 'ext gmiddleware \<Rightarrow> 'ext GrpcRouter \<Rightarrow> 'ext GrpcRouter" where
  "add_middleware grpc_path mw r =
     (case gr_handlers r grpc_path of
        Some (Standard h d mws) \<Rightarrow>
          r\<lparr>gr_handlers := (gr_handlers r)(grpc_path \<mapsto> Standard h d (mws @ [mw]))\<rparr>
      | _ \<Rightarrow> r)"

definition grpc_lookup :: "'ext GrpcRouter \<Rightarrow> string \<Rightarrow> 'ext GrpcRouteEntry option" where
  "grpc_lookup r grpc_path = gr_handlers r grpc_path"

subsection \<open>The synthetic request\<close>

text \<open>
  \<open>gs_show\<close> is \<^verbatim>\<open>Display\<close> of a JSON value, \<open>gs_uri\<close> parses a URI and
  gives its path, \<open>gs_lossy\<close> is \<^verbatim>\<open>from_utf8_lossy\<close>.
\<close>

record grpc_env =
  gs_parse_hv :: "string \<Rightarrow> string option"
  gs_to_str :: "string \<Rightarrow> string option"
  gs_to_vec :: "json \<Rightarrow> bytes + string"
  gs_from_slice :: "bytes \<Rightarrow> json + string"
  gs_show :: "json \<Rightarrow> string"
  gs_uri :: "string \<Rightarrow> string option"
  gs_lossy :: "bytes \<Rightarrow> string"

definition json_value_to_string :: "grpc_env \<Rightarrow> json \<Rightarrow> string" where
  "json_value_to_string env v =
     (case v of
        JStr s \<Rightarrow> s
      | JBool b \<Rightarrow> (if b then ''true'' else ''false'')
      | _ \<Rightarrow> gs_show env v)"

text \<open>\<^verbatim>\<open>rest_path.matches("{}").count()\<close>.\<close>

fun count_braces :: "string \<Rightarrow> nat" where
  "count_braces [] = 0"
| "count_braces [c] = 0"
| "count_braces (c # d # s) =
     (if c = CHR ''{'' \<and> d = CHR ''}'' then Suc (count_braces s) else count_braces (d # s))"

definition id_fields :: "string list" where
  "id_fields = [''id'', ''user_id'', ''item_id'', ''name'', ''slug'']"

definition param_key :: "nat \<Rightarrow> string" where
  "param_key i = ''param'' @ dec i"

definition extract_capture_values :: "grpc_env \<Rightarrow> json \<Rightarrow> string \<Rightarrow> string list" where
  "extract_capture_values env message rest_path =
     (let n = count_braces rest_path
      in if n = 0 then []
         else case as_object message of
                None \<Rightarrow> replicate n ''''
              | Some obj \<Rightarrow>
                  (let by_param = List.map_filter
                         (\<lambda>i. map_option (json_value_to_string env) (map_of obj (param_key i))) [1..<Suc n]
                   in if length by_param = n then by_param
                      else let by_id = take n (List.map_filter
                                 (\<lambda>k. map_option (json_value_to_string env) (map_of obj k)) id_fields);
                               values = (if length by_id < n
                                 then map (json_value_to_string env \<circ> snd) (take n obj) else by_id)
                           in values @ replicate (n - length values) ''''))"

definition inject_state :: "('ext \<Rightarrow> 'ext) option \<Rightarrow> 'ext gparts \<Rightarrow> 'ext gparts" where
  "inject_state injector p =
     (case injector of Some f \<Rightarrow> p\<lparr>gq_ext := f (gq_ext p)\<rparr> | None \<Rightarrow> p)"

definition build_synthetic_request_raw ::
  "'ext gparts \<Rightarrow> ('ext \<Rightarrow> 'ext) option \<Rightarrow> 'ext gparts" where
  "build_synthetic_request_raw original injector = inject_state injector original"

definition build_synthetic_request ::
  "grpc_env \<Rightarrow> 'ext gparts \<Rightarrow> GrpcMethodDescriptor \<Rightarrow> json \<Rightarrow> ('ext \<Rightarrow> 'ext) option \<Rightarrow>
   'ext gparts \<times> bytes" where
  "build_synthetic_request env original desc message injector =
     (let rest_path = gm_rest_path desc;
          uri = (if str_contains ''{}'' rest_path
                 then build_path (extract_capture_values env message rest_path) rest_path
                 else rest_path);
          path = (case gs_uri env uri of
                    Some p \<Rightarrow> p
                  | None \<Rightarrow> (case gs_uri env rest_path of Some p \<Rightarrow> p | None \<Rightarrow> ''/''));
          parts = \<lparr>gq_method = gm_http_method desc, gq_path = path,
            gq_headers = (gq_headers original)(''content-type'' \<mapsto> ''application/json''),
            gq_ext = gq_ext original\<rparr>;
          body = (case gs_to_vec env message of Inl b \<Rightarrow> b | Inr _ \<Rightarrow> [])
      in (inject_state injector parts, body))"

subsection \<open>The answer in gRPC frames\<close>

record transcoder =
  tc_decode_request :: "string \<Rightarrow> bytes \<Rightarrow> (json, string) result"
  tc_encode_response :: "string \<Rightarrow> json \<Rightarrow> (bytes, string) result"

definition grpc_json_response :: "string \<Rightarrow> bytes response" where
  "grpc_json_response json_body =
     \<lparr>rs_status = 200,
      rs_headers = [''grpc-status'' \<mapsto> ''0'', ''content-type'' \<mapsto> ''application/grpc+json''],
      rs_body = encode_grpc_frame (as_bytes json_body)\<rparr>"

definition encode_response_bytes ::
  "grpc_env \<Rightarrow> transcoder option \<Rightarrow> bytes \<Rightarrow> string \<Rightarrow> bool \<Rightarrow> (bytes \<times> string, unit) result" where
  "encode_response_bytes env tc json_bytes grpc_path use_proto_binary =
     (case (use_proto_binary, tc) of
        (True, Some t) \<Rightarrow>
          (let v = (case gs_from_slice env json_bytes of Inl v \<Rightarrow> v | Inr _ \<Rightarrow> JNull)
           in case tc_encode_response t grpc_path v of
                Ok proto_bytes \<Rightarrow> Ok (proto_bytes, ''application/grpc+proto'')
              | Err _ \<Rightarrow> Ok (json_bytes, ''application/grpc+json'')
              | Panic \<Rightarrow> Panic)
      | _ \<Rightarrow> Ok (json_bytes, ''application/grpc+json''))"

text \<open>The loop over the items of a stream: the frames so far and the content type of the last.\<close>

fun frame_items ::
  "grpc_env \<Rightarrow> transcoder option \<Rightarrow> string \<Rightarrow> bool \<Rightarrow> json list \<Rightarrow> bytes \<times> string \<Rightarrow>
   (bytes \<times> string, unit) result" where
  "frame_items env tc path use_bin [] acc = Ok acc"
| "frame_items env tc path use_bin (item # items) (buf, ct) =
     and_then (encode_response_bytes env tc
         (case gs_to_vec env item of Inl b \<Rightarrow> b | Inr _ \<Rightarrow> []) path use_bin)
       (\<lambda>(encoded, ct'). frame_items env tc path use_bin items (buf @ encode_grpc_frame encoded, ct'))"

datatype 'r dispatched =
    RestAnswer 'r
  | PlainAnswer "bytes response"
  | StreamAnswer "collected response"
  | GrpcAnswer "GrpcBody response"
  | MiddlewareAnswer rest_reply

definition frame_response ::
  "grpc_env \<Rightarrow> transcoder option \<Rightarrow> GrpcMethodDescriptor \<Rightarrow> string \<Rightarrow> bool \<Rightarrow> GrpcCode \<Rightarrow> bytes \<Rightarrow>
   (bytes \<times> string, unit) result" where
  "frame_response env tc desc path use_bin code res_bytes =
     (let one = and_then (encode_response_bytes env tc res_bytes path use_bin)
            (\<lambda>(encoded, ct). Ok (encode_grpc_frame encoded, ct))
      in if gm_server_streaming desc \<and> code = OkCode then
           (case gs_from_slice env res_bytes of
              Inl (JArr items) \<Rightarrow> frame_items env tc path use_bin items ([], ''application/grpc+json'')
            | _ \<Rightarrow> one)
         else one)"

definition wrap_response_as_grpc ::
  "grpc_env \<Rightarrow> transcoder option \<Rightarrow> rest_reply \<Rightarrow> GrpcMethodDescriptor \<Rightarrow> string \<Rightarrow> bool \<Rightarrow>
   ('r dispatched, unit) result" where
  "wrap_response_as_grpc env tc reply desc grpc_path use_bin =
     (if rr_stream reply then
        Ok (StreamAnswer \<lparr>rs_status = 200,
          rs_headers = (rr_headers reply)(''content-type'' \<mapsto> ''application/grpc+json''),
          rs_body = rr_body reply\<rparr>)
      else
        let code = http_to_grpc_code (rr_status reply);
            res_bytes = (case rr_body reply of Ok frames \<Rightarrow> data_bytes frames | _ \<Rightarrow> [])
        in and_then (frame_response env tc desc grpc_path use_bin code res_bytes) (\<lambda>(framed, ct).
             Ok (GrpcAnswer \<lparr>rs_status = 200,
               rs_headers = [''content-type'' \<mapsto> ct, ''grpc-status'' \<mapsto> dec_int (as_i32 code)],
               rs_body = grpc_body_with_status (gs_parse_hv env) framed
                 \<lparr>st_code = code, st_message = []\<rparr>\<rparr>)))"

subsection \<open>The multiplexer\<close>

record ('ext, 'r) GrpcMultiplexer =
  mx_rest :: "collected request \<Rightarrow> 'r"
  mx_router :: "'ext GrpcRouter"
  mx_reflection :: ReflectionService
  mx_health :: HealthService
  mx_reflection_enabled :: bool
  mx_spec_json :: "string option"
  mx_docs_html :: "string option"
  mx_transcoder :: "transcoder option"

definition multiplexer_new ::
  "(collected request \<Rightarrow> 'r) \<Rightarrow> 'ext GrpcRouter \<Rightarrow> ReflectionService \<Rightarrow> HealthService \<Rightarrow> bool \<Rightarrow>
   string option \<Rightarrow> string option \<Rightarrow> ('ext, 'r) GrpcMultiplexer" where
  "multiplexer_new rest router reflection health enabled spec_json docs_html =
     \<lparr>mx_rest = rest, mx_router = router, mx_reflection = reflection, mx_health = health,
      mx_reflection_enabled = enabled, mx_spec_json = spec_json, mx_docs_html = docs_html,
      mx_transcoder = None\<rparr>"

definition body_bytes_of :: "collected \<Rightarrow> bytes" where
  "body_bytes_of body = (case body of Ok frames \<Rightarrow> data_bytes frames | _ \<Rightarrow> [])"

definition unframe :: "bytes \<Rightarrow> bytes" where
  "unframe data = (case decode_grpc_frame data of Ok u \<Rightarrow> u | _ \<Rightarrow> data)"

definition text_response :: "string \<Rightarrow> string \<Rightarrow> bytes response" where
  "text_response ct text =
     \<lparr>rs_status = 200, rs_headers = [''content-type'' \<mapsto> ct], rs_body = as_bytes text\<rparr>"

definition grpc_error_answer :: "grpc_env \<Rightarrow> GrpcCode \<Rightarrow> string \<Rightarrow> 'r dispatched" where
  "grpc_error_answer env code message =
     GrpcAnswer (grpc_error_response (gs_parse_hv env) \<lparr>st_code = code, st_message = message\<rparr>)"

text \<open>Early returns are errors of the chain.\<close>

definition decode_message ::
  "grpc_env \<Rightarrow> transcoder option \<Rightarrow> bool \<Rightarrow> string \<Rightarrow> bytes \<Rightarrow> (json, 'r dispatched) result" where
  "decode_message env tc use_bin grpc_path unframed =
     (case (use_bin, tc) of
        (True, Some t) \<Rightarrow>
          map_err (\<lambda>e. grpc_error_answer env InvalidArgument (''failed to decode binary protobuf: '' @ e))
            (tc_decode_request t grpc_path unframed)
      | _ \<Rightarrow>
          map_err (\<lambda>e. grpc_error_answer env InvalidArgument
              (''failed to decode request: '' @ codec_error_text e))
            (codec_decode (json_codec (gs_to_vec env) (gs_from_slice env)) unframed))"

fun apply_middleware ::
  "'ext gmiddleware list \<Rightarrow> 'ext gparts \<times> bytes \<Rightarrow> ('ext gparts \<times> bytes, 'r dispatched) result" where
  "apply_middleware [] pb = Ok pb"
| "apply_middleware (mw # mws) (p, b) =
     and_then (map_err MiddlewareAnswer (mw p b)) (apply_middleware mws)"

definition run_handler ::
  "grpc_env \<Rightarrow> 'ext ghandler \<Rightarrow> nat option \<Rightarrow> 'ext gparts \<times> bytes \<Rightarrow> (rest_reply, 'r dispatched) result"
  where
  "run_handler env handler timeout pb =
     (case handler (fst pb) (snd pb) of
        (outcome, taken) \<Rightarrow>
          (if (case timeout of Some d \<Rightarrow> d < taken | None \<Rightarrow> False)
           then Err (grpc_error_answer env DeadlineExceeded ''deadline exceeded'')
           else case outcome of Ok r \<Rightarrow> Ok r | _ \<Rightarrow> Panic))"

definition serve_standard ::
  "grpc_env \<Rightarrow> transcoder option \<Rightarrow> ('ext \<Rightarrow> 'ext) option \<Rightarrow> 'ext \<Rightarrow> 'ext ghandler \<Rightarrow>
   GrpcMethodDescriptor \<Rightarrow> 'ext gmiddleware list \<Rightarrow> collected request \<Rightarrow>
   ('r dispatched, 'r dispatched) result" where
  "serve_standard env tc injector ext handler desc mws req =
     and_then (case Option.bind (rq_headers req ''grpc-timeout'') (gs_to_str env) of
                 None \<Rightarrow> Ok None
               | Some v \<Rightarrow> (case parse_grpc_timeout v of Ok t \<Rightarrow> Ok t | _ \<Rightarrow> Panic)) (\<lambda>timeout.
       let use_bin = (tc \<noteq> None \<and>
             is_proto_binary_content_type (grpc_content_type (gs_to_str env) (rq_headers req)));
           parts = \<lparr>gq_method = rq_method req, gq_path = rq_uri req, gq_headers = rq_headers req,
             gq_ext = ext\<rparr>;
           unframed = unframe (body_bytes_of (rq_body req));
           fast = (use_bin \<and> \<not> str_contains ''{}'' (gm_rest_path desc))
       in and_then
            (if fast then
               (let p = build_synthetic_request_raw parts injector
                in Ok (p\<lparr>gq_headers := (gq_headers p)(''content-type'' \<mapsto> ''application/grpc+proto'')\<rparr>,
                       unframed))
             else and_then (decode_message env tc use_bin (rq_uri req) unframed)
                    (\<lambda>message. Ok (build_synthetic_request env parts desc message injector)))
            (\<lambda>pb. and_then (apply_middleware mws pb) (\<lambda>pb'.
              and_then (run_handler env handler timeout pb') (\<lambda>reply.
                case wrap_response_as_grpc env tc reply desc (rq_uri req) use_bin of
                  Ok a \<Rightarrow> Ok a | _ \<Rightarrow> Panic))))"

definition grpc_dispatch ::
  "grpc_env \<Rightarrow> ('ext, 'r) GrpcMultiplexer \<Rightarrow> 'ext \<Rightarrow> collected request \<Rightarrow> ('r dispatched, 'r dispatched) result"
  where
  "grpc_dispatch env mux ext req =
     (let grpc_path = rq_uri req
      in if is_health_path grpc_path then
           Ok (PlainAnswer (grpc_json_response (health_handle_request (mx_health mux))))
         else if mx_reflection_enabled mux \<and> is_reflection_path grpc_path then
           Ok (PlainAnswer (grpc_json_response (reflection_handle_request (mx_reflection mux)
             (gs_lossy env (unframe (body_bytes_of (rq_body req)))))))
         else case grpc_lookup (mx_router mux) grpc_path of
                None \<Rightarrow>
                  Ok (GrpcAnswer (grpc_error_response (gs_parse_hv env)
                    (status_unimplemented (''method '' @ [CHR 0x27] @ grpc_path @ [CHR 0x27] @
                       '' not found in service''))))
              | Some (Direct handler) \<Rightarrow>
                  (case dispatch_direct (gs_parse_hv env) handler (body_bytes_of (rq_body req)) of
                     Some res \<Rightarrow> Ok (GrpcAnswer res)
                   | None \<Rightarrow> Panic)
              | Some (Standard handler desc mws) \<Rightarrow>
                  serve_standard env (mx_transcoder mux) (gr_state_injector (mx_router mux)) ext
                    handler desc mws req)"

text \<open>Both ends of the chain are the answer that is sent.\<close>

definition grpc_multiplexer_call ::
  "grpc_env \<Rightarrow> ('ext, 'r) GrpcMultiplexer \<Rightarrow> 'ext \<Rightarrow> collected request \<Rightarrow> ('r dispatched, unit) result"
  where
  "grpc_multiplexer_call env mux ext req =
     (case (rq_method req = ''GET'' \<and> rq_uri req = ''/grpc-spec'', mx_spec_json mux) of
        (True, Some spec) \<Rightarrow> Ok (PlainAnswer (text_response ''application/json; charset=utf-8'' spec))
      | _ \<Rightarrow>
          (case (rq_method req = ''GET'' \<and> rq_uri req = ''/grpc-docs'', mx_docs_html mux) of
             (True, Some docs) \<Rightarrow> Ok (PlainAnswer (text_response ''text/html; charset=utf-8'' docs))
           | _ \<Rightarrow>
               (if is_grpc_request (gs_to_str env) req then
                  (case grpc_dispatch env mux ext req of
                     Ok a \<Rightarrow> Ok a | Err a \<Rightarrow> Ok a | Panic \<Rightarrow> Panic)
                else Ok (RestAnswer (mx_rest mux req)))))"

subsection \<open>The table\<close>

lemma from_router_fold:
  "foldl (\<lambda>handlers m.
      (case find_handler_by_pattern (gm_http_method m) (gm_rest_path m) router of
         Some handler \<Rightarrow> handlers(gm_full_path m \<mapsto> Standard handler m [])
       | None \<Rightarrow> handlers)) h0 ms path =
   (case find (\<lambda>m. gm_full_path m = path \<and>
            find_handler_by_pattern (gm_http_method m) (gm_rest_path m) router \<noteq> None) (rev ms) of
      Some m \<Rightarrow> map_option (\<lambda>h. Standard h m [])
        (find_handler_by_pattern (gm_http_method m) (gm_rest_path m) router)
    | None \<Rightarrow> h0 path)"
proof (induction ms arbitrary: h0 rule: rev_induct)
  case (snoc m ms)
  then show ?case by (auto split: option.splits)
qed simp

lemma find_handler_registered:
  "find_handler_by_pattern method pattern r = Some h \<Longrightarrow>
   \<exists>e \<in> set (ri_routes r). re_method e = method \<and> re_pattern e = pattern \<and> re_handler e = h"
  by (auto simp: find_handler_by_pattern_def find_Some_iff)

lemma find_SomeD: "find P xs = Some x \<Longrightarrow> P x \<and> x \<in> set xs"
  by (induction xs) (auto split: if_splits)

text \<open>C27. The method table follows the REST router: an entry under a path belongs to a method of the
  service with that full path, its handler is that of a REST route registered with the method and
  the pattern of the description, and it starts without middleware; a method whose route is
  registered is never left out.\<close>

theorem grpc_table_sound:
  "(grpc_lookup (grpc_router_from_router r d) path = Some entry \<longrightarrow>
    (\<exists>m h. entry = Standard h m [] \<and> m \<in> set (gd_methods d) \<and> gm_full_path m = path \<and>
      (\<exists>e \<in> set (ri_routes r). re_method e = gm_http_method m \<and> re_pattern e = gm_rest_path m \<and>
        re_handler e = h))) \<and>
   (m' \<in> set (gd_methods d) \<and> gm_full_path m' = path \<and>
      find_handler_by_pattern (gm_http_method m') (gm_rest_path m') r \<noteq> None \<longrightarrow>
    grpc_lookup (grpc_router_from_router r d) path \<noteq> None)"
proof (intro conjI impI)
  let ?P = "\<lambda>m. gm_full_path m = path \<and>
    find_handler_by_pattern (gm_http_method m) (gm_rest_path m) r \<noteq> None"
  have lk: "grpc_lookup (grpc_router_from_router r d) path =
      (case find ?P (rev (gd_methods d)) of
         Some m \<Rightarrow> map_option (\<lambda>h. Standard h m [])
           (find_handler_by_pattern (gm_http_method m) (gm_rest_path m) r)
       | None \<Rightarrow> None)"
    by (simp add: grpc_lookup_def grpc_router_from_router_def from_router_fold)
  show "\<exists>m h. entry = Standard h m [] \<and> m \<in> set (gd_methods d) \<and> gm_full_path m = path \<and>
      (\<exists>e \<in> set (ri_routes r). re_method e = gm_http_method m \<and> re_pattern e = gm_rest_path m \<and>
        re_handler e = h)"
    if "grpc_lookup (grpc_router_from_router r d) path = Some entry"
  proof -
    from that lk obtain m where m: "find ?P (rev (gd_methods d)) = Some m"
      by (auto split: option.splits)
    from find_SomeD [OF m] have "?P m" "m \<in> set (gd_methods d)" by simp_all
    with m that lk find_handler_registered show ?thesis by fastforce
  qed
  show "grpc_lookup (grpc_router_from_router r d) path \<noteq> None"
    if "m' \<in> set (gd_methods d) \<and> gm_full_path m' = path \<and>
      find_handler_by_pattern (gm_http_method m') (gm_rest_path m') r \<noteq> None"
  proof -
    have "find ?P (rev (gd_methods d)) \<noteq> None"
      using that by (auto simp: find_None_iff)
    then obtain m where m: "find ?P (rev (gd_methods d)) = Some m" by blast
    from find_SomeD [OF m] have "?P m" by simp
    with m lk show ?thesis by auto
  qed
qed

subsection \<open>Captures from message fields\<close>

lemma count_braces_skip: "CHR ''{'' \<notin> set l \<Longrightarrow> count_braces (l @ s) = count_braces s"
proof (induction l)
  case (Cons c l)
  then show ?case by (cases "l @ s") auto
qed simp

lemma count_braces_Cons: "c \<noteq> CHR ''{'' \<Longrightarrow> count_braces (c # s) = count_braces s"
  using count_braces_skip [of "[c]" s] by simp

lemma count_braces_pattern:
  "plain_path p \<Longrightarrow> fits_path parse show_v p vs \<Longrightarrow> count_braces (path_pattern p) = length vs"
proof (induction parse show_v p vs rule: fits_path.induct)
  case (2 parse show_v l p vs)
  then have "CHR ''{'' \<notin> set l" "plain_path p" by (auto simp: plain_path_def plain_literal_def)
  with 2 show ?case by (simp add: count_braces_Cons count_braces_skip)
next
  case (3 parse show_v ty p vs)
  then show ?case by (auto simp: count_braces_Cons plain_path_def split: list.splits)
qed simp_all

lemma str_contains_braces: "str_contains ''{}'' s \<longleftrightarrow> count_braces s \<noteq> 0"
  by (induction s rule: count_braces.induct) (auto simp: starts_with_def)

lemma map_filter_params:
  assumes "\<And>i. i < n \<Longrightarrow> f (Suc i) = Some (g i)"
  shows "List.map_filter f [1..<Suc n] = map g [0..<n]"
proof -
  have "List.map_filter f (map Suc [0..<n]) = map g [0..<n]"
    using assms by (induction n) (simp_all add: List.map_filter_def)
  then show ?thesis by (simp add: map_Suc_upt)
qed


subsection \<open>Client and server together\<close>

text \<open>The HTTP connection between the client of \<open>Grpc_Client\<close> and the multiplexer; the URL is the
  path. A REST answer never comes back to a gRPC request.\<close>

definition http_reply_of :: "'r dispatched \<Rightarrow> http_reply + reqwest_error" where
  "http_reply_of a =
     (case a of
        GrpcAnswer res \<Rightarrow> Inl \<lparr>hp_status = rs_status res, hp_headers = rs_headers res,
          hp_body = Inl (case gb_data (rs_body res) of Some d \<Rightarrow> d | None \<Rightarrow> [])\<rparr>
      | PlainAnswer res \<Rightarrow> Inl \<lparr>hp_status = rs_status res, hp_headers = rs_headers res,
          hp_body = Inl (rs_body res)\<rparr>
      | StreamAnswer res \<Rightarrow> Inl \<lparr>hp_status = rs_status res, hp_headers = rs_headers res,
          hp_body = Inl (body_bytes_of (rs_body res))\<rparr>
      | MiddlewareAnswer r \<Rightarrow> Inl \<lparr>hp_status = rr_status r, hp_headers = rr_headers r,
          hp_body = Inl (body_bytes_of (rr_body r))\<rparr>
      | RestAnswer _ \<Rightarrow> Inr \<lparr>re_is_timeout = False, re_text = ''not gRPC''\<rparr>)"

definition http_server_request :: "http_request \<Rightarrow> collected request" where
  "http_server_request q =
     \<lparr>rq_method = hr_method q, rq_uri = hr_url q, rq_headers = map_of (hr_headers q),
      rq_body = Ok [Data (case hr_body q of Some b \<Rightarrow> b | None \<Rightarrow> [])]\<rparr>"

definition connect ::
  "grpc_env \<Rightarrow> ('ext, 'r) GrpcMultiplexer \<Rightarrow> 'ext \<Rightarrow> http_request \<Rightarrow> http_reply + reqwest_error" where
  "connect env mux ext q =
     (case grpc_multiplexer_call env mux ext (http_server_request q) of
        Ok a \<Rightarrow> http_reply_of a
      | _ \<Rightarrow> Inr \<lparr>re_is_timeout = False, re_text = ''connection closed''\<rparr>)"

definition json_client :: "grpc_env \<Rightarrow> grpc_codec" where
  "json_client env = json_codec (gs_to_vec env) (gs_from_slice env)"

definition unary_call ::
  "grpc_env \<Rightarrow> (bytes \<Rightarrow> json option) \<Rightarrow> ('ext, 'r) GrpcMultiplexer \<Rightarrow> 'ext \<Rightarrow> string \<Rightarrow> string \<Rightarrow> json \<Rightarrow>
   (json, GrpcClientError) result" where
  "unary_call env from_slice mux ext service_path method request =
     grpc_call (json_client env)
       (send_request_once (gs_to_str env) from_slice (connect env mux ext)
         (grpc_build_request Inl grpc_config_default (json_client env) service_path method request))"

lemma unframe_frame: "length m < 2 ^ 32 \<Longrightarrow> unframe (encode_grpc_frame m) = m"
  using decode_put_frame [of m "[]"] by (simp add: unframe_def encode_grpc_frame_put)

lemma decode_encode_frame: "length m < 2 ^ 32 \<Longrightarrow> decode_grpc_frame (encode_grpc_frame m) = Ok m"
  using decode_put_frame [of m "[]"] by (simp add: encode_grpc_frame_put)

lemma as_i32_zero: "as_i32 c = 0 \<longleftrightarrow> c = OkCode"
  by (cases c) simp_all

text \<open>What the client makes of the answer to a unary call.\<close>

lemma read_wrapped_reply:
  assumes "header_values parse_hv to_str" "length data < 2 ^ 32"
  shows "grpc_call codec (grpc_read_reply to_str from_slice (Inl \<lparr>hp_status = 200,
      hp_headers = [''content-type'' \<mapsto> ct, ''grpc-status'' \<mapsto> dec_int (as_i32 code)],
      hp_body = Inl (encode_grpc_frame data)\<rparr>)) =
    (if code = OkCode then map_err Codec (codec_decode codec data)
     else Err (GrpcStatusError code [] (error_details_of from_slice (encode_grpc_frame data))))"
proof -
  have "to_str (dec_int (as_i32 code)) = Some (dec_int (as_i32 code))"
    by (rule header_values_printable(2) [OF assms(1) printable_code])
  then show ?thesis
    using assms(2)
    by (simp add: grpc_read_reply_def client_status_def parse_code as_i32_zero grpc_call_def
        decode_encode_frame)
qed

text \<open>A unary method of a server without transcoder and middleware.\<close>

definition serves_unary ::
  "grpc_env \<Rightarrow> ('ext, 'r) GrpcMultiplexer \<Rightarrow> string \<Rightarrow> 'ext ghandler \<Rightarrow> GrpcMethodDescriptor \<Rightarrow> bool" where
  "serves_unary env mux path handler desc \<longleftrightarrow>
     grpc_lookup (mx_router mux) path = Some (Standard handler desc []) \<and>
     \<not> is_health_path path \<and> \<not> (mx_reflection_enabled mux \<and> is_reflection_path path) \<and>
     \<not> gm_server_streaming desc \<and> mx_transcoder mux = None"

definition unary_answer :: "grpc_env \<Rightarrow> nat \<Rightarrow> bytes \<Rightarrow> GrpcBody response" where
  "unary_answer env status data =
     \<lparr>rs_status = 200,
      rs_headers = [''content-type'' \<mapsto> ''application/grpc+json'',
        ''grpc-status'' \<mapsto> dec_int (as_i32 (http_to_grpc_code status))],
      rs_body = grpc_body_with_status (gs_parse_hv env) (encode_grpc_frame data)
        \<lparr>st_code = http_to_grpc_code status, st_message = []\<rparr>\<rparr>"

lemma serve_unary:
  fixes mux :: "('ext, 'r) GrpcMultiplexer"
  assumes "header_values (gs_parse_hv env) (gs_to_str env)"
    and "serves_unary env mux path handler desc"
    and "rq_method q = ''POST''" "rq_uri q = path" "rq_headers q ''grpc-timeout'' = None"
      "rq_headers q ''content-type'' = Some ''application/grpc+json''"
      "rq_body q = Ok [Data (encode_grpc_frame body)]"
    and "body \<noteq> []" "length body < 2 ^ 32" "gs_from_slice env body = Inl message"
    and "gs_to_vec env message = Inl body"
    and "\<And>p. gq_method p = gm_http_method desc \<Longrightarrow> handler p body = (Ok reply, taken)"
    and "\<not> rr_stream reply" "rr_body reply = Ok frames"
  shows "grpc_multiplexer_call env mux ext q = Ok (GrpcAnswer (unary_answer env (rr_status reply) (data_bytes frames)))"
proof -
  let ?inj = "gr_state_injector (mx_router mux)"
  let ?parts = "\<lparr>gq_method = rq_method q, gq_path = rq_uri q, gq_headers = rq_headers q, gq_ext = ext\<rparr>"
  have ct: "gs_to_str env ''application/grpc+json'' = Some ''application/grpc+json''"
    by (rule header_values_printable(2) [OF assms(1)]) (simp add: printable_def)
  then have grpc: "is_grpc_request (gs_to_str env) q"
    by (simp add: is_grpc_request_def content_type_def assms(6) starts_with_def)
  obtain p where syn: "build_synthetic_request env ?parts desc message ?inj = (p, body)"
    and p: "gq_method p = gm_http_method desc"
    by (simp add: build_synthetic_request_def inject_state_def assms(11) Let_def split: option.splits)
  have dec: "decode_message env None False path body = (Ok message :: (json, 'r dispatched) result)"
    by (simp add: decode_message_def json_codec_def assms(8,10))
  have run: "run_handler env handler None (p, body) = (Ok reply :: (rest_reply, 'r dispatched) result)"
    by (simp add: run_handler_def assms(12) [OF p])
  have wrap: "(wrap_response_as_grpc env None reply desc path False :: ('r dispatched, unit) result) =
      Ok (GrpcAnswer (unary_answer env (rr_status reply) (data_bytes frames)))"
    using assms(2) by (simp add: wrap_response_as_grpc_def frame_response_def encode_response_bytes_def
        serves_unary_def assms(13,14) unary_answer_def Let_def)
  have "(serve_standard env None ?inj ext handler desc [] q :: ('r dispatched, 'r dispatched) result) =
      Ok (GrpcAnswer (unary_answer env (rr_status reply) (data_bytes frames)))"
    using dec run syn wrap assms(4)
    by (simp add: serve_standard_def assms(5,7) body_bytes_of_def unframe_frame [OF assms(9)] Let_def)
  then show ?thesis
    using assms(2) grpc wrap
    by (simp add: grpc_multiplexer_call_def grpc_dispatch_def serves_unary_def assms(3,4) Let_def)
qed


subsection \<open>Witnesses\<close>

definition get_desc :: "string \<Rightarrow> GrpcMethodDescriptor" where
  "get_desc rest_path =
     \<lparr>gm_name = ''Get'', gm_full_path = ''/p.S/Get'', gm_http_method = ''GET'',
      gm_rest_path = rest_path, gm_server_streaming = False, gm_client_streaming = False\<rparr>"

definition get_handler :: "unit ghandler" where
  "get_handler p b =
     (Ok \<lparr>rr_status = 200, rr_headers = Map.empty, rr_stream = False, rr_body = Ok [Data [2]]\<rparr>, 0)"

definition get_router :: "(unit ghandler, unit, unit) RouterInner" where
  "get_router = router_new\<lparr>ri_routes := [\<lparr>re_method = ''GET'', re_pattern = ''/u'',
     re_match_fn = (\<lambda>_. True), re_handler = get_handler\<rparr>]\<rparr>"

definition get_mux :: "(unit, unit) GrpcMultiplexer" where
  "get_mux = multiplexer_new (\<lambda>_. ())
     (grpc_router_from_router get_router \<lparr>gd_name = ''S'', gd_package = ''p'', gd_methods = [get_desc ''/u'']\<rparr>)
     (reflection_new [] []) health_new False None None"

definition get_env :: grpc_env where
  "get_env = \<lparr>gs_parse_hv = ascii_hv, gs_to_str = ascii_hv, gs_to_vec = (\<lambda>_. Inl [1]),
     gs_from_slice = (\<lambda>_. Inl (JObj [])), gs_show = (\<lambda>_. ''''), gs_uri = Some, gs_lossy = of_bytes\<rparr>"

lemma get_router_handler:
  "find_handler_by_pattern ''GET'' ''/u'' get_router = Some get_handler"
  by (simp add: find_handler_by_pattern_def get_router_def)

theorem grpc_table_sound_witness:
  "\<exists>m h. grpc_lookup (grpc_router_from_router get_router
       \<lparr>gd_name = ''S'', gd_package = ''p'', gd_methods = [get_desc ''/u'']\<rparr>) ''/p.S/Get'' =
     Some (Standard h m [])"
proof -
  let ?d = "\<lparr>gd_name = ''S'', gd_package = ''p'', gd_methods = [get_desc ''/u'']\<rparr>"
  note snd = grpc_table_sound [of get_router ?d "''/p.S/Get''" _ "get_desc ''/u''"]
  have "grpc_lookup (grpc_router_from_router get_router ?d) ''/p.S/Get'' \<noteq> None"
    using snd by (simp add: get_desc_def get_router_handler)
  with snd show ?thesis by blast
qed



end
