(* ===== verification/Grpc_Stream.thy ===== *)
theory Grpc_Stream
  imports Grpc_Dispatch
begin

text \<open>
  Server streams, \<^verbatim>\<open>typeway-server/src/grpc_stream.rs\<close>: the body of a
  \<open>GrpcStream\<close> as a machine driven by its polls, a third \<open>trailer_body\<close>, and what the client of
  \<open>Grpc_Client\<close> reads of it. The channel is the list of the results its next polls give.
\<close>

record StreamState =
  ss_rx :: "(json + GrpcStatus) poll list"
  ss_done :: bool

text \<open>The messages are not percent-encoded here.\<close>

definition build_trailers :: "(string \<Rightarrow> string option) \<Rightarrow> GrpcStatus \<Rightarrow> header_map" where
  "build_trailers parse_hv status =
     (let trailers = [''grpc-status'' \<mapsto> dec_int (as_i32 (st_code status))]
      in if st_message status = [] then trailers
         else (case parse_hv (st_message status) of
                 Some val \<Rightarrow> trailers(''grpc-message'' \<mapsto> val)
               | None \<Rightarrow> trailers))"

definition item_frame :: "grpc_env \<Rightarrow> json \<Rightarrow> bytes" where
  "item_frame env item = encode_grpc_frame (case gs_to_vec env item of Inl b \<Rightarrow> b | Inr _ \<Rightarrow> [])"

definition grpc_stream_poll :: "grpc_env \<Rightarrow> StreamState \<Rightarrow> StreamState \<times> frame option poll" where
  "grpc_stream_poll env s =
     (if ss_done s then (s, Ready None)
      else case ss_rx s of
             [] \<Rightarrow>
               (s\<lparr>ss_done := True\<rparr>, Ready (Some (Trailers (build_trailers (gs_parse_hv env)
                  \<lparr>st_code = OkCode, st_message = []\<rparr>))))
           | Pending # rx \<Rightarrow> (s\<lparr>ss_rx := rx\<rparr>, Pending)
           | Ready (Inl item) # rx \<Rightarrow> (s\<lparr>ss_rx := rx\<rparr>, Ready (Some (Data (item_frame env item))))
           | Ready (Inr status) # rx \<Rightarrow>
               (s\<lparr>ss_rx := rx, ss_done := True\<rparr>,
                Ready (Some (Trailers (build_trailers (gs_parse_hv env) status)))))"

definition grpc_stream_into_response :: "(json + GrpcStatus) poll list \<Rightarrow> StreamState response" where
  "grpc_stream_into_response rx =
     \<lparr>rs_status = 200, rs_headers = [''content-type'' \<mapsto> ''application/grpc+json''],
      rs_body = \<lparr>ss_rx = rx, ss_done = False\<rparr>\<rparr>"

interpretation grpc_stream: trailer_body
  "grpc_stream_poll env" "\<lambda>_. True" ss_done "\<lambda>s. length (ss_rx s)"
proof unfold_locales
  fix s :: StreamState and s' r
  assume "\<not> ss_done s" "grpc_stream_poll env s = (s', r)"
  then show "(\<exists>t. r = Ready (Some (Trailers t)) \<and> True \<and> ss_done s') \<or>
      ((r = Pending \<or> (\<exists>d. r = Ready (Some (Data d)))) \<and> True \<and> \<not> ss_done s' \<and>
       length (ss_rx s') < length (ss_rx s))"
    by (auto simp: grpc_stream_poll_def split: list.splits poll.splits sum.splits)
qed (simp add: grpc_stream_poll_def)

subsection \<open>What is sent\<close>

text \<open>The items before the first error, and the status that ends the stream.\<close>

fun sent_items :: "(json + GrpcStatus) poll list \<Rightarrow> json list" where
  "sent_items [] = []"
| "sent_items (Pending # rx) = sent_items rx"
| "sent_items (Ready (Inl item) # rx) = item # sent_items rx"
| "sent_items (Ready (Inr st) # rx) = []"

fun end_status :: "(json + GrpcStatus) poll list \<Rightarrow> GrpcStatus" where
  "end_status [] = \<lparr>st_code = OkCode, st_message = []\<rparr>"
| "end_status (Pending # rx) = end_status rx"
| "end_status (Ready (Inl item) # rx) = end_status rx"
| "end_status (Ready (Inr st) # rx) = st"

fun ready_frames :: "frame option poll list \<Rightarrow> frame list" where
  "ready_frames [] = []"
| "ready_frames (Ready (Some f) # rs) = f # ready_frames rs"
| "ready_frames (_ # rs) = ready_frames rs"

lemma ready_frames_end [simp]: "ready_frames (replicate k (Ready None)) = []"
  by (induction k) simp_all

lemma grpc_stream_poll_open:
  "grpc_stream_poll env \<lparr>ss_rx = [], ss_done = False\<rparr> = (\<lparr>ss_rx = [], ss_done = True\<rparr>,
     Ready (Some (Trailers (build_trailers (gs_parse_hv env) \<lparr>st_code = OkCode, st_message = []\<rparr>))))"
  "grpc_stream_poll env \<lparr>ss_rx = Pending # rx, ss_done = False\<rparr> = (\<lparr>ss_rx = rx, ss_done = False\<rparr>, Pending)"
  "grpc_stream_poll env \<lparr>ss_rx = Ready (Inl item) # rx, ss_done = False\<rparr> =
     (\<lparr>ss_rx = rx, ss_done = False\<rparr>, Ready (Some (Data (item_frame env item))))"
  "grpc_stream_poll env \<lparr>ss_rx = Ready (Inr st) # rx, ss_done = False\<rparr> =
     (\<lparr>ss_rx = rx, ss_done = True\<rparr>, Ready (Some (Trailers (build_trailers (gs_parse_hv env) st))))"
  by (simp_all add: grpc_stream_poll_def)

lemma grpc_stream_done:
  "poll_n (grpc_stream_poll env) n \<lparr>ss_rx = rx, ss_done = True\<rparr> = replicate n (Ready None)"
  by (rule grpc_stream.polls_ended) simp_all

lemma grpc_stream_poll_done:
  "grpc_stream_poll env \<lparr>ss_rx = rx, ss_done = True\<rparr> = (\<lparr>ss_rx = rx, ss_done = True\<rparr>, Ready None)"
  by (simp add: grpc_stream_poll_def)

lemma grpc_stream_frames:
  "ready_frames (poll_n (grpc_stream_poll env) (Suc (length rx) + k) \<lparr>ss_rx = rx, ss_done = False\<rparr>) =
   map (Data \<circ> item_frame env) (sent_items rx) @
     [Trailers (build_trailers (gs_parse_hv env) (end_status rx))]"
  by (induction rx arbitrary: k rule: sent_items.induct)
    (simp_all add: grpc_stream_poll_open grpc_stream_poll_done grpc_stream_done)

text \<open>A server stream sends one frame for each item, in order, up to the first error, then the
  trailers once, with the status of that error, or OK when the channel is closed without one; what
  the handler sends after an error is dropped.\<close>

theorem grpc_stream_polls:
  "ready_frames (poll_n (grpc_stream_poll env) (Suc (length rx) + k)
      (rs_body (grpc_stream_into_response rx))) =
   map (Data \<circ> item_frame env) (sent_items rx) @
     [Trailers (build_trailers (gs_parse_hv env) (end_status rx))]"
  using grpc_stream_frames [of env rx k] by (simp add: grpc_stream_into_response_def)

subsection \<open>What the client reads\<close>

definition stream_frames_of :: "grpc_env \<Rightarrow> (json + GrpcStatus) poll list \<Rightarrow> frame list" where
  "stream_frames_of env rx =
     ready_frames (poll_n (grpc_stream_poll env) (Suc (length rx)) \<lparr>ss_rx = rx, ss_done = False\<rparr>)"

text \<open>The handler's reply that carries the stream.\<close>

definition stream_reply :: "grpc_env \<Rightarrow> (json + GrpcStatus) poll list \<Rightarrow> rest_reply" where
  "stream_reply env rx =
     \<lparr>rr_status = 200, rr_headers = rs_headers (grpc_stream_into_response rx), rr_stream = True,
      rr_body = Ok (stream_frames_of env rx)\<rparr>"

lemma data_bytes_stream:
  "data_bytes (stream_frames_of env rx) = concat (map (item_frame env) (sent_items rx))"
proof -
  have "data_bytes (map (Data \<circ> item_frame env) items @ [Trailers t]) =
      concat (map (item_frame env) items)" for items t
    by (induction items) simp_all
  then show ?thesis using grpc_stream_frames [of env rx 0] by (simp add: stream_frames_of_def)
qed

lemma decode_item_frames:
  assumes "list_all frame_fits ms"
  shows "decode_grpc_frames (concat (map encode_grpc_frame ms)) = (ms, None)"
proof -
  let ?fs = "replicate (length ms) (0::u8)"
  have z: "map encode_grpc_frame ms = map put_frame (zip ?fs ms)"
    by (induction ms) (simp_all add: encode_grpc_frame_put)
  let ?data = "concat (map put_frame (zip ?fs ms))"
  have "decode_grpc_frames ?data = decode_grpc_frames_loop ?data (length ?data) ms"
    unfolding decode_grpc_frames_def
    using decode_grpc_frames_put [of ms ?fs ?data "[]" "[]" "[]"] assms
    by (simp add: list_all_length)
  then show ?thesis unfolding z by (simp add: decode_grpc_frames_step get_frame_def)
qed

lemma decode_items:
  "(\<And>v. v \<in> set items \<Longrightarrow> codec_decode codec (f v) = Ok v) \<Longrightarrow>
   concat_mapM (\<lambda>frame. map_err Codec (result_map (\<lambda>v. [v]) (codec_decode codec frame))) (map f items) =
     (Ok items :: (json list, GrpcClientError) result)"
  by (induction items) simp_all

text \<open>C22. The client of this repository reads a server stream as the items sent before the end,
  whatever status ends it: the error that a handler puts into the stream is in the trailers, which
  the client never looks at, and the call succeeds.\<close>

theorem grpc_stream_error_lost:
  assumes "\<And>v. v \<in> set (sent_items rx) \<Longrightarrow> \<exists>b. gs_to_vec env v = Inl b \<and> frame_fits b \<and>
      codec_decode (json_client env) b = Ok v"
    and "wrap_response_as_grpc env tc (stream_reply env rx) desc path use_bin = Ok answer"
  shows "call_server_stream (json_client env)
      (grpc_read_reply (gs_to_str env) from_slice (http_reply_of answer)) =
    Ok \<lparr>str_frames = sent_items rx, str_index = 0\<rparr>"
proof -
  define f where "f v = (case gs_to_vec env v of Inl b \<Rightarrow> b | Inr _ \<Rightarrow> [])" for v
  have f: "frame_fits (f v)" "codec_decode (json_client env) (f v) = Ok v" if "v \<in> set (sent_items rx)" for v
    using assms(1) [OF that] by (auto simp: f_def)
  have "answer = StreamAnswer \<lparr>rs_status = 200,
      rs_headers = [''content-type'' \<mapsto> ''application/grpc+json''],
      rs_body = Ok (stream_frames_of env rx)\<rparr>"
    using assms(2) by (simp add: wrap_response_as_grpc_def stream_reply_def grpc_stream_into_response_def)
  then have "grpc_read_reply (gs_to_str env) from_slice (http_reply_of answer) =
      Ok (concat (map encode_grpc_frame (map f (sent_items rx))))"
    by (simp add: http_reply_of_def grpc_read_reply_def client_status_def body_bytes_of_def
        data_bytes_stream item_frame_def [abs_def] f_def [abs_def] comp_def)
  moreover have "decode_grpc_frames (concat (map encode_grpc_frame (map f (sent_items rx)))) =
      (map f (sent_items rx), None)"
    using f(1) by (intro decode_item_frames) (simp add: list_all_iff)
  ultimately show ?thesis
    using decode_items [of "sent_items rx" "json_client env" f] f(2)
    by (simp add: call_server_stream_def)
qed

theorem grpc_stream_error_lost_witness:
  "\<exists>answer. (wrap_response_as_grpc get_env None
      (stream_reply get_env [Ready (Inl (JObj [])), Ready (Inr \<lparr>st_code = Internal, st_message = ''broken''\<rparr>)])
      (get_desc ''/u'') ''/p.S/Get'' False :: (unit dispatched, unit) result) = Ok answer \<and>
    call_server_stream (json_client get_env)
      (grpc_read_reply (gs_to_str get_env) (\<lambda>_. None) (http_reply_of answer)) =
    Ok \<lparr>str_frames = [JObj []], str_index = 0\<rparr>"
proof -
  let ?rx = "[Ready (Inl (JObj [])), Ready (Inr \<lparr>st_code = Internal, st_message = ''broken''\<rparr>)]"
  obtain answer :: "unit dispatched" where a:
    "wrap_response_as_grpc get_env None (stream_reply get_env ?rx) (get_desc ''/u'') ''/p.S/Get'' False = Ok answer"
    by (simp add: wrap_response_as_grpc_def stream_reply_def)
  have "call_server_stream (json_client get_env)
      (grpc_read_reply (gs_to_str get_env) (\<lambda>_. None) (http_reply_of answer)) =
    Ok \<lparr>str_frames = sent_items ?rx, str_index = 0\<rparr>"
    by (rule grpc_stream_error_lost [OF _ a])
      (auto simp: get_env_def json_client_def json_codec_def frame_fits_def)
  with a show ?thesis by auto
qed

end
