(* ===== verification/Proto_Parse.thy ===== *)
theory Proto_Parse
  imports Rust_Lines
begin

text \<open>
  The parser of \<^verbatim>\<open>.proto\<close> files, \<^verbatim>\<open>typeway-grpc/src/proto_parse.rs\<close>. The
  code walks an array of lines with an index; here a parser takes the lines from the index on and
  returns the lines from the returned index on.
\<close>

subsection \<open>The parsed file\<close>

record ParsedEnumVariant =
  ev_name :: string
  ev_tag :: u32

record ParsedEnum =
  en_name :: string
  en_variants :: "ParsedEnumVariant list"

record ProtoRpcMethod =
  pr_name :: string
  pr_input_type :: string
  pr_output_type :: string
  pr_comment :: "string option"

record ProtoService =
  ps_name :: string
  ps_methods :: "ProtoRpcMethod list"

record ParsedField =
  pa_name :: string
  pa_proto_type :: string
  pa_tag :: u32
  pa_repeated :: bool
  pa_optional :: bool
  pa_is_map :: bool
  pa_map_key_type :: "string option"
  pa_map_value_type :: "string option"

record ParsedMessage =
  pm_name :: string
  pm_fields :: "ParsedField list"

record ProtoFile =
  fl_syntax :: string
  fl_package :: string
  fl_imports :: "string list"
  fl_services :: "ProtoService list"
  fl_messages :: "ParsedMessage list"
  fl_enums :: "ParsedEnum list"

subsection \<open>Single lines\<close>

definition extract_block_name :: "string \<Rightarrow> string \<Rightarrow> (string, string) result" where
  "extract_block_name header keyword =
     (let name = trim (trim_end_char CHR ''{'' (trim (trim_start_str keyword header)))
      in if name = [] then Err (''missing name after '' @ [CHR 0x27] @ keyword @ [CHR 0x27])
         else Ok name)"

definition parse_import :: "string \<Rightarrow> (string, string) result" where
  "parse_import line =
     (let rest = trim (trim_start_str ''import'' line);
          rest = trim (trim_start_str ''weak'' (trim_start_str ''public'' rest));
          path = trim_char CHR 0x22 (trim (trim_end_char CHR '';'' rest))
      in if path = [] then Err ''empty import path'' else Ok path)"

definition parse_syntax :: "string \<Rightarrow> (string, string) result" where
  "parse_syntax line =
     (let rest = trim_char CHR 0x22 (trim (trim_end_char CHR '';''
                   (trim (trim_start_char CHR ''='' (trim (trim_start_str ''syntax'' line))))))
      in if rest = [] then Err ''empty syntax declaration'' else Ok rest)"

definition parse_package :: "string \<Rightarrow> (string, string) result" where
  "parse_package line =
     (let rest = trim (trim_end_char CHR '';'' (trim (trim_start_str ''package'' line)))
      in if rest = [] then Err ''empty package declaration'' else Ok rest)"

definition parse_u32 :: "string \<Rightarrow> u32 option" where
  "parse_u32 s = map_option word_of_nat (parse_uint 32 s)"

definition parse_enum_variant :: "string \<Rightarrow> ParsedEnumVariant option" where
  "parse_enum_variant line =
     (let line = trim (split_first_str ''//'' line);
          line = trim (trim_end_char CHR '';'' line)
      in case split_on CHR ''='' line of
           [a, b] \<Rightarrow> map_option (\<lambda>tag. \<lparr>ev_name = trim a, ev_tag = tag\<rparr>) (parse_u32 (trim b))
         | _ \<Rightarrow> None)"

definition parse_map_field :: "string \<Rightarrow> ParsedField option" where
  "parse_map_field line =
     Option.bind (find_char CHR ''<'' line) (\<lambda>open.
     Option.bind (find_char CHR ''>'' line) (\<lambda>close.
       if close \<le> open + 1 then None
       else let inner = drop (open + 1) (take close line) in
         Option.bind (find_char CHR '','' inner) (\<lambda>comma.
           let key_type = trim (take comma inner);
               value_type = trim (drop (comma + 1) inner)
           in case split_ws (trim (drop (close + 1) line)) of
                name # eq # tag # _ \<Rightarrow>
                  (if eq \<noteq> ''='' then None
                   else map_option (\<lambda>t.
                     \<lparr>pa_name = name, pa_proto_type = ''map<'' @ key_type @ '', '' @ value_type @ ''>'',
                      pa_tag = t, pa_repeated = False, pa_optional = False, pa_is_map = True,
                      pa_map_key_type = Some key_type, pa_map_value_type = Some value_type\<rparr>)
                     (parse_u32 tag))
              | _ \<Rightarrow> None)))"

definition parse_field :: "string \<Rightarrow> ParsedField option" where
  "parse_field line =
     (let line = trim (split_first_str ''//'' line);
          line = trim (trim_end_char CHR '';'' line)
      in if starts_with ''map<'' line \<or> starts_with ''map <'' line then parse_map_field line
         else let tokens = split_ws line in
           if length tokens < 4 then None
           else let repeated = hd tokens = ''repeated'';
                    optional = \<not> repeated \<and> hd tokens = ''optional''
                in case (if repeated \<or> optional then tl tokens else tokens) of
                     proto_type # name # eq # tag # _ \<Rightarrow>
                       (if eq \<noteq> ''='' then None
                        else map_option (\<lambda>t.
                          \<lparr>pa_name = name, pa_proto_type = proto_type, pa_tag = t,
                           pa_repeated = repeated, pa_optional = optional, pa_is_map = False,
                           pa_map_key_type = None, pa_map_value_type = None\<rparr>)
                          (parse_u32 tag))
                   | _ \<Rightarrow> None)"

definition find_or :: "string \<Rightarrow> string \<Rightarrow> string \<Rightarrow> (nat, string) result" where
  "find_or what line s =
     (case find_str what s of
        Some i \<Rightarrow> Ok i
      | None \<Rightarrow> Err (''missing '' @ [CHR 0x27] @ what @ [CHR 0x27] @ '' in rpc: '' @ line))"

definition find_after_returns :: "string \<Rightarrow> string \<Rightarrow> string \<Rightarrow> (nat, string) result" where
  "find_after_returns what line s =
     (case find_str what s of
        Some i \<Rightarrow> Ok i
      | None \<Rightarrow> Err (''missing '' @ [CHR 0x27] @ what @ [CHR 0x27] @ '' after returns in rpc: '' @ line))"

definition parse_rpc :: "string \<Rightarrow> (ProtoRpcMethod, string) result" where
  "parse_rpc line =
     (let rest = trim (trim_start_str ''rpc'' line)
      in and_then (find_or ''('' line rest) (\<lambda>paren_pos.
         let name = trim (take paren_pos rest);
             after_open = drop (paren_pos + 1) rest
         in and_then (find_or '')'' line after_open) (\<lambda>close_pos.
         let input_type = trim (take close_pos after_open);
             after_input = drop (close_pos + 1) after_open
         in and_then (find_or ''returns'' line after_input) (\<lambda>returns_pos.
         let after_returns = drop (returns_pos + 7) after_input
         in and_then (find_after_returns ''('' line after_returns) (\<lambda>out_open.
         let after_out_open = drop (out_open + 1) after_returns
         in and_then (find_after_returns '')'' line after_out_open) (\<lambda>out_close.
         Ok \<lparr>pr_name = name, pr_input_type = input_type,
             pr_output_type = trim (take out_close after_out_open), pr_comment = None\<rparr>))))))"

subsection \<open>Blocks\<close>

definition unclosed :: "string \<Rightarrow> string \<Rightarrow> string" where
  "unclosed kind name = ''unclosed '' @ kind @ '' block '' @ [CHR 0x27] @ name @ [CHR 0x27]"

definition is_comment :: "string \<Rightarrow> bool" where
  "is_comment t \<longleftrightarrow> starts_with ''//'' t"

fun enum_body :: "string \<Rightarrow> ParsedEnumVariant list \<Rightarrow> string list \<Rightarrow> (ParsedEnum \<times> string list, string) result" where
  "enum_body name variants [] = Err (unclosed ''enum'' name)"
| "enum_body name variants (l # ls) =
     (let t = trim l
      in if t = ''}'' then Ok (\<lparr>en_name = name, en_variants = variants\<rparr>, ls)
         else if t = [] \<or> is_comment t \<or> starts_with ''option'' t \<or> starts_with ''reserved'' t
         then enum_body name variants ls
         else enum_body name
                (case parse_enum_variant t of Some v \<Rightarrow> variants @ [v] | None \<Rightarrow> variants) ls)"

definition parse_enum_block :: "string \<Rightarrow> string list \<Rightarrow> (ParsedEnum \<times> string list, string) result" where
  "parse_enum_block header ls =
     and_then (extract_block_name (trim header) ''enum'') (\<lambda>name. enum_body name [] ls)"

fun service_body ::
  "string \<Rightarrow> ProtoRpcMethod list \<Rightarrow> string option \<Rightarrow> string list \<Rightarrow>
     (ProtoService \<times> string list, string) result" where
  "service_body name methods pending [] = Err (unclosed ''service'' name)"
| "service_body name methods pending (l # ls) =
     (let t = trim l
      in if t = ''}'' then Ok (\<lparr>ps_name = name, ps_methods = methods\<rparr>, ls)
         else if is_comment t then service_body name methods (Some t) ls
         else if starts_with ''rpc'' t then
           and_then (parse_rpc t) (\<lambda>method.
             service_body name (methods @ [method\<lparr>pr_comment := pending\<rparr>]) None ls)
         else if t = [] then service_body name methods pending ls
         else service_body name methods None ls)"

definition parse_service :: "string \<Rightarrow> string list \<Rightarrow> (ProtoService \<times> string list, string) result" where
  "parse_service header ls =
     and_then (extract_block_name (trim header) ''service'') (\<lambda>name. service_body name [] None ls)"

text \<open>
  A nested message is parsed by the block parser on the same line; the body goes on with the lines
  it leaves.
\<close>

function message_body ::
  "string \<Rightarrow> string \<Rightarrow> ParsedField list \<Rightarrow> ParsedMessage list \<Rightarrow> string list \<Rightarrow>
     (ParsedMessage list \<times> string list, string) result"
and parse_message_block ::
  "string \<Rightarrow> string list \<Rightarrow> string \<Rightarrow> (ParsedMessage list \<times> string list, string) result" where
  "message_body raw_name full_name fs nested [] = Err (unclosed ''message'' raw_name)"
| "message_body raw_name full_name fs nested (l # ls) =
     (let t = trim l
      in if t = ''}'' then Ok (\<lparr>pm_name = full_name, pm_fields = fs\<rparr> # nested, ls)
         else if starts_with ''message'' t then
           and_then (parse_message_block l ls (full_name @ ''.'')) (\<lambda>(msgs, next).
             message_body raw_name full_name fs (nested @ msgs) next)
         else if t = [] \<or> is_comment t then message_body raw_name full_name fs nested ls
         else message_body raw_name full_name
                (case parse_field t of Some f \<Rightarrow> fs @ [f] | None \<Rightarrow> fs) nested ls)"
| "parse_message_block header ls prefix =
     and_then (extract_block_name (trim header) ''message'') (\<lambda>raw_name.
       message_body raw_name (if prefix = [] then raw_name else prefix @ raw_name) [] [] ls)"
  by pat_completeness auto

lemma message_body_shorter:
  "message_body_parse_message_block_dom (Inl (raw, full, fs, nested, ls)) \<Longrightarrow>
     message_body raw full fs nested ls = Ok (msgs, rest) \<Longrightarrow> length rest < length ls"
  "message_body_parse_message_block_dom (Inr (header, ls, prefix)) \<Longrightarrow>
     parse_message_block header ls prefix = Ok (msgs, rest) \<Longrightarrow> length rest < length ls"
proof (induction raw full fs nested ls and header ls prefix arbitrary: msgs rest and msgs rest
    rule: message_body_parse_message_block.pinduct)
  case (2 raw full fs nested l ls)
  let ?t = "trim l"
  consider "?t = ''}''" | "?t \<noteq> ''}''" "starts_with ''message'' ?t"
    | "?t \<noteq> ''}''" "\<not> starts_with ''message'' ?t" by blast
  then show ?case
  proof cases
    case 2
    then obtain ms more where blk: "parse_message_block l ls (full @ ''.'') = Ok (ms, more)"
      and bdy: "message_body raw full fs (nested @ ms) more = Ok (msgs, rest)"
      using "2.prems" "2.hyps" by (auto simp: message_body.psimps Let_def and_then_eq_Ok)
    from "2.IH"(1) [OF refl 2 blk] have "length more < length ls" .
    moreover from "2.IH"(2) [OF refl 2 blk refl bdy] have "length rest < length more" .
    ultimately show ?thesis by simp
  qed (use 2 in \<open>auto simp: message_body.psimps Let_def intro: less_SucI split: if_splits\<close>)
qed (auto simp: message_body.psimps parse_message_block.psimps result_simps)

lemma message_body_all_dom: "All message_body_parse_message_block_dom"
  by (relation "measure (\<lambda>x. case x of Inl (_, _, _, _, ls) \<Rightarrow> 2 * length ls
        | Inr (_, ls, _) \<Rightarrow> 2 * length ls + 1)")
     (auto dest!: message_body_shorter(2))

termination message_body
  by (rule message_body_all_dom)

lemma parse_message_block_shorter:
  "parse_message_block header ls prefix = Ok (msgs, rest) \<Longrightarrow> length rest < length ls"
  using message_body_all_dom by (blast intro: message_body_shorter(2))

lemma enum_body_shorter: "enum_body name vs ls = Ok (e, rest) \<Longrightarrow> length rest < length ls"
  by (induction name vs ls rule: enum_body.induct) (auto simp: Let_def intro: less_SucI split: if_splits)

lemma parse_enum_block_shorter:
  "parse_enum_block header ls = Ok (e, rest) \<Longrightarrow> length rest < length ls"
  by (auto simp: parse_enum_block_def and_then_eq_Ok intro: enum_body_shorter)

lemma service_body_shorter: "service_body name ms p ls = Ok (s, rest) \<Longrightarrow> length rest < length ls"
  by (induction name ms p ls rule: service_body.induct)
     (auto simp: Let_def and_then_eq_Ok intro: less_SucI split: if_splits)

lemma parse_service_shorter:
  "parse_service header ls = Ok (s, rest) \<Longrightarrow> length rest < length ls"
  by (auto simp: parse_service_def and_then_eq_Ok intro: service_body_shorter)

declare message_body.simps [simp del] parse_message_block.simps [simp del]
  service_body.simps [simp del] enum_body.simps [simp del]

subsection \<open>The file\<close>

function parse_lines :: "ProtoFile \<Rightarrow> string list \<Rightarrow> (ProtoFile, string) result" where
  "parse_lines fl [] = Ok fl"
| "parse_lines fl (l # ls) =
     (let t = trim l
      in if t = [] \<or> is_comment t then parse_lines fl ls
         else if starts_with ''syntax'' t then
           and_then (parse_syntax t) (\<lambda>s. parse_lines (fl\<lparr>fl_syntax := s\<rparr>) ls)
         else if starts_with ''package'' t then
           and_then (parse_package t) (\<lambda>p. parse_lines (fl\<lparr>fl_package := p\<rparr>) ls)
         else if starts_with ''import'' t then
           and_then (parse_import t) (\<lambda>i. parse_lines (fl\<lparr>fl_imports := fl_imports fl @ [i]\<rparr>) ls)
         else if starts_with ''service'' t then
           and_then (parse_service l ls) (\<lambda>(svc, rest).
             parse_lines (fl\<lparr>fl_services := fl_services fl @ [svc]\<rparr>) rest)
         else if starts_with ''message'' t then
           and_then (parse_message_block l ls []) (\<lambda>(msg_list, rest).
             parse_lines (fl\<lparr>fl_messages := fl_messages fl @ msg_list\<rparr>) rest)
         else if starts_with ''enum'' t then
           and_then (parse_enum_block l ls) (\<lambda>(e, rest).
             parse_lines (fl\<lparr>fl_enums := fl_enums fl @ [e]\<rparr>) rest)
         else parse_lines fl ls)"
  by pat_completeness auto
termination
  by (relation "measure (\<lambda>(fl, ls). length ls)")
     (auto dest!: parse_service_shorter parse_message_block_shorter parse_enum_block_shorter)

definition empty_file :: ProtoFile where
  "empty_file =
     \<lparr>fl_syntax = [], fl_package = [], fl_imports = [], fl_services = [], fl_messages = [],
      fl_enums = []\<rparr>"

definition parse_proto :: "string \<Rightarrow> (ProtoFile, string) result" where
  "parse_proto source = parse_lines empty_file (str_lines source)"

declare parse_lines.simps [simp del]

subsection \<open>Imports\<close>

text \<open>
  \<open>read\<close> is \<^verbatim>\<open>std::fs::read_to_string\<close>. The set of the paths that
  were seen goes through the recursion. The recursion descends into files, so it takes a bound, and
  the outer option is \<open>None\<close> when the bound is too small.
\<close>

definition find_import :: "(string \<Rightarrow> string option) \<Rightarrow> string list \<Rightarrow> string \<Rightarrow> string option" where
  "find_import read include_dirs p =
     (case filter (\<lambda>c. c \<noteq> None) (map (\<lambda>dir. read (path_join dir p)) include_dirs) of
        [] \<Rightarrow> None | c # _ \<Rightarrow> c)"

type_synonym loaded = "(ProtoFile \<times> string list, string) result"

fun load_imports ::
  "(string \<Rightarrow> string list \<Rightarrow> loaded option) \<Rightarrow> (string \<Rightarrow> string option) \<Rightarrow>
     string list \<Rightarrow> ProtoFile \<Rightarrow> string list \<Rightarrow> loaded option" where
  "load_imports load open_import [] proto seen = Some (Ok (proto, seen))"
| "load_imports load open_import (p # ps) proto seen =
     (if starts_with ''google/protobuf/'' p \<or> p \<in> set seen
      then load_imports load open_import ps proto seen
      else let seen = p # seen in
        case open_import p of
          None \<Rightarrow> load_imports load open_import ps proto seen
        | Some content \<Rightarrow>
            (case load content seen of
               None \<Rightarrow> None
             | Some (Err e) \<Rightarrow> Some (Err e)
             | Some Panic \<Rightarrow> Some Panic
             | Some (Ok (imported, seen)) \<Rightarrow>
                 load_imports load open_import ps
                   (proto\<lparr>fl_messages := fl_messages proto @ fl_messages imported,
                          fl_enums := fl_enums proto @ fl_enums imported\<rparr>) seen))"

fun parse_proto_recursive ::
  "(string \<Rightarrow> string option) \<Rightarrow> string list \<Rightarrow> nat \<Rightarrow> string \<Rightarrow> string list \<Rightarrow> loaded option" where
  "parse_proto_recursive read include_dirs 0 source seen = None"
| "parse_proto_recursive read include_dirs (Suc n) source seen =
     (case parse_proto source of
        Ok proto \<Rightarrow>
          load_imports (parse_proto_recursive read include_dirs n) (find_import read include_dirs)
            (fl_imports proto) proto seen
      | Err e \<Rightarrow> Some (Err e)
      | Panic \<Rightarrow> Some Panic)"

definition parse_proto_with_imports ::
  "(string \<Rightarrow> string option) \<Rightarrow> string list \<Rightarrow> nat \<Rightarrow> string \<Rightarrow> (ProtoFile, string) result option" where
  "parse_proto_with_imports read include_dirs n source =
     map_option (result_map fst) (parse_proto_recursive read include_dirs n source [])"

subsection \<open>Loading imports ends\<close>

definition imports_of :: "string \<Rightarrow> string list" where
  "imports_of source = (case parse_proto source of Ok fl \<Rightarrow> fl_imports fl | _ \<Rightarrow> [])"

text \<open>A set of paths that is closed under the imports of the files it names.\<close>

definition import_closed :: "(string \<Rightarrow> string option) \<Rightarrow> string set \<Rightarrow> bool" where
  "import_closed open_import S \<longleftrightarrow>
     finite S \<and> (\<forall>p \<in> S. \<forall>c. open_import p = Some c \<longrightarrow> set (imports_of c) \<subseteq> S)"

definition loads :: "string list \<Rightarrow> loaded option \<Rightarrow> bool" where
  "loads seen r \<longleftrightarrow>
     (case r of None \<Rightarrow> False | Some (Ok (fl, seen')) \<Rightarrow> set seen \<subseteq> set seen' | Some _ \<Rightarrow> True)"

lemma load_imports_loads:
  assumes "\<And>p c seen. p \<in> S \<Longrightarrow> open_import p = Some c \<Longrightarrow> card (S - set seen) < n \<Longrightarrow> loads seen (load c seen)"
    and "finite S"
  shows "set ps \<subseteq> S \<Longrightarrow> card (S - set seen) \<le> n \<Longrightarrow> loads seen (load_imports load open_import ps proto seen)"
proof (induction ps arbitrary: proto seen)
  case (Cons p ps)
  show ?case
  proof (cases "starts_with ''google/protobuf/'' p \<or> p \<in> set seen")
    case True
    with Cons show ?thesis by simp
  next
    case False
    have less: "card (S - set (p # seen)) < card (S - set seen)"
      using Cons.prems(1) False assms(2) by (intro psubset_card_mono) auto
    have go: "loads seen (load_imports load open_import ps proto' seen')" if "set (p # seen) \<subseteq> set seen'" for proto' seen'
    proof -
      have "S - set seen' \<subseteq> S - set (p # seen)" using that by auto
      with less have "card (S - set seen') \<le> card (S - set seen)"
        using assms(2) by (meson card_mono finite_Diff le_trans less_imp_le)
      with Cons have "loads seen' (load_imports load open_import ps proto' seen')" by simp
      with that show ?thesis by (auto simp: loads_def split: option.splits result.splits)
    qed
    show ?thesis
    proof (cases "open_import p")
      case None
      with False go [of "p # seen"] show ?thesis by (simp add: Let_def)
    next
      case (Some c)
      have "loads (p # seen) (load c (p # seen))"
        using assms(1) [of p c "p # seen"] Some Cons.prems less by simp
      then consider fl' seen' where "load c (p # seen) = Some (Ok (fl', seen'))" "set (p # seen) \<subseteq> set seen'"
        | e where "load c (p # seen) = Some (Err e)" | "load c (p # seen) = Some Panic"
        by (auto simp: loads_def split: option.splits result.splits)
      then show ?thesis
        using False Some go by cases (simp_all add: Let_def loads_def)
    qed
  qed
qed (simp add: loads_def)

lemma parse_recursive_loads:
  assumes "import_closed (find_import read dirs) S"
  shows "set (imports_of source) \<subseteq> S \<Longrightarrow> card (S - set seen) < n \<Longrightarrow>
    loads seen (parse_proto_recursive read dirs n source seen)"
proof (induction n arbitrary: source seen)
  case (Suc n)
  have step: "loads sn (parse_proto_recursive read dirs n c sn)"
    if "p \<in> S" "find_import read dirs p = Some c" "card (S - set sn) < n" for p c sn
    using that assms Suc.IH by (auto simp: import_closed_def)
  show ?case
  proof (cases "parse_proto source")
    case (Ok fl)
    have "loads seen (load_imports (parse_proto_recursive read dirs n) (find_import read dirs) (fl_imports fl) fl seen)"
    proof (rule load_imports_loads)
      show "finite S" using assms by (simp add: import_closed_def)
      show "set (fl_imports fl) \<subseteq> S" using Suc.prems(1) Ok by (simp add: imports_of_def)
      show "card (S - set seen) \<le> n" using Suc.prems(2) by simp
    qed (rule step)
    with Ok show ?thesis by simp
  qed (simp_all add: loads_def)
qed simp

text \<open>Loading a file with its imports ends, circular imports included: with \<open>S\<close> the finite set
  of the paths that the file and its imports name, a bound above the size of \<open>S\<close> on the depth of
  the recursion is never reached.\<close>

theorem imports_end:
  assumes "import_closed (find_import read include_dirs) S" "set (imports_of source) \<subseteq> S" "card S < n"
  shows "parse_proto_with_imports read include_dirs n source \<noteq> None"
  using parse_recursive_loads [OF assms(1,2), of "[]" n] assms(3)
  by (auto simp: parse_proto_with_imports_def loads_def split: option.splits)

lemma trim_ends: "s \<noteq> [] \<Longrightarrow> graphic (hd s) \<Longrightarrow> graphic (last s) \<Longrightarrow> trim s = s"
  by (rule trim_graphic) simp

text \<open>A file that imports itself.\<close>

definition self_import :: string where
  "self_import = ''import '' @ [CHR 0x22] @ ''a'' @ [CHR 0x22] @ '';''"

lemma self_import_imports: "imports_of self_import = [''a'']"
proof -
  let ?q = "[CHR 0x22] @ ''a'' @ [CHR 0x22]"
  have t: "trim self_import = self_import" "trim (?q @ '';'') = ?q @ '';''" "trim ?q = ?q"
    unfolding self_import_def by (rule trim_ends, simp_all add: graphic_def)+
  have "trim_start_str ''import'' self_import = '' '' @ ?q @ '';''"
    by (simp add: self_import_def trim_start_str.simps starts_with_def)
  then have r: "trim (trim_start_str ''import'' self_import) = ?q @ '';''"
    using t(2) by (simp add: trim_spaces)
  have "trim_start_str ''weak'' (trim_start_str ''public'' (?q @ '';'')) = ?q @ '';''"
    by (simp add: trim_start_str_no starts_with_def)
  then have "parse_import self_import = Ok ''a''"
    unfolding parse_import_def r Let_def
    using t(2,3) by (simp add: trim_end_char_def trim_char_def trim_start_char_def)
  moreover have "str_lines self_import = [self_import]"
    by (simp add: str_lines_def self_import_def newline_def)
  moreover have "\<not> is_comment self_import" "\<not> starts_with ''syntax'' self_import"
    "\<not> starts_with ''package'' self_import" "starts_with ''import'' self_import" "self_import \<noteq> []"
    by (simp_all add: self_import_def is_comment_def starts_with_def)
  ultimately show ?thesis
    using t(1) by (simp add: imports_of_def parse_proto_def parse_lines.simps empty_file_def)
qed

theorem imports_end_witness:
  "parse_proto_with_imports (\<lambda>p. if p = ''a'' then Some self_import else None) [[]] 2 self_import \<noteq> None"
proof (rule imports_end [where S = "{''a''}"])
  show "import_closed (find_import (\<lambda>p. if p = ''a'' then Some self_import else None) [[]]) {''a''}"
    by (simp add: import_closed_def find_import_def path_join_def self_import_imports)
qed (simp_all add: self_import_imports)

subsection \<open>What the parser takes for something else\<close>

text \<open>The closing brace of an enum inside a message closes the message.\<close>

lemma nested_enum_closes_message:
  "message_body raw full fs nested (''enum K {'' # ''A = 0;'' # ''}'' # rest) =
     Ok (\<lparr>pm_name = full, pm_fields = fs\<rparr> # nested, rest)"
proof -
  have t: "trim ''enum K {'' = ''enum K {''" "trim ''A = 0;'' = ''A = 0;''" "trim ''}'' = ''}''" "trim ''A = 0'' = ''A = 0''"
    by (rule trim_ends, simp_all add: graphic_def)+
  have "split_ws ''enum K {'' = [''enum'', ''K'', ''{'']" "split_ws ''A = 0'' = [''A'', ''='', ''0'']"
    using split_ws_word [of "''enum''" "''K {''"] split_ws_word [of "''K''" "''{''"] split_ws_end [of "''{''"]
      split_ws_word [of "''A''" "''= 0''"] split_ws_word [of "''=''" "''0''"] split_ws_end [of "''0''"]
    by (simp_all add: word_text_def graphic_def)
  then have "parse_field ''enum K {'' = None" "parse_field ''A = 0;'' = None"
    using t by (simp_all add: parse_field_def split_first_str_def starts_with_def trim_end_char_def)
  with t show ?thesis by (simp add: message_body.simps is_comment_def starts_with_def)
qed

text \<open>A message that is opened and closed on one line is never closed.\<close>

lemma one_line_message_unclosed:
  "parse_message_block ''message A {}'' [] prefix = Err (unclosed ''message'' ''A {}'')"
proof -
  have t: "trim ''message A {}'' = ''message A {}''" "trim ''A {}'' = ''A {}''"
    by (rule trim_ends, simp_all add: graphic_def)+
  have "trim_start_str ''message'' ''message A {}'' = '' A {}''"
    by (simp add: trim_start_str.simps starts_with_def)
  with t have "extract_block_name ''message A {}'' ''message'' = Ok ''A {}''"
    by (simp add: extract_block_name_def trim_spaces trim_end_char_def)
  with t show ?thesis by (simp add: parse_message_block.simps message_body.simps)
qed

end
