(* ===== verification/Proto_Check.thy ===== *)
theory Proto_Check
  imports Proto_Parse
begin

text \<open>
  What is checked of a parsed file: \<^verbatim>\<open>typeway-grpc/src/validate.rs\<close> and the
  comparison of two versions, \<^verbatim>\<open>diff.rs\<close>. The maps of the code that are keyed by
  a tag or a name are maps; the lists of errors and changes are in the order of the code.
  \<open>upper\<close> tells of a string that begins with a character that is not ASCII whether that
  character is upper case.
\<close>

subsection \<open>Validation\<close>

record ProtoValidationError =
  ve_message_name :: "string option"
  ve_field_name :: "string option"
  ve_error :: string

definition quoted :: "string \<Rightarrow> string" where
  "quoted s = [CHR 0x27] @ s @ [CHR 0x27]"

definition display_error :: "ProtoValidationError \<Rightarrow> string" where
  "display_error e =
     (case (ve_message_name e, ve_field_name e) of
        (Some m, Some f) \<Rightarrow> m @ ''.'' @ f @ '': '' @ ve_error e
      | (Some m, None) \<Rightarrow> m @ '': '' @ ve_error e
      | _ \<Rightarrow> ve_error e)"

definition reserved_words :: "string list" where
  "reserved_words =
     [''syntax'', ''import'', ''package'', ''option'', ''message'', ''enum'', ''service'', ''rpc'',
      ''returns'', ''stream'', ''repeated'', ''optional'', ''map'', ''oneof'', ''reserved'',
      ''extensions'', ''extend'']"

definition valid_scalars :: "string list" where
  "valid_scalars =
     [''double'', ''float'', ''int32'', ''int64'', ''uint32'', ''uint64'', ''sint32'', ''sint64'',
      ''fixed32'', ''fixed64'', ''sfixed32'', ''sfixed64'', ''bool'', ''string'', ''bytes'']"

definition starts_upper :: "(string \<Rightarrow> bool) \<Rightarrow> string \<Rightarrow> bool" where
  "starts_upper upper s =
     (case s of [] \<Rightarrow> False
      | c # _ \<Rightarrow> (let n = of_char c :: nat in if n < 0x80 then 65 \<le> n \<and> n \<le> 90 else upper s))"

definition field_error :: "ParsedMessage \<Rightarrow> ParsedField \<Rightarrow> string \<Rightarrow> ProtoValidationError" where
  "field_error msg f e =
     \<lparr>ve_message_name = Some (pm_name msg), ve_field_name = Some (pa_name f), ve_error = e\<rparr>"

definition tag_str :: "u32 \<Rightarrow> string" where
  "tag_str t = dec (unat t)"

text \<open>The checks of one field that do not look at the other fields.\<close>

definition field_checks :: "(string \<Rightarrow> bool) \<Rightarrow> ParsedMessage \<Rightarrow> ParsedField \<Rightarrow> ProtoValidationError list" where
  "field_checks upper msg f =
     (if pa_tag f = 0 then [field_error msg f ''tag must be >= 1''] else []) @
     (if 536870911 < pa_tag f
      then [field_error msg f (''tag '' @ tag_str (pa_tag f) @ '' exceeds maximum (536870911)'')] else []) @
     (if 19000 \<le> pa_tag f \<and> pa_tag f \<le> 19999
      then [field_error msg f (''tag '' @ tag_str (pa_tag f) @ '' is in the reserved range 19000-19999'')]
      else []) @
     (if pa_name f \<in> set reserved_words
      then [field_error msg f (quoted (pa_name f) @ '' is a proto reserved word'')] else []) @
     (if \<not> pa_is_map f \<and> pa_proto_type f \<notin> set valid_scalars \<and>
         \<not> starts_upper upper (pa_proto_type f) \<and> pa_proto_type f \<noteq> ''google.protobuf.Empty''
      then [field_error msg f (quoted (pa_proto_type f) @ '' is not a valid proto type'')] else [])"

fun validate_fields ::
  "(string \<Rightarrow> bool) \<Rightarrow> ParsedMessage \<Rightarrow> (u32 \<Rightarrow> string option) \<Rightarrow> ParsedField list \<Rightarrow>
     ProtoValidationError list" where
  "validate_fields upper msg seen_tags [] = []"
| "validate_fields upper msg seen_tags (f # fs) =
     (case seen_tags (pa_tag f) of
        Some existing \<Rightarrow>
          field_error msg f (''duplicate tag '' @ tag_str (pa_tag f) @ '': already used by field '' @ quoted existing)
            # field_checks upper msg f @ validate_fields upper msg seen_tags fs
      | None \<Rightarrow>
          field_checks upper msg f @ validate_fields upper msg (seen_tags(pa_tag f \<mapsto> pa_name f)) fs)"

definition validate_message :: "(string \<Rightarrow> bool) \<Rightarrow> ParsedMessage \<Rightarrow> ProtoValidationError list" where
  "validate_message upper msg = validate_fields upper msg (\<lambda>_. None) (pm_fields msg)"

definition strip_stream :: "string \<Rightarrow> string" where
  "strip_stream t = (case strip_prefix ''stream '' t of Some u \<Rightarrow> u | None \<Rightarrow> t)"

definition undefined_type :: "string list \<Rightarrow> ProtoService \<Rightarrow> ProtoRpcMethod \<Rightarrow> string \<Rightarrow> string \<Rightarrow> ProtoValidationError list" where
  "undefined_type message_names service m kind t =
     (if t \<noteq> ''google.protobuf.Empty'' \<and> t \<notin> set message_names
      then [\<lparr>ve_message_name = Some (ps_name service), ve_field_name = Some (pr_name m),
             ve_error = ''RPC '' @ kind @ '' type '' @ quoted t @ '' not defined''\<rparr>]
      else [])"

definition validate_proto_file :: "(string \<Rightarrow> bool) \<Rightarrow> ProtoFile \<Rightarrow> ProtoValidationError list" where
  "validate_proto_file upper fl =
     (if fl_syntax fl \<noteq> ''proto3''
      then [\<lparr>ve_message_name = None, ve_field_name = None,
             ve_error = ''expected syntax '' @ [CHR 0x22] @ ''proto3'' @ [CHR 0x22] @ '', got '' @
               [CHR 0x22] @ fl_syntax fl @ [CHR 0x22]\<rparr>]
      else []) @
     concat (map (validate_message upper) (fl_messages fl)) @
     (let message_names = map pm_name (fl_messages fl)
      in concat (map (\<lambda>service. concat (map (\<lambda>m.
            undefined_type message_names service m ''input'' (strip_stream (pr_input_type m)) @
            undefined_type message_names service m ''output'' (strip_stream (pr_output_type m)))
          (ps_methods service))) (fl_services fl)))"

definition validate_proto :: "(string \<Rightarrow> bool) \<Rightarrow> string \<Rightarrow> ProtoValidationError list" where
  "validate_proto upper proto =
     (case parse_proto proto of
        Ok fl \<Rightarrow> validate_proto_file upper fl
      | Err e \<Rightarrow> [\<lparr>ve_message_name = None, ve_field_name = None, ve_error = ''parse error: '' @ e\<rparr>]
      | Panic \<Rightarrow> [])"

subsection \<open>Comparison\<close>

datatype ChangeKind = Compatible | Breaking

record ProtoChange =
  ch_kind :: ChangeKind
  ch_location :: string
  ch_description :: string

definition change :: "ChangeKind \<Rightarrow> string \<Rightarrow> string \<Rightarrow> ProtoChange" where
  "change kind location description =
     \<lparr>ch_kind = kind, ch_location = location, ch_description = description\<rparr>"

definition diff_method :: "ProtoService \<Rightarrow> ProtoService \<Rightarrow> ProtoRpcMethod \<Rightarrow> ProtoChange list" where
  "diff_method old_svc new_svc old_method =
     (let loc = ps_name old_svc @ ''.'' @ pr_name old_method
      in case find (\<lambda>m. pr_name m = pr_name old_method) (ps_methods new_svc) of
           None \<Rightarrow> [change Breaking loc ''RPC method removed'']
         | Some nm \<Rightarrow>
             (if pr_input_type nm \<noteq> pr_input_type old_method
              then [change Breaking loc (''input type changed: '' @ pr_input_type old_method @ '' -> '' @
                      pr_input_type nm)] else []) @
             (if pr_output_type nm \<noteq> pr_output_type old_method
              then [change Breaking loc (''output type changed: '' @ pr_output_type old_method @ '' -> '' @
                      pr_output_type nm)] else []))"

definition diff_service :: "ProtoFile \<Rightarrow> ProtoService \<Rightarrow> ProtoChange list" where
  "diff_service new old_svc =
     (case find (\<lambda>s. ps_name s = ps_name old_svc) (fl_services new) of
        None \<Rightarrow> [change Breaking (ps_name old_svc) ''service removed'']
      | Some new_svc \<Rightarrow>
          concat (map (diff_method old_svc new_svc) (ps_methods old_svc)) @
          map (\<lambda>m. change Compatible (ps_name new_svc @ ''.'' @ pr_name m) ''RPC method added'')
            (filter (\<lambda>m. \<not> list_ex (\<lambda>o'. pr_name o' = pr_name m) (ps_methods old_svc)) (ps_methods new_svc)))"

definition diff_services :: "ProtoFile \<Rightarrow> ProtoFile \<Rightarrow> ProtoChange list" where
  "diff_services old new =
     concat (map (diff_service new) (fl_services old)) @
     map (\<lambda>s. change Compatible (ps_name s) ''service added'')
       (filter (\<lambda>s. \<not> list_ex (\<lambda>o'. ps_name o' = ps_name s) (fl_services old)) (fl_services new))"

definition diff_field :: "ParsedMessage \<Rightarrow> ParsedMessage \<Rightarrow> ParsedField \<Rightarrow> ProtoChange list" where
  "diff_field old_msg new_msg old_field =
     (let loc = pm_name old_msg @ ''.'' @ pa_name old_field
      in case find (\<lambda>f. pa_tag f = pa_tag old_field) (pm_fields new_msg) of
           None \<Rightarrow> [change Breaking loc (''field removed (tag '' @ tag_str (pa_tag old_field) @ '')'')]
         | Some nf \<Rightarrow>
             (if pa_proto_type nf \<noteq> pa_proto_type old_field
              then [change Breaking loc (''type changed: '' @ pa_proto_type old_field @ '' -> '' @
                      pa_proto_type nf)] else []) @
             (if pa_name nf \<noteq> pa_name old_field
              then [change Compatible (pm_name old_msg @ '' (tag '' @ tag_str (pa_tag old_field) @ '')'')
                      (''field renamed: '' @ pa_name old_field @ '' -> '' @ pa_name nf)] else []))"

definition diff_message :: "ProtoFile \<Rightarrow> ParsedMessage \<Rightarrow> ProtoChange list" where
  "diff_message new old_msg =
     (case find (\<lambda>m. pm_name m = pm_name old_msg) (fl_messages new) of
        None \<Rightarrow> [change Breaking (pm_name old_msg) ''message removed'']
      | Some new_msg \<Rightarrow>
          concat (map (diff_field old_msg new_msg) (pm_fields old_msg)) @
          map (\<lambda>f. change Compatible (pm_name new_msg @ ''.'' @ pa_name f)
                (''field added (tag '' @ tag_str (pa_tag f) @ '')''))
            (filter (\<lambda>f. \<not> list_ex (\<lambda>o'. pa_tag o' = pa_tag f) (pm_fields old_msg)) (pm_fields new_msg)))"

definition diff_messages :: "ProtoFile \<Rightarrow> ProtoFile \<Rightarrow> ProtoChange list" where
  "diff_messages old new =
     concat (map (diff_message new) (fl_messages old)) @
     map (\<lambda>m. change Compatible (pm_name m) ''message added'')
       (filter (\<lambda>m. \<not> list_ex (\<lambda>o'. pm_name o' = pm_name m) (fl_messages old)) (fl_messages new))"

definition diff_files :: "ProtoFile \<Rightarrow> ProtoFile \<Rightarrow> ProtoChange list" where
  "diff_files old new = diff_services old new @ diff_messages old new"

definition diff_protos :: "string \<Rightarrow> string \<Rightarrow> (ProtoChange list, string) result" where
  "diff_protos old new =
     and_then (parse_proto old) (\<lambda>old_file.
     and_then (parse_proto new) (\<lambda>new_file.
       Ok (diff_files old_file new_file)))"

subsection \<open>What a validated file is\<close>

definition tag_ok :: "u32 \<Rightarrow> bool" where
  "tag_ok t \<longleftrightarrow> 1 \<le> unat t \<and> unat t \<le> 2 ^ 29 - 1 \<and> \<not> (19000 \<le> unat t \<and> unat t \<le> 19999)"

definition type_ok :: "(string \<Rightarrow> bool) \<Rightarrow> ParsedField \<Rightarrow> bool" where
  "type_ok upper f \<longleftrightarrow>
     pa_is_map f \<or> pa_proto_type f \<in> set valid_scalars \<or> starts_upper upper (pa_proto_type f) \<or>
     pa_proto_type f = ''google.protobuf.Empty''"

definition message_ok :: "(string \<Rightarrow> bool) \<Rightarrow> ParsedMessage \<Rightarrow> bool" where
  "message_ok upper msg \<longleftrightarrow>
     distinct (map pa_tag (pm_fields msg)) \<and>
     list_all (\<lambda>f. tag_ok (pa_tag f) \<and> pa_name f \<notin> set reserved_words \<and> type_ok upper f) (pm_fields msg)"

definition rpc_type_ok :: "ProtoFile \<Rightarrow> string \<Rightarrow> bool" where
  "rpc_type_ok fl t \<longleftrightarrow>
     strip_stream t = ''google.protobuf.Empty'' \<or> strip_stream t \<in> pm_name ` set (fl_messages fl)"

definition file_ok :: "(string \<Rightarrow> bool) \<Rightarrow> ProtoFile \<Rightarrow> bool" where
  "file_ok upper fl \<longleftrightarrow>
     fl_syntax fl = ''proto3'' \<and> list_all (message_ok upper) (fl_messages fl) \<and>
     list_all (\<lambda>s. list_all (\<lambda>m. rpc_type_ok fl (pr_input_type m) \<and> rpc_type_ok fl (pr_output_type m))
       (ps_methods s)) (fl_services fl)"

lemma tag_ok_word:
  "tag_ok t \<longleftrightarrow> t \<noteq> 0 \<and> \<not> 536870911 < t \<and> \<not> (19000 \<le> t \<and> t \<le> 19999)"
proof -
  have "t \<noteq> 0 \<longleftrightarrow> 1 \<le> unat t" by (simp add: Suc_le_eq unat_gt_0)
  moreover have "\<not> 536870911 < t \<longleftrightarrow> unat t \<le> 536870911" by (simp add: word_less_nat_alt not_less)
  moreover have "19000 \<le> t \<longleftrightarrow> 19000 \<le> unat t" by (simp add: word_le_nat_alt)
  moreover have "t \<le> 19999 \<longleftrightarrow> unat t \<le> 19999" by (simp add: word_le_nat_alt)
  ultimately show ?thesis by (simp add: tag_ok_def)
qed

lemma field_checks_Nil:
  "field_checks upper msg f = [] \<longleftrightarrow>
     tag_ok (pa_tag f) \<and> pa_name f \<notin> set reserved_words \<and> type_ok upper f"
  by (simp add: field_checks_def tag_ok_word type_ok_def)

lemma validate_fields_Nil:
  "validate_fields upper msg seen fs = [] \<longleftrightarrow>
     distinct (map pa_tag fs) \<and> pa_tag ` set fs \<inter> dom seen = {} \<and>
     list_all (\<lambda>f. field_checks upper msg f = []) fs"
proof (induction fs arbitrary: seen)
  case (Cons f fs)
  show ?case by (cases "seen (pa_tag f)") (auto simp: Cons.IH dom_def, metis image_eqI)
qed simp

lemma validate_message_Nil: "validate_message upper msg = [] \<longleftrightarrow> message_ok upper msg"
  by (simp add: validate_message_def validate_fields_Nil field_checks_Nil message_ok_def)


subsection \<open>What a compatible change is\<close>

definition breaking :: "ProtoChange list \<Rightarrow> bool" where
  "breaking cs \<longleftrightarrow> list_ex (\<lambda>c. ch_kind c = Breaking) cs"

definition keeps_method :: "ProtoService \<Rightarrow> ProtoRpcMethod \<Rightarrow> bool" where
  "keeps_method new_svc m \<longleftrightarrow>
     (\<exists>m'. find (\<lambda>x. pr_name x = pr_name m) (ps_methods new_svc) = Some m' \<and>
        pr_input_type m' = pr_input_type m \<and> pr_output_type m' = pr_output_type m)"

definition keeps_service :: "ProtoFile \<Rightarrow> ProtoService \<Rightarrow> bool" where
  "keeps_service new s \<longleftrightarrow>
     (\<exists>s'. find (\<lambda>x. ps_name x = ps_name s) (fl_services new) = Some s' \<and>
        list_all (keeps_method s') (ps_methods s))"

definition keeps_field :: "ParsedMessage \<Rightarrow> ParsedField \<Rightarrow> bool" where
  "keeps_field new_msg f \<longleftrightarrow>
     (\<exists>f'. find (\<lambda>x. pa_tag x = pa_tag f) (pm_fields new_msg) = Some f' \<and>
        pa_proto_type f' = pa_proto_type f)"

definition keeps_message :: "ProtoFile \<Rightarrow> ParsedMessage \<Rightarrow> bool" where
  "keeps_message new m \<longleftrightarrow>
     (\<exists>m'. find (\<lambda>x. pm_name x = pm_name m) (fl_messages new) = Some m' \<and>
        list_all (keeps_field m') (pm_fields m))"

definition wire_compatible :: "ProtoFile \<Rightarrow> ProtoFile \<Rightarrow> bool" where
  "wire_compatible old new \<longleftrightarrow>
     list_all (keeps_service new) (fl_services old) \<and> list_all (keeps_message new) (fl_messages old)"

lemma breaking_simps [simp]:
  "breaking [] \<longleftrightarrow> False" "breaking (c # cs) \<longleftrightarrow> ch_kind c = Breaking \<or> breaking cs"
  "breaking (cs @ ds) \<longleftrightarrow> breaking cs \<or> breaking ds"
  "breaking (concat css) \<longleftrightarrow> list_ex breaking css"
  "breaking (map (\<lambda>x. change Compatible (l x) (d x)) xs) \<longleftrightarrow> False"
  "breaking (if b then cs else []) \<longleftrightarrow> b \<and> breaking cs"
  "ch_kind (change k loc e) = k"
  by (auto simp: breaking_def change_def list_ex_iff)

lemma diff_method_breaking: "breaking (diff_method o' n m) \<longleftrightarrow> \<not> keeps_method n m"
  by (auto simp: diff_method_def keeps_method_def Let_def split: option.splits)

lemma diff_service_breaking: "breaking (diff_service new s) \<longleftrightarrow> \<not> keeps_service new s"
  by (auto simp: diff_service_def keeps_service_def list_ex_iff list_all_iff
      diff_method_breaking split: option.splits)

lemma diff_field_breaking: "breaking (diff_field o' n f) \<longleftrightarrow> \<not> keeps_field n f"
  by (auto simp: diff_field_def keeps_field_def Let_def split: option.splits)

lemma diff_message_breaking: "breaking (diff_message new m) \<longleftrightarrow> \<not> keeps_message new m"
  by (auto simp: diff_message_def keeps_message_def list_ex_iff list_all_iff
      diff_field_breaking split: option.splits)

lemma keeps_method_trans:
  assumes "find (\<lambda>x. pr_name x = pr_name m) (ps_methods s) = Some m'"
    "pr_input_type m' = pr_input_type m" "pr_output_type m' = pr_output_type m"
    "list_all (keeps_method s') (ps_methods s)"
  shows "keeps_method s' m"
proof -
  have "m' \<in> set (ps_methods s)" "pr_name m' = pr_name m"
    using assms(1) by (auto simp: find_Some_iff)
  with assms show ?thesis by (auto simp: keeps_method_def list_all_iff)
qed

lemma keeps_field_trans:
  assumes "find (\<lambda>x. pa_tag x = pa_tag f) (pm_fields m) = Some f'"
    "pa_proto_type f' = pa_proto_type f" "list_all (keeps_field m') (pm_fields m)"
  shows "keeps_field m' f"
proof -
  have "f' \<in> set (pm_fields m)" "pa_tag f' = pa_tag f"
    using assms(1) by (auto simp: find_Some_iff)
  with assms show ?thesis by (auto simp: keeps_field_def list_all_iff)
qed

lemma keeps_service_trans:
  assumes "keeps_service mid s" "list_all (keeps_service new) (fl_services mid)"
  shows "keeps_service new s"
proof -
  obtain s' where s': "find (\<lambda>x. ps_name x = ps_name s) (fl_services mid) = Some s'"
    "list_all (keeps_method s') (ps_methods s)"
    using assms(1) by (auto simp: keeps_service_def)
  then have "s' \<in> set (fl_services mid)" "ps_name s' = ps_name s" by (auto simp: find_Some_iff)
  with assms(2) obtain s'' where "find (\<lambda>x. ps_name x = ps_name s) (fl_services new) = Some s''"
    "list_all (keeps_method s'') (ps_methods s')"
    by (auto simp: keeps_service_def list_all_iff)
  with s'(2) show ?thesis
    unfolding keeps_service_def list_all_iff
    by (metis keeps_method_def keeps_method_trans list_all_iff)
qed

lemma keeps_message_trans:
  assumes "keeps_message mid m" "list_all (keeps_message new) (fl_messages mid)"
  shows "keeps_message new m"
proof -
  obtain m' where m': "find (\<lambda>x. pm_name x = pm_name m) (fl_messages mid) = Some m'"
    "list_all (keeps_field m') (pm_fields m)"
    using assms(1) by (auto simp: keeps_message_def)
  then have "m' \<in> set (fl_messages mid)" "pm_name m' = pm_name m" by (auto simp: find_Some_iff)
  with assms(2) obtain m'' where "find (\<lambda>x. pm_name x = pm_name m) (fl_messages new) = Some m''"
    "list_all (keeps_field m'') (pm_fields m')"
    by (auto simp: keeps_message_def list_all_iff)
  with m'(2) show ?thesis
    unfolding keeps_message_def list_all_iff
    by (metis keeps_field_def keeps_field_trans list_all_iff)
qed

lemma diff_files_breaking: "breaking (diff_files old new) \<longleftrightarrow> \<not> wire_compatible old new"
  by (auto simp: diff_files_def diff_services_def diff_messages_def wire_compatible_def list_ex_iff
      list_all_iff diff_service_breaking diff_message_breaking)

text \<open>C25. The comparison of two files reports a breaking change exactly when some service, method,
  message or field tag of the old file is gone or has another type in the new one; and a chain of
  versions of which no step breaks does not break from its first to its last version.\<close>

theorem diff_exact:
  "(breaking (diff_files old new) \<longleftrightarrow> \<not> wire_compatible old new) \<and>
   (breaking (diff_files old new) \<longrightarrow> breaking (diff_files old mid) \<or> breaking (diff_files mid new))"
  by (auto simp: diff_files_breaking wire_compatible_def list_all_iff
      intro: keeps_service_trans keeps_message_trans)

theorem diff_exact_witness:
  "breaking (diff_files (empty_file\<lparr>fl_services := [\<lparr>ps_name = ''A'', ps_methods = []\<rparr>]\<rparr>) empty_file)"
  using diff_exact [of "empty_file\<lparr>fl_services := [\<lparr>ps_name = ''A'', ps_methods = []\<rparr>]\<rparr>" empty_file
      empty_file]
  by (simp add: wire_compatible_def keeps_service_def empty_file_def)

text \<open>Whether a field is repeated is not compared.\<close>

definition relabel :: "bool \<Rightarrow> ParsedMessage \<Rightarrow> ParsedMessage" where
  "relabel r m = m\<lparr>pm_fields := map (pa_repeated_update (\<lambda>_. r)) (pm_fields m)\<rparr>"

lemma find_map_same: "(\<And>x. P (f x) = P x) \<Longrightarrow> find P (map f xs) = map_option f (find P xs)"
  by (induction xs) auto

lemma repeated_change_not_breaking:
  "breaking (diff_files old (new\<lparr>fl_messages := map (relabel r) (fl_messages new)\<rparr>)) \<longleftrightarrow>
   breaking (diff_files old new)"
proof -
  have f: "keeps_field (relabel r m) f = keeps_field m f" for m f
    by (auto simp: keeps_field_def relabel_def find_map_same)
  have n: "pm_name (relabel r m) = pm_name m" for m by (simp add: relabel_def)
  have "keeps_message (new\<lparr>fl_messages := map (relabel r) (fl_messages new)\<rparr>) m = keeps_message new m" for m
    by (auto simp: keeps_message_def find_map_same n f list_all_iff)
  moreover have "keeps_service (new\<lparr>fl_messages := ms\<rparr>) s = keeps_service new s" for ms s
    by (simp add: keeps_service_def)
  ultimately show ?thesis by (simp add: diff_files_breaking wire_compatible_def list_all_iff)
qed

end
