(* ===== verification/Proto_Roundtrip.thy ===== *)
theory Proto_Roundtrip
  imports Proto_Gen Proto_Check
begin

text \<open>
  What the generator of \<^verbatim>\<open>.proto\<close> files (\<open>Proto_Gen\<close>) writes is read
  back by the parser (\<open>Proto_Parse\<close>): field by field, message by message, and as a whole
  file, for names that are protobuf identifiers.
\<close>

subsection \<open>Identifiers\<close>

definition ident_char :: "char \<Rightarrow> bool" where
  "ident_char c \<longleftrightarrow>
     (let n = of_char c :: nat
      in 48 \<le> n \<and> n \<le> 57 \<or> 65 \<le> n \<and> n \<le> 90 \<or> 97 \<le> n \<and> n \<le> 122 \<or> n = 95 \<or> n = 46)"

definition ident :: "string \<Rightarrow> bool" where
  "ident s \<longleftrightarrow> s \<noteq> [] \<and> list_all ident_char s"

lemma ident_char_graphic: "ident_char c \<Longrightarrow> graphic c"
  by (auto simp: ident_char_def graphic_def Let_def)

lemma ident_char_digit: "d < 10 \<Longrightarrow> ident_char (digit_char d)"
  by (simp add: ident_char_def digit_char_def Let_def)

lemma ident_dec: "ident (dec n)"
proof -
  have "list_all ident_char (dec n)"
  proof (induction n rule: dec.induct)
    case (1 n)
    then show ?case by (cases "n < 10") (auto simp: dec.simps [of n] ident_char_digit)
  qed
  then show ?thesis by (simp add: ident_def)
qed

lemma ident_word: "ident s \<Longrightarrow> word_text s"
  by (auto simp: ident_def word_text_def list_all_iff ident_char_graphic)

definition punct :: "char set" where
  "punct = {CHR ''/'', CHR '';'', CHR ''<'', CHR ''>'', CHR '','', CHR ''{'', CHR ''}'', CHR ''('',
     CHR '')'', CHR ''='', CHR 0x22, CHR 0x20, newline, CHR 0x0D}"

lemma ident_no_punct: "ident s \<Longrightarrow> c \<in> punct \<Longrightarrow> c \<notin> set s"
  by (auto simp: ident_def punct_def newline_def list_all_iff ident_char_def Let_def)

lemma ident_hd: "ident s \<Longrightarrow> graphic (hd s)" "ident s \<Longrightarrow> hd s \<in> set s"
  and ident_last: "ident s \<Longrightarrow> graphic (last s)" "ident s \<Longrightarrow> last s \<in> set s"
  and ident_nonempty: "ident s \<Longrightarrow> s \<noteq> []"
  by (auto simp: ident_def list_all_iff ident_char_graphic)

lemma ident_chars:
  assumes "ident s"
  shows "CHR ''/'' \<notin> set s" "CHR '';'' \<notin> set s" "CHR ''<'' \<notin> set s" "CHR ''>'' \<notin> set s"
    "CHR '','' \<notin> set s" "CHR ''{'' \<notin> set s" "CHR ''}'' \<notin> set s" "CHR ''('' \<notin> set s"
    "CHR '')'' \<notin> set s" "CHR ''='' \<notin> set s" "CHR 0x22 \<notin> set s" "CHR 0x20 \<notin> set s"
    "newline \<notin> set s" "CHR 0x0D \<notin> set s"
  by (rule ident_no_punct [OF assms], simp add: punct_def)+

lemma starts_with_word:
  "CHR 0x20 \<notin> set p \<Longrightarrow> starts_with p (w @ CHR 0x20 # s) \<longleftrightarrow> starts_with p w"
proof (induction p arbitrary: w)
  case (Cons c p)
  then show ?case by (cases w) (auto simp: starts_with_def)
qed (simp add: starts_with_def)

lemma starts_with_snoc: "c \<notin> set p \<Longrightarrow> starts_with p (s @ [c]) \<longleftrightarrow> starts_with p s"
proof (induction p arbitrary: s)
  case (Cons a p)
  then show ?case by (cases s) (auto simp: starts_with_def)
qed (simp add: starts_with_def)

lemma starts_with_char: "c \<in> set p \<Longrightarrow> c \<notin> set s \<Longrightarrow> \<not> starts_with p s"
  by (auto simp: starts_with_iff)

lemma find_str_char: "c \<notin> set s \<Longrightarrow> find_str [c] (s @ c # t) = Some (length s)"
  by (induction s) (auto simp: starts_with_def)

lemma word_ends: "word_text w \<Longrightarrow> w \<noteq> [] \<and> graphic (hd w) \<and> graphic (last w)"
  by (simp add: word_text_def list_all_iff)

lemma trim_word: "word_text w \<Longrightarrow> trim w = w"
  using word_ends [of w] by (simp add: trim_graphic)

lemma trim_between: "s \<noteq> [] \<Longrightarrow> graphic (hd s) \<Longrightarrow> graphic (last s) \<Longrightarrow> trim s = s"
  by (rule trim_graphic) simp

lemma trim_end_word:
  assumes "word_text w"
  shows "trim (w @ [CHR 0x20]) = w"
proof -
  have "trim_start (w @ [CHR 0x20]) = w @ [CHR 0x20]"
    using word_ends [OF assms] by (intro trim_start_graphic) simp
  then show ?thesis
    using word_ends [OF assms] by (simp add: trim_def trim_end_space trim_end_graphic)
qed

subsection \<open>Fields\<close>

definition wf_field :: "ProtoField \<Rightarrow> bool" where
  "wf_field f \<longleftrightarrow>
     ident (fd_name f) \<and>
     (case fd_doc f of None \<Rightarrow> True | Some d \<Rightarrow> CHR 0x0D \<notin> set d) \<and>
     (if fd_is_map f
      then ident (or_string (fd_map_key_type f)) \<and> ident (or_string (fd_map_value_type f))
      else ident (fd_proto_type f) \<and> \<not> starts_with ''message'' (fd_proto_type f) \<and>
           fd_proto_type f \<notin> {''repeated'', ''optional''})"

definition parsed_field :: "ProtoField \<Rightarrow> ParsedField" where
  "parsed_field f =
     (if fd_is_map f
      then \<lparr>pa_name = fd_name f,
            pa_proto_type = ''map<'' @ or_string (fd_map_key_type f) @ '', '' @ or_string (fd_map_value_type f) @ ''>'',
            pa_tag = fd_tag f, pa_repeated = False, pa_optional = False, pa_is_map = True,
            pa_map_key_type = Some (or_string (fd_map_key_type f)),
            pa_map_value_type = Some (or_string (fd_map_value_type f))\<rparr>
      else \<lparr>pa_name = fd_name f, pa_proto_type = fd_proto_type f, pa_tag = fd_tag f,
            pa_repeated = fd_repeated f, pa_optional = \<not> fd_repeated f \<and> fd_optional f,
            pa_is_map = False, pa_map_key_type = None, pa_map_value_type = None\<rparr>)"

lemma parse_u32_tag: "parse_u32 (dec (unat (t :: u32))) = Some t"
  using unat_word_lt_exp [of t] by (simp add: parse_u32_def parse_uint_dec)

text \<open>The text of a field between its indentation and its semicolon.\<close>

definition field_core :: "ProtoField \<Rightarrow> string" where
  "field_core f =
     (if fd_is_map f
      then ''map<'' @ or_string (fd_map_key_type f) @ '', '' @ or_string (fd_map_value_type f) @
           ''> '' @ fd_name f @ '' = '' @ dec (unat (fd_tag f))
      else (if fd_repeated f then ''repeated '' else if fd_optional f then ''optional '' else []) @
           fd_proto_type f @ '' '' @ fd_name f @ '' = '' @ dec (unat (fd_tag f)))"

lemma field_line_core: "field_line f = CHR 0x20 # CHR 0x20 # field_core f @ '';''"
  by (simp add: field_line_def field_core_def)

lemma field_core_props:
  assumes "wf_field f"
  shows "field_core f \<noteq> []" "graphic (hd (field_core f))" "graphic (last (field_core f))"
    "last (field_core f) \<noteq> CHR '';''" "CHR ''/'' \<notin> set (field_core f)"
    "newline \<notin> set (field_core f)" "CHR 0x0D \<notin> set (field_core f)"
    "\<not> starts_with ''message'' (field_core f)" "CHR ''}'' \<notin> set (field_core f)"
proof -
  let ?d = "dec (unat (fd_tag f))"
  note d = ident_dec [of "unat (fd_tag f)"]
  have last: "last (field_core f) = last ?d" by (simp add: field_core_def)
  then show "graphic (last (field_core f))" using ident_last(1) [OF d] by simp
  have "last ?d \<in> set ?d" by (rule ident_last(2) [OF d])
  with ident_chars(2) [OF d] last show "last (field_core f) \<noteq> CHR '';''" by metis
  show "field_core f \<noteq> []" by (simp add: field_core_def)
  show "CHR ''/'' \<notin> set (field_core f)" "CHR ''}'' \<notin> set (field_core f)"
    "newline \<notin> set (field_core f)" "CHR 0x0D \<notin> set (field_core f)"
    using assms ident_chars [OF d]
    by (auto simp: field_core_def wf_field_def newline_def [symmetric] ident_chars split: if_splits)
       (auto simp: newline_def)
  show "graphic (hd (field_core f))"
    using assms ident_hd(1) [of "fd_proto_type f"] ident_nonempty [of "fd_proto_type f"]
    by (auto simp: field_core_def wf_field_def hd_append graphic_def split: if_splits)
  show "\<not> starts_with ''message'' (field_core f)"
    using assms starts_with_word [of "''message''" "fd_proto_type f"]
    by (auto simp: field_core_def wf_field_def starts_with_def split: if_splits)
qed

lemma trim_field_line:
  assumes "wf_field f"
  shows "trim (field_line f) = field_core f @ '';''"
  using field_core_props [OF assms]
  by (simp add: field_line_core trim_spaces) (simp add: trim_between graphic_def)

lemma split_ws_field:
  assumes "word_text a" "word_text b" "ident c"
  shows "split_ws (a @ '' '' @ b @ '' = '' @ c) = [a, b, ''='', c]"
proof -
  have "word_text ''=''" by (simp add: word_text_def graphic_def)
  then have "split_ws (''='' @ CHR 0x20 # c) = [''='', c]"
    using split_ws_word [of "''=''" c] split_ws_end [OF ident_word [OF assms(3)]] by simp
  then show ?thesis
    using split_ws_word [OF assms(1), of "b @ '' = '' @ c"] split_ws_word [OF assms(2), of "''= '' @ c"]
    by simp
qed

lemma field_core_stripped:
  assumes "wf_field f"
  shows "trim (split_first_str ''//'' (field_core f @ '';'')) = field_core f @ '';''"
    "trim (trim_end_char CHR '';'' (field_core f @ '';'')) = field_core f"
proof -
  note p = field_core_props [OF assms]
  have "split_first_str ''//'' (field_core f @ '';'') = field_core f @ '';''"
    using p by (intro split_first_str_no) auto
  then show "trim (split_first_str ''//'' (field_core f @ '';'')) = field_core f @ '';''"
    using p by (simp add: trim_between graphic_def)
  show "trim (trim_end_char CHR '';'' (field_core f @ '';'')) = field_core f"
    using p by (simp add: trim_end_char_one trim_between)
qed

lemma drop_after: "drop (length a + 1) (a @ x # r) = r"
  by simp

lemma parse_map_field_core:
  assumes "wf_field f" "fd_is_map f"
  shows "parse_map_field (field_core f) = Some (parsed_field f)"
proof -
  let ?k = "or_string (fd_map_key_type f)" and ?v = "or_string (fd_map_value_type f)"
  let ?rest = "'' '' @ fd_name f @ '' = '' @ dec (unat (fd_tag f))"
  have k: "ident ?k" and v: "ident ?v" and n: "ident (fd_name f)"
    using assms by (auto simp: wf_field_def)
  have core: "field_core f = (''map<'' @ ?k @ '', '' @ ?v) @ CHR ''>'' # ?rest"
    using assms(2) by (simp add: field_core_def)
  have o': "find_char CHR ''<'' (field_core f) = Some 3"
    using core by simp
  have "CHR ''>'' \<notin> set (''map<'' @ ?k @ '', '' @ ?v)"
    using ident_chars(4) [OF k] ident_chars(4) [OF v] by auto
  from find_char_append [OF this, of ?rest]
  have c: "find_char CHR ''>'' (field_core f) = Some (length (''map<'' @ ?k @ '', '' @ ?v))"
    by (simp add: core)
  have inner: "drop (3 + 1) (take (length (''map<'' @ ?k @ '', '' @ ?v)) (field_core f)) = ?k @ CHR '','' # CHR 0x20 # ?v"
    by (simp add: core)
  have comma: "find_char CHR '','' (?k @ CHR '','' # CHR 0x20 # ?v) = Some (length ?k)"
    by (rule find_char_append) (rule ident_chars(5) [OF k])
  have rest: "drop (length (''map<'' @ ?k @ '', '' @ ?v) + 1) (field_core f) = ?rest"
    unfolding core by (simp only: drop_after)
  have nw: "word_text (fd_name f)" using n by (rule ident_word)
  have tr: "trim ?rest = fd_name f @ '' = '' @ dec (unat (fd_tag f))"
    using ident_hd(1) [OF n] ident_nonempty [OF n] ident_last(1) [OF ident_dec]
    by (simp add: trim_spaces trim_between)
  have "split_ws (fd_name f @ '' = '' @ dec (unat (fd_tag f))) = tl (split_ws (''x'' @ '' '' @ fd_name f @ '' = '' @ dec (unat (fd_tag f))))"
    using split_ws_word [of "''x''"] by (simp add: word_text_def graphic_def)
  also have "\<dots> = [fd_name f, ''='', dec (unat (fd_tag f))]"
    using split_ws_field [OF _ nw ident_dec, of "''x''"] by (simp add: word_text_def graphic_def)
  finally have sp: "split_ws (trim ?rest) = [fd_name f, ''='', dec (unat (fd_tag f))]"
    by (simp only: tr)
  have kv: "trim ?k = ?k" "trim (CHR 0x20 # ?v) = ?v"
    using trim_word [OF ident_word [OF k]] trim_word [OF ident_word [OF v]] by (simp_all add: trim_spaces)
  show ?thesis
    unfolding parse_map_field_def o' c bind.bind_lunit inner comma rest sp Let_def
    using assms(2) kv ident_nonempty [OF k]
    by (simp add: parse_u32_tag parsed_field_def)
qed

lemma parse_field_core:
  assumes "wf_field f"
  shows "parse_field (field_core f @ '';'') = Some (parsed_field f)"
proof (cases "fd_is_map f")
  case True
  then have "starts_with ''map<'' (field_core f)" by (simp add: field_core_def starts_with_def)
  with assms True show ?thesis
    by (simp add: parse_field_def field_core_stripped parse_map_field_core Let_def)
next
  case False
  let ?t = "dec (unat (fd_tag f))"
  have ty: "word_text (fd_proto_type f)" and n: "word_text (fd_name f)"
    and nk: "fd_proto_type f \<noteq> ''repeated''" "fd_proto_type f \<noteq> ''optional''"
    and i: "ident (fd_proto_type f)" "ident (fd_name f)"
    using assms False by (auto simp: wf_field_def ident_word)
  have "CHR ''<'' \<notin> set (field_core f)"
    using False ident_chars(3) [OF i(1)] ident_chars(3) [OF i(2)] ident_chars(3) [OF ident_dec]
    by (auto simp: field_core_def)
  then have m: "\<not> starts_with ''map<'' (field_core f)" "\<not> starts_with ''map <'' (field_core f)"
    by (simp_all add: starts_with_char [of "CHR ''<''"])
  have base: "split_ws (fd_proto_type f @ '' '' @ fd_name f @ '' = '' @ ?t) =
      [fd_proto_type f, fd_name f, ''='', ?t]"
    by (rule split_ws_field [OF ty n ident_dec])
  have kw: "word_text ''repeated''" "word_text ''optional''" by (simp_all add: word_text_def graphic_def)
  have "split_ws (field_core f) =
      (if fd_repeated f then [''repeated''] else if fd_optional f then [''optional''] else []) @
        [fd_proto_type f, fd_name f, ''='', ?t]"
    using False base split_ws_word [OF kw(1)] split_ws_word [OF kw(2)] by (simp add: field_core_def)
  with m nk False assms show ?thesis
    by (auto simp: parse_field_def field_core_stripped Let_def parse_u32_tag parsed_field_def)
qed

subsection \<open>Comments\<close>

lemma ws_len_rev_le: "graphic g \<Longrightarrow> ws_len_rev (s @ g # r) \<le> length s"
proof (cases s)
  case (Cons a t)
  assume g: "graphic g"
  show ?thesis
  proof (cases t)
    case Nil
    with Cons g show ?thesis by (auto simp: graphic_no_ws split: list.splits)
  next
    case (Cons b u)
    with \<open>s = a # t\<close> g show ?thesis by (cases u) (auto simp: graphic_no_ws split: list.splits)
  qed
qed (simp add: graphic_no_ws split: list.splits)

lemma drop_ws_stops: "graphic g \<Longrightarrow> \<exists>u. drop_ws ws_len_rev (s @ g # r) = u @ g # r"
proof (induction "length s" arbitrary: s rule: less_induct)
  case less
  show ?case
  proof (cases "ws_len_rev (s @ g # r)")
    case 0
    then show ?thesis by (auto simp: drop_ws.simps [of ws_len_rev "s @ g # r"])
  next
    case (Suc k)
    with ws_len_rev_le [OF less.prems, of s r] have "length (drop (Suc k) s) < length s" by simp
    from less.hyps [OF this less.prems] Suc ws_len_rev_le [OF less.prems, of s r]
    show ?thesis by (simp add: drop_ws.simps [of ws_len_rev "s @ g # r"])
  qed
qed

lemma trim_comment: "\<exists>u. trim (''//'' @ s) = ''//'' @ u"
proof -
  have "trim_start (''//'' @ s) = ''//'' @ s" by (rule trim_start_graphic) (simp add: graphic_def)
  moreover obtain u where "drop_ws ws_len_rev (rev s @ CHR ''/'' # ''/'') = u @ CHR ''/'' # ''/''"
    using drop_ws_stops [of "CHR ''/''" "rev s" "''/''"] by (auto simp: graphic_def)
  ultimately show ?thesis by (auto simp: trim_def trim_end_def intro: exI [of _ "rev u"])
qed

lemma comment_line:
  obtains u where "trim (doc_comment s) = ''//'' @ u"
  using trim_comment [of "CHR 0x20 # s"] by (auto simp: trim_spaces doc_comment_def)

subsection \<open>Messages\<close>

definition doc_lines :: "ProtoField \<Rightarrow> string list" where
  "doc_lines f =
     (case fd_doc f of None \<Rightarrow> [] | Some d \<Rightarrow> if d = [] then [] else map doc_comment (str_lines d))"

definition message_lines :: "string \<Rightarrow> ProtoField list \<Rightarrow> string list" where
  "message_lines name fs =
     (''message '' @ name @ '' {'') # concat (map (\<lambda>f. doc_lines f @ [field_line f]) fs) @ [''}'']"

lemma to_proto_line_lines: "to_proto_line f = join_with [newline] (doc_lines f @ [field_line f])"
proof (cases "fd_doc f")
  case (Some d)
  show ?thesis
  proof (cases "d = []")
    case False
    with Some join_append [of "map doc_comment (str_lines d)" "[field_line f]" "[newline]"]
    show ?thesis by (simp add: to_proto_line_def doc_lines_def str_lines_nonempty)
  qed (simp add: to_proto_line_def doc_lines_def Some)
qed (simp add: to_proto_line_def doc_lines_def)

lemma build_message_lines: "build_message name fs = join_with [newline] (message_lines name fs)"
proof -
  let ?lss = "[[''message '' @ name @ '' {'']] @ map (\<lambda>f. doc_lines f @ [field_line f]) fs @ [[''}'']]"
  have "build_message name fs = join_with [newline] (map (join_with [newline]) ?lss)"
    by (simp add: build_message_def to_proto_line_lines [abs_def] comp_def)
  also have "\<dots> = join_with [newline] (concat ?lss)"
    by (rule join_concat) (simp add: list_all_iff)
  finally show ?thesis by (simp add: message_lines_def)
qed

lemma body_skips_doc:
  "message_body raw full fs nested (doc_lines f @ ls) = message_body raw full fs nested ls"
proof -
  have "message_body raw full fs nested (map doc_comment ds @ ls) = message_body raw full fs nested ls" for ds
  proof (induction ds)
    case (Cons d ds)
    obtain u where "trim (doc_comment d) = ''//'' @ u" by (rule comment_line)
    then show ?case by (simp add: message_body.simps Cons is_comment_def starts_with_def)
  qed simp
  then show ?thesis by (auto simp: doc_lines_def split: option.splits)
qed

lemma body_field:
  assumes "wf_field f"
  shows "message_body raw full fs nested (field_line f # ls) =
    message_body raw full (fs @ [parsed_field f]) nested ls"
proof -
  note p = field_core_props [OF assms]
  have "\<not> starts_with ''message'' (field_core f @ '';'')"
    using p(8) by (simp add: starts_with_snoc)
  moreover have "\<not> is_comment (field_core f @ '';'')"
    using p(5) by (simp add: is_comment_def starts_with_char [of "CHR ''/''"])
  moreover have "field_core f @ '';'' \<noteq> ''}''" using p(1) by (cases "field_core f") auto
  ultimately show ?thesis
    by (simp add: message_body.simps trim_field_line [OF assms] parse_field_core [OF assms] Let_def)
qed

lemma body_fields:
  "list_all wf_field fds \<Longrightarrow>
   message_body raw full fs nested (concat (map (\<lambda>f. doc_lines f @ [field_line f]) fds) @ ''}'' # rest) =
     Ok (\<lparr>pm_name = full, pm_fields = fs @ map parsed_field fds\<rparr> # nested, rest)"
proof (induction fds arbitrary: fs)
  case Nil
  have "trim ''}'' = ''}''" by (rule trim_between) (simp_all add: graphic_def)
  then show ?case by (simp add: message_body.simps)
next
  case (Cons f fds)
  then show ?case by (simp add: body_skips_doc body_field)
qed

text \<open>The header of a block, for a keyword of letters.\<close>

lemma block_name:
  assumes "ident n" "ident k"
  shows "trim (k @ '' '' @ n @ '' {'') = k @ '' '' @ n @ '' {''"
    "extract_block_name (k @ '' '' @ n @ '' {'') k = Ok n"
proof -
  show t: "trim (k @ '' '' @ n @ '' {'') = k @ '' '' @ n @ '' {''"
    using ident_nonempty [OF assms(2)] ident_hd(1) [OF assms(2)]
    by (intro trim_between) (auto simp: graphic_def)
  have "\<not> starts_with k ('' '' @ n @ '' {'')"
    using ident_nonempty [OF assms(2)] ident_chars(12) [OF assms(2)]
    by (cases k) (auto simp: starts_with_def)
  then have "trim_start_str k (k @ '' '' @ n @ '' {'') = '' '' @ n @ '' {''"
    by (intro trim_start_str_once) (use ident_nonempty [OF assms(2)] in auto)
  moreover have "trim ('' '' @ n @ '' {'') = n @ '' {''"
    using ident_nonempty [OF assms(1)] ident_hd(1) [OF assms(1)]
    by (simp add: trim_spaces) (rule trim_between, simp_all add: graphic_def)
  moreover have "trim_end_char CHR ''{'' (n @ '' {'') = n @ '' ''"
    using trim_end_char_one [of "n @ '' ''" "CHR ''{''"] by simp
  ultimately show "extract_block_name (k @ '' '' @ n @ '' {'') k = Ok n"
    using trim_end_word [OF ident_word [OF assms(1)]] ident_nonempty [OF assms(1)]
    by (simp add: extract_block_name_def)
qed

lemma keyword_ident: "ident ''message''" "ident ''service''"
  by (simp_all add: ident_def ident_char_def)

definition parsed_message :: "string \<times> ProtoField list \<Rightarrow> ParsedMessage" where
  "parsed_message m = \<lparr>pm_name = fst m, pm_fields = map parsed_field (snd m)\<rparr>"

definition wf_message :: "string \<times> ProtoField list \<Rightarrow> bool" where
  "wf_message m \<longleftrightarrow> ident (fst m) \<and> list_all wf_field (snd m)"

lemma lines_message:
  assumes "wf_message m"
  shows "parse_lines fl (message_lines (fst m) (snd m) @ rest) =
    parse_lines (fl\<lparr>fl_messages := fl_messages fl @ [parsed_message m]\<rparr>) rest"
proof -
  obtain n fds where m: "m = (n, fds)" by force
  with assms have n: "ident n" and fds: "list_all wf_field fds" by (auto simp: wf_message_def)
  let ?h = "''message '' @ n @ '' {''"
  note b = block_name [OF n keyword_ident(1)]
  have t: "trim ?h = ?h" "extract_block_name ?h ''message'' = Ok n" using b by simp_all
  have "parse_message_block ?h (concat (map (\<lambda>f. doc_lines f @ [field_line f]) fds) @ ''}'' # rest) [] =
      Ok ([parsed_message m], rest)"
    unfolding parse_message_block.simps t(1) t(2)
    using body_fields [OF fds] by (simp add: m parsed_message_def)
  then show ?thesis
    using t(1) by (simp add: m message_lines_def parse_lines.simps is_comment_def starts_with_def)
qed

subsection \<open>Services\<close>

definition wf_rpc :: "RpcMethod \<Rightarrow> bool" where
  "wf_rpc r \<longleftrightarrow>
     ident (rpc_name r) \<and> ident (request_type_name r) \<and> ident (mm_name (rpc_response_message r)) \<and>
     word_text (rpc_http_method r) \<and> word_text (rpc_path_pattern r)"

definition stream_type :: "bool \<Rightarrow> string \<Rightarrow> string" where
  "stream_type s t = (if s then ''stream '' else []) @ t"

definition parsed_rpc :: "RpcMethod \<Rightarrow> ProtoRpcMethod" where
  "parsed_rpc r =
     \<lparr>pr_name = rpc_name r,
      pr_input_type = stream_type (rpc_client_streaming r) (request_type_name r),
      pr_output_type = stream_type (rpc_server_streaming r) (mm_name (rpc_response_message r)),
      pr_comment = Some (''// '' @ rpc_http_method r @ '' '' @ rpc_path_pattern r)\<rparr>"

lemma stream_type_props:
  assumes "ident t"
  shows "trim (stream_type s t) = stream_type s t" "CHR '')'' \<notin> set (stream_type s t)"
proof -
  show "trim (stream_type s t) = stream_type s t"
    using ident_nonempty [OF assms] ident_hd(1) [OF assms] ident_last(1) [OF assms]
    by (intro trim_between) (auto simp: stream_type_def graphic_def)
  show "CHR '')'' \<notin> set (stream_type s t)"
    using ident_chars(9) [OF assms] by (auto simp: stream_type_def)
qed

lemma parse_rpc_line:
  assumes "ident n" "ident i" "ident q"
  shows "parse_rpc (''rpc '' @ n @ ''('' @ stream_type a i @ '') returns ('' @ stream_type b q @ '');'') =
    Ok \<lparr>pr_name = n, pr_input_type = stream_type a i, pr_output_type = stream_type b q, pr_comment = None\<rparr>"
proof -
  let ?i = "stream_type a i" and ?q = "stream_type b q"
  let ?out = "?q @ CHR '')'' # '';''"
  let ?ret = "'' returns ('' @ ?out"
  let ?rest = "n @ CHR ''('' # ?i @ CHR '')'' # ?ret"
  have "trim_start_str ''rpc'' (''rpc'' @ CHR 0x20 # ?rest) = CHR 0x20 # ?rest"
    by (rule trim_start_str_once) (simp_all add: starts_with_def)
  moreover have "trim ?rest = ?rest"
    using ident_nonempty [OF assms(1)] ident_hd(1) [OF assms(1)]
    by (intro trim_between) (simp_all add: graphic_def)
  ultimately have r: "trim (trim_start_str ''rpc'' (''rpc '' @ ?rest)) = ?rest"
    by (simp add: trim_spaces)
  have f1: "find_str ''('' ?rest = Some (length n)"
    by (rule find_str_char) (rule ident_chars(8) [OF assms(1)])
  have f2: "find_str '')'' (?i @ CHR '')'' # ?ret) = Some (length ?i)"
    by (rule find_str_char) (rule stream_type_props(2) [OF assms(2)])
  have f3: "find_str ''returns'' ?ret = Some 1" by (simp add: starts_with_def)
  have d3: "drop (1 + 7) ?ret = '' '' @ CHR ''('' # ?out" by simp
  have f4: "find_str ''('' ('' '' @ CHR ''('' # ?out) = Some 1" by (simp add: starts_with_def)
  have f5: "find_str '')'' ?out = Some (length ?q)"
    by (rule find_str_char) (rule stream_type_props(2) [OF assms(3)])
  have d1: "drop (length n + 1) ?rest = ?i @ CHR '')'' # ?ret"
    and d2: "drop (length ?i + 1) (?i @ CHR '')'' # ?ret) = ?ret"
    and d4: "drop (1 + 1) ('' '' @ CHR ''('' # ?out) = ?out" by simp_all
  have tk: "take (length n) ?rest = n" "take (length ?i) (?i @ CHR '')'' # ?ret) = ?i"
    "take (length ?q) ?out = ?q" by simp_all
  have "parse_rpc (''rpc '' @ ?rest) =
      Ok \<lparr>pr_name = n, pr_input_type = ?i, pr_output_type = ?q, pr_comment = None\<rparr>"
    unfolding parse_rpc_def Let_def r find_or_def find_after_returns_def f1 option.case and_then.simps
      d1 f2 d2 f3 d3 f4 d4 f5 tk
    using stream_type_props(1) [OF assms(2)] stream_type_props(1) [OF assms(3)]
      trim_word [OF ident_word [OF assms(1)]] by simp
  then show ?thesis by simp
qed

lemma rpc_lines_trim:
  assumes "wf_rpc r"
  shows "map trim (rpc_lines r) =
    [''// '' @ rpc_http_method r @ '' '' @ rpc_path_pattern r,
     ''rpc '' @ rpc_name r @ ''('' @ stream_type (rpc_client_streaming r) (request_type_name r) @
       '') returns ('' @ stream_type (rpc_server_streaming r) (mm_name (rpc_response_message r)) @ '');'']"
proof -
  have p: "rpc_path_pattern r \<noteq> []" "graphic (last (rpc_path_pattern r))"
    using assms word_ends [of "rpc_path_pattern r"] by (auto simp: wf_rpc_def)
  have "trim (''// '' @ rpc_http_method r @ '' '' @ rpc_path_pattern r) =
      ''// '' @ rpc_http_method r @ '' '' @ rpc_path_pattern r"
    using p by (intro trim_between) (simp_all add: graphic_def)
  moreover have "trim (''rpc '' @ x @ '');'') = ''rpc '' @ x @ '');''" for x
    by (intro trim_between) (simp_all add: graphic_def)
  from this [of "rpc_name r @ ''('' @ stream_type (rpc_client_streaming r) (request_type_name r) @
      '') returns ('' @ stream_type (rpc_server_streaming r) (mm_name (rpc_response_message r))"]
  have "trim (''rpc '' @ rpc_name r @ ''('' @ stream_type (rpc_client_streaming r) (request_type_name r) @
       '') returns ('' @ stream_type (rpc_server_streaming r) (mm_name (rpc_response_message r)) @ '');'') =
     ''rpc '' @ rpc_name r @ ''('' @ stream_type (rpc_client_streaming r) (request_type_name r) @
       '') returns ('' @ stream_type (rpc_server_streaming r) (mm_name (rpc_response_message r)) @ '');''"
    by simp
  ultimately show ?thesis by (simp add: rpc_lines_def trim_spaces stream_type_def)
qed

lemma service_rpc:
  assumes "wf_rpc r"
  shows "service_body name ms p (rpc_lines r @ ls) = service_body name (ms @ [parsed_rpc r]) None ls"
proof -
  obtain c l where rl: "rpc_lines r = [c, l]" by (simp add: rpc_lines_def)
  with rpc_lines_trim [OF assms] have
    c: "trim c = ''// '' @ rpc_http_method r @ '' '' @ rpc_path_pattern r" and
    l: "trim l = ''rpc '' @ rpc_name r @ ''('' @ stream_type (rpc_client_streaming r) (request_type_name r) @
       '') returns ('' @ stream_type (rpc_server_streaming r) (mm_name (rpc_response_message r)) @ '');''"
    by simp_all
  have prs: "parse_rpc (trim l) = Ok \<lparr>pr_name = rpc_name r,
      pr_input_type = stream_type (rpc_client_streaming r) (request_type_name r),
      pr_output_type = stream_type (rpc_server_streaming r) (mm_name (rpc_response_message r)),
      pr_comment = None\<rparr>"
    unfolding l using assms by (intro parse_rpc_line) (simp_all add: wf_rpc_def)
  have "service_body name ms p (c # l # ls) = service_body name ms (Some (trim c)) (l # ls)"
    by (subst service_body.simps) (simp add: c is_comment_def starts_with_def)
  also have "\<dots> = service_body name (ms @ [parsed_rpc r]) None ls"
    by (subst service_body.simps, unfold Let_def prs)
       (simp add: l is_comment_def starts_with_def parsed_rpc_def c)
  finally show ?thesis by (simp add: rl)
qed

lemma service_rpcs:
  "list_all wf_rpc rpcs \<Longrightarrow>
   service_body name ms None (concat (map rpc_lines rpcs) @ ''}'' # rest) =
     Ok (\<lparr>ps_name = name, ps_methods = ms @ map parsed_rpc rpcs\<rparr>, rest)"
proof (induction rpcs arbitrary: ms)
  case Nil
  have "trim ''}'' = ''}''" by (rule trim_between) (simp_all add: graphic_def)
  then show ?case by (simp add: service_body.simps)
qed (simp add: service_rpc)

lemma lines_service:
  assumes "ident n" "list_all wf_rpc rpcs"
  shows "parse_lines fl ((''service '' @ n @ '' {'') # concat (map rpc_lines rpcs) @ ''}'' # rest) =
    parse_lines (fl\<lparr>fl_services := fl_services fl @ [\<lparr>ps_name = n, ps_methods = map parsed_rpc rpcs\<rparr>]\<rparr>) rest"
proof -
  let ?h = "''service '' @ n @ '' {''"
  have t: "trim ?h = ?h" "extract_block_name ?h ''service'' = Ok n"
    using block_name [OF assms(1) keyword_ident(2)] by simp_all
  have "parse_service ?h (concat (map rpc_lines rpcs) @ ''}'' # rest) =
      Ok (\<lparr>ps_name = n, ps_methods = map parsed_rpc rpcs\<rparr>, rest)"
    unfolding parse_service_def t(1) t(2) using service_rpcs [OF assms(2), of n "[]" rest] by simp
  then show ?thesis
    using t(1) by (subst parse_lines.simps) (simp add: is_comment_def starts_with_def)
qed

subsection \<open>The file\<close>

lemma lines_empty: "parse_lines fl ([] # rest) = parse_lines fl rest"
  by (simp add: parse_lines.simps trim_graphic)

lemma lines_syntax:
  "parse_lines fl ((''syntax = '' @ [CHR 0x22] @ ''proto3'' @ [CHR 0x22] @ '';'') # rest) =
   parse_lines (fl\<lparr>fl_syntax := ''proto3''\<rparr>) rest"
proof -
  let ?l = "''syntax = '' @ [CHR 0x22] @ ''proto3'' @ [CHR 0x22] @ '';''"
  have t: "trim ?l = ?l" by (rule trim_between) (simp_all add: graphic_def)
  have s: "trim_start_str ''syntax'' ?l = '' = '' @ [CHR 0x22] @ ''proto3'' @ [CHR 0x22] @ '';''"
    by (simp add: trim_start_str.simps starts_with_def)
  have "parse_syntax ?l = Ok ''proto3''"
    unfolding parse_syntax_def s
    by (simp add: trim_start_char_def trim_end_char_def trim_char_def trim_spaces trim_between graphic_def)
  with t show ?thesis by (simp add: parse_lines.simps is_comment_def starts_with_def)
qed

lemma lines_package:
  assumes "ident p"
  shows "parse_lines fl ((''package '' @ p @ '';'') # rest) = parse_lines (fl\<lparr>fl_package := p\<rparr>) rest"
proof -
  let ?l = "''package '' @ p @ '';''"
  have t: "trim ?l = ?l" by (rule trim_between) (simp_all add: graphic_def)
  have s: "trim_start_str ''package'' ?l = '' '' @ p @ '';''"
    by (simp add: trim_start_str.simps starts_with_def)
  have "trim ('' '' @ p @ '';'') = p @ '';''"
    using ident_nonempty [OF assms] ident_hd(1) [OF assms]
    by (simp add: trim_spaces) (rule trim_between, simp_all add: graphic_def)
  moreover have "trim_end_char CHR '';'' (p @ '';'') = p"
    using ident_last(2) [OF assms] ident_chars(2) [OF assms] by (intro trim_end_char_one) metis
  ultimately have "parse_package ?l = Ok p"
    using trim_word [OF ident_word [OF assms]] ident_nonempty [OF assms]
    by (simp add: parse_package_def s [simplified])
  with t show ?thesis by (simp add: parse_lines.simps is_comment_def starts_with_def)
qed

text \<open>No line that is written has a line end in it.\<close>

lemma line_text_append: "line_text (s @ t) \<longleftrightarrow> line_text s \<and> line_text t"
  by (auto simp: line_text_def)

lemma line_text_Cons: "line_text (c # s) \<longleftrightarrow> c \<noteq> newline \<and> c \<noteq> CHR 0x0D \<and> line_text s"
  by (auto simp: line_text_def)

lemma line_text_Nil: "line_text []"
  by (simp add: line_text_def)

lemma line_text_ident: "ident s \<Longrightarrow> line_text s"
  using ident_chars(13,14) by (simp add: line_text_def)

lemma line_text_word: "word_text s \<Longrightarrow> line_text s"
  by (auto simp: line_text_def word_text_def list_all_iff graphic_def newline_def)

lemmas line_text_simps = line_text_append line_text_Cons line_text_Nil newline_def

lemma line_text_doc:
  assumes "l \<in> set (str_lines d)" "CHR 0x0D \<notin> set d"
  shows "line_text l"
proof -
  from assms(1) obtain q where q: "q \<in> set (split_on newline d)" "l = q \<or> l = strip_cr q"
    by (cases "split_on newline d" rule: rev_cases) (auto simp: str_lines_def Let_def split: if_splits)
  from split_on_no_char [OF q(1)] assms(2) have "line_text q" by (auto simp: line_text_def)
  with q(2) strip_cr_id [of q] show ?thesis by (auto simp: line_text_def)
qed

lemma line_text_message:
  assumes "wf_message m"
  shows "list_all line_text (message_lines (fst m) (snd m))"
proof -
  have "list_all line_text (doc_lines f @ [field_line f])" if f: "wf_field f" for f
  proof -
    have "line_text l" if "l \<in> set (doc_lines f)" for l
      using that f line_text_doc
      by (auto simp: doc_lines_def wf_field_def doc_comment_def line_text_simps split: option.splits if_splits)
    moreover have "line_text (field_line f)"
      using field_core_props [OF f] by (auto simp: field_line_core line_text_def newline_def)
    ultimately show ?thesis by (simp add: list_all_iff)
  qed
  then show ?thesis
    using assms line_text_ident [of "fst m"]
    by (auto simp: message_lines_def wf_message_def list_all_iff line_text_simps)
qed

lemma line_text_rpc: "wf_rpc r \<Longrightarrow> list_all line_text (rpc_lines r)"
  by (simp add: rpc_lines_def wf_rpc_def line_text_ident line_text_word)
     (simp add: line_text_simps line_text_ident line_text_word)

text \<open>A definition of the file is a message or, for the empty type, an empty text.\<close>

definition def_text :: "(string \<times> ProtoField list) option \<Rightarrow> string" where
  "def_text d = (case d of None \<Rightarrow> [] | Some m \<Rightarrow> build_message (fst m) (snd m))"

definition def_lines :: "(string \<times> ProtoField list) option \<Rightarrow> string list" where
  "def_lines d = (case d of None \<Rightarrow> [[]] | Some m \<Rightarrow> message_lines (fst m) (snd m))"

definition def_messages :: "(string \<times> ProtoField list) option list \<Rightarrow> ParsedMessage list" where
  "def_messages ds = concat (map (\<lambda>d. case d of None \<Rightarrow> [] | Some m \<Rightarrow> [parsed_message m]) ds)"

lemma def_text_lines: "join_with [newline] (def_lines d) = def_text d"
  by (auto simp: def_text_def def_lines_def build_message_lines split: option.splits)

lemma def_lines_nonempty: "def_lines d \<noteq> []"
  by (auto simp: def_lines_def message_lines_def split: option.splits)

lemma definitions_of:
  "filter (\<lambda>d. d \<noteq> []) ds = map (\<lambda>m. build_message (fst m) (snd m)) ms \<Longrightarrow>
   \<exists>os. ds = map def_text os \<and> concat (map (case_option [] (\<lambda>m. [m])) os) = ms"
proof (induction ds arbitrary: ms)
  case Nil
  then show ?case by (intro exI [of _ "[]"]) simp
next
  case (Cons d ds)
  show ?case
  proof (cases "d = []")
    case True
    with Cons obtain os where "ds = map def_text os" "concat (map (case_option [] (\<lambda>m. [m])) os) = ms" by auto
    with True show ?thesis by (intro exI [of _ "None # os"]) (simp add: def_text_def)
  next
    case False
    with Cons.prems obtain m ms' where m: "ms = m # ms'" "d = build_message (fst m) (snd m)"
      "filter (\<lambda>d. d \<noteq> []) ds = map (\<lambda>m. build_message (fst m) (snd m)) ms'" by auto
    with Cons.IH obtain os where "ds = map def_text os" "concat (map (case_option [] (\<lambda>m. [m])) os) = ms'" by blast
    with m show ?thesis by (intro exI [of _ "Some m # os"]) (simp add: def_text_def)
  qed
qed

lemma lines_definitions:
  assumes "list_all (\<lambda>d. case d of None \<Rightarrow> True | Some m \<Rightarrow> wf_message m) ds"
  shows "parse_lines fl (butlast (concat (map (\<lambda>d. def_lines d @ [[]]) ds))) =
    Ok (fl\<lparr>fl_messages := fl_messages fl @ def_messages ds\<rparr>)"
  using assms
proof (induction ds arbitrary: fl)
  case Nil
  then show ?case by (simp add: parse_lines.simps def_messages_def)
next
  case (Cons d ds)
  let ?rest = "butlast (concat (map (\<lambda>d. def_lines d @ [[]]) ds))"
  have one: "parse_lines fl (def_lines d @ ls) =
      parse_lines (fl\<lparr>fl_messages := fl_messages fl @ def_messages [d]\<rparr>) ls" for ls
    using Cons.prems lines_message [of "the d" fl ls]
    by (auto simp: def_lines_def def_messages_def lines_empty split: option.splits)
  show ?case
  proof (cases "ds = []")
    case True
    with one [of "[]"] show ?thesis
      by (simp add: butlast_append parse_lines.simps)
  next
    case False
    then have "concat (map (\<lambda>d. def_lines d @ [[]]) ds) \<noteq> []" by (cases ds) auto
    then have "butlast (concat (map (\<lambda>d. def_lines d @ [[]]) (d # ds))) = def_lines d @ [] # ?rest"
      by (simp add: butlast_append)
    with Cons one show ?thesis by (simp add: lines_empty def_messages_def)
  qed
qed

definition head_lines :: "string \<Rightarrow> string \<Rightarrow> RpcMethod list \<Rightarrow> string list" where
  "head_lines service_name package rpcs =
     [''syntax = '' @ [CHR 0x22] @ ''proto3'' @ [CHR 0x22] @ '';'', [],
      ''package '' @ package @ '';'', [], ''service '' @ service_name @ '' {''] @
     concat (map rpc_lines rpcs) @ [''}'']"

lemma generated_lines:
  assumes "ident service_name" "ident package" "list_all wf_rpc rpcs"
    "collect_definitions rpcs = map def_text ds"
    "list_all (\<lambda>d. case d of None \<Rightarrow> True | Some m \<Rightarrow> wf_message m) ds"
  shows "str_lines (generate_proto_file service_name package rpcs) =
    head_lines service_name package rpcs @
      (if ds = [] then [] else [] # butlast (concat (map (\<lambda>d. def_lines d @ [[]]) ds)))"
proof -
  let ?A = "head_lines service_name package rpcs"
  let ?D = "concat (map (\<lambda>d. def_lines d @ [[]]) ds)"
  let ?lss = "map (\<lambda>l. [l]) (?A @ [[]]) @ concat (map (\<lambda>d. [def_lines d, [[]]]) ds)"
  have single: "map (join_with [newline]) (map (\<lambda>l. [l]) xs) = xs" for xs
    by (simp add: comp_def)
  have defs: "map (join_with [newline]) (concat (map (\<lambda>d. [def_lines d, [[]]]) os)) =
      concat (map (\<lambda>m. [m, []]) (map def_text os))" for os
    by (induction os) (simp_all add: def_text_lines)
  have "generate_proto_file service_name package rpcs =
      join_with [newline] (?A @ [[]] @ concat (map (\<lambda>m. [m, []]) (map def_text ds)))"
    by (simp only: generate_proto_file_def head_lines_def assms(4) append_assoc) simp
  also have "\<dots> = join_with [newline] (map (join_with [newline]) ?lss)"
    by (simp only: map_append single defs append_assoc)
  also have "\<dots> = join_with [newline] (concat ?lss)"
    by (rule join_concat) (auto simp: list_all_iff def_lines_nonempty def_lines_nonempty [symmetric])
  also have "concat ?lss = ?A @ [] # ?D"
    by (induction ds) (simp_all add: comp_def)
  finally have g: "generate_proto_file service_name package rpcs = join_with [newline] (?A @ [] # ?D)" .
  have "list_all line_text (def_lines d)" if "d \<in> set ds" for d
    using that assms(5) line_text_message [of "the d"]
    by (auto simp: def_lines_def list_all_iff line_text_Nil split: option.splits)
  then have "list_all line_text ?D" by (auto simp: list_all_iff line_text_Nil)
  moreover have "list_all line_text ?A"
    using assms line_text_rpc
    by (auto simp: head_lines_def list_all_iff line_text_ident line_text_simps)
  ultimately have "str_lines (join_with [newline] (?A @ [] # ?D)) =
      (if last (?A @ [] # ?D) = [] then butlast (?A @ [] # ?D) else ?A @ [] # ?D)"
    by (intro str_lines_join) (simp_all add: line_text_Nil)
  moreover have "ds \<noteq> [] \<Longrightarrow> ?D \<noteq> [] \<and> last ?D = []"
    by (cases ds rule: rev_cases) simp_all
  ultimately show ?thesis by (cases "ds = []") (simp_all add: g butlast_append)
qed

definition parsed_file :: "string \<Rightarrow> string \<Rightarrow> RpcMethod list \<Rightarrow> ParsedMessage list \<Rightarrow> ProtoFile" where
  "parsed_file service_name package rpcs msgs =
     \<lparr>fl_syntax = ''proto3'', fl_package = package, fl_imports = [],
      fl_services = [\<lparr>ps_name = service_name, ps_methods = map parsed_rpc rpcs\<rparr>],
      fl_messages = msgs, fl_enums = []\<rparr>"

lemma parse_head:
  assumes "ident service_name" "ident package" "list_all wf_rpc rpcs"
  shows "parse_lines empty_file (head_lines service_name package rpcs @ ls) =
    parse_lines (parsed_file service_name package rpcs []) ls"
proof -
  note steps = lines_syntax [simplified] lines_empty lines_package [OF assms(2), simplified]
    lines_service [OF assms(1,3), simplified]
  show ?thesis by (simp add: head_lines_def steps) (simp add: empty_file_def parsed_file_def)
qed

lemma proto_file_text:
  assumes "ident service_name" "ident package" "list_all wf_rpc rpcs"
    "filter (\<lambda>d. d \<noteq> []) (collect_definitions rpcs) = map (\<lambda>m. build_message (fst m) (snd m)) msgs"
    "list_all wf_message msgs"
  shows "parse_proto (generate_proto_file service_name package rpcs) =
    Ok (parsed_file service_name package rpcs (map parsed_message msgs))"
proof -
  obtain ds where ds: "collect_definitions rpcs = map def_text ds"
    and ms: "concat (map (case_option [] (\<lambda>m. [m])) ds) = msgs"
    using definitions_of [OF assms(4)] by blast
  have wf: "list_all (\<lambda>d. case d of None \<Rightarrow> True | Some m \<Rightarrow> wf_message m) ds"
    using assms(5) ms by (force simp: list_all_iff split: option.splits)
  have dm: "def_messages ds = map parsed_message msgs"
    unfolding ms [symmetric] def_messages_def by (induction ds) (auto split: option.splits)
  have "parse_proto (generate_proto_file service_name package rpcs) =
      parse_lines (parsed_file service_name package rpcs [])
        (if ds = [] then [] else [] # butlast (concat (map (\<lambda>d. def_lines d @ [[]]) ds)))"
    using parse_head [OF assms(1-3)] by (simp add: parse_proto_def generated_lines [OF assms(1-3) ds wf])
  also have "\<dots> = Ok (parsed_file service_name package rpcs (map parsed_message msgs))"
    using lines_definitions [OF wf, of "parsed_file service_name package rpcs []"] dm
    by (cases "ds = []") (simp_all add: lines_empty parse_lines.simps(1) parsed_file_def)
  finally show ?thesis .
qed

text \<open>C23. A generated file is read back by the parser: the syntax, the package, the service with
  one rpc per method, its types, stream markers and comment, and, once each and in order, the
  messages with their fields, when the names are protobuf identifiers and the definitions come
  from the message builder.\<close>

theorem proto_file_roundtrip:
  assumes "ident service_name" "ident package" "list_all wf_rpc rpcs"
    "filter (\<lambda>d. d \<noteq> []) (collect_definitions rpcs) = map (\<lambda>m. build_message (fst m) (snd m)) msgs"
    "list_all wf_message msgs"
  shows "parse_proto (generate_proto_file service_name package rpcs) =
    Ok (parsed_file service_name package rpcs (map parsed_message msgs))"
  using assms by (rule proto_file_text)

definition get_user_rpc :: RpcMethod where
  "get_user_rpc = to_rpc_bodyless id ''GET'' ''/users/{}'' (scalar_type (scalar_name RU32))"

lemma get_user_rpc:
  "get_user_rpc =
     \<lparr>rpc_name = ''GetUser'', rpc_http_method = ''GET'', rpc_path_pattern = ''/users/{}'',
      rpc_request_message = Some \<lparr>mm_name = ''GetUserRequest'',
        mm_definition = build_message ''GetUserRequest'' [plain_field ''param1'' ''string'' 1 False]\<rparr>,
      rpc_response_message = \<lparr>mm_name = ''GetUserResponse'',
        mm_definition = build_message ''GetUserResponse'' [plain_field ''value'' ''uint32'' 1 False]\<rparr>,
      rpc_server_streaming = False, rpc_client_streaming = False\<rparr>"
proof -
  have d: "dec (Suc 0) = ''1''" by (simp add: dec.simps [of "Suc 0"] digit_char_def char_of_def bit_0)
  have n: "path_to_rpc_name id ''GET'' ''/users/{}'' = ''GetUser''"
    by (simp add: path_to_rpc_name_def method_prefix_def to_pascal_case_singular_def starts_with_def
        ends_with_def capitalize_word_def utf8_len_def ascii_upper_def Let_def char_of_def bit_0)
  have c: "captures_from_pattern ''/users/{}'' = [plain_field ''param1'' ''string'' 1 False]"
    by (simp add: captures_from_pattern_def starts_with_def ends_with_def capture_field_def d)
  show ?thesis
    by (simp add: get_user_rpc_def to_rpc_bodyless_def n c Let_def build_response_message_def scalar_type_def)
qed

definition get_user_messages :: "(string \<times> ProtoField list) list" where
  "get_user_messages =
     [(''GetUserRequest'', [plain_field ''param1'' ''string'' 1 False]),
      (''GetUserResponse'', [plain_field ''value'' ''uint32'' 1 False])]"

lemma get_user_wf:
  "filter (\<lambda>d. d \<noteq> []) (collect_definitions [get_user_rpc]) =
     map (\<lambda>m. build_message (fst m) (snd m)) get_user_messages"
  "list_all wf_rpc [get_user_rpc]" "list_all wf_message get_user_messages"
  "ident ''UserService''" "ident ''users.v1''"
proof -
  have "collect_definitions [get_user_rpc] = map (\<lambda>m. build_message (fst m) (snd m)) get_user_messages"
    by (simp add: collect_definitions_def get_user_rpc set_insert_def get_user_messages_def)
       (simp add: build_message_def)
  then show "filter (\<lambda>d. d \<noteq> []) (collect_definitions [get_user_rpc]) =
     map (\<lambda>m. build_message (fst m) (snd m)) get_user_messages"
    by (simp add: get_user_messages_def build_message_def)
  show "list_all wf_rpc [get_user_rpc]"
    by (simp add: wf_rpc_def get_user_rpc request_type_name_def ident_def ident_char_def word_text_def graphic_def)
  show "list_all wf_message get_user_messages"
    by (simp add: get_user_messages_def wf_message_def wf_field_def plain_field_def ident_def ident_char_def
        starts_with_def)
  show "ident ''UserService''" "ident ''users.v1''" by (simp_all add: ident_def ident_char_def)
qed

theorem proto_file_roundtrip_witness:
  "parse_proto (generate_proto_file ''UserService'' ''users.v1'' [get_user_rpc]) =
   Ok \<lparr>fl_syntax = ''proto3'', fl_package = ''users.v1'', fl_imports = [],
       fl_services = [\<lparr>ps_name = ''UserService'', ps_methods =
         [\<lparr>pr_name = ''GetUser'', pr_input_type = ''GetUserRequest'', pr_output_type = ''GetUserResponse'',
           pr_comment = Some ''// GET /users/{}''\<rparr>]\<rparr>],
       fl_messages = map parsed_message get_user_messages, fl_enums = []\<rparr>"
  using proto_file_roundtrip [OF get_user_wf(4,5,2,1,3)]
  by (simp add: parsed_file_def parsed_rpc_def get_user_rpc request_type_name_def stream_type_def)

subsection \<open>Validation of a generated file\<close>

definition to_proto_validated ::
  "(string \<Rightarrow> bool) \<Rightarrow> string \<Rightarrow> string \<Rightarrow> RpcMethod list \<Rightarrow> string \<times> ProtoValidationError list" where
  "to_proto_validated upper service_name package rpcs =
     (let proto = generate_proto_file service_name package rpcs in (proto, validate_proto upper proto))"

text \<open>The two methods that update a resource give rpcs of the same name.\<close>

lemma put_patch_same_name: "path_to_rpc_name up ''PUT'' path = path_to_rpc_name up ''PATCH'' path"
  by (simp add: path_to_rpc_name_def method_prefix_def Let_def)

text \<open>A response that is a list of messages is written as a single message.\<close>

lemma vec_response_not_repeated:
  "pt_is_message t \<Longrightarrow> build_response_message (vec_type t) n = build_response_message t n"
  by (simp add: build_response_message_def vec_type_def scalar_type_def Let_def)

end
