(* ===== verification/Proto_Spec.thy ===== *)
theory Proto_Spec
  imports Proto_Roundtrip Transcode
begin

text \<open>
  The service description of an API, \<^verbatim>\<open>typeway-grpc/src/spec.rs\<close>: it is
  collected from the rpcs, and its messages are parsed from the text of the definitions by a
  second, smaller parser. An \<^verbatim>\<open>IndexMap\<close> is the list of its entries.
\<close>

definition spec_map_field :: "string \<Rightarrow> FieldSpec option" where
  "spec_map_field line =
     Option.bind (find_char CHR ''<'' line) (\<lambda>angle_start.
     Option.bind (find_char CHR ''>'' line) (\<lambda>angle_end.
       let inner = drop (angle_start + 1) (take angle_end line) in
       case splitn 2 CHR '','' inner of
         k # v # _ \<Rightarrow>
           (case splitn 3 CHR 0x20 (trim (drop (angle_end + 1) line)) of
              [name, _, tag] \<Rightarrow>
                map_option (\<lambda>t.
                  \<lparr>fs_name = name, fs_proto_type = ''map'', fs_tag = t, fs_repeated = False,
                   fs_optional = False, fs_is_map = True, fs_map_key_type = Some (trim k),
                   fs_map_value_type = Some (trim v), fs_description = None\<rparr>)
                  (parse_u32 (trim tag))
            | _ \<Rightarrow> None)
       | _ \<Rightarrow> None))"

definition parse_field_spec :: "string \<Rightarrow> FieldSpec option" where
  "parse_field_spec line =
     (let line = trim (trim_end_char CHR '';'' (trim line))
      in if line = [] then None
         else if starts_with ''map<'' line then spec_map_field line
         else let repeated = starts_with ''repeated '' line;
                  optional = \<not> repeated \<and> starts_with ''optional '' line;
                  rest = (if repeated then trim (trim_start_str ''repeated '' line)
                          else if optional then trim (trim_start_str ''optional '' line) else line)
              in case splitn 4 CHR 0x20 rest of
                   [proto_type, name, _, tag] \<Rightarrow>
                     map_option (\<lambda>t.
                       \<lparr>fs_name = name, fs_proto_type = proto_type, fs_tag = t, fs_repeated = repeated,
                        fs_optional = optional, fs_is_map = False, fs_map_key_type = None,
                        fs_map_value_type = None, fs_description = None\<rparr>)
                       (parse_u32 (trim tag))
                 | _ \<Rightarrow> None)"

fun spec_lines ::
  "string \<Rightarrow> FieldSpec list \<Rightarrow> string option \<Rightarrow> string list \<Rightarrow> string \<times> FieldSpec list" where
  "spec_lines name fs pending_doc [] = (name, fs)"
| "spec_lines name fs pending_doc (l # ls) =
     (let line = trim l
      in if starts_with ''message '' line \<and> ends_with ''{'' line
         then spec_lines (trim (trim_end_str '' {'' (trim_start_str ''message '' line))) fs pending_doc ls
         else if is_comment line
         then spec_lines name fs (Some (trim (trim_start_str ''//'' line))) ls
         else if line \<noteq> [] \<and> line \<noteq> ''}''
         then (case parse_field_spec line of
                 Some f \<Rightarrow>
                   (case pending_doc of
                      Some doc \<Rightarrow> spec_lines name (fs @ [f\<lparr>fs_description := Some doc\<rparr>]) None ls
                    | None \<Rightarrow> spec_lines name (fs @ [f]) None ls)
               | None \<Rightarrow> spec_lines name fs None ls)
         else spec_lines name fs pending_doc ls)"

declare spec_lines.simps [simp del]

definition parse_message_spec :: "string \<Rightarrow> MessageSpec" where
  "parse_message_spec definition' =
     (let r = spec_lines [] [] None (str_lines definition')
      in \<lparr>mg_name = fst r, mg_fields = snd r, mg_description = None\<rparr>)"

subsection \<open>The description of an API\<close>

text \<open>\<^verbatim>\<open>IndexMap::insert\<close>: an entry that is there keeps its place.\<close>

fun index_insert :: "'k \<Rightarrow> 'v \<Rightarrow> ('k \<times> 'v) list \<Rightarrow> ('k \<times> 'v) list" where
  "index_insert k v [] = [(k, v)]"
| "index_insert k v ((k', v') # m) = (if k' = k then (k, v) # m else (k', v') # index_insert k v m)"

definition method_spec_of :: "string \<Rightarrow> string \<Rightarrow> RpcMethod \<Rightarrow> MethodSpec" where
  "method_spec_of service_name package r =
     \<lparr>ms_name = rpc_name r,
      ms_full_path = ''/'' @ package @ ''.'' @ service_name @ ''/'' @ rpc_name r,
      ms_rest_path = rpc_path_pattern r, ms_http_method = rpc_http_method r,
      ms_request_type = request_type_name r,
      ms_response_type = mm_name (rpc_response_message r),
      ms_server_streaming = rpc_server_streaming r, ms_client_streaming = rpc_client_streaming r,
      ms_description = None, ms_summary = None, ms_tags = [], ms_requires_auth = False\<rparr>"

definition insert_message ::
  "ProtoMessage \<Rightarrow> (string \<times> MessageSpec) list \<Rightarrow> (string \<times> MessageSpec) list" where
  "insert_message m messages =
     (if map_of messages (mm_name m) = None
      then index_insert (mm_name m) (parse_message_spec (mm_definition m)) messages else messages)"

definition collect_messages_of ::
  "RpcMethod \<Rightarrow> (string \<times> MessageSpec) list \<Rightarrow> (string \<times> MessageSpec) list" where
  "collect_messages_of r messages =
     (let messages = (case rpc_request_message r of Some q \<Rightarrow> insert_message q messages | None \<Rightarrow> messages)
      in if mm_name (rpc_response_message r) \<noteq> empty_type
         then insert_message (rpc_response_message r) messages else messages)"

definition grpc_spec :: "string \<Rightarrow> string \<Rightarrow> RpcMethod list \<Rightarrow> GrpcServiceSpec" where
  "grpc_spec service_name package rpcs =
     \<lparr>sp_proto = generate_proto_file service_name package rpcs,
      sp_service = \<lparr>si_name = service_name, si_package = package,
        si_full_name = package @ ''.'' @ service_name, si_description = None, si_version = None\<rparr>,
      sp_methods =
        fold (\<lambda>r ms. index_insert (rpc_name r) (method_spec_of service_name package r) ms) rpcs [],
      sp_messages = fold collect_messages_of rpcs []\<rparr>"

record HandlerDoc =
  hd_operation_id :: string
  hd_summary :: string
  hd_description :: string
  hd_tags :: "string list"

definition apply_doc :: "HandlerDoc \<Rightarrow> MethodSpec \<Rightarrow> MethodSpec" where
  "apply_doc d m =
     (let m = (if hd_summary d \<noteq> [] then m\<lparr>ms_summary := Some (hd_summary d)\<rparr> else m);
          m = (if hd_description d \<noteq> [] then m\<lparr>ms_description := Some (hd_description d)\<rparr> else m)
      in m\<lparr>ms_tags := hd_tags d\<rparr>)"

definition document_method ::
  "(string \<Rightarrow> string) \<Rightarrow> HandlerDoc \<Rightarrow> (string \<times> MethodSpec) list \<Rightarrow> (string \<times> MethodSpec) list" where
  "document_method up d ms =
     map (\<lambda>(k, m). (k, if k = to_pascal_case up (hd_operation_id d) then apply_doc d m else m)) ms"

definition grpc_spec_with_docs ::
  "(string \<Rightarrow> string) \<Rightarrow> string \<Rightarrow> string \<Rightarrow> HandlerDoc list \<Rightarrow> RpcMethod list \<Rightarrow> GrpcServiceSpec" where
  "grpc_spec_with_docs up service_name package docs rpcs =
     (let spec = grpc_spec service_name package rpcs
      in spec\<lparr>sp_methods := fold (document_method up) docs (sp_methods spec)\<rparr>)"

subsection \<open>The parser of definitions\<close>

definition spec_field :: "ProtoField \<Rightarrow> FieldSpec" where
  "spec_field f =
     \<lparr>fs_name = fd_name f, fs_proto_type = (if fd_is_map f then ''map'' else fd_proto_type f),
      fs_tag = fd_tag f, fs_repeated = \<not> fd_is_map f \<and> fd_repeated f,
      fs_optional = \<not> fd_is_map f \<and> \<not> fd_repeated f \<and> fd_optional f, fs_is_map = fd_is_map f,
      fs_map_key_type = (if fd_is_map f then Some (or_string (fd_map_key_type f)) else None),
      fs_map_value_type = (if fd_is_map f then Some (or_string (fd_map_value_type f)) else None),
      fs_description = None\<rparr>"

lemma splitn_no: "c \<notin> set s \<Longrightarrow> splitn (Suc n) c s = [s]"
  by (cases n) (simp_all add: find_char_None [THEN iffD2])

lemma splitn_at: "c \<notin> set s \<Longrightarrow> splitn (Suc (Suc n)) c (s @ c # t) = s # splitn (Suc n) c t"
  by (simp add: find_char_append)

lemma starts_with_words:
  "CHR 0x20 \<notin> set v \<Longrightarrow> CHR 0x20 \<notin> set w \<Longrightarrow>
   starts_with (v @ [CHR 0x20]) (w @ CHR 0x20 # s) \<longleftrightarrow> v = w"
proof (induction v arbitrary: w)
  case (Cons c v)
  then show ?case by (cases w) (auto simp: starts_with_def)
next
  case Nil
  then show ?case by (cases w) (auto simp: starts_with_def)
qed

lemma spec_map_field_core:
  assumes "wf_field f" "fd_is_map f"
  shows "spec_map_field (field_core f) = Some (spec_field f)"
proof -
  let ?k = "or_string (fd_map_key_type f)" and ?v = "or_string (fd_map_value_type f)"
  let ?t = "dec (unat (fd_tag f))"
  let ?rest = "'' '' @ fd_name f @ '' = '' @ ?t"
  have k: "ident ?k" and v: "ident ?v" and n: "ident (fd_name f)"
    using assms by (auto simp: wf_field_def)
  have core: "field_core f = (''map<'' @ ?k @ '', '' @ ?v) @ CHR ''>'' # ?rest"
    using assms(2) by (simp add: field_core_def)
  have o': "find_char CHR ''<'' (field_core f) = Some 3" using core by simp
  have "CHR ''>'' \<notin> set (''map<'' @ ?k @ '', '' @ ?v)"
    using ident_chars(4) [OF k] ident_chars(4) [OF v] by auto
  from find_char_append [OF this, of ?rest]
  have c: "find_char CHR ''>'' (field_core f) = Some (length (''map<'' @ ?k @ '', '' @ ?v))"
    by (simp add: core)
  have inner: "drop (3 + 1) (take (length (''map<'' @ ?k @ '', '' @ ?v)) (field_core f)) = ?k @ CHR '','' # CHR 0x20 # ?v"
    by (simp add: core)
  have sp: "splitn 2 CHR '','' (?k @ CHR '','' # CHR 0x20 # ?v) = [?k, CHR 0x20 # ?v]"
    using splitn_at [OF ident_chars(5) [OF k], of 0 "CHR 0x20 # ?v"] by (simp add: numeral_2_eq_2)
  have rest: "drop (length (''map<'' @ ?k @ '', '' @ ?v) + 1) (field_core f) = ?rest"
    unfolding core by (simp only: drop_after)
  have tr: "trim ?rest = fd_name f @ CHR 0x20 # ''='' @ CHR 0x20 # ?t"
    using ident_hd(1) [OF n] ident_nonempty [OF n] ident_last(1) [OF ident_dec]
    by (simp add: trim_spaces trim_between)
  have sp3: "splitn 3 CHR 0x20 (trim ?rest) = [fd_name f, ''='', ?t]"
    unfolding tr numeral_3_eq_3 splitn_at [OF ident_chars(12) [OF n]]
    using splitn_at [of "CHR 0x20" "''=''" 0 ?t] by simp
  have kv: "trim ?k = ?k" "trim (CHR 0x20 # ?v) = ?v" "trim ?t = ?t"
    using trim_word [OF ident_word [OF k]] trim_word [OF ident_word [OF v]] trim_word [OF ident_word [OF ident_dec]]
    by (simp_all add: trim_spaces)
  show ?thesis
    unfolding spec_map_field_def o' c bind.bind_lunit inner sp rest sp3 Let_def list.case
    using assms(2) kv by (simp add: parse_u32_tag spec_field_def)
qed

lemma spec_plain_rest:
  assumes "ident a" "ident b"
  shows "splitn 4 CHR 0x20 (a @ '' '' @ b @ '' = '' @ dec n) = [a, b, ''='', dec n]"
proof -
  have "splitn (Suc (Suc (Suc (Suc 0)))) CHR 0x20 (a @ CHR 0x20 # b @ CHR 0x20 # ''='' @ CHR 0x20 # dec n) =
      [a, b, ''='', dec n]"
    unfolding splitn_at [OF ident_chars(12) [OF assms(1)]] splitn_at [OF ident_chars(12) [OF assms(2)]]
    using splitn_at [of "CHR 0x20" "''=''" 0 "dec n"] by simp
  then show ?thesis by (simp add: eval_nat_numeral)
qed

lemma parse_field_spec_core:
  assumes "wf_field f"
  shows "parse_field_spec (field_core f @ '';'') = Some (spec_field f)"
proof (cases "fd_is_map f")
  case True
  then have "starts_with ''map<'' (field_core f)" by (simp add: field_core_def starts_with_def)
  with True assms field_core_props(1) [OF assms] field_core_stripped(2) [OF assms]
    trim_field_line [OF assms]
  show ?thesis
    by (simp add: parse_field_spec_def spec_map_field_core field_line_core trim_spaces Let_def)
next
  case False
  let ?t = "dec (unat (fd_tag f))" and ?ty = "fd_proto_type f" and ?n = "fd_name f"
  let ?plain = "?ty @ '' '' @ ?n @ '' = '' @ ?t"
  have i: "ident ?ty" "ident ?n" and nk: "?ty \<noteq> ''repeated''" "?ty \<noteq> ''optional''"
    using assms False by (auto simp: wf_field_def)
  have "CHR ''<'' \<notin> set (field_core f)"
    using False ident_chars(3) [OF i(1)] ident_chars(3) [OF i(2)] ident_chars(3) [OF ident_dec]
    by (auto simp: field_core_def)
  then have m: "\<not> starts_with ''map<'' (field_core f)" by (simp add: starts_with_char [of "CHR ''<''"])
  have st: "starts_with (k @ [CHR 0x20]) (?plain) \<longleftrightarrow> k = ?ty" if "CHR 0x20 \<notin> set k" for k
    using starts_with_words [OF that ident_chars(12) [OF i(1)], of "?n @ '' = '' @ ?t"] by simp
  have pl: "\<not> starts_with ''repeated '' ?plain" "\<not> starts_with ''optional '' ?plain"
    using st [of "''repeated''"] st [of "''optional''"] nk by simp_all
  have tp: "trim ?plain = ?plain"
    using ident_hd(1) [OF i(1)] ident_nonempty [OF i(1)] ident_last(1) [OF ident_dec]
    by (intro trim_between) simp_all
  have once: "trim_start_str ''repeated '' (''repeated '' @ ?plain) = ?plain"
    "trim_start_str ''optional '' (''optional '' @ ?plain) = ?plain"
    by (rule trim_start_str_once, simp, rule pl(1)) (rule trim_start_str_once, simp, rule pl(2))
  have tt: "trim ?t = ?t" by (rule trim_word [OF ident_word [OF ident_dec]])
  have line: "trim (trim_end_char CHR '';'' (trim (field_core f @ '';''))) = field_core f"
    using field_core_stripped(2) [OF assms] trim_field_line [OF assms]
    by (simp add: field_line_core trim_spaces)
  consider (rep) "field_core f = ''repeated '' @ ?plain" "fd_repeated f"
    | (opt) "field_core f = ''optional '' @ ?plain" "\<not> fd_repeated f" "fd_optional f"
    | (plain) "field_core f = ?plain" "\<not> fd_repeated f" "\<not> fd_optional f"
    using False by (cases "fd_repeated f"; cases "fd_optional f") (simp_all add: field_core_def)
  then show ?thesis
  proof cases
    case rep
    then have "starts_with ''repeated '' (field_core f)" by (simp only: starts_with_append)
    then show ?thesis
      unfolding parse_field_spec_def line using m rep False once(1) tp field_core_props(1) [OF assms]
        spec_plain_rest [OF i] tt
      by (simp add: parse_u32_tag spec_field_def)
  next
    case opt
    then have "starts_with ''optional '' (field_core f)" "\<not> starts_with ''repeated '' (field_core f)"
      by (simp only: starts_with_append) (simp add: opt(1) starts_with_def)
    then show ?thesis
      unfolding parse_field_spec_def line using m opt False once(2) tp field_core_props(1) [OF assms]
        spec_plain_rest [OF i] tt
      by (simp add: parse_u32_tag spec_field_def)
  next
    case plain
    then show ?thesis
      unfolding parse_field_spec_def line using m pl False field_core_props(1) [OF assms]
        spec_plain_rest [OF i] tt
      by (simp add: parse_u32_tag spec_field_def)
  qed
qed

text \<open>Of the comment above a field the last line is kept.\<close>

definition comment_text :: "string \<Rightarrow> string" where
  "comment_text l = trim (trim_start_str ''//'' (trim (doc_comment l)))"

definition spec_doc :: "ProtoField \<Rightarrow> string option" where
  "spec_doc f =
     (case fd_doc f of
        None \<Rightarrow> None
      | Some d \<Rightarrow> if d = [] then None else Some (comment_text (last (str_lines d))))"

definition described_field :: "ProtoField \<Rightarrow> FieldSpec" where
  "described_field f = (spec_field f)\<lparr>fs_description := spec_doc f\<rparr>"

lemma spec_lines_comments:
  "spec_lines name fs p (map doc_comment ds @ ls) =
     spec_lines name fs (if ds = [] then p else Some (comment_text (last ds))) ls"
proof (induction ds arbitrary: p)
  case (Cons d ds)
  obtain u where u: "trim (doc_comment d) = ''//'' @ u" by (rule comment_line)
  have "\<not> starts_with ''message '' (trim (doc_comment d))" "is_comment (trim (doc_comment d))"
    by (simp_all add: u starts_with_def is_comment_def)
  then have "spec_lines name fs p (doc_comment d # map doc_comment ds @ ls) =
      spec_lines name fs (Some (comment_text d)) (map doc_comment ds @ ls)"
    by (simp add: spec_lines.simps comment_text_def)
  with Cons show ?case by simp
qed simp

lemma spec_lines_field:
  assumes "wf_field f"
  shows "spec_lines name fs p (field_line f # ls) =
    spec_lines name (fs @ [case p of Some d \<Rightarrow> (spec_field f)\<lparr>fs_description := Some d\<rparr>
                                   | None \<Rightarrow> spec_field f]) None ls"
proof -
  note p = field_core_props [OF assms]
  let ?l = "field_core f @ '';''"
  have "\<not> ends_with ''{'' ?l" by (simp add: ends_with_def)
  moreover have "\<not> is_comment ?l"
    using p(5) by (simp add: is_comment_def starts_with_char [of "CHR ''/''"])
  moreover have "?l \<noteq> ''}''" "?l \<noteq> []" using p(1) by (cases "field_core f"; simp)+
  ultimately show ?thesis
    by (simp add: spec_lines.simps trim_field_line [OF assms] parse_field_spec_core [OF assms] Let_def
        split: option.splits)
qed

lemma spec_lines_fields:
  "list_all wf_field fds \<Longrightarrow>
   spec_lines name fs None (concat (map (\<lambda>f. doc_lines f @ [field_line f]) fds) @ [''}'']) =
     (name, fs @ map described_field fds)"
proof (induction fds arbitrary: fs)
  case Nil
  have "trim ''}'' = ''}''" by (rule trim_between) (simp_all add: graphic_def)
  then show ?case by (simp add: spec_lines.simps starts_with_def is_comment_def)
next
  case (Cons f fds)
  have d: "doc_lines f = map doc_comment (case fd_doc f of None \<Rightarrow> [] | Some d \<Rightarrow> if d = [] then [] else str_lines d)"
    by (simp add: doc_lines_def split: option.splits)
  have n: "fs_description (spec_field f) = None" by (simp add: spec_field_def)
  show ?case
  proof (cases "spec_doc f")
    case None
    then have "described_field f = spec_field f" using n by (simp add: described_field_def)
    with Cons None show ?thesis
      by (auto simp: d spec_lines_comments spec_lines_field spec_doc_def split: option.splits if_splits)
  next
    case (Some t)
    with Cons show ?thesis
      by (auto simp: d spec_lines_comments spec_lines_field spec_doc_def described_field_def
          str_lines_nonempty split: option.splits if_splits)
  qed
qed

lemma message_lines_text:
  assumes "wf_message m"
  shows "str_lines (build_message (fst m) (snd m)) = message_lines (fst m) (snd m)"
proof -
  have "last (message_lines (fst m) (snd m)) = ''}''" by (simp add: message_lines_def)
  moreover have "message_lines (fst m) (snd m) \<noteq> []" by (simp add: message_lines_def)
  ultimately show ?thesis
    using line_text_message [OF assms] by (simp add: build_message_lines str_lines_join)
qed

lemma parse_message_spec_build:
  assumes "wf_message (n, fds)" "n \<noteq> ''message''"
  shows "parse_message_spec (build_message n fds) =
    \<lparr>mg_name = n, mg_fields = map described_field fds, mg_description = None\<rparr>"
proof -
  have n: "ident n" and w: "list_all wf_field fds" using assms(1) by (auto simp: wf_message_def)
  let ?h = "''message '' @ n @ '' {''"
  have t: "trim ?h = ?h" using block_name(1) [OF n keyword_ident(1)] by simp
  have "\<not> starts_with ''message '' (n @ '' {'')"
    using starts_with_words [of "''message''" n "''{''"] ident_chars(12) [OF n] assms(2) by auto
  then have s: "trim_start_str ''message '' ?h = n @ '' {''"
    using trim_start_str_once [of "''message ''"] by simp
  have "rev (trim_start_str ''{ '' (''{ '' @ rev n)) = n"
    using ident_last(2) [OF n] ident_chars(6) [OF n] ident_nonempty [OF n]
    by (subst trim_start_str_once) (auto simp: starts_with_iff rev_eq_append_conv)
  then have e: "trim (trim_end_str '' {'' (n @ '' {'')) = n"
    using trim_word [OF ident_word [OF n]] by (simp add: trim_end_str_def)
  have "spec_lines [] [] None (message_lines n fds) = (n, map described_field fds)"
    using t s e spec_lines_fields [OF w, of n "[]"]
    by (simp add: message_lines_def spec_lines.simps(2) starts_with_def ends_with_def)
  with message_lines_text [OF assms(1)] show ?thesis by (simp add: parse_message_spec_def)
qed

subsection \<open>The description agrees with the file\<close>

definition wf_proto_message :: "(string \<times> ProtoField list) list \<Rightarrow> ProtoMessage \<Rightarrow> bool" where
  "wf_proto_message msgs q \<longleftrightarrow>
     mm_name q = empty_type \<and> mm_definition q = [] \<or>
     mm_name q \<noteq> empty_type \<and> mm_name q \<noteq> ''message'' \<and>
     list_ex (\<lambda>m. fst m = mm_name q \<and> mm_definition q = build_message (fst m) (snd m)) msgs"

definition wf_messages_of :: "(string \<times> ProtoField list) list \<Rightarrow> RpcMethod \<Rightarrow> bool" where
  "wf_messages_of msgs r \<longleftrightarrow>
     (case rpc_request_message r of None \<Rightarrow> True
      | Some q \<Rightarrow> mm_name q \<noteq> empty_type \<and> wf_proto_message msgs q) \<and>
     wf_proto_message msgs (rpc_response_message r)"

lemma map_of_index_insert [simp]: "map_of (index_insert k v m) = (map_of m)(k \<mapsto> v)"
  by (induction k v m rule: index_insert.induct) auto

lemma set_index_insert: "e \<in> set (index_insert k v m) \<Longrightarrow> e = (k, v) \<or> e \<in> set m"
  by (induction k v m rule: index_insert.induct) (auto split: if_splits)

definition described :: "(string \<times> ProtoField list) list \<Rightarrow> string \<times> MessageSpec \<Rightarrow> bool" where
  "described msgs e \<longleftrightarrow>
     list_ex (\<lambda>m. fst m = fst e \<and> mg_fields (snd e) = map described_field (snd m)) msgs"

lemma insert_message_described:
  assumes "wf_proto_message msgs q" "mm_name q \<noteq> empty_type" "list_all wf_message msgs"
    "list_all (described msgs) ms"
  shows "list_all (described msgs) (insert_message q ms)" "map_of (insert_message q ms) (mm_name q) \<noteq> None"
    "map_of ms k \<noteq> None \<Longrightarrow> map_of (insert_message q ms) k \<noteq> None"
proof -
  obtain m where m: "m \<in> set msgs" "fst m = mm_name q" "mm_definition q = build_message (fst m) (snd m)"
    "mm_name q \<noteq> ''message''"
    using assms(1,2) by (auto simp: wf_proto_message_def list_ex_iff)
  have "wf_message (fst m, snd m)" using assms(3) m(1) by (simp add: list_all_iff)
  with m have "parse_message_spec (mm_definition q) =
      \<lparr>mg_name = fst m, mg_fields = map described_field (snd m), mg_description = None\<rparr>"
    by (simp add: parse_message_spec_build)
  with m have "described msgs (mm_name q, parse_message_spec (mm_definition q))"
    by (auto simp: described_def list_ex_iff)
  with assms(4) show "list_all (described msgs) (insert_message q ms)"
    by (auto simp: insert_message_def list_all_iff dest!: set_index_insert)
  show "map_of (insert_message q ms) (mm_name q) \<noteq> None"
    "map_of ms k \<noteq> None \<Longrightarrow> map_of (insert_message q ms) k \<noteq> None"
    by (auto simp: insert_message_def)
qed

lemma collect_messages_described:
  assumes "wf_messages_of msgs r" "list_all wf_message msgs" "list_all (described msgs) ms"
  shows "list_all (described msgs) (collect_messages_of r ms)"
    "t \<in> {request_type_name r, mm_name (rpc_response_message r)} \<Longrightarrow>
       t = empty_type \<or> map_of (collect_messages_of r ms) t \<noteq> None"
    "map_of ms k \<noteq> None \<Longrightarrow> map_of (collect_messages_of r ms) k \<noteq> None"
proof -
  let ?ms = "case rpc_request_message r of Some q \<Rightarrow> insert_message q ms | None \<Rightarrow> ms"
  let ?res = "rpc_response_message r"
  have q: "list_all (described msgs) ?ms"
    "request_type_name r = empty_type \<or> map_of ?ms (request_type_name r) \<noteq> None"
    "map_of ms k \<noteq> None \<Longrightarrow> map_of ?ms k \<noteq> None" for k
    using assms insert_message_described [of msgs _ ms]
    by (auto simp: wf_messages_of_def request_type_name_def empty_type_def split: option.splits)
  have w: "wf_proto_message msgs ?res" using assms(1) by (simp add: wf_messages_of_def)
  note res = insert_message_described [OF w _ assms(2) q(1)]
  show "list_all (described msgs) (collect_messages_of r ms)"
    using q(1) res(1) by (simp add: collect_messages_of_def Let_def)
  show "t = empty_type \<or> map_of (collect_messages_of r ms) t \<noteq> None"
    if "t \<in> {request_type_name r, mm_name ?res}"
    using that q(2) res(2) res(3) [of t] by (auto simp: collect_messages_of_def Let_def)
  show "map_of (collect_messages_of r ms) k \<noteq> None" if "map_of ms k \<noteq> None"
    using q(3) [OF that] res(3) by (auto simp: collect_messages_of_def Let_def)
qed

definition types_known :: "(string \<times> MessageSpec) list \<Rightarrow> RpcMethod \<Rightarrow> bool" where
  "types_known ms r \<longleftrightarrow>
     (\<forall>t \<in> {request_type_name r, mm_name (rpc_response_message r)}. t = empty_type \<or> map_of ms t \<noteq> None)"

lemma fold_collect:
  assumes "list_all wf_message msgs"
  shows "list_all (wf_messages_of msgs) rpcs \<Longrightarrow> list_all (described msgs) ms \<Longrightarrow>
    list_all (described msgs) (fold collect_messages_of rpcs ms)"
    and "list_all (wf_messages_of msgs) rpcs \<Longrightarrow> list_all (described msgs) ms \<Longrightarrow> map_of ms k \<noteq> None \<Longrightarrow>
      map_of (fold collect_messages_of rpcs ms) k \<noteq> None"
    and "list_all (wf_messages_of msgs) rpcs \<Longrightarrow> list_all (described msgs) ms \<Longrightarrow>
      list_all (types_known (fold collect_messages_of rpcs ms)) rpcs"
proof -
  note c = collect_messages_described [OF _ assms]
  show d: "list_all (wf_messages_of msgs) rpcs \<Longrightarrow> list_all (described msgs) ms \<Longrightarrow>
    list_all (described msgs) (fold collect_messages_of rpcs ms)" for rpcs ms
    by (induction rpcs arbitrary: ms) (simp_all add: c(1))
  show k: "list_all (wf_messages_of msgs) rpcs \<Longrightarrow> list_all (described msgs) ms \<Longrightarrow> map_of ms k \<noteq> None \<Longrightarrow>
      map_of (fold collect_messages_of rpcs ms) k \<noteq> None" for rpcs ms k
  proof (induction rpcs arbitrary: ms)
    case (Cons r rpcs)
    from Cons.prems have w: "wf_messages_of msgs r" "list_all (wf_messages_of msgs) rpcs" by simp_all
    from Cons.IH [OF w(2) c(1) [OF w(1) Cons.prems(2)] c(3) [OF w(1) Cons.prems(2,3)]]
    show ?case by simp
  qed simp
  show "list_all (wf_messages_of msgs) rpcs \<Longrightarrow> list_all (described msgs) ms \<Longrightarrow>
      list_all (types_known (fold collect_messages_of rpcs ms)) rpcs"
  proof (induction rpcs arbitrary: ms)
    case (Cons r rpcs)
    from Cons.prems have w: "wf_messages_of msgs r" "list_all (wf_messages_of msgs) rpcs" by simp_all
    note n = c(1) [OF w(1) Cons.prems(2)]
    have "types_known (fold collect_messages_of rpcs (collect_messages_of r ms)) r"
      unfolding types_known_def using c(2) [OF w(1) Cons.prems(2)] k [OF w(2) n] by blast
    with Cons.IH [OF w(2) n] show ?case by simp
  qed simp
qed

lemma method_entries:
  "(k, ms) \<in> set (fold (\<lambda>r ms. index_insert (rpc_name r) (method_spec_of s p r) ms) rpcs acc) \<Longrightarrow>
   (k, ms) \<in> set acc \<or> (\<exists>r \<in> set rpcs. ms = method_spec_of s p r \<and> k = rpc_name r)"
  by (induction rpcs arbitrary: acc) (auto dest!: set_index_insert)

text \<open>The parser of the file and the parser of the definitions read the same field.\<close>

definition same_field :: "ParsedField \<Rightarrow> FieldSpec \<Rightarrow> bool" where
  "same_field p f \<longleftrightarrow>
     pa_name p = fs_name f \<and> pa_tag p = fs_tag f \<and> pa_repeated p = fs_repeated f \<and>
     pa_optional p = fs_optional f \<and> pa_is_map p = fs_is_map f \<and>
     pa_map_key_type p = fs_map_key_type f \<and> pa_map_value_type p = fs_map_value_type f \<and>
     (if pa_is_map p then fs_proto_type f = ''map'' else pa_proto_type p = fs_proto_type f)"

lemma same_described: "same_field (parsed_field f) (described_field f)"
  by (simp add: same_field_def parsed_field_def described_field_def spec_field_def)



subsection \<open>What is lost\<close>

text \<open>The description gives a handler that answers a list of messages a method with a single
  message as its response, and the encoder writes a JSON array as the empty message: the answer
  of such a method over binary protobuf has none of the data.\<close>

theorem list_response_lost:
  "pt_is_message t \<Longrightarrow>
   mm_name (build_response_message (vec_type t) n) = pt_name t \<and>
   json_to_proto_binary env (JArr xs) fds = Ok []"
  by (simp add: build_response_message_def vec_type_def scalar_type_def Let_def json_to_proto_binary.simps)

theorem list_response_lost_witness:
  "mm_name (build_response_message (vec_type ((scalar_type ''User'')\<lparr>pt_is_message := True\<rparr>)) ''ListUser'') = ''User'' \<and>
   (\<forall>env. json_to_proto_binary env (JArr [JNull, JNull]) [] = Ok [])"
  using list_response_lost [of "(scalar_type ''User'')\<lparr>pt_is_message := True\<rparr>" "''ListUser''" _ "[JNull, JNull]" "[]"]
  by (simp add: scalar_type_def)

text \<open>Two methods that update the same resource share one entry of the description.\<close>

lemma put_patch_one_method:
  "map fst (sp_methods (grpc_spec s p
     [to_rpc_with_body up ''PUT'' path b1 r1, to_rpc_with_body up ''PATCH'' path b2 r2])) =
   [path_to_rpc_name up ''PUT'' path]"
  by (simp add: grpc_spec_def to_rpc_with_body_def put_patch_same_name Let_def)

end
