(* ===== verification/Derive_Codec.thy ===== *)
theory Derive_Codec
  imports Tw_Varint Le_Bytes Json_Value
begin

text \<open>
  The protobuf codec that \<^verbatim>\<open>#[derive(TypewayCodec)]\<close> generates
  (\<^verbatim>\<open>typeway-macros/src/lib.rs\<close>): what the code that the macro emits for a struct,
  a fieldless enum and a oneof enum does. The macro dispatches on the kind of a field at compile
  time; here the same dispatch is a function of the kind. The codec of a nested message, which the
  generated code finds through its traits, is a record of functions in the type of the field. The
  writers act on the allocation of the vector, so that undefined behaviour is \<open>None\<close>.
\<close>

subsection \<open>Values, types and kinds\<close>

datatype val =
    VU32 u32 | VU64 u64 | VI32 i32 | VI64 i64
  | VBool bool
  | VF32 u32 | VF64 u64
  | VStr bytes
  | VBytes bytes
  | VOpt "val option"
  | VVec "val list"
  | VMsg "val list"
  | VVariant nat
  | VOneof nat val

type_synonym writer = "raw_vec \<Rightarrow> raw_vec option"

record codec =
  cd_len :: "val \<Rightarrow> nat"
  cd_encode :: "val \<Rightarrow> writer"
  cd_decode :: "bytes \<Rightarrow> (val, TypewayDecodeError) result"
  cd_default :: val

text \<open>\<^verbatim>\<open>u8\<close> only occurs as the element of \<^verbatim>\<open>Vec<u8>\<close>.\<close>

datatype rust_type =
    TU32 | TU64 | TI32 | TI64 | TBool | TF32 | TF64 | TString | TBytesStr | TU8
  | TOption rust_type
  | TVec rust_type
  | TMsg codec

datatype CodecKind =
    KVarint | KBool | KFixed32 | KFixed64 | KLenString | KLenBytesStr | KLenBytes
  | KOptional CodecKind
  | KRepeated CodecKind
  | KMessage | KOptionalMessage | KRepeatedMessage

fun classify_scalar :: "rust_type \<Rightarrow> CodecKind" where
  "classify_scalar TU32 = KVarint"
| "classify_scalar TU64 = KVarint"
| "classify_scalar TI32 = KVarint"
| "classify_scalar TI64 = KVarint"
| "classify_scalar TBool = KBool"
| "classify_scalar TF32 = KFixed32"
| "classify_scalar TF64 = KFixed64"
| "classify_scalar TString = KLenString"
| "classify_scalar TBytesStr = KLenBytesStr"
| "classify_scalar _ = KMessage"

fun classify_type :: "rust_type \<Rightarrow> CodecKind" where
  "classify_type (TOption inner) =
     (case classify_type inner of KMessage \<Rightarrow> KOptionalMessage | k \<Rightarrow> KOptional k)"
| "classify_type (TVec TU8) = KLenBytes"
| "classify_type (TVec inner) =
     (case classify_type inner of KMessage \<Rightarrow> KRepeatedMessage | k \<Rightarrow> KRepeated k)"
| "classify_type ty = classify_scalar ty"

fun wire_type_for_kind :: "CodecKind \<Rightarrow> u8" where
  "wire_type_for_kind KVarint = 0"
| "wire_type_for_kind KBool = 0"
| "wire_type_for_kind KFixed64 = 1"
| "wire_type_for_kind KLenString = 2"
| "wire_type_for_kind KLenBytesStr = 2"
| "wire_type_for_kind KLenBytes = 2"
| "wire_type_for_kind KMessage = 2"
| "wire_type_for_kind KFixed32 = 5"
| "wire_type_for_kind (KOptional inner) = wire_type_for_kind inner"
| "wire_type_for_kind (KRepeated inner) = wire_type_for_kind inner"
| "wire_type_for_kind KOptionalMessage = 2"
| "wire_type_for_kind KRepeatedMessage = 2"

fun is_packable :: "CodecKind \<Rightarrow> bool" where
  "is_packable KVarint = True"
| "is_packable KBool = True"
| "is_packable KFixed32 = True"
| "is_packable KFixed64 = True"
| "is_packable _ = False"

text \<open>The element type, and the codec that the traits resolve to.\<close>

fun element_type :: "rust_type \<Rightarrow> rust_type" where
  "element_type (TOption t) = element_type t"
| "element_type (TVec t) = element_type t"
| "element_type t = t"

fun nested_codec :: "rust_type \<Rightarrow> codec" where
  "nested_codec (TOption t) = nested_codec t"
| "nested_codec (TVec t) = nested_codec t"
| "nested_codec (TMsg c) = c"
| "nested_codec _ = \<lparr>cd_len = \<lambda>_. 0, cd_encode = \<lambda>_. Some, cd_decode = \<lambda>_. Panic, cd_default = VMsg []\<rparr>"

record codec_field =
  cf_ident :: string
  cf_type :: rust_type
  cf_tag :: u32

definition cf_kind :: "codec_field \<Rightarrow> CodecKind" where
  "cf_kind f = classify_type (cf_type f)"

fun type_default :: "rust_type \<Rightarrow> val" where
  "type_default TU32 = VU32 0"
| "type_default TU64 = VU64 0"
| "type_default TI32 = VI32 0"
| "type_default TI64 = VI64 0"
| "type_default TBool = VBool False"
| "type_default TF32 = VF32 0"
| "type_default TF64 = VF64 0"
| "type_default TString = VStr []"
| "type_default TBytesStr = VStr []"
| "type_default TU8 = VU32 0"
| "type_default (TOption t) = VOpt None"
| "type_default (TVec TU8) = VBytes []"
| "type_default (TVec t) = VVec []"
| "type_default (TMsg c) = cd_default c"

text \<open>\<^verbatim>\<open>as u64\<close> (a signed number is sign-extended) and \<^verbatim>\<open>as _\<close>.\<close>

fun int_as_u64 :: "val \<Rightarrow> u64" where
  "int_as_u64 (VU32 w) = ucast w"
| "int_as_u64 (VU64 w) = w"
| "int_as_u64 (VI32 w) = scast w"
| "int_as_u64 (VI64 w) = w"
| "int_as_u64 _ = 0"

fun int_of_u64 :: "rust_type \<Rightarrow> u64 \<Rightarrow> val" where
  "int_of_u64 TU32 v = VU32 (ucast v)"
| "int_of_u64 TI32 v = VI32 (ucast v)"
| "int_of_u64 TI64 v = VI64 v"
| "int_of_u64 _ v = VU64 v"

fun val_bytes :: "val \<Rightarrow> bytes" where
  "val_bytes (VStr bs) = bs"
| "val_bytes (VBytes bs) = bs"
| "val_bytes _ = []"

fun f_bytes :: "val \<Rightarrow> bytes" where
  "f_bytes (VF32 w) = le_bytes32 w"
| "f_bytes (VF64 w) = le_bytes64 w"
| "f_bytes _ = []"

text \<open>\<^verbatim>\<open>x != 0.0\<close>: both zeros are equal to it, no NaN is.\<close>

fun f_nonzero :: "val \<Rightarrow> bool" where
  "f_nonzero (VF32 w) = (w AND 0x7FFFFFFF \<noteq> 0)"
| "f_nonzero (VF64 w) = (w AND 0x7FFFFFFFFFFFFFFF \<noteq> 0)"
| "f_nonzero _ = False"

fun val_true :: "val \<Rightarrow> bool" where
  "val_true (VBool b) = b"
| "val_true _ = False"

fun val_items :: "val \<Rightarrow> val list" where
  "val_items (VVec vs) = vs"
| "val_items (VOpt (Some v)) = [v]"
| "val_items _ = []"

subsection \<open>Writers\<close>

fun do_all :: "writer list \<Rightarrow> writer" where
  "do_all [] b = Some b"
| "do_all (w # ws) b = Option.bind (w b) (do_all ws)"

definition w_push :: "u8 \<Rightarrow> writer" where
  "w_push x b = Some (rv_push x b)"

definition w_varint :: "u64 \<Rightarrow> writer" where
  "w_varint v b = tw_encode_varint b v"

text \<open>\<^verbatim>\<open>extend_from_slice\<close>.\<close>

definition rv_extend :: "bytes \<Rightarrow> raw_vec \<Rightarrow> raw_vec" where
  "rv_extend bs b =
     (let b' = rv_reserve (length bs) b
      in b'\<lparr>rv_mem := take (rv_len b') (rv_mem b') @ bs @ drop (rv_len b' + length bs) (rv_mem b'),
            rv_len := rv_len b' + length bs\<rparr>)"

definition w_extend :: "bytes \<Rightarrow> writer" where
  "w_extend bs b = Some (rv_extend bs b)"

definition precompute_tag_byte :: "u32 \<Rightarrow> u8 \<Rightarrow> u8" where
  "precompute_tag_byte field_number wire_type = ucast (push_bit 3 field_number OR ucast wire_type)"

definition emit_tag_push :: "u32 \<Rightarrow> u8 \<Rightarrow> writer" where
  "emit_tag_push tag wt =
     (if tag < 16 then w_push (precompute_tag_byte tag wt) else (\<lambda>b. tw_encode_tag b tag wt))"

definition w_delimited :: "bytes \<Rightarrow> writer" where
  "w_delimited bs = do_all [w_varint (word_of_nat (length bs)), w_extend bs]"

text \<open>
  \<^verbatim>\<open>TypewayEncode::encode_to_vec\<close>, and a nested message written with its tag and
  length.
\<close>

definition encode_to_vec :: "codec \<Rightarrow> val \<Rightarrow> bytes option" where
  "encode_to_vec c v =
     map_option rv_bytes (cd_encode c v \<lparr>rv_mem = replicate (cd_len c v) 0, rv_len = 0\<rparr>)"

definition w_nested :: "u32 \<Rightarrow> codec \<Rightarrow> val \<Rightarrow> writer" where
  "w_nested tag c v b =
     Option.bind (encode_to_vec c v) (\<lambda>nested. do_all [emit_tag_push tag 2, w_delimited nested] b)"

text \<open>The batch write of packed varints: room for ten bytes each, one \<^verbatim>\<open>set_len\<close>.\<close>

fun write_varints :: "bytes \<Rightarrow> nat \<Rightarrow> u64 list \<Rightarrow> (bytes \<times> nat) option" where
  "write_varints mem pos [] = Some (mem, pos)"
| "write_varints mem pos (v # vs) =
     (case tw_write_varint mem pos v of
        None \<Rightarrow> None
      | Some (mem', pos') \<Rightarrow> write_varints mem' pos' vs)"

definition w_packed_varints :: "u64 list \<Rightarrow> writer" where
  "w_packed_varints vs b =
     (let len_pos = rv_len b;
          b1 = rv_push 0 b;
          data_start = rv_len b1;
          b2 = rv_reserve (length vs * 10) b1
      in case write_varints (rv_mem b2) data_start vs of
           None \<Rightarrow> None
         | Some (mem, pos) \<Rightarrow>
             (let packed_len = pos - data_start
              in if packed_len < 0x80
                 then Some \<lparr>rv_mem = mem[len_pos := word_of_nat packed_len], rv_len = pos\<rparr>
                 else do_all [w_varint (word_of_nat packed_len), w_extend (drop data_start (take pos mem))]
                        \<lparr>rv_mem = mem, rv_len = len_pos\<rparr>))"

fun packed_item_bytes :: "CodecKind \<Rightarrow> val \<Rightarrow> bytes" where
  "packed_item_bytes KBool v = [if val_true v then 1 else 0]"
| "packed_item_bytes KFixed32 v = f_bytes v"
| "packed_item_bytes KFixed64 v = f_bytes v"
| "packed_item_bytes _ v = []"

fun packed_item_size :: "CodecKind \<Rightarrow> nat" where
  "packed_item_size KBool = 1"
| "packed_item_size KFixed32 = 4"
| "packed_item_size KFixed64 = 8"
| "packed_item_size _ = 0"

fun gen_encode_optional_inner :: "u32 \<Rightarrow> u8 \<Rightarrow> CodecKind \<Rightarrow> val \<Rightarrow> writer" where
  "gen_encode_optional_inner tag wt KVarint v = do_all [emit_tag_push tag wt, w_varint (int_as_u64 v)]"
| "gen_encode_optional_inner tag wt KBool v =
     do_all [emit_tag_push tag wt, w_push (if val_true v then 1 else 0)]"
| "gen_encode_optional_inner tag wt KFixed32 v = do_all [emit_tag_push tag wt, w_extend (f_bytes v)]"
| "gen_encode_optional_inner tag wt KFixed64 v = do_all [emit_tag_push tag wt, w_extend (f_bytes v)]"
| "gen_encode_optional_inner tag wt KLenString v = do_all [emit_tag_push tag wt, w_delimited (val_bytes v)]"
| "gen_encode_optional_inner tag wt KLenBytesStr v = do_all [emit_tag_push tag wt, w_delimited (val_bytes v)]"
| "gen_encode_optional_inner tag wt KLenBytes v = do_all [emit_tag_push tag wt, w_delimited (val_bytes v)]"
| "gen_encode_optional_inner tag wt _ v = Some"

fun gen_encode_repeated_item :: "u32 \<Rightarrow> u8 \<Rightarrow> CodecKind \<Rightarrow> val \<Rightarrow> writer" where
  "gen_encode_repeated_item tag wt KVarint v = do_all [emit_tag_push tag wt, w_varint (int_as_u64 v)]"
| "gen_encode_repeated_item tag wt KFixed32 v = do_all [emit_tag_push tag wt, w_extend (f_bytes v)]"
| "gen_encode_repeated_item tag wt KFixed64 v = do_all [emit_tag_push tag wt, w_extend (f_bytes v)]"
| "gen_encode_repeated_item tag wt KLenString v = do_all [emit_tag_push tag wt, w_delimited (val_bytes v)]"
| "gen_encode_repeated_item tag wt KLenBytesStr v = do_all [emit_tag_push tag wt, w_delimited (val_bytes v)]"
| "gen_encode_repeated_item tag wt _ v = Some"

definition gen_encode_field :: "codec_field \<Rightarrow> val \<Rightarrow> writer" where
  "gen_encode_field f v =
     (let tag = cf_tag f; wt = wire_type_for_kind (cf_kind f); c = nested_codec (cf_type f)
      in case cf_kind f of
           KVarint \<Rightarrow>
             (if int_as_u64 v \<noteq> 0 then do_all [emit_tag_push tag wt, w_varint (int_as_u64 v)] else Some)
         | KBool \<Rightarrow> (if val_true v then w_extend [precompute_tag_byte tag wt, 1] else Some)
         | KFixed32 \<Rightarrow> (if f_nonzero v then do_all [emit_tag_push tag wt, w_extend (f_bytes v)] else Some)
         | KFixed64 \<Rightarrow> (if f_nonzero v then do_all [emit_tag_push tag wt, w_extend (f_bytes v)] else Some)
         | KLenString \<Rightarrow>
             (if val_bytes v \<noteq> [] then do_all [emit_tag_push tag wt, w_delimited (val_bytes v)] else Some)
         | KLenBytesStr \<Rightarrow>
             (if val_bytes v \<noteq> [] then do_all [emit_tag_push tag wt, w_delimited (val_bytes v)] else Some)
         | KLenBytes \<Rightarrow>
             (if val_bytes v \<noteq> [] then do_all [emit_tag_push tag wt, w_delimited (val_bytes v)] else Some)
         | KMessage \<Rightarrow>
             (\<lambda>b. Option.bind (encode_to_vec c v) (\<lambda>nested.
                if nested \<noteq> [] then do_all [emit_tag_push tag wt, w_delimited nested] b else Some b))
         | KOptional inner \<Rightarrow> do_all (map (gen_encode_optional_inner tag wt inner) (val_items v))
         | KOptionalMessage \<Rightarrow> do_all (map (w_nested tag c) (val_items v))
         | KRepeated inner \<Rightarrow>
             (if is_packable inner then
                (if val_items v = [] then Some
                 else if inner = KVarint
                 then do_all [emit_tag_push tag 2, w_packed_varints (map int_as_u64 (val_items v))]
                 else do_all [emit_tag_push tag 2,
                        w_varint (word_of_nat (length (val_items v) * packed_item_size inner)),
                        w_extend (concat (map (packed_item_bytes inner) (val_items v)))])
              else do_all (map (gen_encode_repeated_item tag wt inner) (val_items v)))
         | KRepeatedMessage \<Rightarrow> do_all (map (w_nested tag c) (val_items v)))"

fun msg_fields :: "val \<Rightarrow> val list" where
  "msg_fields (VMsg vs) = vs"
| "msg_fields _ = []"

definition struct_encode_to :: "codec_field list \<Rightarrow> val \<Rightarrow> writer" where
  "struct_encode_to fs v = do_all (map2 gen_encode_field fs (msg_fields v))"

subsection \<open>Lengths\<close>

definition tag_byte_count :: "u32 \<Rightarrow> nat" where
  "tag_byte_count tag = (if tag < 16 then 1 else if tag < 2048 then 2 else 3)"

definition delimited_len :: "nat \<Rightarrow> nat" where
  "delimited_len n = tw_varint_len (word_of_nat n) + n"

fun gen_encoded_len_optional_inner :: "u32 \<Rightarrow> CodecKind \<Rightarrow> val \<Rightarrow> nat" where
  "gen_encoded_len_optional_inner tag KVarint v = tag_byte_count tag + tw_varint_len (int_as_u64 v)"
| "gen_encoded_len_optional_inner tag KBool v = tag_byte_count tag + 1"
| "gen_encoded_len_optional_inner tag KFixed32 v = tag_byte_count tag + 4"
| "gen_encoded_len_optional_inner tag KFixed64 v = tag_byte_count tag + 8"
| "gen_encoded_len_optional_inner tag KLenString v = tag_byte_count tag + delimited_len (length (val_bytes v))"
| "gen_encoded_len_optional_inner tag KLenBytesStr v = tag_byte_count tag + delimited_len (length (val_bytes v))"
| "gen_encoded_len_optional_inner tag _ v = 0"

fun gen_encoded_len_repeated_item :: "u32 \<Rightarrow> CodecKind \<Rightarrow> val \<Rightarrow> nat" where
  "gen_encoded_len_repeated_item tag KVarint v = tag_byte_count tag + tw_varint_len (int_as_u64 v)"
| "gen_encoded_len_repeated_item tag KFixed32 v = tag_byte_count tag + 4"
| "gen_encoded_len_repeated_item tag KFixed64 v = tag_byte_count tag + 8"
| "gen_encoded_len_repeated_item tag KLenString v = tag_byte_count tag + delimited_len (length (val_bytes v))"
| "gen_encoded_len_repeated_item tag KLenBytesStr v = tag_byte_count tag + delimited_len (length (val_bytes v))"
| "gen_encoded_len_repeated_item tag _ v = 0"

fun gen_packed_item_len :: "CodecKind \<Rightarrow> val \<Rightarrow> nat" where
  "gen_packed_item_len KVarint v = tw_varint_len (int_as_u64 v)"
| "gen_packed_item_len KBool v = 1"
| "gen_packed_item_len KFixed32 v = 4"
| "gen_packed_item_len KFixed64 v = 8"
| "gen_packed_item_len _ v = 0"

definition gen_encoded_len_field :: "codec_field \<Rightarrow> val \<Rightarrow> nat" where
  "gen_encoded_len_field f v =
     (let tag = cf_tag f; tl = tag_byte_count tag; c = nested_codec (cf_type f)
      in case cf_kind f of
           KVarint \<Rightarrow> (if int_as_u64 v \<noteq> 0 then tl + tw_varint_len (int_as_u64 v) else 0)
         | KBool \<Rightarrow> (if val_true v then tl + 1 else 0)
         | KFixed32 \<Rightarrow> (if f_nonzero v then tl + 4 else 0)
         | KFixed64 \<Rightarrow> (if f_nonzero v then tl + 8 else 0)
         | KLenString \<Rightarrow> (if val_bytes v \<noteq> [] then tl + delimited_len (length (val_bytes v)) else 0)
         | KLenBytesStr \<Rightarrow> (if val_bytes v \<noteq> [] then tl + delimited_len (length (val_bytes v)) else 0)
         | KLenBytes \<Rightarrow> (if val_bytes v \<noteq> [] then tl + delimited_len (length (val_bytes v)) else 0)
         | KMessage \<Rightarrow> (if 0 < cd_len c v then tl + delimited_len (cd_len c v) else 0)
         | KOptional inner \<Rightarrow> sum_list (map (gen_encoded_len_optional_inner tag inner) (val_items v))
         | KOptionalMessage \<Rightarrow> sum_list (map (\<lambda>x. tl + delimited_len (cd_len c x)) (val_items v))
         | KRepeated inner \<Rightarrow>
             (if is_packable inner then
                (if val_items v = [] then 0
                 else tl + delimited_len (sum_list (map (gen_packed_item_len inner) (val_items v))))
              else sum_list (map (gen_encoded_len_repeated_item tag inner) (val_items v)))
         | KRepeatedMessage \<Rightarrow> sum_list (map (\<lambda>x. tl + delimited_len (cd_len c x)) (val_items v)))"

definition struct_encoded_len :: "codec_field list \<Rightarrow> val \<Rightarrow> nat" where
  "struct_encoded_len fs v = sum_list (map2 gen_encoded_len_field fs (msg_fields v))"

subsection \<open>Reading\<close>

text \<open>
  A position past the input would panic in the slice. The sum of a position and a length is
  64-bit, and a sum that wraps to a position before the start of the slice panics too.
\<close>

definition read_varint :: "bytes \<Rightarrow> nat \<Rightarrow> (u64 \<times> nat, TypewayDecodeError) result" where
  "read_varint bs off =
     (if length bs < off then Panic
      else result_map (\<lambda>(v, consumed). (v, off + consumed)) (tw_decode_varint (drop off bs)))"

definition read_delimited :: "bytes \<Rightarrow> nat \<Rightarrow> (bytes \<times> nat, TypewayDecodeError) result" where
  "read_delimited bs off =
     and_then (read_varint bs off) (\<lambda>(len, off).
       let e = unat (word_of_nat off + len :: usize)
       in if length bs < e then Err UnexpectedEof
          else if e < off then Panic
          else Ok (drop off (take e bs), e))"

definition read_str :: "string \<Rightarrow> bytes \<Rightarrow> nat \<Rightarrow> (val \<times> nat, TypewayDecodeError) result" where
  "read_str ident bs off =
     and_then (read_delimited bs off) (\<lambda>(s, off).
       if utf8_valid s then Ok (VStr s, off) else Err (InvalidUtf8 ident))"

definition read_fixed32 :: "bytes \<Rightarrow> nat \<Rightarrow> (val \<times> nat, TypewayDecodeError) result" where
  "read_fixed32 bs off =
     (if length bs < off + 4 then Err UnexpectedEof
      else Ok (VF32 (from_le32 (take 4 (drop off bs))), off + 4))"

definition read_fixed64 :: "bytes \<Rightarrow> nat \<Rightarrow> (val \<times> nat, TypewayDecodeError) result" where
  "read_fixed64 bs off =
     (if length bs < off + 8 then Err UnexpectedEof
      else Ok (VF64 (from_le64 (take 8 (drop off bs))), off + 8))"

definition read_message :: "codec \<Rightarrow> bytes \<Rightarrow> nat \<Rightarrow> (val \<times> nat, TypewayDecodeError) result" where
  "read_message c bs off =
     and_then (read_delimited bs off) (\<lambda>(m, off).
       result_map (\<lambda>v. (v, off)) (cd_decode c m))"

definition skip_field :: "bytes \<Rightarrow> nat \<Rightarrow> u8 \<Rightarrow> (nat, TypewayDecodeError) result" where
  "skip_field bs off wire_type =
     (if length bs < off then Panic
      else result_map (\<lambda>skipped. off + skipped) (tw_skip_wire_value (drop off bs) wire_type))"

text \<open>\<^verbatim>\<open>val as f32\<close> and \<^verbatim>\<open>val as f64\<close> for a \<^verbatim>\<open>u64\<close>.\<close>

definition u64_to_f32 :: "u64 \<Rightarrow> u32" where
  "u64_to_f32 v =
     (let n = unat v; k = ilog2 n;
          sig = (if k \<le> 23 then n * 2 ^ (23 - k) else round_even n (k - 23))
      in if n = 0 then 0 else word_of_nat ((k + 126) * 2 ^ 23 + sig))"

fun scalar_of_u64 :: "rust_type \<Rightarrow> u64 \<Rightarrow> val" where
  "scalar_of_u64 TBool v = VBool (v \<noteq> 0)"
| "scalar_of_u64 TF32 v = VF32 (u64_to_f32 v)"
| "scalar_of_u64 TF64 v = VF64 (u64_to_f64 v)"
| "scalar_of_u64 ty v = int_of_u64 ty v"

definition read_scalar :: "rust_type \<Rightarrow> bytes \<Rightarrow> nat \<Rightarrow> (val \<times> nat, TypewayDecodeError) result" where
  "read_scalar ty bs off = result_map (\<lambda>(v, off). (scalar_of_u64 ty v, off)) (read_varint bs off)"

lemma read_varint_bounds:
  "read_varint bs off = Ok (v, off') \<Longrightarrow> off < off' \<and> off' \<le> length bs"
  by (auto simp: read_varint_def tw_decode_varint_eq result_simps dest: varint_read_bounds split: if_splits)

lemma read_delimited_bounds:
  "read_delimited bs off = Ok (s, off') \<Longrightarrow> off < off' \<and> off' \<le> length bs"
  by (auto simp: read_delimited_def result_simps Let_def split: if_splits dest!: read_varint_bounds)

text \<open>The elements of a packed field of varints, with the path for one byte.\<close>

function packed_varints :: "rust_type \<Rightarrow> bytes \<Rightarrow> nat \<Rightarrow> nat \<Rightarrow> val list \<Rightarrow> (val list \<times> nat, TypewayDecodeError) result" where
  "packed_varints ty bs off packed_end acc =
     (if off < packed_end then
        (if length bs \<le> off then Panic
         else if bs ! off < 0x80
         then packed_varints ty bs (off + 1) packed_end (acc @ [scalar_of_u64 ty (ucast (bs ! off))])
         else and_then (read_varint bs off) (\<lambda>(v, off).
                packed_varints ty bs off packed_end (acc @ [scalar_of_u64 ty v])))
      else Ok (acc, off))"
  by pat_completeness auto
termination
  by (relation "measure (\<lambda>(ty, bs, off, packed_end, acc). packed_end - off)")
     (auto dest!: read_varint_bounds)

function packed_fixed ::
  "(bytes \<Rightarrow> nat \<Rightarrow> (val \<times> nat, TypewayDecodeError) result) \<Rightarrow> nat \<Rightarrow> bytes \<Rightarrow> nat \<Rightarrow> nat \<Rightarrow> val list \<Rightarrow>
     (val list \<times> nat, TypewayDecodeError) result" where
  "packed_fixed read size' bs off packed_end acc =
     (if off < packed_end then
        (case read bs off of
           Ok (v, _) \<Rightarrow> packed_fixed read size' bs (off + Suc size') packed_end (acc @ [v])
         | Err e \<Rightarrow> Err e
         | Panic \<Rightarrow> Panic)
      else Ok (acc, off))"
  by pat_completeness auto
termination
  by (relation "measure (\<lambda>(read, size', bs, off, packed_end, acc). packed_end - off)") auto

declare packed_varints.simps [simp del] packed_fixed.simps [simp del]

text \<open>\<^verbatim>\<open>offset + packed_len\<close> wraps; a wrapped end before the position ends the loop.\<close>

definition read_packed ::
  "(bytes \<Rightarrow> nat \<Rightarrow> nat \<Rightarrow> (val list \<times> nat, TypewayDecodeError) result) \<Rightarrow> bytes \<Rightarrow> nat \<Rightarrow>
     (val list \<times> nat, TypewayDecodeError) result" where
  "read_packed loop bs off =
     and_then (read_varint bs off) (\<lambda>(packed_len, off).
       let packed_end = unat (word_of_nat off + packed_len :: usize)
       in if length bs < packed_end then Err UnexpectedEof else loop bs off packed_end)"

text \<open>\<^verbatim>\<open>reserve(packed_len)\<close>: a length that made the end wrap is above every capacity.\<close>

definition reserve_packed :: "nat \<Rightarrow> nat \<Rightarrow> ('a, 'e) result \<Rightarrow> ('a, 'e) result" where
  "reserve_packed off packed_end r = (if packed_end < off then Panic else r)"

fun read_single :: "string \<Rightarrow> rust_type \<Rightarrow> CodecKind \<Rightarrow> bytes \<Rightarrow> nat \<Rightarrow> (val \<times> nat, TypewayDecodeError) result" where
  "read_single ident ty KVarint bs off = read_scalar ty bs off"
| "read_single ident ty KBool bs off = read_scalar ty bs off"
| "read_single ident ty KFixed32 bs off = read_fixed32 bs off"
| "read_single ident ty KFixed64 bs off = read_fixed64 bs off"
| "read_single ident ty KLenString bs off = read_str ident bs off"
| "read_single ident ty KLenBytesStr bs off = read_str ident bs off"
| "read_single ident ty KLenBytes bs off =
     result_map (\<lambda>(s, off). (VBytes s, off)) (read_delimited bs off)"
| "read_single ident ty _ bs off = Panic"

definition optional_readable :: "CodecKind \<Rightarrow> bool" where
  "optional_readable k \<longleftrightarrow> k \<in> {KVarint, KBool, KFixed32, KFixed64, KLenString, KLenBytesStr}"

definition repeated_readable :: "CodecKind \<Rightarrow> bool" where
  "repeated_readable k \<longleftrightarrow> k \<in> {KVarint, KFixed32, KFixed64, KLenString, KLenBytesStr}"

definition gen_decode_arm ::
  "codec_field \<Rightarrow> u8 \<Rightarrow> bytes \<Rightarrow> nat \<Rightarrow> val \<Rightarrow> (val \<times> nat, TypewayDecodeError) result" where
  "gen_decode_arm f wire_type bs off cur =
     (let ty = element_type (cf_type f); c = nested_codec (cf_type f); ident = cf_ident f
      in case cf_kind f of
           KMessage \<Rightarrow> read_message c bs off
         | KOptionalMessage \<Rightarrow> result_map (\<lambda>(v, off). (VOpt (Some v), off)) (read_message c bs off)
         | KRepeatedMessage \<Rightarrow>
             result_map (\<lambda>(v, off). (VVec (val_items cur @ [v]), off)) (read_message c bs off)
         | KOptional inner \<Rightarrow>
             (if optional_readable inner
              then result_map (\<lambda>(v, off). (VOpt (Some v), off)) (read_single ident ty inner bs off)
              else result_map (\<lambda>off. (cur, off)) (skip_field bs off wire_type))
         | KRepeated inner \<Rightarrow>
             (if is_packable inner then
                (if wire_type = 2
                 then result_map (\<lambda>(vs, off). (VVec vs, off))
                   (read_packed (\<lambda>bs off packed_end.
                      if inner = KVarint \<or> inner = KBool
                      then reserve_packed off packed_end (packed_varints ty bs off packed_end (val_items cur))
                      else if inner = KFixed32 then packed_fixed read_fixed32 3 bs off packed_end (val_items cur)
                      else packed_fixed read_fixed64 7 bs off packed_end (val_items cur)) bs off)
                 else result_map (\<lambda>(v, off). (VVec (val_items cur @ [v]), off)) (read_scalar ty bs off))
              else if repeated_readable inner
              then result_map (\<lambda>(v, off). (VVec (val_items cur @ [v]), off)) (read_single ident ty inner bs off)
              else result_map (\<lambda>off. (cur, off)) (skip_field bs off wire_type))
         | k \<Rightarrow> read_single ident ty k bs off)"

text \<open>The arm of a field number, and the loop over the fields of the input.\<close>

fun find_arm :: "codec_field list \<Rightarrow> u32 \<Rightarrow> nat option" where
  "find_arm [] n = None"
| "find_arm (f # fs) n = (if cf_tag f = n then Some 0 else map_option Suc (find_arm fs n))"

lemma read_fixed_bounds:
  "read_fixed32 bs off = Ok (v, off') \<Longrightarrow> off < off'"
  "read_fixed64 bs off = Ok (v, off') \<Longrightarrow> off < off'"
  by (auto simp: read_fixed32_def read_fixed64_def split: if_splits)

lemma read_str_bounds: "read_str i bs off = Ok (v, off') \<Longrightarrow> off < off'"
  by (auto simp: read_str_def result_simps split: if_splits dest!: read_delimited_bounds)

lemma read_scalar_bounds: "read_scalar ty bs off = Ok (v, off') \<Longrightarrow> off < off'"
  by (auto simp: read_scalar_def result_simps dest!: read_varint_bounds)

lemma read_message_bounds: "read_message c bs off = Ok (v, off') \<Longrightarrow> off < off'"
  by (auto simp: read_message_def result_simps dest!: read_delimited_bounds)

lemmas read_bounds = read_fixed_bounds read_str_bounds read_scalar_bounds read_message_bounds

lemma read_single_bounds: "read_single i ty k bs off = Ok (v, off') \<Longrightarrow> off < off'"
  by (cases k) (auto simp: result_simps dest!: read_bounds read_delimited_bounds)

lemma packed_varints_mono: "packed_varints ty bs off e acc = Ok (vs, off') \<Longrightarrow> off \<le> off'"
proof (induction ty bs off e acc rule: packed_varints.induct)
  case (1 ty bs off e acc)
  show ?case
  proof (cases "off < e \<and> \<not> length bs \<le> off")
    case True
    show ?thesis
    proof (cases "bs ! off < 0x80")
      case c: True
      with True "1.prems" "1.IH"(1) show ?thesis
        by (subst (asm) packed_varints.simps) auto
    next
      case c: False
      with True "1.prems" obtain a b where ab: "read_varint bs off = Ok (a, b)"
        "packed_varints ty bs b e (acc @ [scalar_of_u64 ty a]) = Ok (vs, off')"
        by (subst (asm) packed_varints.simps) (auto simp: and_then_eq_Ok)
      have "b \<le> off'" using True c by (intro "1.IH"(2) [OF _ _ _ ab(1) refl ab(2)]) auto
      with read_varint_bounds [OF ab(1)] show ?thesis by simp
    qed
  next
    case False
    with "1.prems" show ?thesis by (subst (asm) packed_varints.simps) (auto split: if_splits)
  qed
qed

lemma packed_fixed_mono: "packed_fixed r k bs off e acc = Ok (vs, off') \<Longrightarrow> off \<le> off'"
proof (induction r k bs off e acc rule: packed_fixed.induct)
  case (1 r k bs off e acc)
  from "1.prems" show ?case
    by (subst (asm) packed_fixed.simps) (auto split: if_splits result.splits dest!: "1.IH")
qed

lemma skip_field_mono: "skip_field bs off wt = Ok off' \<Longrightarrow> off \<le> off'"
  by (auto simp: skip_field_def result_simps split: if_splits)

lemma read_packed_mono:
  assumes "read_packed loop bs off = Ok (vs, off')"
    and "\<And>o1 e. loop bs o1 e = Ok (vs, off') \<Longrightarrow> o1 \<le> off'"
  shows "off \<le> off'"
proof -
  from assms(1) obtain a b where ab: "read_varint bs off = Ok (a, b)"
    "loop bs b (unat (word_of_nat b + a :: usize)) = Ok (vs, off')"
    by (auto simp: read_packed_def result_simps Let_def split: if_splits)
  from read_varint_bounds [OF ab(1)] assms(2) [OF ab(2)] show ?thesis by simp
qed

lemma gen_decode_arm_mono: "gen_decode_arm f wt bs off cur = Ok (v, off') \<Longrightarrow> off \<le> off'"
proof -
  assume *: "gen_decode_arm f wt bs off cur = Ok (v, off')"
  have pk: "read_packed (\<lambda>bs off packed_end.
      if a then reserve_packed off packed_end (packed_varints ty bs off packed_end acc)
      else if b then packed_fixed read_fixed32 3 bs off packed_end acc
      else packed_fixed read_fixed64 7 bs off packed_end acc) bs off = Ok (vs, off') \<Longrightarrow> off \<le> off'"
    for a b ty acc vs
    by (rule read_packed_mono)
       (auto simp: reserve_packed_def split: if_splits dest: packed_varints_mono packed_fixed_mono)
  from * show ?thesis
    by (auto simp: gen_decode_arm_def Let_def result_simps simp del: read_single.simps
        split: CodecKind.splits if_splits
        dest!: read_single_bounds read_bounds skip_field_mono pk)
qed

function struct_decode_loop ::
  "codec_field list \<Rightarrow> bytes \<Rightarrow> nat \<Rightarrow> val list \<Rightarrow> (val list, TypewayDecodeError) result" where
  "struct_decode_loop fs bs off vals =
     (if off < length bs then
        and_then (read_varint bs off) (\<lambda>(tag_wire, off).
          let field_number = ucast (drop_bit 3 tag_wire) :: u32;
              wire_type = ucast (tag_wire AND 0x07) :: u8
          in case find_arm fs field_number of
               Some i \<Rightarrow>
                 and_then (gen_decode_arm (fs ! i) wire_type bs off (vals ! i)) (\<lambda>(v, off).
                   struct_decode_loop fs bs off (vals[i := v]))
             | None \<Rightarrow>
                 and_then (skip_field bs off wire_type) (\<lambda>off. struct_decode_loop fs bs off vals))
      else Ok vals)"
  by pat_completeness auto
termination
  by (relation "measure (\<lambda>(fs, bs, off, vals). length bs - off)")
     (auto dest!: read_varint_bounds gen_decode_arm_mono skip_field_mono)

declare struct_decode_loop.simps [simp del]

definition struct_decode :: "codec_field list \<Rightarrow> bytes \<Rightarrow> (val, TypewayDecodeError) result" where
  "struct_decode fs bs =
     result_map VMsg (struct_decode_loop fs bs 0 (map (\<lambda>f. type_default (cf_type f)) fs))"

text \<open>The macro rejects the tag zero and a tag that is used twice.\<close>

fun check_tags :: "codec_field list \<Rightarrow> (u32 \<Rightarrow> string option) \<Rightarrow> (unit, string) result" where
  "check_tags [] seen_tags = Ok ()"
| "check_tags (f # fs) seen_tags =
     (if cf_tag f = 0 then Err ''proto tag 0 is reserved; tags must be >= 1''
      else case seen_tags (cf_tag f) of
             Some prev \<Rightarrow>
               Err (''duplicate proto tag '' @ dec (unat (cf_tag f)) @ '': already used by field '' @
                    [CHR 0x60] @ prev @ [CHR 0x60])
           | None \<Rightarrow> check_tags fs (seen_tags(cf_tag f \<mapsto> cf_ident f)))"

definition struct_codec :: "codec_field list \<Rightarrow> codec" where
  "struct_codec fs =
     \<lparr>cd_len = struct_encoded_len fs, cd_encode = struct_encode_to fs, cd_decode = struct_decode fs,
      cd_default = VMsg (map (\<lambda>f. type_default (cf_type f)) fs)\<rparr>"

definition derive_typeway_codec_struct :: "codec_field list \<Rightarrow> (codec, string) result" where
  "derive_typeway_codec_struct fs =
     and_then (check_tags fs (\<lambda>_. None)) (\<lambda>_. Ok (struct_codec fs))"

end
