(* ===== verification/Derive_Encode.thy ===== *)
theory Derive_Encode
  imports Derive_Codec
begin

text \<open>
  What the derived writers append, entry by entry, that they stay inside the allocation, and the
  length that they announce.
\<close>

subsection \<open>What the writers append\<close>

definition writes :: "writer \<Rightarrow> bytes \<Rightarrow> bool" where
  "writes w bs \<longleftrightarrow> (\<forall>b. rv_ok b \<longrightarrow> rv_writes (w b) b bs)"

lemma writesI: "(\<And>b. rv_ok b \<Longrightarrow> rv_writes (w b) b bs) \<Longrightarrow> writes w bs"
  by (simp add: writes_def)

lemma writes_Some: "writes Some []"
  by (simp add: writes_def rv_writes_def)

lemma writes_push: "writes (w_push x) [x]"
  by (rule writesI) (simp add: w_push_def rv_writes_def rv_push_bytes)

lemma writes_varint: "writes (w_varint v) (vbytes (unat v))"
  by (rule writesI) (simp add: w_varint_def tw_encode_varint_writes)

lemma writes_extend: "writes (w_extend bs) bs"
proof (rule writesI)
  fix b assume ok: "rv_ok b"
  let ?b = "rv_reserve (length bs) b"
  have room: "rv_len ?b + length bs \<le> length (rv_mem ?b)"
    using rv_reserve_room [of "length bs" b] rv_reserve_keeps(2) [OF ok, of "length bs"]
    by (auto simp: rv_ok_def)
  moreover have "take (rv_len ?b) (rv_mem ?b) = rv_bytes b"
    using rv_reserve_keeps(3) [OF ok, of "length bs"] by (simp add: rv_bytes_def)
  moreover have "length (rv_bytes b) = rv_len ?b"
    using ok by (simp add: rv_bytes_def rv_ok_def rv_reserve_keeps(1))
  ultimately show "rv_writes (w_extend bs b) b bs"
    by (simp add: w_extend_def rv_writes_def rv_extend_def rv_ok_def rv_bytes_def [of "_\<lparr>rv_len := _\<rparr>"] rv_bytes_def [of "\<lparr>rv_mem = _, rv_len = _\<rparr>"] Let_def)
qed

lemma writes_do_all: "list_all2 writes ws bss \<Longrightarrow> writes (do_all ws) (concat bss)"
proof (induction ws bss rule: list_all2_induct)
  case Nil
  then show ?case by (simp add: writes_def rv_writes_def)
next
  case (Cons w ws bs bss)
  show ?case
  proof (rule writesI)
    fix b assume "rv_ok b"
    with Cons(1) obtain b' where "w b = Some b'" "rv_ok b'" "rv_bytes b' = rv_bytes b @ bs"
      by (auto simp: writes_def rv_writes_def)
    with Cons.IH show "rv_writes (do_all (w # ws) b) b (concat (bs # bss))"
      by (auto simp: writes_def rv_writes_def)
  qed
qed

lemma writes_two: "writes w1 b1 \<Longrightarrow> writes w2 b2 \<Longrightarrow> writes (do_all [w1, w2]) (b1 @ b2)"
  using writes_do_all [of "[w1, w2]" "[b1, b2]"] by simp

subsection \<open>Tags\<close>

definition tag_word :: "u32 \<Rightarrow> u8 \<Rightarrow> u64" where
  "tag_word tag wt = push_bit 3 (ucast tag) OR ucast wt"

definition tag_bytes :: "u32 \<Rightarrow> u8 \<Rightarrow> bytes" where
  "tag_bytes tag wt = vbytes (unat (tag_word tag wt))"

lemma bit_u8_small: "wt < 8 \<Longrightarrow> bit (wt :: u8) n \<Longrightarrow> n < 3"
  using bit_word_less [of wt 3 n] by (simp add: word_less_nat_alt)

lemma tag_word_parts:
  assumes "wt < 8"
  shows "ucast (drop_bit 3 (tag_word tag wt)) = tag" "ucast (tag_word tag wt AND 0x07) = wt"
proof -
  show "ucast (drop_bit 3 (tag_word tag wt)) = tag"
    using bit_u8_small [OF assms]
    by (intro bit_word_eqI) (auto simp: tag_word_def bit_simps)
  have m: "(0x07 :: u64) = mask 3" by (simp add: mask_eq_decr_exp)
  show "ucast (tag_word tag wt AND 0x07) = wt"
    using bit_u8_small [OF assms] unfolding m
    by (intro bit_word_eqI) (auto simp: tag_word_def bit_simps)
qed

lemma tag_word_small:
  assumes "tag < 16" "wt < 8"
  shows "tag_word tag wt < 0x80" "ucast (tag_word tag wt) = precompute_tag_byte tag wt"
proof -
  have "unat (ucast wt :: u64) < 2 ^ 3"
    using assms(2) by (simp add: word_less_nat_alt unat_ucast_u64_u8)
  have "tag_word tag wt = ucast wt + ucast tag * 2 ^ 3"
    using or_push_bit_word [of "ucast wt :: u64" 3 "ucast tag"] \<open>unat (ucast wt :: u64) < 2 ^ 3\<close>
    by (simp add: tag_word_def or.commute)
  moreover have "unat (ucast tag :: u64) < 16"
    using assms(1) by (simp add: word_less_nat_alt unat_ucast_u32_u64)
  ultimately have "unat (tag_word tag wt) < 128"
    using \<open>unat (ucast wt :: u64) < 2 ^ 3\<close> by (simp add: unat_word_ariths)
  then show "tag_word tag wt < 0x80" by (simp add: word_less_nat_alt)
  show "ucast (tag_word tag wt) = precompute_tag_byte tag wt"
    by (rule bit_word_eqI) (auto simp: tag_word_def precompute_tag_byte_def bit_simps)
qed

lemma writes_tag: "wt < 8 \<Longrightarrow> writes (emit_tag_push tag wt) (tag_bytes tag wt)"
  using writes_push [of "precompute_tag_byte tag wt"] tag_word_small [of tag wt]
  by (auto simp: emit_tag_push_def tag_bytes_def vbytes_u64(1) tw_encode_tag_def tag_word_def
      intro!: writesI tw_encode_varint_writes)

subsection \<open>Length-delimited data\<close>

definition len_bytes :: "nat \<Rightarrow> bytes" where
  "len_bytes n = vbytes (unat (word_of_nat n :: u64))"

definition delimited :: "bytes \<Rightarrow> bytes" where
  "delimited bs = len_bytes (length bs) @ bs"

lemma writes_delimited: "writes (w_delimited bs) (delimited bs)"
  unfolding w_delimited_def delimited_def len_bytes_def
  by (intro writes_two writes_varint writes_extend)

lemma delimited_len_eq: "delimited_len (length bs) = length (delimited bs)"
  by (simp add: delimited_len_def delimited_def len_bytes_def tw_varint_len_eq)

lemma write_varints_bytes:
  "pos + length (concat (map (\<lambda>v. vbytes (unat v)) vs)) \<le> length mem \<Longrightarrow>
   \<exists>mem'. write_varints mem pos vs
       = Some (mem', pos + length (concat (map (\<lambda>v. vbytes (unat v)) vs))) \<and>
     length mem' = length mem \<and>
     take (pos + length (concat (map (\<lambda>v. vbytes (unat v)) vs))) mem'
       = take pos mem @ concat (map (\<lambda>v. vbytes (unat v)) vs)"
proof (induction vs arbitrary: mem pos)
  case (Cons v vs)
  have "pos + length (vbytes (unat v)) \<le> length mem" using Cons.prems by simp
  from tw_write_varint_bytes [OF this] obtain mem1 where m1:
    "tw_write_varint mem pos v = Some (mem1, pos + length (vbytes (unat v)))"
    "length mem1 = length mem"
    "take (pos + length (vbytes (unat v))) mem1 = take pos mem @ vbytes (unat v)"
    by auto
  have "pos + length (vbytes (unat v)) + length (concat (map (\<lambda>v. vbytes (unat v)) vs)) \<le> length mem1"
    using Cons.prems m1(2) by simp
  from Cons.IH [OF this] m1 show ?case by (auto simp: add.assoc)
qed simp

definition varints_bytes :: "u64 list \<Rightarrow> bytes" where
  "varints_bytes vs = concat (map (\<lambda>v. vbytes (unat v)) vs)"

lemma length_varints_bytes: "length (varints_bytes vs) \<le> length vs * 10"
proof (induction vs)
  case (Cons v vs)
  then show ?case using length_vbytes_u64 [of v] by (simp add: varints_bytes_def)
qed (simp add: varints_bytes_def)

text \<open>
  The batch write stays in the room that \<^verbatim>\<open>reserve\<close> made, and replacing the
  placeholder by the length leaves a delimited field.
\<close>

lemma writes_packed_varints: "writes (w_packed_varints vs) (delimited (varints_bytes vs))"
proof (rule writesI)
  fix b assume ok: "rv_ok b"
  let ?b1 = "rv_push 0 b" let ?b2 = "rv_reserve (length vs * 10) ?b1"
  let ?ds = "rv_len ?b1" let ?d = "varints_bytes vs"
  have b1: "rv_ok ?b1" "rv_bytes ?b1 = rv_bytes b @ [0]" by (rule rv_push_bytes [OF ok])+
  have ds: "?ds = Suc (rv_len b)" by (simp add: rv_push_def rv_reserve_keeps(1) Let_def)
  have "?ds + length ?d \<le> length (rv_mem ?b2)"
    using rv_reserve_room [of "length vs * 10" ?b1] length_varints_bytes [of vs]
      rv_reserve_keeps(2) [OF b1(1), of "length vs * 10"]
    by (cases vs) (auto simp: rv_ok_def varints_bytes_def rv_reserve_keeps(1))
  from write_varints_bytes [OF this [unfolded varints_bytes_def]] obtain mem where
    w: "write_varints (rv_mem ?b2) ?ds vs = Some (mem, ?ds + length ?d)" and
    l: "length mem = length (rv_mem ?b2)" and
    t: "take (?ds + length ?d) mem = take ?ds (rv_mem ?b2) @ ?d"
    by (auto simp: varints_bytes_def)
  have room: "?ds + length ?d \<le> length mem" using \<open>?ds + length ?d \<le> length (rv_mem ?b2)\<close> l by simp
  have pre: "take ?ds (rv_mem ?b2) = rv_bytes b @ [0]"
    using rv_reserve_keeps(1) [of "length vs * 10" ?b1] rv_reserve_keeps(3) [OF b1(1), of "length vs * 10"] b1(2)
    by (simp add: rv_bytes_def)
  have lb: "length (rv_bytes b) = rv_len b" using ok by (simp add: rv_bytes_def rv_ok_def)
  have data: "drop ?ds (take (?ds + length ?d) mem) = ?d"
    unfolding t pre by (simp add: lb ds)
  show "rv_writes (w_packed_varints vs b) b (delimited ?d)"
  proof (cases "length ?d < 0x80")
    case True
    have u: "unat (word_of_nat (length ?d) :: u64) = length ?d" using True by (simp add: unat_of_nat)
    have lbs: "len_bytes (length ?d) = [word_of_nat (length ?d)]"
      using True by (subst len_bytes_def, subst u, subst vbytes.simps) simp
    have "take (?ds + length ?d) (mem[rv_len b := x]) = (take (?ds + length ?d) mem)[rv_len b := x]" for x
      by (simp add: take_update_swap)
    also have "\<dots> x = rv_bytes b @ x # ?d" for x
      unfolding t pre using lb by (simp add: list_update_append)
    finally have "take (?ds + length ?d) (mem[rv_len b := x]) = rv_bytes b @ x # ?d" for x .
    then show ?thesis
      using True w room
      by (simp add: w_packed_varints_def Let_def rv_writes_def rv_ok_def delimited_def lbs rv_bytes_def)
  next
    case False
    let ?c = "\<lparr>rv_mem = mem, rv_len = rv_len b\<rparr>"
    have c: "rv_ok ?c" using room ds by (simp add: rv_ok_def)
    have "take (rv_len b) (take (?ds + length ?d) mem) = rv_bytes b"
      unfolding t pre using lb by simp
    then have cb: "rv_bytes ?c = rv_bytes b" using ds by (simp add: rv_bytes_def min_def)
    have "rv_writes (do_all [w_varint (word_of_nat (length ?d)), w_extend ?d] ?c) ?c
        (vbytes (unat (word_of_nat (length ?d) :: u64)) @ ?d)"
      using writes_two [OF writes_varint writes_extend] c by (simp add: writes_def del: do_all.simps)
    then show ?thesis
      using False w data cb
      by (simp add: w_packed_varints_def Let_def rv_writes_def delimited_def len_bytes_def)
  qed
qed

subsection \<open>Codecs as an interface\<close>

text \<open>
  What a codec promises of a value: it appends the same bytes whatever the buffer, announces their
  number, reads them back, and writes nothing only for its default.
\<close>

definition codec_bytes :: "codec \<Rightarrow> val \<Rightarrow> bytes" where
  "codec_bytes c v = (case encode_to_vec c v of Some bs \<Rightarrow> bs | None \<Rightarrow> [])"

definition roundtrips :: "codec \<Rightarrow> val \<Rightarrow> bool" where
  "roundtrips c v \<longleftrightarrow>
     writes (cd_encode c v) (codec_bytes c v) \<and>
     cd_len c v = length (codec_bytes c v) \<and>
     cd_decode c (codec_bytes c v) = Ok v \<and>
     (codec_bytes c v = [] \<longrightarrow> v = cd_default c)"

lemma codec_bytes_writes:
  assumes "writes (cd_encode c v) bs"
  shows "encode_to_vec c v = Some bs" "codec_bytes c v = bs"
proof -
  let ?b = "\<lparr>rv_mem = replicate (cd_len c v) 0, rv_len = 0\<rparr> :: raw_vec"
  have "rv_ok ?b" "rv_bytes ?b = []" by (simp_all add: rv_ok_def rv_bytes_def)
  with assms show "encode_to_vec c v = Some bs"
    by (auto simp: writes_def rv_writes_def encode_to_vec_def)
  then show "codec_bytes c v = bs" by (simp add: codec_bytes_def)
qed

subsection \<open>Well-typed fields\<close>

definition scalar_ok :: "rust_type \<Rightarrow> val \<Rightarrow> bool" where
  "scalar_ok ty v =
     (case v of
        VU32 _ \<Rightarrow> ty = TU32
      | VU64 _ \<Rightarrow> ty = TU64
      | VI32 _ \<Rightarrow> ty = TI32
      | VI64 _ \<Rightarrow> ty = TI64
      | VBool _ \<Rightarrow> ty = TBool
      | VF32 _ \<Rightarrow> ty = TF32
      | VF64 _ \<Rightarrow> ty = TF64
      | VStr bs \<Rightarrow> (ty = TString \<or> ty = TBytesStr) \<and> utf8_valid bs
      | _ \<Rightarrow> False)"

text \<open>The negative zero is the one number that a plain field does not keep.\<close>

definition not_negative_zero :: "val \<Rightarrow> bool" where
  "not_negative_zero v \<longleftrightarrow> v \<noteq> VF32 0x80000000 \<and> v \<noteq> VF64 0x8000000000000000"

fun field_ok_as :: "CodecKind \<Rightarrow> codec_field \<Rightarrow> val \<Rightarrow> bool" where
  "field_ok_as KLenBytes f v \<longleftrightarrow> (\<exists>bs. v = VBytes bs)"
| "field_ok_as KMessage f v \<longleftrightarrow> roundtrips (nested_codec (cf_type f)) v"
| "field_ok_as KOptionalMessage f v \<longleftrightarrow>
     v = VOpt None \<or> (\<exists>x. v = VOpt (Some x) \<and> roundtrips (nested_codec (cf_type f)) x)"
| "field_ok_as KRepeatedMessage f v \<longleftrightarrow>
     (\<exists>xs. v = VVec xs \<and> list_all (roundtrips (nested_codec (cf_type f))) xs)"
| "field_ok_as (KOptional inner) f v \<longleftrightarrow>
     optional_readable inner \<and>
     (v = VOpt None \<or> (\<exists>x. v = VOpt (Some x) \<and> scalar_ok (element_type (cf_type f)) x))"
| "field_ok_as (KRepeated inner) f v \<longleftrightarrow>
     (is_packable inner \<or> repeated_readable inner) \<and>
     (\<exists>xs. v = VVec xs \<and> list_all (scalar_ok (element_type (cf_type f))) xs)"
| "field_ok_as k f v \<longleftrightarrow>
     scalar_ok (element_type (cf_type f)) v \<and> not_negative_zero v \<and> (k = KBool \<longrightarrow> cf_tag f < 16)"

definition field_ok :: "codec_field \<Rightarrow> val \<Rightarrow> bool" where
  "field_ok f v \<longleftrightarrow> cf_tag f \<noteq> 0 \<and> field_ok_as (cf_kind f) f v"

subsection \<open>The bytes of a field\<close>

fun scalar_bytes :: "CodecKind \<Rightarrow> val \<Rightarrow> bytes" where
  "scalar_bytes KVarint v = vbytes (unat (int_as_u64 v))"
| "scalar_bytes KBool v = [if val_true v then 1 else 0]"
| "scalar_bytes KFixed32 v = f_bytes v"
| "scalar_bytes KFixed64 v = f_bytes v"
| "scalar_bytes _ v = delimited (val_bytes v)"

fun scalar_is_default :: "CodecKind \<Rightarrow> val \<Rightarrow> bool" where
  "scalar_is_default KVarint v = (int_as_u64 v = 0)"
| "scalar_is_default KBool v = (\<not> val_true v)"
| "scalar_is_default KFixed32 v = (\<not> f_nonzero v)"
| "scalar_is_default KFixed64 v = (\<not> f_nonzero v)"
| "scalar_is_default _ v = (val_bytes v = [])"

text \<open>A field is a list of entries, each its tag and what follows it.\<close>

definition field_payloads :: "codec_field \<Rightarrow> val \<Rightarrow> (u8 \<times> bytes) list" where
  "field_payloads f v =
     (let wt = wire_type_for_kind (cf_kind f); c = nested_codec (cf_type f)
      in case cf_kind f of
           KMessage \<Rightarrow> (if codec_bytes c v = [] then [] else [(wt, delimited (codec_bytes c v))])
         | KOptionalMessage \<Rightarrow> map (\<lambda>x. (2, delimited (codec_bytes c x))) (val_items v)
         | KRepeatedMessage \<Rightarrow> map (\<lambda>x. (2, delimited (codec_bytes c x))) (val_items v)
         | KOptional inner \<Rightarrow> map (\<lambda>x. (wt, scalar_bytes inner x)) (val_items v)
         | KRepeated inner \<Rightarrow>
             (if is_packable inner
              then (if val_items v = [] then []
                    else [(2, delimited (concat (map (scalar_bytes inner) (val_items v))))])
              else map (\<lambda>x. (wt, scalar_bytes inner x)) (val_items v))
         | k \<Rightarrow> (if scalar_is_default k v then [] else [(wt, scalar_bytes k v)]))"

definition entries_bytes :: "u32 \<Rightarrow> (u8 \<times> bytes) list \<Rightarrow> bytes" where
  "entries_bytes tag es = concat (map (\<lambda>(wt, p). tag_bytes tag wt @ p) es)"

definition field_bytes :: "codec_field \<Rightarrow> val \<Rightarrow> bytes" where
  "field_bytes f v = entries_bytes (cf_tag f) (field_payloads f v)"

lemma wire_type_small: "wire_type_for_kind k < 8"
  by (induction k) auto

lemma writes_entry:
  "wt < 8 \<Longrightarrow> writes w p \<Longrightarrow> writes (do_all [emit_tag_push tag wt, w]) (tag_bytes tag wt @ p)"
  by (intro writes_two writes_tag)

lemma writes_do_map:
  "(\<And>x. x \<in> set xs \<Longrightarrow> writes (w x) (p x)) \<Longrightarrow> writes (do_all (map w xs)) (concat (map p xs))"
  by (rule writes_do_all) (simp add: list_all2_conv_all_nth)

lemma writes_nested:
  "roundtrips c v \<Longrightarrow> writes (w_nested tag c v) (tag_bytes tag 2 @ delimited (codec_bytes c v))"
  using writes_entry [of 2 "w_delimited (codec_bytes c v)" "delimited (codec_bytes c v)" tag]
    writes_delimited codec_bytes_writes [of c v "codec_bytes c v"]
  by (auto simp: writes_def w_nested_def roundtrips_def)

lemma writes_optional_inner:
  assumes "optional_readable k"
  shows "writes (gen_encode_optional_inner tag (wire_type_for_kind k) k v)
    (tag_bytes tag (wire_type_for_kind k) @ scalar_bytes k v)"
  using assms
  by (auto simp: optional_readable_def simp del: do_all.simps
      intro!: writes_entry writes_varint writes_push writes_extend writes_delimited)

lemma writes_repeated_item:
  assumes "repeated_readable k"
  shows "writes (gen_encode_repeated_item tag (wire_type_for_kind k) k v)
    (tag_bytes tag (wire_type_for_kind k) @ scalar_bytes k v)"
  using assms
  by (auto simp: repeated_readable_def simp del: do_all.simps
      intro!: writes_entry writes_varint writes_extend writes_delimited)

subsection \<open>Kinds and types\<close>

definition scalar_kind :: "CodecKind \<Rightarrow> bool" where
  "scalar_kind k \<longleftrightarrow> k \<in> {KVarint, KBool, KFixed32, KFixed64, KLenString, KLenBytesStr}"

lemma kind_scalar:
  "classify_type ty = k \<Longrightarrow> scalar_kind k \<Longrightarrow> classify_scalar ty = k \<and> element_type ty = ty"
  by (cases ty rule: classify_type.cases) (auto simp: scalar_kind_def split: CodecKind.splits)

lemma kind_optional: "classify_type ty = KOptional k \<Longrightarrow> \<exists>t. ty = TOption t \<and> classify_type t = k"
  by (cases ty rule: classify_type.cases) (auto split: CodecKind.splits)

lemma kind_repeated: "classify_type ty = KRepeated k \<Longrightarrow> \<exists>t. ty = TVec t \<and> t \<noteq> TU8 \<and> classify_type t = k"
  by (cases ty rule: classify_type.cases) (auto split: CodecKind.splits)

lemma element_kind:
  assumes "classify_type ty = k \<or> classify_type ty = KOptional k \<or> classify_type ty = KRepeated k"
    "scalar_kind k"
  shows "classify_scalar (element_type ty) = k"
  using assms kind_scalar [of _ k] by (auto dest!: kind_optional kind_repeated)

lemma scalar_types_of:
  "classify_scalar ty = KVarint \<longleftrightarrow> ty \<in> {TU32, TU64, TI32, TI64}"
  "classify_scalar ty = KBool \<longleftrightarrow> ty = TBool"
  "classify_scalar ty = KFixed32 \<longleftrightarrow> ty = TF32"
  "classify_scalar ty = KFixed64 \<longleftrightarrow> ty = TF64"
  "classify_scalar ty = KLenString \<longleftrightarrow> ty = TString"
  "classify_scalar ty = KLenBytesStr \<longleftrightarrow> ty = TBytesStr"
  by (cases ty; simp)+

lemma packable_scalar: "is_packable k \<Longrightarrow> scalar_kind k"
  "optional_readable k \<Longrightarrow> scalar_kind k" "repeated_readable k \<Longrightarrow> scalar_kind k"
  by (cases k; simp add: scalar_kind_def optional_readable_def repeated_readable_def)+

lemma ucast_scast_i32: "(ucast (scast (w :: i32) :: u64) :: i32) = w"
  by (rule bit_word_eqI) (auto simp: bit_simps)

lemma ucast_ucast_u32: "(ucast (ucast (w :: u32) :: u64) :: u32) = w"
  by (rule bit_word_eqI) (auto simp: bit_simps)

lemma int_of_as_u64:
  "classify_scalar ty = KVarint \<Longrightarrow> scalar_ok ty v \<Longrightarrow> scalar_of_u64 ty (int_as_u64 v) = v"
  by (auto simp: scalar_types_of scalar_ok_def ucast_scast_i32 ucast_ucast_u32 split: val.splits)

lemma bool_of_u64: "scalar_ok TBool v \<Longrightarrow> scalar_of_u64 TBool (if val_true v then 1 else 0) = v"
  by (auto simp: scalar_ok_def split: val.splits)

subsection \<open>A field appends its entries\<close>

lemma map_packed_item:
  "\<lbrakk>is_packable k; k \<noteq> KVarint\<rbrakk> \<Longrightarrow> packed_item_bytes k = scalar_bytes k"
  by (cases k) (auto simp: fun_eq_iff)

lemma length_scalar_bytes:
  assumes "is_packable k" "k \<noteq> KVarint" "list_all (scalar_ok ty) xs" "classify_scalar ty = k"
  shows "length (concat (map (scalar_bytes k) xs)) = length xs * packed_item_size k"
  using assms(3)
proof (induction xs)
  case (Cons x xs)
  have "length (scalar_bytes k x) = packed_item_size k"
    using assms Cons.prems
    by (cases k) (auto simp: scalar_types_of scalar_ok_def split: val.splits)
  with Cons show ?case by simp
qed simp

lemma writes_if: "writes (if c then w else Some) (if c then bs else [])" if "c \<Longrightarrow> writes w bs"
  using that writes_Some by simp

lemma tag_byte_bool: "tag < 16 \<Longrightarrow> tag_bytes tag 0 = [precompute_tag_byte tag 0]"
  using tag_word_small [of tag 0] by (simp add: tag_bytes_def vbytes_u64(1))

lemma field_writes:
  assumes ok: "field_ok f v"
  shows "writes (gen_encode_field f v) (field_bytes f v)"
proof -
  let ?tag = "cf_tag f" and ?c = "nested_codec (cf_type f)" and ?k = "cf_kind f"
  have k: "field_ok_as ?k f v" using ok by (simp add: field_ok_def)
  note defs = gen_encode_field_def field_bytes_def field_payloads_def entries_bytes_def Let_def
  note I = writes_entry writes_varint writes_extend writes_delimited writes_Some
  show ?thesis
  proof (cases ?k)
    case KBool
    with k have t: "?tag < 16" by simp
    show ?thesis
      using writes_extend [of "[precompute_tag_byte ?tag 0, 1]"] writes_Some
      by (simp add: defs KBool tag_byte_bool [OF t])
  next
    case KMessage
    with k have r: "roundtrips ?c v" by simp
    then have e: "encode_to_vec ?c v = Some (codec_bytes ?c v)"
      using codec_bytes_writes(1) by (simp add: roundtrips_def)
    show ?thesis
      using writes_Some I(1) [OF _ writes_delimited, of 2 ?tag "codec_bytes ?c v"]
      by (simp add: defs KMessage e del: do_all.simps)
  next
    case KOptionalMessage
    with k have "\<And>x. x \<in> set (val_items v) \<Longrightarrow> roundtrips ?c x" by auto
    then show ?thesis
      using writes_do_map [of "val_items v" "w_nested ?tag ?c"
          "\<lambda>x. tag_bytes ?tag 2 @ delimited (codec_bytes ?c x)"] writes_nested
      by (simp add: defs KOptionalMessage comp_def del: do_all.simps)
  next
    case KRepeatedMessage
    with k have "\<And>x. x \<in> set (val_items v) \<Longrightarrow> roundtrips ?c x" by (auto simp: list_all_iff)
    then show ?thesis
      using writes_do_map [of "val_items v" "w_nested ?tag ?c"
          "\<lambda>x. tag_bytes ?tag 2 @ delimited (codec_bytes ?c x)"] writes_nested
      by (simp add: defs KRepeatedMessage comp_def del: do_all.simps)
  next
    case (KOptional inner)
    with k have "optional_readable inner" by simp
    from writes_optional_inner [OF this, of ?tag] show ?thesis
      using writes_do_map [of "val_items v" "gen_encode_optional_inner ?tag (wire_type_for_kind inner) inner"
          "\<lambda>x. tag_bytes ?tag (wire_type_for_kind inner) @ scalar_bytes inner x"]
      by (simp add: defs KOptional comp_def del: do_all.simps)
  next
    case (KRepeated inner)
    show ?thesis
    proof (cases "is_packable inner")
      case False
      with k KRepeated have "repeated_readable inner" by simp
      from writes_repeated_item [OF this, of ?tag] False show ?thesis
        using writes_do_map [of "val_items v" "gen_encode_repeated_item ?tag (wire_type_for_kind inner) inner"
            "\<lambda>x. tag_bytes ?tag (wire_type_for_kind inner) @ scalar_bytes inner x"]
        by (simp add: defs KRepeated comp_def del: do_all.simps)
    next
      case True
      let ?xs = "val_items v"
      have xs: "list_all (scalar_ok (element_type (cf_type f))) ?xs" using k KRepeated by auto
      show ?thesis
      proof (cases "inner = KVarint")
        case v: True
        have "scalar_bytes KVarint = (\<lambda>x. vbytes (unat (int_as_u64 x)))" by (simp add: fun_eq_iff)
        then have "concat (map (scalar_bytes KVarint) ?xs) = varints_bytes (map int_as_u64 ?xs)"
          by (simp only: varints_bytes_def map_map comp_def)
        then show ?thesis
          using I(1) [OF _ writes_packed_varints, of 2 ?tag "map int_as_u64 ?xs"] writes_Some
          by (simp add: defs KRepeated v del: do_all.simps scalar_bytes.simps)
      next
        case v: False
        have "classify_scalar (element_type (cf_type f)) = inner"
          using KRepeated packable_scalar(1) [OF True] by (intro element_kind) (simp_all add: cf_kind_def)
        from length_scalar_bytes [OF True v xs this]
        have len: "length ?xs * packed_item_size inner = length (concat (map (scalar_bytes inner) ?xs))" by simp
        have "writes (do_all [emit_tag_push ?tag 2, w_varint (word_of_nat n), w_extend bs])
            (tag_bytes ?tag 2 @ vbytes (unat (word_of_nat n :: u64)) @ bs)" for n bs
          using writes_do_all [of "[emit_tag_push ?tag 2, w_varint (word_of_nat n), w_extend bs]"
              "[tag_bytes ?tag 2, vbytes (unat (word_of_nat n :: u64)), bs]"]
            writes_tag [of 2 ?tag] writes_varint writes_extend by (simp del: do_all.simps)
        then show ?thesis
          using True v writes_Some
          by (simp add: defs KRepeated len map_packed_item delimited_def len_bytes_def del: do_all.simps)
      qed
    qed
  qed (use k I writes_Some in \<open>auto simp: defs simp del: do_all.simps\<close>)
qed


subsection \<open>The announced length\<close>

lemma unat_u32_less: "unat (w :: u32) < 2 ^ 32"
  by (rule order_less_le_trans [OF unsigned_less]) simp

lemma unat_u64_less: "unat (w :: u64) < 2 ^ 64"
  by (rule order_less_le_trans [OF unsigned_less]) simp

lemma unat_tag_word:
  assumes "wt < 8"
  shows "unat (tag_word tag wt) = unat tag * 8 + unat wt"
proof -
  have w: "unat (ucast wt :: u64) = unat wt" "unat wt < 8"
    using assms by (simp_all add: word_less_nat_alt unat_ucast_u64_u8)
  have t: "unat (ucast tag :: u64) = unat tag" "unat tag < 2 ^ 32"
    using unat_u32_less [of tag] by (simp_all add: unat_ucast_u32_u64)
  have "tag_word tag wt = ucast wt + ucast tag * 2 ^ 3"
    using or_push_bit_word [of "ucast wt :: u64" 3 "ucast tag"] w
    by (simp add: tag_word_def or.commute)
  then show ?thesis using w t by (simp add: unat_word_ariths)
qed

lemma length_tag_bytes:
  assumes "wt < 8" "tag < 2 ^ 18"
  shows "length (tag_bytes tag wt) = tag_byte_count tag"
proof -
  define n where "n = unat tag * 8 + unat wt"
  have "unat wt < 8" "unat tag < 2 ^ 18" using assms by (simp_all add: word_less_nat_alt)
  then have n: "n < 128 \<longleftrightarrow> unat tag < 16" "n div 128 < 128 \<longleftrightarrow> unat tag < 2048" "n div 128 div 128 < 128"
    by (simp_all add: div_less_iff_less_mult n_def) linarith+
  have "length (vbytes n) = (if n < 128 then 1 else if n div 128 < 128 then 2 else 3)"
    using n(3) by (simp add: vbytes.simps [of n] vbytes.simps [of "n div 128"] vbytes.simps [of "n div 128 div 128"]
        del: div_mult2_eq)
  then show ?thesis
    by (simp add: tag_bytes_def unat_tag_word [OF assms(1)] tag_byte_count_def word_less_nat_alt n
        n_def [symmetric])
qed

lemma length_entries:
  assumes "tag < 2 ^ 18" "\<And>e. e \<in> set es \<Longrightarrow> fst e < 8"
  shows "length (entries_bytes tag es) = sum_list (map (\<lambda>e. tag_byte_count tag + length (snd e)) es)"
  using assms(2)
proof (induction es)
  case (Cons e es)
  have "length (tag_bytes tag (fst e)) = tag_byte_count tag"
    using Cons.prems by (intro length_tag_bytes assms(1)) simp
  with Cons show ?case by (cases e) (simp add: entries_bytes_def)
qed (simp add: entries_bytes_def)

lemma payload_wire_types: "e \<in> set (field_payloads f v) \<Longrightarrow> fst e < 8"
  by (auto simp: field_payloads_def Let_def wire_type_small split: CodecKind.splits if_splits)

lemma scalar_len:
  assumes "scalar_ok ty v" "classify_scalar ty = k"
  shows "k = KFixed32 \<Longrightarrow> length (f_bytes v) = 4" "k = KFixed64 \<Longrightarrow> length (f_bytes v) = 8"
  using assms by (auto simp: scalar_types_of scalar_ok_def split: val.splits)

lemma optional_inner_len:
  assumes "optional_readable k" "scalar_ok ty v" "classify_scalar ty = k"
  shows "gen_encoded_len_optional_inner tag k v = tag_byte_count tag + length (scalar_bytes k v)"
  using assms(1) scalar_len [OF assms(2,3)]
  by (auto simp: optional_readable_def tw_varint_len_eq delimited_len_eq)

lemma repeated_item_len:
  assumes "repeated_readable k" "scalar_ok ty v" "classify_scalar ty = k"
  shows "gen_encoded_len_repeated_item tag k v = tag_byte_count tag + length (scalar_bytes k v)"
  using assms(1) scalar_len [OF assms(2,3)]
  by (auto simp: repeated_readable_def tw_varint_len_eq delimited_len_eq)

lemma packed_item_len:
  assumes "is_packable k" "scalar_ok ty v" "classify_scalar ty = k"
  shows "gen_packed_item_len k v = length (scalar_bytes k v)"
  using assms(1) scalar_len [OF assms(2,3)] by (cases k) (auto simp: tw_varint_len_eq)

lemma sum_list_cong: "(\<And>x. x \<in> set xs \<Longrightarrow> g x = h x) \<Longrightarrow> sum_list (map g xs) = sum_list (map h xs)"
  by (metis map_cong)

lemma field_len:
  assumes ok: "field_ok f v" and t: "cf_tag f < 2 ^ 18"
  shows "gen_encoded_len_field f v = length (field_bytes f v)"
proof -
  let ?k = "cf_kind f" and ?c = "nested_codec (cf_type f)" and ?ty = "element_type (cf_type f)"
  have k: "field_ok_as ?k f v" using ok by (simp add: field_ok_def)
  have nested: "cd_len ?c x = length (codec_bytes ?c x)" if "roundtrips ?c x" for x
    using that by (simp add: roundtrips_def)
  have kind: "classify_scalar ?ty = i"
    if "?k = i \<or> ?k = KOptional i \<or> ?k = KRepeated i" "scalar_kind i" for i
    using that by (intro element_kind) (simp_all add: cf_kind_def)
  have L: "length (field_bytes f v)
      = sum_list (map (\<lambda>e. tag_byte_count (cf_tag f) + length (snd e)) (field_payloads f v))"
    unfolding field_bytes_def by (rule length_entries [OF t payload_wire_types])
  note defs = L gen_encoded_len_field_def field_payloads_def Let_def comp_def
  show ?thesis
  proof (cases ?k)
    case (KOptional i)
    with k have i: "optional_readable i" and x: "\<And>x. x \<in> set (val_items v) \<Longrightarrow> scalar_ok ?ty x"
      by auto
    have "classify_scalar ?ty = i" using KOptional packable_scalar(2) [OF i] kind by simp
    then show ?thesis
      using optional_inner_len [OF i x] by (auto simp: defs KOptional intro!: sum_list_cong)
  next
    case (KRepeated i)
    with k have i: "is_packable i \<or> repeated_readable i"
      and x: "\<And>x. x \<in> set (val_items v) \<Longrightarrow> scalar_ok ?ty x" by (auto simp: list_all_iff)
    have c: "classify_scalar ?ty = i" using KRepeated i packable_scalar kind by blast
    show ?thesis
    proof (cases "is_packable i")
      case True
      have "sum_list (map (gen_packed_item_len i) (val_items v))
          = length (concat (map (scalar_bytes i) (val_items v)))"
        using packed_item_len [OF True x c] by (simp add: length_concat comp_def) (rule sum_list_cong, simp)
      with True show ?thesis by (simp add: defs KRepeated delimited_len_eq)
    next
      case False
      with i have "repeated_readable i" by simp
      from repeated_item_len [OF this x c] False show ?thesis
        by (auto simp: defs KRepeated intro!: sum_list_cong)
    qed
  next
    case KOptionalMessage
    with k nested show ?thesis by (auto simp: defs delimited_len_eq)
  next
    case KRepeatedMessage
    with k nested show ?thesis
      by (auto simp: defs list_all_iff delimited_len_eq intro!: sum_list_cong)
  next
    case KMessage
    with k nested [of v] show ?thesis by (auto simp: defs delimited_len_eq)
  next
    case KFixed32
    with k scalar_len(1) [OF _ kind, of v] show ?thesis by (simp add: defs scalar_kind_def)
  next
    case KFixed64
    with k scalar_len(2) [OF _ kind, of v] show ?thesis by (simp add: defs scalar_kind_def)
  qed (use k in \<open>auto simp: defs tw_varint_len_eq delimited_len_eq\<close>)
qed

end
