(* ===== verification/Derive_Roundtrip.thy ===== *)
theory Derive_Roundtrip
  imports Derive_Encode
begin

text \<open>
  Decoding what a derived codec wrote gives the value back: the readers on the bytes of the format,
  one entry, one field, and the whole struct.
\<close>

subsection \<open>The readers at a position\<close>

text \<open>The input \<open>bs\<close> continues with \<open>p\<close> and then \<open>rest\<close> at the position \<open>off\<close>.\<close>

definition reads_at :: "bytes \<Rightarrow> nat \<Rightarrow> bytes \<Rightarrow> bytes \<Rightarrow> bool" where
  "reads_at bs off p rest \<longleftrightarrow> length bs < 2 ^ 64 \<and> off \<le> length bs \<and> drop off bs = p @ rest"

lemma drop_eq_append:
  assumes "drop off bs = p @ q" "off \<le> length bs"
  shows "off + length p \<le> length bs" "drop (off + length p) bs = q"
proof -
  have "length bs - off = length p + length q" using arg_cong [OF assms(1), of length] by simp
  with assms(2) show "off + length p \<le> length bs" by linarith
  show "drop (off + length p) bs = q"
    using arg_cong [OF assms(1), of "drop (length p)"] by (simp add: add.commute)
qed

lemma reads_at_append:
  "reads_at bs off (p @ q) rest \<longleftrightarrow> reads_at bs off p (q @ rest) \<and> reads_at bs (off + length p) q rest"
  using drop_eq_append [of off bs p "q @ rest"] by (auto simp: reads_at_def)

lemma reads_at_bound: "reads_at bs off p rest \<Longrightarrow> off + length p \<le> length bs"
  using drop_eq_append(1) by (auto simp: reads_at_def)

lemma reads_at_take: "reads_at bs off p rest \<Longrightarrow> take (length p) (drop off bs) = p"
  by (simp add: reads_at_def)

lemma read_varint_at:
  assumes "reads_at bs off (vbytes (unat v)) rest"
  shows "read_varint bs off = Ok (v, off + length (vbytes (unat v)))"
  using assms varint_read_vbytes [of "unat v" VarintTooLong UnexpectedEof rest] unat_u64_less [of v]
  by (simp add: reads_at_def read_varint_def tw_decode_varint_eq)

lemma read_delimited_at:
  assumes "reads_at bs off (delimited p) rest"
  shows "read_delimited bs off = Ok (p, off + length (delimited p))"
proof -
  let ?l = "len_bytes (length p)"
  have 1: "reads_at bs off ?l (p @ rest)" and 2: "reads_at bs (off + length ?l) p rest"
    using assms by (simp_all add: delimited_def reads_at_append)
  have b: "off + length ?l + length p \<le> length bs" "length bs < 2 ^ 64"
    using reads_at_bound [OF 2] 2 by (simp_all add: reads_at_def)
  have e: "unat (word_of_nat (off + length ?l) + word_of_nat (length p) :: usize) = off + length ?l + length p"
    using b by (simp only: of_nat_add [symmetric] unat_of_nat) simp
  have r: "read_varint bs off = Ok (word_of_nat (length p), off + length ?l)"
    using read_varint_at [OF 1 [unfolded len_bytes_def]] by (simp add: len_bytes_def)
  have d: "drop (off + length ?l) (take (off + length ?l + length p) bs) = p"
    using reads_at_take [OF 2] by (simp add: take_drop add.commute)
  show ?thesis
    using b by (simp add: read_delimited_def r e d Let_def del: of_nat_add) (simp add: delimited_def)
qed

lemma read_varint_byte:
  assumes "off < length bs" "bs ! off < 0x80"
  shows "read_varint bs off = Ok (ucast (bs ! off), off + 1)"
proof -
  have "drop off bs = bs ! off # drop (off + 1) bs" using assms(1) by (simp add: Cons_nth_drop_Suc)
  moreover have "vbytes (unat (ucast (bs ! off) :: u64)) = [bs ! off]"
    using assms(2) by (subst vbytes.simps) (simp add: unat_ucast_u64_u8 word_less_nat_alt)
  ultimately show ?thesis
    using assms(1) varint_read_vbytes [of "unat (ucast (bs ! off) :: u64)" VarintTooLong UnexpectedEof "drop (off + 1) bs"]
      unat_u64_less [of "ucast (bs ! off) :: u64"]
    by (simp add: read_varint_def tw_decode_varint_eq)
qed

subsection \<open>Scalars\<close>

lemma read_single_at:
  assumes v: "scalar_ok ty v" and k: "classify_scalar ty = k" "scalar_kind k"
    and at: "reads_at bs off (scalar_bytes k v) rest"
  shows "read_single i ty k bs off = Ok (v, off + length (scalar_bytes k v))"
proof (cases k)
  case KVarint
  with read_varint_at [of bs off "int_as_u64 v"] at show ?thesis
    using int_of_as_u64 [OF k(1) [unfolded KVarint] v] by (simp add: read_scalar_def)
next
  case KBool
  then have ty: "ty = TBool" using k(1) by (simp add: scalar_types_of)
  let ?b = "if val_true v then 1 else 0 :: u8"
  have d: "bs ! off = ?b" "off < length bs"
    using at KBool reads_at_bound [OF at] nth_via_drop [of off bs ?b rest] by (auto simp: reads_at_def)
  have "read_varint bs off = Ok (ucast ?b, off + 1)"
    using read_varint_byte [OF d(2)] d(1) by simp
  then show ?thesis
    using bool_of_u64 [of v] v by (auto simp: KBool ty read_scalar_def)
next
  case KFixed32
  then obtain w where w: "v = VF32 w" "ty = TF32"
    using v k(1) by (auto simp: scalar_types_of scalar_ok_def split: val.splits)
  show ?thesis
    using at reads_at_bound [OF at] reads_at_take [OF at] by (simp add: KFixed32 w read_fixed32_def)
next
  case KFixed64
  then obtain w where w: "v = VF64 w" "ty = TF64"
    using v k(1) by (auto simp: scalar_types_of scalar_ok_def split: val.splits)
  show ?thesis
    using at reads_at_bound [OF at] reads_at_take [OF at] by (simp add: KFixed64 w read_fixed64_def)
next
  case KLenString
  then obtain s where s: "v = VStr s" "utf8_valid s"
    using v k(1) by (auto simp: scalar_types_of scalar_ok_def split: val.splits)
  with read_delimited_at at KLenString show ?thesis by (simp add: read_str_def)
next
  case KLenBytesStr
  then obtain s where s: "v = VStr s" "utf8_valid s"
    using v k(1) by (auto simp: scalar_types_of scalar_ok_def split: val.splits)
  with read_delimited_at at KLenBytesStr show ?thesis by (simp add: read_str_def)
qed (use k(2) in \<open>simp_all add: scalar_kind_def\<close>)

subsection \<open>Packed fields\<close>

lemma packed_varints_step:
  assumes "off < e" "off < length bs"
  shows "packed_varints ty bs off e acc =
    and_then (read_varint bs off) (\<lambda>(v, off). packed_varints ty bs off e (acc @ [scalar_of_u64 ty v]))"
  using assms read_varint_byte [OF assms(2)] by (subst packed_varints.simps) auto

lemma packed_varints_at:
  assumes "reads_at bs off (varints_bytes ws) rest"
  shows "packed_varints ty bs off (off + length (varints_bytes ws)) acc
    = Ok (acc @ map (scalar_of_u64 ty) ws, off + length (varints_bytes ws))"
  using assms
proof (induction ws arbitrary: off acc)
  case Nil
  show ?case by (subst packed_varints.simps) (simp add: varints_bytes_def)
next
  case (Cons w ws)
  have s: "varints_bytes (w # ws) = vbytes (unat w) @ varints_bytes ws" by (simp add: varints_bytes_def)
  from Cons.prems have 1: "reads_at bs off (vbytes (unat w)) (varints_bytes ws @ rest)"
    and 2: "reads_at bs (off + length (vbytes (unat w))) (varints_bytes ws) rest"
    by (simp_all add: s reads_at_append)
  have "off < length bs" using reads_at_bound [OF 1] length_vbytes_pos [of "unat w"] by linarith
  then have "packed_varints ty bs off (off + length (varints_bytes (w # ws))) acc =
      packed_varints ty bs (off + length (vbytes (unat w)))
        (off + length (varints_bytes (w # ws))) (acc @ [scalar_of_u64 ty w])"
    using length_vbytes_pos [of "unat w"]
    by (subst packed_varints_step) (simp_all add: read_varint_at [OF 1] s)
  also have "\<dots> = Ok (acc @ map (scalar_of_u64 ty) (w # ws), off + length (varints_bytes (w # ws)))"
    using Cons.IH [OF 2, of "acc @ [scalar_of_u64 ty w]"] by (simp add: s add.assoc)
  finally show ?case .
qed

lemma packed_fixed_at:
  assumes "\<And>x off rest. \<lbrakk>x \<in> set xs; reads_at bs off (p x) rest\<rbrakk> \<Longrightarrow> read bs off = Ok (x, off + length (p x))"
    and "\<And>x. x \<in> set xs \<Longrightarrow> length (p x) = Suc k"
    and "reads_at bs off (concat (map p xs)) rest"
  shows "packed_fixed read k bs off (off + length (concat (map p xs))) acc
    = Ok (acc @ xs, off + length (concat (map p xs)))"
  using assms
proof (induction xs arbitrary: off acc)
  case Nil
  show ?case by (subst packed_fixed.simps) simp
next
  case (Cons x xs)
  from Cons.prems(3) have 1: "reads_at bs off (p x) (concat (map p xs) @ rest)"
    and 2: "reads_at bs (off + length (p x)) (concat (map p xs)) rest"
    by (simp_all add: reads_at_append)
  have l: "length (p x) = Suc k" using Cons.prems(2) by simp
  have "packed_fixed read k bs (off + Suc k) (off + Suc k + length (concat (map p xs))) (acc @ [x])
      = Ok (acc @ x # xs, off + Suc k + length (concat (map p xs)))"
    using Cons.IH [OF Cons.prems(1,2) 2] by (simp add: l)
  then show ?case
    using Cons.prems(1) [OF _ 1] by (subst packed_fixed.simps) (simp add: l add.assoc)
qed

subsection \<open>The arm of a field\<close>

text \<open>On the payload \<open>p\<close> of an entry, the arm of \<open>f\<close> turns \<open>cur\<close> into \<open>v\<close>.\<close>

definition arm_reads :: "codec_field \<Rightarrow> u8 \<times> bytes \<Rightarrow> val \<Rightarrow> val \<Rightarrow> bool" where
  "arm_reads f e cur v \<longleftrightarrow>
     (\<forall>bs off rest. reads_at bs off (snd e) rest \<longrightarrow>
        gen_decode_arm f (fst e) bs off cur = Ok (v, off + length (snd e)))"

lemma read_message_at:
  assumes "roundtrips c v" "reads_at bs off (delimited (codec_bytes c v)) rest"
  shows "read_message c bs off = Ok (v, off + length (delimited (codec_bytes c v)))"
  using assms read_delimited_at [OF assms(2)] by (simp add: read_message_def roundtrips_def)

lemma arm_message:
  assumes "roundtrips (nested_codec (cf_type f)) v"
  shows "cf_kind f = KMessage \<Longrightarrow> arm_reads f (wt, delimited (codec_bytes (nested_codec (cf_type f)) v)) cur v"
    "cf_kind f = KOptionalMessage \<Longrightarrow>
      arm_reads f (wt, delimited (codec_bytes (nested_codec (cf_type f)) v)) cur (VOpt (Some v))"
    "cf_kind f = KRepeatedMessage \<Longrightarrow>
      arm_reads f (wt, delimited (codec_bytes (nested_codec (cf_type f)) v)) (VVec acc) (VVec (acc @ [v]))"
  using read_message_at [OF assms] by (simp_all add: arm_reads_def gen_decode_arm_def)

lemma arm_optional:
  assumes "cf_kind f = KOptional k" "optional_readable k" "scalar_ok (element_type (cf_type f)) v"
  shows "arm_reads f (wt, scalar_bytes k v) cur (VOpt (Some v))"
proof -
  have "classify_scalar (element_type (cf_type f)) = k"
    using assms(1) packable_scalar(2) [OF assms(2)] by (intro element_kind) (simp_all add: cf_kind_def)
  from read_single_at [OF assms(3) this packable_scalar(2) [OF assms(2)]] assms(1,2) show ?thesis
    by (simp add: arm_reads_def gen_decode_arm_def)
qed

lemma arm_repeated_item:
  assumes "cf_kind f = KRepeated k" "repeated_readable k" "\<not> is_packable k"
    "scalar_ok (element_type (cf_type f)) v"
  shows "arm_reads f (wt, scalar_bytes k v) (VVec acc) (VVec (acc @ [v]))"
proof -
  have "classify_scalar (element_type (cf_type f)) = k"
    using assms(1) packable_scalar(3) [OF assms(2)] by (intro element_kind) (simp_all add: cf_kind_def)
  from read_single_at [OF assms(4) this packable_scalar(3) [OF assms(2)]] assms(1-3) show ?thesis
    by (simp add: arm_reads_def gen_decode_arm_def)
qed

lemma arm_scalar:
  assumes "cf_kind f = k" "scalar_kind k" "scalar_ok (element_type (cf_type f)) v"
  shows "arm_reads f (wt, scalar_bytes k v) cur v"
proof -
  have "classify_scalar (element_type (cf_type f)) = k"
    using assms(1,2) by (intro element_kind) (simp_all add: cf_kind_def)
  from read_single_at [OF assms(3) this assms(2)] assms(1,2) show ?thesis
    by (auto simp: arm_reads_def gen_decode_arm_def scalar_kind_def)
qed

lemma arm_bytes:
  assumes "cf_kind f = KLenBytes"
  shows "arm_reads f (wt, scalar_bytes KLenBytes (VBytes b)) cur (VBytes b)"
  using assms read_delimited_at by (simp add: arm_reads_def gen_decode_arm_def)

text \<open>A packed field: the loop reads up to the end that the length gives.\<close>

lemma read_packed_at:
  assumes "reads_at bs off (delimited p) rest"
    and "\<And>off. reads_at bs off p rest \<Longrightarrow> loop bs off (off + length p) = Ok (vs, off + length p)"
  shows "read_packed loop bs off = Ok (vs, off + length (delimited p))"
proof -
  let ?l = "len_bytes (length p)"
  have 1: "reads_at bs off ?l (p @ rest)" and 2: "reads_at bs (off + length ?l) p rest"
    using assms(1) by (simp_all add: delimited_def reads_at_append)
  have b: "off + length ?l + length p \<le> length bs" "length bs < 2 ^ 64"
    using reads_at_bound [OF 2] 2 by (simp_all add: reads_at_def)
  have e: "unat (word_of_nat (off + length ?l) + word_of_nat (length p) :: usize) = off + length ?l + length p"
    using b by (simp only: of_nat_add [symmetric] unat_of_nat) simp
  have r: "read_varint bs off = Ok (word_of_nat (length p), off + length ?l)"
    using read_varint_at [OF 1 [unfolded len_bytes_def]] by (simp add: len_bytes_def)
  show ?thesis
    using b assms(2) [OF 2] by (simp add: read_packed_def r e Let_def del: of_nat_add) (simp add: delimited_def)
qed

text \<open>A packed boolean is one byte, which is the varint of zero or one.\<close>

lemma scalar_bytes_varint:
  assumes "scalar_ok ty v" "classify_scalar ty = k" "k = KVarint \<or> k = KBool"
  shows "\<exists>w. scalar_bytes k v = vbytes (unat (w :: u64)) \<and> scalar_of_u64 ty w = v"
  using assms(3)
proof
  assume "k = KVarint"
  with int_of_as_u64 [of ty v] assms(1,2) show ?thesis by auto
next
  assume k: "k = KBool"
  with assms(2) have ty: "ty = TBool" by (simp add: scalar_types_of)
  have "[if b then 1 else 0 :: u8] = vbytes (unat (if b then 1 else 0 :: u64))" for b :: bool
    by (subst vbytes.simps) simp
  with bool_of_u64 [of v] assms(1) show ?thesis
    by (intro exI [of _ "if val_true v then 1 else 0 :: u64"]) (auto simp: k ty)
qed

lemma packed_bytes_varints:
  assumes "list_all (scalar_ok ty) xs" "classify_scalar ty = k" "k = KVarint \<or> k = KBool"
  shows "\<exists>ws. concat (map (scalar_bytes k) xs) = varints_bytes ws \<and> map (scalar_of_u64 ty) ws = xs"
  using assms(1)
proof (induction xs)
  case (Cons x xs)
  then obtain ws where "concat (map (scalar_bytes k) xs) = varints_bytes ws" "map (scalar_of_u64 ty) ws = xs"
    by auto
  moreover obtain w :: u64 where "scalar_bytes k x = vbytes (unat w)" "scalar_of_u64 ty w = x"
    using scalar_bytes_varint [OF _ assms(2,3), of x] Cons.prems by auto
  ultimately show ?case by (intro exI [of _ "w # ws"]) (simp add: varints_bytes_def)
qed (simp add: varints_bytes_def)

lemma arm_packed:
  assumes k: "cf_kind f = KRepeated k" "is_packable k" and xs: "list_all (scalar_ok (element_type (cf_type f))) xs"
  shows "arm_reads f (2, delimited (concat (map (scalar_bytes k) xs))) (VVec acc) (VVec (acc @ xs))"
proof -
  let ?ty = "element_type (cf_type f)" and ?p = "concat (map (scalar_bytes k) xs)"
  have c: "classify_scalar ?ty = k"
    using k(1) packable_scalar(1) [OF k(2)] by (intro element_kind) (simp_all add: cf_kind_def)
  let ?loop = "\<lambda>bs off packed_end.
      if k = KVarint \<or> k = KBool
      then reserve_packed off packed_end (packed_varints ?ty bs off packed_end acc)
      else if k = KFixed32 then packed_fixed read_fixed32 3 bs off packed_end acc
      else packed_fixed read_fixed64 7 bs off packed_end acc"
  have loop: "?loop bs off (off + length ?p) = Ok (acc @ xs, off + length ?p)" if at: "reads_at bs off ?p rest" for bs off rest
  proof (cases "k = KVarint \<or> k = KBool")
    case True
    from packed_bytes_varints [OF xs c True] obtain ws where
      ws: "?p = varints_bytes ws" "map (scalar_of_u64 ?ty) ws = xs" by auto
    show ?thesis using True packed_varints_at [of bs off ws rest ?ty acc] at ws by (simp add: reserve_packed_def)
  next
    case False
    with k(2) have k32: "k = KFixed32 \<or> k = KFixed64" by (cases k) auto
    have ok: "scalar_ok ?ty x" if "x \<in> set xs" for x using xs that by (simp add: list_all_iff)
    have sk: "scalar_kind k" by (rule packable_scalar(1) [OF k(2)])
    note rd = read_single_at [OF ok c sk, of _ bs]
    note fx = packed_fixed_at [of xs bs "scalar_bytes k" _ _ off rest acc, OF _ _ at]
    from k32 show ?thesis
    proof
      assume "k = KFixed32"
      with rd ok c fx [of read_fixed32 3] scalar_len(1) [OF ok c] show ?thesis by simp
    next
      assume "k = KFixed64"
      with rd ok c fx [of read_fixed64 7] scalar_len(2) [OF ok c] show ?thesis by simp
    qed
  qed
  have "gen_decode_arm f 2 bs off (VVec acc) = Ok (VVec (acc @ xs), off + length (delimited ?p))"
    if at: "reads_at bs off (delimited ?p) rest" for bs off rest
  proof -
    have "read_packed ?loop bs off = Ok (acc @ xs, off + length (delimited ?p))"
      by (rule read_packed_at [OF at]) (rule loop)
    with k show ?thesis by (simp add: gen_decode_arm_def Let_def cong del: if_weak_cong)
  qed
  then show ?thesis by (simp add: arm_reads_def)
qed

subsection \<open>A field in the loop\<close>

lemma struct_loop_entry:
  assumes at: "reads_at bs off (tag_bytes tag (fst e) @ snd e) rest" and wt: "fst e < 8"
    and arm: "find_arm fs tag = Some i" "arm_reads (fs ! i) e (vals ! i) v"
  shows "struct_decode_loop fs bs off vals =
    struct_decode_loop fs bs (off + length (tag_bytes tag (fst e) @ snd e)) (vals[i := v])"
proof -
  have 1: "reads_at bs off (tag_bytes tag (fst e)) (snd e @ rest)"
    and 2: "reads_at bs (off + length (tag_bytes tag (fst e))) (snd e) rest"
    using at by (simp_all add: reads_at_append)
  have "off < length bs"
    using reads_at_bound [OF 1] length_vbytes_pos [of "unat (tag_word tag (fst e))"]
    unfolding tag_bytes_def by linarith
  moreover have "read_varint bs off = Ok (tag_word tag (fst e), off + length (tag_bytes tag (fst e)))"
    using read_varint_at [OF 1 [unfolded tag_bytes_def]] by (simp add: tag_bytes_def)
  moreover have "gen_decode_arm (fs ! i) (fst e) bs (off + length (tag_bytes tag (fst e))) (vals ! i)
      = Ok (v, off + length (tag_bytes tag (fst e)) + length (snd e))"
    using arm(2) 2 unfolding arm_reads_def by blast
  ultimately show ?thesis
    using arm(1) by (subst struct_decode_loop.simps) (simp add: tag_word_parts [OF wt] add.assoc)
qed

text \<open>The entries of a repeated field, one after the other.\<close>

lemma struct_loop_repeated:
  assumes "reads_at bs off (entries_bytes tag (map e xs)) rest"
    and "\<And>x. x \<in> set xs \<Longrightarrow> fst (e x) < 8" "find_arm fs tag = Some i" "i < length vals"
    and "\<And>x acc. x \<in> set xs \<Longrightarrow> arm_reads (fs ! i) (e x) (VVec acc) (VVec (acc @ [x]))"
    and "vals ! i = VVec acc"
  shows "struct_decode_loop fs bs off vals =
    struct_decode_loop fs bs (off + length (entries_bytes tag (map e xs))) (vals[i := VVec (acc @ xs)])"
  using assms
proof (induction xs arbitrary: off acc vals)
  case Nil
  then have "vals[i := VVec acc] = vals" by (metis list_update_id)
  then show ?case by (simp add: entries_bytes_def)
next
  case (Cons x xs)
  let ?p = "tag_bytes tag (fst (e x)) @ snd (e x)"
  have b: "entries_bytes tag (map e (x # xs)) = ?p @ entries_bytes tag (map e xs)"
    by (simp add: entries_bytes_def split: prod.splits)
  have 1: "reads_at bs off ?p (entries_bytes tag (map e xs) @ rest)"
    and 2: "reads_at bs (off + length ?p) (entries_bytes tag (map e xs)) rest"
    using Cons.prems(1) unfolding b reads_at_append by blast+
  have "struct_decode_loop fs bs off vals =
      struct_decode_loop fs bs (off + length ?p) (vals[i := VVec (acc @ [x])])"
    using Cons.prems by (intro struct_loop_entry [OF 1]) simp_all
  also have "\<dots> = struct_decode_loop fs bs (off + length ?p + length (entries_bytes tag (map e xs)))
      (vals[i := VVec (acc @ [x]), i := VVec ((acc @ [x]) @ xs)])"
    using Cons.prems by (intro Cons.IH [OF 2]) simp_all
  finally show ?case by (simp only: b length_append list_update_overwrite append_assoc append_Cons append_Nil add.assoc)
qed

lemma kind_default:
  "classify_type ty = KOptional k \<or> classify_type ty = KOptionalMessage \<Longrightarrow> type_default ty = VOpt None"
  "classify_type ty = KRepeated k \<or> classify_type ty = KRepeatedMessage \<Longrightarrow> type_default ty = VVec []"
  "classify_type ty = KLenBytes \<Longrightarrow> type_default ty = VBytes []"
  by (cases ty rule: classify_type.cases; auto split: CodecKind.splits)+

lemma message_default:
  "classify_type ty = KMessage \<Longrightarrow> roundtrips (nested_codec ty) v \<Longrightarrow> codec_bytes (nested_codec ty) v = [] \<Longrightarrow>
   v = type_default ty"
  by (cases ty rule: classify_type.cases) (auto simp: roundtrips_def split: CodecKind.splits)

lemma sign_bit_only:
  fixes w :: "'a::len word"
  assumes "w AND mask k = 0" "LENGTH('a) = Suc k"
  shows "w = 0 \<or> w = push_bit k 1"
proof -
  have b: "\<not> bit w n" if "n < k" for n
    using assms(1) that by (auto simp: bit_eq_iff bit_simps assms(2) less_Suc_eq)
  show ?thesis
  proof (cases "bit w k")
    case True
    with b have "w = push_bit k 1"
      by (intro bit_word_eqI) (auto simp: bit_simps assms(2) less_Suc_eq not_less)
    then show ?thesis by simp
  next
    case False
    with b have "w = 0" by (intro bit_word_eqI) (auto simp: assms(2) less_Suc_eq)
    then show ?thesis by simp
  qed
qed

lemma f_zero:
  "\<not> f_nonzero (VF32 w) \<Longrightarrow> w = 0 \<or> w = 0x80000000"
  "\<not> f_nonzero (VF64 u) \<Longrightarrow> u = 0 \<or> u = 0x8000000000000000"
  using sign_bit_only [of w 31] sign_bit_only [of u 63] by (simp_all add: mask_eq_decr_exp)

text \<open>A value of which nothing is written is the default of its type.\<close>

lemma int_zero:
  "scalar_ok ty v \<Longrightarrow> classify_scalar ty = KVarint \<Longrightarrow> int_as_u64 v = 0 \<Longrightarrow> v = type_default ty"
  using int_of_as_u64 [of ty v] by (auto simp: scalar_types_of)

lemma scalar_default:
  assumes "scalar_ok ty v" "not_negative_zero v" "classify_scalar ty = k" "scalar_kind k" "scalar_is_default k v"
  shows "v = type_default ty"
proof (cases k)
  case KVarint
  with assms int_zero show ?thesis by simp
next
  case KFixed32
  with assms f_zero(1) show ?thesis
    by (auto simp: scalar_types_of scalar_ok_def not_negative_zero_def split: val.splits)
next
  case KFixed64
  with assms f_zero(2) show ?thesis
    by (auto simp: scalar_types_of scalar_ok_def not_negative_zero_def split: val.splits)
qed (use assms in \<open>auto simp: scalar_types_of scalar_ok_def scalar_kind_def split: val.splits\<close>)

lemma no_payload_default:
  assumes ok: "field_ok f v" and e: "field_payloads f v = []"
  shows "v = type_default (cf_type f)"
proof -
  let ?ty = "cf_type f"
  have k: "field_ok_as (cf_kind f) f v" using ok by (simp add: field_ok_def)
  have ck: "cf_kind f = classify_type ?ty" by (simp add: cf_kind_def)
  have s: "v = type_default ?ty" if "scalar_kind (cf_kind f)"
  proof -
    have c: "classify_scalar ?ty = cf_kind f" "element_type ?ty = ?ty"
      using kind_scalar [OF refl that [unfolded ck]] by (simp_all add: ck)
    have "scalar_ok ?ty v" "not_negative_zero v"
      using k that c(2) by (auto simp: scalar_kind_def)
    moreover have "scalar_is_default (cf_kind f) v"
      using e that by (auto simp: field_payloads_def scalar_kind_def Let_def split: if_splits)
    ultimately show ?thesis using scalar_default c that by blast
  qed
  show ?thesis
  proof (cases "cf_kind f")
    case KLenBytes
    with k e kind_default(3) [of ?ty] show ?thesis
      by (auto simp: field_payloads_def ck [symmetric] split: if_splits)
  next
    case (KOptional i)
    with k e kind_default(1) [of ?ty] show ?thesis by (auto simp: field_payloads_def ck [symmetric])
  next
    case (KRepeated i)
    with k e kind_default(2) [of ?ty] show ?thesis
      by (auto simp: field_payloads_def ck [symmetric] split: if_splits)
  next
    case KMessage
    with k e message_default [of ?ty v] show ?thesis
      by (auto simp: field_payloads_def ck [symmetric] Let_def split: if_splits)
  next
    case KOptionalMessage
    with k e kind_default(1) [of ?ty] show ?thesis by (auto simp: field_payloads_def ck [symmetric])
  next
    case KRepeatedMessage
    with k e kind_default(2) [of ?ty] show ?thesis by (auto simp: field_payloads_def ck [symmetric])
  qed (use s in \<open>simp_all add: scalar_kind_def\<close>)
qed

text \<open>A field writes nothing, or one entry, or one entry for each element.\<close>

lemma payload_cases:
  assumes ok: "field_ok f v"
  obtains (none) "field_payloads f v = []"
  | (one) e where "field_payloads f v = [e]" "\<And>cur. cur = type_default (cf_type f) \<Longrightarrow> arm_reads f e cur v"
  | (many) e xs where "field_payloads f v = map e xs" "v = VVec xs" "type_default (cf_type f) = VVec []"
      "\<And>x acc. x \<in> set xs \<Longrightarrow> arm_reads f (e x) (VVec acc) (VVec (acc @ [x]))"
proof -
  let ?ty = "cf_type f" and ?c = "nested_codec (cf_type f)"
  have k: "field_ok_as (cf_kind f) f v" using ok by (simp add: field_ok_def)
  have ck: "classify_type ?ty = cf_kind f" by (simp add: cf_kind_def)
  note defs = field_payloads_def Let_def
  have s: thesis if sk: "scalar_kind (cf_kind f)"
  proof -
    have "scalar_ok (element_type ?ty) v" using k sk by (auto simp: scalar_kind_def)
    note arm = arm_scalar [OF refl sk this]
    have p: "field_payloads f v = (if scalar_is_default (cf_kind f) v then []
        else [(wire_type_for_kind (cf_kind f), scalar_bytes (cf_kind f) v)])"
      using sk by (auto simp: defs scalar_kind_def)
    show thesis
      by (cases "scalar_is_default (cf_kind f) v") (auto simp: p intro: none one arm)
  qed
  show thesis
  proof (cases "cf_kind f")
    case KLenBytes
    with k obtain b where b: "v = VBytes b" by auto
    show thesis
    proof (cases "b = []")
      case True
      then show thesis by (intro none) (simp add: defs KLenBytes b)
    next
      case False
      then have "field_payloads f v = [(2, scalar_bytes KLenBytes v)]" by (simp add: defs KLenBytes b)
      then show thesis by (rule one) (unfold b, rule arm_bytes [OF KLenBytes])
    qed
  next
    case KMessage
    then have r: "roundtrips ?c v" using k by simp
    have p: "field_payloads f v = (if codec_bytes ?c v = [] then [] else [(2, delimited (codec_bytes ?c v))])"
      by (simp add: defs KMessage)
    show thesis
      by (cases "codec_bytes ?c v = []") (auto simp: p intro: none one arm_message(1) [OF r KMessage])
  next
    case KOptionalMessage
    with k arm_message(2) [OF _ KOptionalMessage] show thesis by (auto intro: none one simp: defs)
  next
    case KRepeatedMessage
    with k obtain xs where xs: "v = VVec xs" "list_all (roundtrips ?c) xs" by auto
    with arm_message(3) [OF _ KRepeatedMessage] KRepeatedMessage kind_default(2) [of ?ty] show thesis
      by (intro many [of "\<lambda>x. (2, delimited (codec_bytes ?c x))" xs]) (auto simp: defs list_all_iff ck)
  next
    case (KOptional i)
    with k arm_optional [OF KOptional] show thesis by (auto intro: none one simp: defs)
  next
    case (KRepeated i)
    with k obtain xs where i: "is_packable i \<or> repeated_readable i" and xs: "v = VVec xs"
      "list_all (scalar_ok (element_type ?ty)) xs" by auto
    have d: "type_default ?ty = VVec []" using kind_default(2) [of ?ty i] by (simp add: ck KRepeated)
    show thesis
    proof (cases "is_packable i")
      case True
      then have p: "field_payloads f v
          = (if xs = [] then [] else [(2, delimited (concat (map (scalar_bytes i) xs)))])"
        by (simp add: defs KRepeated xs(1))
      show thesis
        using arm_packed [OF KRepeated True xs(2), of "[]", folded xs(1)]
        by (cases "xs = []") (auto simp: p d xs(1) [symmetric] intro: none one)
    next
      case False
      with i arm_repeated_item [OF KRepeated] xs d show thesis
        by (intro many [of "\<lambda>x. (wire_type_for_kind (KRepeated i), scalar_bytes i x)" xs])
          (auto simp: defs KRepeated list_all_iff)
    qed
  qed (use s in \<open>simp_all add: scalar_kind_def\<close>)
qed

lemma struct_loop_field:
  assumes ok: "field_ok f v" and at: "reads_at bs off (field_bytes f v) rest"
    and arm: "find_arm fs (cf_tag f) = Some i" "fs ! i = f" "i < length vals" "vals ! i = type_default (cf_type f)"
  shows "struct_decode_loop fs bs off vals = struct_decode_loop fs bs (off + length (field_bytes f v)) (vals[i := v])"
  using ok
proof (cases rule: payload_cases)
  case none
  with no_payload_default [OF ok] arm(4) have "vals[i := v] = vals" by (metis list_update_id)
  with none show ?thesis by (simp add: field_bytes_def entries_bytes_def)
next
  case (one e)
  have b: "field_bytes f v = tag_bytes (cf_tag f) (fst e) @ snd e"
    by (simp add: field_bytes_def one entries_bytes_def split: prod.splits)
  have "fst e < 8" using payload_wire_types [of e f v] one(1) by simp
  with struct_loop_entry [OF at [unfolded b] _ arm(1)] one(2) arm show ?thesis by (simp only: b)
next
  case (many e xs)
  have "fst (e x) < 8" if "x \<in> set xs" for x
    using payload_wire_types [of "e x" f v] that by (simp add: many(1))
  with struct_loop_repeated [of bs off "cf_tag f" e xs rest fs i vals "[]"] at many arm show ?thesis
    by (simp add: field_bytes_def)
qed

subsection \<open>The whole struct\<close>

definition struct_bytes :: "codec_field list \<Rightarrow> val list \<Rightarrow> bytes" where
  "struct_bytes fs vs = concat (map2 field_bytes fs vs)"

lemma find_arm_middle:
  "distinct (map cf_tag (pre @ f # suf)) \<Longrightarrow> find_arm (pre @ f # suf) (cf_tag f) = Some (length pre)"
  by (induction pre) auto

lemma struct_loop_all:
  assumes "list_all2 field_ok suf vs" "distinct (map cf_tag (pre @ suf))" "length done = length pre"
    and "reads_at bs off (struct_bytes suf vs) []"
  shows "struct_decode_loop (pre @ suf) bs off (done @ map (\<lambda>f. type_default (cf_type f)) suf) = Ok (done @ vs)"
  using assms
proof (induction suf vs arbitrary: pre off "done" rule: list_all2_induct)
  case Nil
  then show ?case by (subst struct_decode_loop.simps) (simp add: struct_bytes_def reads_at_def)
next
  case (Cons f suf v vs)
  let ?d = "map (\<lambda>f. type_default (cf_type f))"
  have b: "struct_bytes (f # suf) (v # vs) = field_bytes f v @ struct_bytes suf vs"
    by (simp add: struct_bytes_def)
  have 1: "reads_at bs off (field_bytes f v) (struct_bytes suf vs @ [])"
    and 2: "reads_at bs (off + length (field_bytes f v)) (struct_bytes suf vs) []"
    using Cons.prems(3) unfolding b reads_at_append by blast+
  have "struct_decode_loop (pre @ f # suf) bs off (done @ ?d (f # suf)) =
      struct_decode_loop (pre @ f # suf) bs (off + length (field_bytes f v)) ((done @ ?d (f # suf))[length pre := v])"
    using Cons.hyps(1) 1 find_arm_middle [OF Cons.prems(1)] Cons.prems(2)
    by (intro struct_loop_field) (simp_all add: nth_append)
  also have "(done @ ?d (f # suf))[length pre := v] = (done @ [v]) @ ?d suf"
    using Cons.prems(2) by (simp add: list_update_append)
  also have "struct_decode_loop (pre @ f # suf) bs (off + length (field_bytes f v)) \<dots> = Ok ((done @ [v]) @ vs)"
    using Cons.IH [of "pre @ [f]" "done @ [v]", OF _ _ 2] Cons.prems(1,2) by simp
  finally show ?case by simp
qed

lemma struct_writes:
  "list_all2 field_ok fs vs \<Longrightarrow> writes (struct_encode_to fs (VMsg vs)) (struct_bytes fs vs)"
  unfolding struct_encode_to_def struct_bytes_def
  by (rule writes_do_all) (auto simp: list_all2_conv_all_nth intro: field_writes)

lemma struct_len:
  "list_all2 field_ok fs vs \<Longrightarrow> list_all (\<lambda>f. cf_tag f < 2 ^ 18) fs \<Longrightarrow>
   struct_encoded_len fs (VMsg vs) = length (struct_bytes fs vs)"
  by (induction fs vs rule: list_all2_induct)
     (simp_all add: struct_encoded_len_def struct_bytes_def field_len)

lemma struct_decodes:
  assumes "list_all2 field_ok fs vs" "distinct (map cf_tag fs)" "length (struct_bytes fs vs) < 2 ^ 64"
  shows "struct_decode fs (struct_bytes fs vs) = Ok (VMsg vs)"
  using struct_loop_all [of fs vs "[]" "[]" "struct_bytes fs vs" 0] assms
  by (simp add: struct_decode_def reads_at_def)

lemma struct_empty:
  "list_all2 field_ok fs vs \<Longrightarrow> struct_bytes fs vs = [] \<Longrightarrow> vs = map (\<lambda>f. type_default (cf_type f)) fs"
proof (induction fs vs rule: list_all2_induct)
  case (Cons f fs v vs)
  then have "field_bytes f v = []" "struct_bytes fs vs = []" by (simp_all add: struct_bytes_def)
  then have "field_payloads f v = []"
    by (cases "field_payloads f v") (auto simp: field_bytes_def entries_bytes_def tag_bytes_def)
  with Cons \<open>struct_bytes fs vs = []\<close> no_payload_default show ?case by simp
qed simp

lemma struct_roundtrips:
  assumes "list_all2 field_ok fs vs" "distinct (map cf_tag fs)" "list_all (\<lambda>f. cf_tag f < 2 ^ 18) fs"
    "length (struct_bytes fs vs) < 2 ^ 64"
  shows "roundtrips (struct_codec fs) (VMsg vs)" "codec_bytes (struct_codec fs) (VMsg vs) = struct_bytes fs vs"
proof -
  have w: "writes (cd_encode (struct_codec fs) (VMsg vs)) (struct_bytes fs vs)"
    using struct_writes [OF assms(1)] by (simp add: struct_codec_def)
  show b: "codec_bytes (struct_codec fs) (VMsg vs) = struct_bytes fs vs" by (rule codec_bytes_writes(2) [OF w])
  show "roundtrips (struct_codec fs) (VMsg vs)"
    using w struct_len [OF assms(1,3)] struct_decodes [OF assms(1,2,4)] struct_empty [OF assms(1)]
    unfolding roundtrips_def b by (auto simp: struct_codec_def)
qed

text \<open>The tags that the macro accepts are distinct.\<close>

lemma check_tags_ok: "check_tags fs seen = Ok () \<Longrightarrow> distinct (map cf_tag fs) \<and> (\<forall>f\<in>set fs. cf_tag f \<noteq> 0 \<and> seen (cf_tag f) = None)"
proof (induction fs arbitrary: seen)
  case (Cons f fs)
  then have "check_tags fs (seen(cf_tag f \<mapsto> cf_ident f)) = Ok ()" "cf_tag f \<noteq> 0" "seen (cf_tag f) = None"
    by (auto split: if_splits option.splits)
  with Cons.IH [OF this(1)] show ?case by (auto split: if_splits)
qed simp

end
