(* ===== verification/Derive_Enum.thy ===== *)
theory Derive_Enum
  imports Derive_Roundtrip
begin

text \<open>
  The codec that the derive macro generates for an enum: a varint for one without fields, a oneof
  for one whose variants hold a value; and the codec as an interface, with the derived codecs as its
  instances, so that messages nest.
\<close>

subsection \<open>An enum without fields\<close>

datatype variant_fields = Unit | Named nat | Unnamed "rust_type list"

record enum_variant =
  ev_ident :: string
  ev_tag_attr :: "u32 option"
  ev_fields :: variant_fields

text \<open>A variant without the attribute takes its position as its tag.\<close>

definition variant_tag :: "nat \<Rightarrow> nat \<Rightarrow> enum_variant \<Rightarrow> u32" where
  "variant_tag first i v = (case ev_tag_attr v of Some t \<Rightarrow> t | None \<Rightarrow> word_of_nat (i + first))"

definition variant_tags :: "nat \<Rightarrow> enum_variant list \<Rightarrow> u32 list" where
  "variant_tags first vs = map2 (variant_tag first) [0..<length vs] vs"

fun variant_index :: "val \<Rightarrow> nat" where
  "variant_index (VVariant i) = i"
| "variant_index (VOneof i v) = i"
| "variant_index _ = 0"

fun find_tag :: "u32 list \<Rightarrow> u32 \<Rightarrow> nat option" where
  "find_tag [] n = None"
| "find_tag (t # ts) n = (if t = n then Some 0 else map_option Suc (find_tag ts n))"

definition enum_encode_to :: "u32 list \<Rightarrow> val \<Rightarrow> writer" where
  "enum_encode_to tags v = w_varint (ucast (tags ! variant_index v))"

definition enum_encoded_len :: "u32 list \<Rightarrow> val \<Rightarrow> nat" where
  "enum_encoded_len tags v = tw_varint_len (ucast (tags ! variant_index v))"

definition enum_decode :: "u32 list \<Rightarrow> bytes \<Rightarrow> (val, TypewayDecodeError) result" where
  "enum_decode tags bs =
     (if bs = [] then Ok (VVariant 0)
      else and_then (tw_decode_varint bs) (\<lambda>(v, _).
             Ok (VVariant (case find_tag tags (ucast v) of Some i \<Rightarrow> i | None \<Rightarrow> 0))))"

text \<open>The \<^verbatim>\<open>Default\<close> of the enum is its owner's, so it is a parameter.\<close>

definition simple_enum_codec :: "u32 list \<Rightarrow> val \<Rightarrow> codec" where
  "simple_enum_codec tags dflt =
     \<lparr>cd_len = enum_encoded_len tags, cd_encode = enum_encode_to tags, cd_decode = enum_decode tags,
      cd_default = dflt\<rparr>"

definition derive_typeway_codec_simple_enum :: "enum_variant list \<Rightarrow> val \<Rightarrow> codec" where
  "derive_typeway_codec_simple_enum vs dflt = simple_enum_codec (variant_tags 0 vs) dflt"

subsection \<open>A oneof\<close>

definition oneof_codec_kind :: "rust_type \<Rightarrow> CodecKind" where
  "oneof_codec_kind ty = classify_scalar ty"

type_synonym oneof_variant = "u32 \<times> rust_type"

definition oneof_encode_arm :: "oneof_variant \<Rightarrow> val \<Rightarrow> writer" where
  "oneof_encode_arm = (\<lambda>(tag, ty) v.
     (let kind = oneof_codec_kind ty; tp = emit_tag_push tag (wire_type_for_kind kind)
      in case kind of
           KVarint \<Rightarrow> do_all [tp, w_varint (int_as_u64 v)]
         | KBool \<Rightarrow> do_all [tp, w_push (if val_true v then 1 else 0)]
         | KFixed32 \<Rightarrow> do_all [tp, w_extend (f_bytes v)]
         | KFixed64 \<Rightarrow> do_all [tp, w_extend (f_bytes v)]
         | KLenString \<Rightarrow> do_all [tp, w_delimited (val_bytes v)]
         | KLenBytesStr \<Rightarrow> do_all [tp, w_delimited (val_bytes v)]
         | _ \<Rightarrow> w_nested tag (nested_codec ty) v))"

definition oneof_len_arm :: "oneof_variant \<Rightarrow> val \<Rightarrow> nat" where
  "oneof_len_arm = (\<lambda>(tag, ty) v.
     (let tag_len = (if tag < 16 then 1 else if tag < 2048 then 2 else 3)
      in case oneof_codec_kind ty of
           KVarint \<Rightarrow> tag_len + tw_varint_len (int_as_u64 v)
         | KBool \<Rightarrow> tag_len + 1
         | KFixed32 \<Rightarrow> tag_len + 4
         | KFixed64 \<Rightarrow> tag_len + 8
         | KLenString \<Rightarrow> tag_len + delimited_len (length (val_bytes v))
         | KLenBytesStr \<Rightarrow> tag_len + delimited_len (length (val_bytes v))
         | _ \<Rightarrow> tag_len + delimited_len (cd_len (nested_codec ty) v)))"

definition oneof_decode_arm :: "oneof_variant \<Rightarrow> bytes \<Rightarrow> nat \<Rightarrow> (val \<times> nat, TypewayDecodeError) result" where
  "oneof_decode_arm = (\<lambda>(tag, ty) bs off.
     (if scalar_kind (oneof_codec_kind ty) then read_single ''oneof'' ty (oneof_codec_kind ty) bs off
      else read_message (nested_codec ty) bs off))"

fun oneof_value :: "val \<Rightarrow> val" where
  "oneof_value (VOneof i v) = v"
| "oneof_value v = v"

definition oneof_encode_to :: "oneof_variant list \<Rightarrow> val \<Rightarrow> writer" where
  "oneof_encode_to vs v = oneof_encode_arm (vs ! variant_index v) (oneof_value v)"

definition oneof_encoded_len :: "oneof_variant list \<Rightarrow> val \<Rightarrow> nat" where
  "oneof_encoded_len vs v = oneof_len_arm (vs ! variant_index v) (oneof_value v)"

lemma oneof_decode_arm_bounds: "oneof_decode_arm t bs off = Ok (v, off') \<Longrightarrow> off < off'"
  by (auto simp: oneof_decode_arm_def split: prod.splits if_splits dest: read_single_bounds read_message_bounds)

text \<open>Every entry of the input that has the tag of a variant replaces the result.\<close>

function oneof_decode_loop :: "oneof_variant list \<Rightarrow> bytes \<Rightarrow> nat \<Rightarrow> val \<Rightarrow> (val, TypewayDecodeError) result" where
  "oneof_decode_loop vs bs off r =
     (if off < length bs then
        and_then (read_varint bs off) (\<lambda>(tag_wire, off).
          let field_number = ucast (drop_bit 3 tag_wire) :: u32;
              wire_type = ucast (tag_wire AND 0x07) :: u8
          in case find_tag (map fst vs) field_number of
               Some i \<Rightarrow>
                 and_then (oneof_decode_arm (vs ! i) bs off) (\<lambda>(v, off).
                   oneof_decode_loop vs bs off (VOneof i v))
             | None \<Rightarrow>
                 and_then (skip_field bs off wire_type) (\<lambda>off. oneof_decode_loop vs bs off r))
      else Ok r)"
  by pat_completeness auto
termination
  by (relation "measure (\<lambda>(vs, bs, off, r). length bs - off)")
     (auto dest!: read_varint_bounds oneof_decode_arm_bounds skip_field_mono)

declare oneof_decode_loop.simps [simp del]

definition oneof_decode :: "oneof_variant list \<Rightarrow> bytes \<Rightarrow> (val, TypewayDecodeError) result" where
  "oneof_decode vs bs = oneof_decode_loop vs bs 0 (VOneof 0 (type_default (snd (vs ! 0))))"

definition oneof_codec :: "oneof_variant list \<Rightarrow> val \<Rightarrow> codec" where
  "oneof_codec vs dflt =
     \<lparr>cd_len = oneof_encoded_len vs, cd_encode = oneof_encode_to vs, cd_decode = oneof_decode vs,
      cd_default = dflt\<rparr>"

fun variant_type :: "variant_fields \<Rightarrow> (rust_type, string) result" where
  "variant_type (Unnamed [ty]) = Ok ty"
| "variant_type (Unnamed _) = Err ''TypewayCodec oneof variants must have exactly one field''"
| "variant_type (Named _) =
     Err ''TypewayCodec oneof variants must use tuple syntax, e.g., Variant(Type)''"
| "variant_type Unit = Err ''oneof variants must have a field; use a simple enum for fieldless variants''"

fun variant_types :: "enum_variant list \<Rightarrow> (rust_type list, string) result" where
  "variant_types [] = Ok []"
| "variant_types (v # vs) =
     and_then (variant_type (ev_fields v)) (\<lambda>t. result_map (Cons t) (variant_types vs))"

definition derive_typeway_codec_oneof_enum :: "enum_variant list \<Rightarrow> val \<Rightarrow> (codec, string) result" where
  "derive_typeway_codec_oneof_enum vs dflt =
     result_map (\<lambda>tys. oneof_codec (zip (variant_tags 1 vs) tys) dflt) (variant_types vs)"

subsection \<open>The input of the macro\<close>

datatype derive_data =
    StructNamed "codec_field list"
  | StructOther
  | Enum "enum_variant list" val
  | Union

fun no_fields :: "variant_fields \<Rightarrow> bool" where
  "no_fields Unit = True"
| "no_fields (Named n) = (n = 0)"
| "no_fields (Unnamed tys) = (tys = [])"

text \<open>An enum without variants makes the macro panic, which the compiler reports as an error.\<close>

fun derive_typeway_codec_impl :: "derive_data \<Rightarrow> (codec, string) result" where
  "derive_typeway_codec_impl (StructNamed fs) = derive_typeway_codec_struct fs"
| "derive_typeway_codec_impl StructOther = Err ''TypewayCodec only supports structs with named fields''"
| "derive_typeway_codec_impl (Enum vs dflt) =
     (if vs = [] then Panic
      else if list_all (\<lambda>v. no_fields (ev_fields v)) vs then Ok (derive_typeway_codec_simple_enum vs dflt)
      else derive_typeway_codec_oneof_enum vs dflt)"
| "derive_typeway_codec_impl Union = Err ''TypewayCodec does not support unions''"

subsection \<open>Round trips of the enums\<close>

lemma find_tag_nth: "distinct ts \<Longrightarrow> i < length ts \<Longrightarrow> find_tag ts (ts ! i) = Some i"
proof (induction ts arbitrary: i)
  case (Cons t ts)
  then show ?case by (cases i) auto
qed simp

lemma simple_enum_roundtrips:
  assumes "distinct tags" "i < length tags"
  shows "roundtrips (simple_enum_codec tags dflt) (VVariant i)"
proof -
  let ?c = "simple_enum_codec tags dflt" and ?b = "vbytes (unat (ucast (tags ! i) :: u64))"
  have w: "writes (cd_encode ?c (VVariant i)) ?b"
    by (simp add: simple_enum_codec_def enum_encode_to_def writes_varint)
  have "tw_decode_varint ?b = Ok (ucast (tags ! i), length ?b)"
    using varint_read_vbytes [OF unat_u64_less, of VarintTooLong UnexpectedEof _ "[]"]
    by (simp add: tw_decode_varint_eq)
  then have "enum_decode tags ?b = Ok (VVariant i)"
    by (simp add: enum_decode_def ucast_ucast_u32 find_tag_nth [OF assms])
  then show ?thesis
    unfolding roundtrips_def codec_bytes_writes(2) [OF w]
    using w by (simp add: simple_enum_codec_def enum_encoded_len_def tw_varint_len_eq)
qed

definition oneof_ok :: "oneof_variant \<Rightarrow> val \<Rightarrow> bool" where
  "oneof_ok = (\<lambda>(tag, ty) v.
     (if scalar_kind (oneof_codec_kind ty) then scalar_ok ty v else roundtrips (nested_codec ty) v))"

definition oneof_payload :: "rust_type \<Rightarrow> val \<Rightarrow> bytes" where
  "oneof_payload ty v =
     (if scalar_kind (oneof_codec_kind ty) then scalar_bytes (oneof_codec_kind ty) v
      else delimited (codec_bytes (nested_codec ty) v))"

definition oneof_bytes :: "oneof_variant \<Rightarrow> val \<Rightarrow> bytes" where
  "oneof_bytes = (\<lambda>(tag, ty) v. tag_bytes tag (wire_type_for_kind (oneof_codec_kind ty)) @ oneof_payload ty v)"

lemma classify_scalar_range: "scalar_kind (classify_scalar ty) \<or> classify_scalar ty = KMessage"
  by (cases ty) (auto simp: scalar_kind_def)

lemma oneof_writes: "oneof_ok t v \<Longrightarrow> writes (oneof_encode_arm t v) (oneof_bytes t v)"
proof (cases t)
  case t: (Pair tag ty)
  assume ok: "oneof_ok t v"
  show ?thesis
  proof (cases "scalar_kind (classify_scalar ty)")
    case True
    then show ?thesis
      by (auto simp: t oneof_encode_arm_def oneof_bytes_def oneof_payload_def oneof_codec_kind_def scalar_kind_def
          simp del: do_all.simps
          intro!: writes_entry writes_varint writes_push writes_extend writes_delimited)
  next
    case False
    with classify_scalar_range [of ty] have "classify_scalar ty = KMessage" by simp
    with ok writes_nested [of "nested_codec ty" v tag] show ?thesis
      by (simp add: t oneof_encode_arm_def oneof_bytes_def oneof_payload_def oneof_codec_kind_def oneof_ok_def
          scalar_kind_def)
  qed
qed

lemma oneof_len:
  assumes ok: "oneof_ok (tag, ty) v" and "tag < 2 ^ 18"
  shows "oneof_len_arm (tag, ty) v = length (oneof_bytes (tag, ty) v)"
proof -
  have t: "length (tag_bytes tag (wire_type_for_kind k)) = (if tag < 16 then 1 else if tag < 2048 then 2 else 3)" for k
    using length_tag_bytes [OF wire_type_small assms(2)] by (simp add: tag_byte_count_def)
  show ?thesis
  proof (cases "scalar_kind (classify_scalar ty)")
    case True
    with ok have v: "scalar_ok ty v" by (simp add: oneof_ok_def oneof_codec_kind_def)
    show ?thesis
      using True scalar_len [OF v refl]
      by (auto simp: oneof_len_arm_def oneof_bytes_def oneof_payload_def oneof_codec_kind_def scalar_kind_def
          tw_varint_len_eq delimited_len_eq t Let_def simp del: wire_type_for_kind.simps)
  next
    case False
    with classify_scalar_range [of ty] have k: "classify_scalar ty = KMessage" by simp
    with ok have "cd_len (nested_codec ty) v = length (codec_bytes (nested_codec ty) v)"
      by (simp add: oneof_ok_def oneof_codec_kind_def scalar_kind_def roundtrips_def)
    then show ?thesis
      by (simp add: oneof_len_arm_def oneof_bytes_def oneof_payload_def oneof_codec_kind_def scalar_kind_def k
          delimited_len_eq t Let_def del: wire_type_for_kind.simps)
  qed
qed

lemma oneof_arm_at:
  assumes "oneof_ok (tag, ty) v" "reads_at bs off (oneof_payload ty v) rest"
  shows "oneof_decode_arm (tag, ty) bs off = Ok (v, off + length (oneof_payload ty v))"
  using assms read_single_at [of ty v "classify_scalar ty" bs off rest] read_message_at [of "nested_codec ty" v bs off rest]
  by (auto simp: oneof_decode_arm_def oneof_payload_def oneof_ok_def oneof_codec_kind_def split: if_splits)

lemma oneof_decodes:
  assumes ok: "oneof_ok (vs ! i) v" and d: "distinct (map fst vs)" "i < length vs"
    and l: "length (oneof_bytes (vs ! i) v) < 2 ^ 64"
  shows "oneof_decode vs (oneof_bytes (vs ! i) v) = Ok (VOneof i v)"
proof -
  obtain tag ty where t: "vs ! i = (tag, ty)" by (cases "vs ! i")
  let ?tb = "tag_bytes tag (wire_type_for_kind (oneof_codec_kind ty))" and ?p = "oneof_payload ty v"
  have b: "oneof_bytes (vs ! i) v = ?tb @ ?p" by (simp add: t oneof_bytes_def)
  have at: "reads_at (?tb @ ?p) 0 (?tb @ ?p) []" using l b by (simp add: reads_at_def)
  then have 1: "reads_at (?tb @ ?p) 0 ?tb (?p @ [])" and 2: "reads_at (?tb @ ?p) (0 + length ?tb) ?p []"
    unfolding reads_at_append by blast+
  have r: "read_varint (?tb @ ?p) 0 = Ok (tag_word tag (wire_type_for_kind (oneof_codec_kind ty)), length ?tb)"
    using read_varint_at [OF 1 [unfolded tag_bytes_def]] by (simp add: tag_bytes_def)
  have f: "find_tag (map fst vs) tag = Some i"
    using find_tag_nth [of "map fst vs" i] d t by simp
  have "0 < length (?tb @ ?p)" by (simp add: tag_bytes_def)
  then have "oneof_decode_loop vs (?tb @ ?p) 0 x = Ok (VOneof i v)" for x
    using oneof_arm_at [of tag ty v "?tb @ ?p" "length ?tb" "[]"] 2 ok
    by (subst oneof_decode_loop.simps)
       (simp add: r tag_word_parts [OF wire_type_small] f t oneof_decode_loop.simps)
  then show ?thesis by (simp add: oneof_decode_def b)
qed

lemma oneof_roundtrips:
  assumes "oneof_ok (vs ! i) v" "distinct (map fst vs)" "i < length vs" "fst (vs ! i) < 2 ^ 18"
    "length (oneof_bytes (vs ! i) v) < 2 ^ 64"
  shows "roundtrips (oneof_codec vs dflt) (VOneof i v)"
proof -
  let ?c = "oneof_codec vs dflt"
  have w: "writes (cd_encode ?c (VOneof i v)) (oneof_bytes (vs ! i) v)"
    using oneof_writes [OF assms(1)] by (simp add: oneof_codec_def oneof_encode_to_def)
  have "oneof_bytes (vs ! i) v \<noteq> []" by (simp add: oneof_bytes_def tag_bytes_def split: prod.splits)
  moreover have "cd_len ?c (VOneof i v) = length (oneof_bytes (vs ! i) v)"
    using oneof_len [of "fst (vs ! i)" "snd (vs ! i)" v] assms
    by (simp add: oneof_codec_def oneof_encoded_len_def)
  ultimately show ?thesis
    using w oneof_decodes [OF assms(1-3,5)]
    unfolding roundtrips_def codec_bytes_writes(2) [OF w] by (simp add: oneof_codec_def)
qed

end
