(* ===== verification/Derive_Messages.thy ===== *)
theory Derive_Messages
  imports Derive_Enum
begin

text \<open>
  The derived codecs behind one interface, so that messages nest in structs and oneofs; the message
  types of the repository's own tests as instances; what the derived codecs do not keep; and the
  properties of the derive macro.
\<close>

subsection \<open>A codec as an interface\<close>

locale message_codec =
  fixes c :: codec and valid :: "val \<Rightarrow> bool"
  assumes round: "valid v \<Longrightarrow> roundtrips c v"
begin

lemma plain_field: "\<lbrakk>cf_type f = TMsg c; cf_tag f \<noteq> 0; valid v\<rbrakk> \<Longrightarrow> field_ok f v"
  using round by (simp add: field_ok_def cf_kind_def)

lemma optional_field: "\<lbrakk>cf_type f = TOption (TMsg c); cf_tag f \<noteq> 0; valid v\<rbrakk> \<Longrightarrow> field_ok f (VOpt (Some v))"
  using round by (simp add: field_ok_def cf_kind_def)

lemma repeated_field: "\<lbrakk>cf_type f = TVec (TMsg c); cf_tag f \<noteq> 0; list_all valid vs\<rbrakk> \<Longrightarrow> field_ok f (VVec vs)"
  using round by (auto simp: field_ok_def cf_kind_def list_all_iff)

lemma oneof_variant: "valid v \<Longrightarrow> oneof_ok (tag, TMsg c) v"
  using round by (simp add: oneof_ok_def oneof_codec_kind_def scalar_kind_def)

lemma encodes: "valid v \<Longrightarrow> \<exists>bs. encode_to_vec c v = Some bs \<and> cd_len c v = length bs \<and> cd_decode c bs = Ok v"
  using round [of v] codec_bytes_writes(1) [of c v] by (auto simp: roundtrips_def)

end

text \<open>A derived struct whose tags the macro accepts.\<close>

locale derived_struct =
  fixes fs :: "codec_field list"
  assumes tags: "check_tags fs (\<lambda>_. None) = Ok ()" "list_all (\<lambda>f. cf_tag f < 2 ^ 18) fs"
begin

definition holds :: "val \<Rightarrow> bool" where
  "holds v \<longleftrightarrow> (\<exists>vs. v = VMsg vs \<and> list_all2 field_ok fs vs \<and> length (struct_bytes fs vs) < 2 ^ 64)"

lemma struct_round: "holds v \<Longrightarrow> roundtrips (struct_codec fs) v"
  using struct_roundtrips(1) check_tags_ok [OF tags(1)] tags(2) by (auto simp: holds_def)

end

sublocale derived_struct \<subseteq> message_codec "struct_codec fs" holds
  by unfold_locales (rule struct_round)

locale derived_enum =
  fixes tags :: "u32 list" and dflt :: val
  assumes tags: "distinct tags"

sublocale derived_enum \<subseteq> message_codec "simple_enum_codec tags dflt" "\<lambda>v. \<exists>i < length tags. v = VVariant i"
  by unfold_locales (auto intro: simple_enum_roundtrips [OF tags])

locale derived_oneof =
  fixes vs :: "oneof_variant list" and dflt :: val
  assumes tags: "distinct (map fst vs)" "list_all (\<lambda>t. fst t < 2 ^ 18) vs"

sublocale derived_oneof \<subseteq> message_codec "oneof_codec vs dflt"
  "\<lambda>v. \<exists>i x. v = VOneof i x \<and> i < length vs \<and> oneof_ok (vs ! i) x \<and> length (oneof_bytes (vs ! i) x) < 2 ^ 64"
  using tags by unfold_locales (auto intro!: oneof_roundtrips simp: list_all_length)

subsection \<open>The message types of the tests\<close>

definition tagged :: "string \<Rightarrow> rust_type \<Rightarrow> nat \<Rightarrow> codec_field" where
  "tagged ident ty tag = \<lparr>cf_ident = ident, cf_type = ty, cf_tag = word_of_nat tag\<rparr>"

definition address_fields :: "codec_field list" where
  "address_fields = [tagged ''street'' TString 1, tagged ''city'' TString 2]"

definition address_codec :: codec where
  "address_codec = struct_codec address_fields"

definition user_fields :: "codec_field list" where
  "user_fields =
     [tagged ''name'' TString 1, tagged ''address'' (TMsg address_codec) 2,
      tagged ''backup_address'' (TOption (TMsg address_codec)) 3,
      tagged ''previous_addresses'' (TVec (TMsg address_codec)) 4]"

definition all_scalars_fields :: "codec_field list" where
  "all_scalars_fields =
     [tagged ''u32_val'' TU32 1, tagged ''u64_val'' TU64 2, tagged ''i32_val'' TI32 3, tagged ''i64_val'' TI64 4,
      tagged ''f32_val'' TF32 5, tagged ''f64_val'' TF64 6, tagged ''bool_val'' TBool 7,
      tagged ''str_val'' TString 8, tagged ''bytes_val'' (TVec TU8) 9]"

definition inner_fields :: "codec_field list" where
  "inner_fields = [tagged ''value'' TString 1]"

definition value_variants :: "oneof_variant list" where
  "value_variants = [(1, TString), (2, TU32), (3, TBool), (4, TMsg (struct_codec inner_fields))]"

interpretation address: derived_struct address_fields
  by unfold_locales (simp_all add: address_fields_def tagged_def)

interpretation user: derived_struct user_fields
  by unfold_locales (simp_all add: user_fields_def tagged_def)

interpretation all_scalars: derived_struct all_scalars_fields
  by unfold_locales (simp_all add: all_scalars_fields_def tagged_def)

interpretation inner: derived_struct inner_fields
  by unfold_locales (simp_all add: inner_fields_def tagged_def)

interpretation oneof_value: derived_oneof value_variants "VOneof 0 (VStr [])"
  by unfold_locales (simp_all add: value_variants_def)

interpretation status_enum: derived_enum "[0, 1, 2]" "VVariant 0"
  by unfold_locales simp

subsection \<open>Decoding from shared bytes\<close>

text \<open>
  \<^verbatim>\<open>typeway_decode_bytes\<close>: only a field of type \<^verbatim>\<open>BytesStr\<close> has an arm
  of its own, which slices the shared input instead of copying. \<^verbatim>\<open>Bytes::slice\<close> is a
  parameter.
\<close>

definition gen_decode_bytes_arm ::
  "(bytes \<Rightarrow> nat \<Rightarrow> nat \<Rightarrow> bytes) \<Rightarrow> codec_field \<Rightarrow> u8 \<Rightarrow> bytes \<Rightarrow> nat \<Rightarrow> val \<Rightarrow> (val \<times> nat, TypewayDecodeError) result" where
  "gen_decode_bytes_arm bytes_slice f wire_type bs off cur =
     (if cf_kind f = KLenBytesStr
      then and_then (read_varint bs off) (\<lambda>(str_len, off).
             let e = unat (word_of_nat off + str_len :: usize)
             in if length bs < e then Err UnexpectedEof
                else if e < off then Panic
                else if \<not> utf8_valid (drop off (take e bs)) then Err (InvalidUtf8 (cf_ident f))
                else Ok (VStr (bytes_slice bs off e), e))
      else gen_decode_arm f wire_type bs off cur)"

lemma gen_decode_bytes_arm_mono: "gen_decode_bytes_arm bytes_slice f wt bs off cur = Ok (v, off') \<Longrightarrow> off \<le> off'"
  by (auto simp: gen_decode_bytes_arm_def result_simps Let_def split: if_splits
      dest!: gen_decode_arm_mono read_varint_bounds)

function struct_decode_bytes_loop ::
  "(bytes \<Rightarrow> nat \<Rightarrow> nat \<Rightarrow> bytes) \<Rightarrow> codec_field list \<Rightarrow> bytes \<Rightarrow> nat \<Rightarrow> val list \<Rightarrow> (val list, TypewayDecodeError) result" where
  "struct_decode_bytes_loop bytes_slice fs bs off vals =
     (if off < length bs then
        and_then (read_varint bs off) (\<lambda>(tag_wire, off).
          let field_number = ucast (drop_bit 3 tag_wire) :: u32;
              wire_type = ucast (tag_wire AND 0x07) :: u8
          in case find_arm fs field_number of
               Some i \<Rightarrow>
                 and_then (gen_decode_bytes_arm bytes_slice (fs ! i) wire_type bs off (vals ! i)) (\<lambda>(v, off).
                   struct_decode_bytes_loop bytes_slice fs bs off (vals[i := v]))
             | None \<Rightarrow>
                 and_then (skip_field bs off wire_type) (\<lambda>off.
                   struct_decode_bytes_loop bytes_slice fs bs off vals))
      else Ok vals)"
  by pat_completeness auto
termination
  by (relation "measure (\<lambda>(bytes_slice, fs, bs, off, vals). length bs - off)")
     (auto dest!: read_varint_bounds gen_decode_bytes_arm_mono skip_field_mono)

declare struct_decode_bytes_loop.simps [simp del]

definition struct_decode_bytes ::
  "(bytes \<Rightarrow> nat \<Rightarrow> nat \<Rightarrow> bytes) \<Rightarrow> codec_field list \<Rightarrow> bytes \<Rightarrow> (val, TypewayDecodeError) result" where
  "struct_decode_bytes bytes_slice fs bs =
     result_map VMsg (struct_decode_bytes_loop bytes_slice fs bs 0 (map (\<lambda>f. type_default (cf_type f)) fs))"

lemma gen_decode_bytes_arm_eq:
  assumes "\<And>bs i j. bytes_slice bs i j = drop i (take j bs)"
  shows "gen_decode_bytes_arm bytes_slice f wt bs off cur = gen_decode_arm f wt bs off cur"
proof (cases "cf_kind f = KLenBytesStr")
  case True
  have "gen_decode_arm f wt bs off cur = read_str (cf_ident f) bs off"
    using True by (simp add: gen_decode_arm_def)
  with True show ?thesis
    by (cases "read_varint bs off") (auto simp: gen_decode_bytes_arm_def read_str_def read_delimited_def Let_def assms)
qed (simp add: gen_decode_bytes_arm_def)

lemma struct_decode_bytes_loop_eq:
  assumes "\<And>bs i j. bytes_slice bs i j = drop i (take j bs)"
  shows "struct_decode_bytes_loop bytes_slice fs bs off vals = struct_decode_loop fs bs off vals"
proof (induction fs bs off vals rule: struct_decode_loop.induct)
  case (1 fs bs off vals)
  show ?case
  proof (cases "off < length bs")
    case True
    show ?thesis
      unfolding struct_decode_bytes_loop.simps [of bytes_slice fs bs off] struct_decode_loop.simps [of fs bs off]
      by (intro if_cong refl and_then_cong)
         (auto simp: gen_decode_bytes_arm_eq [OF assms] Let_def split: prod.splits option.splits
           intro!: and_then_cong "1.IH" [OF True])
  qed (simp add: struct_decode_bytes_loop.simps struct_decode_loop.simps)
qed

subsection \<open>What is not kept\<close>

lemma encode_to_vec_struct:
  "writes (struct_encode_to fs v) bs \<Longrightarrow> encode_to_vec (struct_codec fs) v = Some bs"
  using codec_bytes_writes(1) [of "struct_codec fs" v bs] by (simp add: struct_codec_def)

lemma skip_delimited_at:
  assumes "reads_at bs off (delimited p) rest"
  shows "skip_field bs off 2 = Ok (off + length (delimited p))"
proof -
  let ?l = "len_bytes (length p)"
  have 1: "reads_at bs off ?l (p @ rest)" using assms by (simp add: delimited_def reads_at_append)
  have b: "off + (length ?l + length p) \<le> length bs" "length bs < 2 ^ 64"
    using reads_at_bound [OF assms] assms by (simp_all add: reads_at_def delimited_def)
  have u: "unat (word_of_nat (length p) :: u64) = length p" using b by (simp add: unat_of_nat)
  have "tw_decode_varint (drop off bs) = Ok (word_of_nat (length p), length ?l)"
    using 1 varint_read_vbytes [OF unat_u64_less [of "word_of_nat (length p)"], of VarintTooLong UnexpectedEof "p @ rest"]
    by (simp add: tw_decode_varint_eq reads_at_def len_bytes_def)
  from tw_skip_delimited [OF this] b u show ?thesis
    by (simp add: skip_field_def delimited_def)
qed

lemma read_varint_end: "read_varint bs (length bs) = Err UnexpectedEof"
  by (simp add: read_varint_def tw_decode_varint_eq varint_read_def vscan_def)

lemma struct_loop_end: "length bs \<le> off \<Longrightarrow> struct_decode_loop fs bs off vals = Ok vals"
  by (subst struct_decode_loop.simps) simp

text \<open>A boolean that is true, behind a tag that needs more than one byte.\<close>

lemma bool_tag_decodes_other:
  assumes tag: "16 \<le> tag"
  shows "struct_decode [\<lparr>cf_ident = i, cf_type = TBool, cf_tag = tag\<rparr>] [precompute_tag_byte tag 0, 1]
    \<noteq> Ok (VMsg [VBool True])"
proof -
  let ?f = "\<lparr>cf_ident = i, cf_type = TBool, cf_tag = tag\<rparr>" and ?b = "precompute_tag_byte tag 0"
  let ?bs = "[?b, 1]"
  have skip: "and_then (skip_field ?bs off wt) (\<lambda>off. struct_decode_loop [?f] ?bs off [VBool False])
      \<noteq> Ok [VBool True]" if "2 \<le> off \<or> skip_field ?bs off wt = Ok 2" for off wt
    using that struct_loop_end [of ?bs] skip_field_mono [of ?bs off wt]
    by (cases "skip_field ?bs off wt") auto
  have "struct_decode_loop [?f] ?bs 0 [VBool False] \<noteq> Ok [VBool True]"
  proof (cases "?b < 0x80")
    case True
    have r: "read_varint ?bs 0 = Ok (ucast ?b, 1)" using read_varint_byte [of 0 ?bs] True by simp
    have "unat (ucast (drop_bit 3 (ucast ?b :: u64)) :: u32) < 16"
    proof -
      have "unat (ucast (drop_bit 3 (ucast ?b :: u64)) :: u32) \<le> unat (drop_bit 3 (ucast ?b :: u64))"
        by (simp add: unsigned_ucast_eq take_bit_nat_less_eq_self)
      also have "\<dots> = unat (ucast ?b :: u64) div 2 ^ 3" by (simp add: drop_bit_eq_div unat_div_distrib)
      also have "\<dots> < 16" using True by (simp only: unat_ucast_u64_u8) (simp add: word_less_nat_alt)
      finally show ?thesis .
    qed
    then have ne: "tag \<noteq> ucast (drop_bit 3 (ucast ?b :: u64))" using tag by (auto simp: word_le_nat_alt)
    have m: "(7 :: u64) = mask 3" by (simp add: mask_eq_decr_exp)
    have wt: "ucast (ucast ?b AND (7 :: u64)) = (0 :: u8)"
      unfolding m by (rule bit_word_eqI) (auto simp: precompute_tag_byte_def bit_simps)
    have "skip_field ?bs 1 0 = Ok 2"
      by (simp add: skip_field_def tw_skip_wire_value_def tw_decode_varint_eq varint_read_def vscan_def
          is_cont_def word_le_nat_alt Let_def)
    then show ?thesis
      using ne skip [of 1 0] by (subst struct_decode_loop.simps) (simp add: r wt)
  next
    case False
    then have "is_cont ?b" by (simp add: is_cont_iff)
    then obtain v where r: "read_varint ?bs 0 = Ok (v, 2)"
      by (simp add: read_varint_def tw_decode_varint_eq varint_read_def vscan_def is_cont_def word_le_nat_alt Let_def)
    have e: "read_scalar TBool [x, 1] 2 = Err UnexpectedEof" for x
      using read_varint_end [of "[x, 1]"] by (simp add: read_scalar_def eval_nat_numeral)
    show ?thesis
      using skip [of 2] by (subst struct_decode_loop.simps) (simp add: r e gen_decode_arm_def cf_kind_def Let_def)
  qed
  then show ?thesis by (auto simp: struct_decode_def result_simps)
qed

text \<open>An optional vector of bytes: the writer writes it, the reader skips it.\<close>

lemma option_bytes_skipped:
  assumes "tag \<noteq> 0" "length b < 2 ^ 63"
    and f_def: "f = \<lparr>cf_ident = i, cf_type = TOption (TVec TU8), cf_tag = tag\<rparr>"
  shows "struct_encoded_len [f] (VMsg [VOpt (Some (VBytes b))]) = 0"
    "encode_to_vec (struct_codec [f]) (VMsg [VOpt (Some (VBytes b))]) = Some (tag_bytes tag 2 @ delimited b)"
    "struct_decode [f] (tag_bytes tag 2 @ delimited b) = Ok (VMsg [VOpt None])"
proof -
  have k: "cf_kind f = KOptional KLenBytes" "cf_tag f = tag" by (simp_all add: f_def cf_kind_def)
  have d: "type_default (cf_type f) = VOpt None" by (simp add: f_def)
  show "struct_encoded_len [f] (VMsg [VOpt (Some (VBytes b))]) = 0"
    by (simp add: struct_encoded_len_def gen_encoded_len_field_def k)
  have "writes (struct_encode_to [f] (VMsg [VOpt (Some (VBytes b))])) (tag_bytes tag 2 @ delimited b)"
    using writes_do_all [of "[do_all [do_all [emit_tag_push tag 2, w_delimited b]]]" "[tag_bytes tag 2 @ delimited b]"]
      writes_do_all [of "[do_all [emit_tag_push tag 2, w_delimited b]]" "[tag_bytes tag 2 @ delimited b]"]
      writes_entry [of 2 "w_delimited b" "delimited b" tag] writes_delimited [of b]
    by (simp add: struct_encode_to_def gen_encode_field_def k del: do_all.simps)
  then show "encode_to_vec (struct_codec [f]) (VMsg [VOpt (Some (VBytes b))]) = Some (tag_bytes tag 2 @ delimited b)"
    by (rule encode_to_vec_struct)
  let ?bs = "tag_bytes tag 2 @ delimited b"
  have l: "length ?bs < 2 ^ 64"
    using length_vbytes_u64 [of "tag_word tag 2"] length_vbytes_u64 [of "word_of_nat (length b)"] assms(2)
    by (simp add: tag_bytes_def delimited_def len_bytes_def)
  have at: "reads_at ?bs 0 (tag_bytes tag (fst (2, delimited b)) @ snd (2 :: u8, delimited b)) []"
    using l by (simp add: reads_at_def)
  have arm: "arm_reads ([f] ! 0) (2, delimited b) ([VOpt None] ! 0) (VOpt None)"
    using skip_delimited_at by (simp add: arm_reads_def gen_decode_arm_def k optional_readable_def)
  have "struct_decode_loop [f] ?bs 0 [VOpt None] = Ok [VOpt None]"
    using struct_loop_entry [OF at _ _ arm] struct_loop_end [of ?bs "length ?bs"] by (simp add: k)
  then show "struct_decode [f] ?bs = Ok (VMsg [VOpt None])" by (simp add: struct_decode_def d)
qed

text \<open>The announced length of a field whose tag needs four bytes or five.\<close>

lemma length_tag_bytes_large:
  assumes "2 ^ 18 \<le> tag" "wt < 8"
  shows "3 < length (tag_bytes tag wt)"
proof -
  let ?n = "unat (tag_word tag wt)"
  have "2 ^ 18 \<le> unat tag" using assms(1) by (simp add: word_le_nat_alt)
  then have "128 ^ 3 \<le> ?n" by (simp add: unat_tag_word [OF assms(2)])
  then have "\<not> ?n < 128" "\<not> ?n div 128 < 128" "\<not> ?n div 128 div 128 < 128"
    by (simp_all add: div_less_iff_less_mult)
  then have "length (vbytes ?n) = 3 + length (vbytes (?n div 128 div 128 div 128))"
    by (simp add: vbytes.simps [of ?n] vbytes.simps [of "?n div 128"] vbytes.simps [of "?n div 128 div 128"]
        del: div_mult2_eq)
  with length_vbytes_pos [of "?n div 128 div 128 div 128"] show ?thesis by (simp add: tag_bytes_def)
qed

lemma announced_too_small:
  assumes "2 ^ 18 \<le> tag" "v \<noteq> 0"
    and f_def: "f = \<lparr>cf_ident = i, cf_type = TU64, cf_tag = tag\<rparr>"
  shows "\<exists>bs. encode_to_vec (struct_codec [f]) (VMsg [VU64 v]) = Some bs \<and>
    struct_encoded_len [f] (VMsg [VU64 v]) < length bs"
proof -
  have k: "cf_kind f = KVarint" "cf_tag f = tag" "cf_type f = TU64" by (simp_all add: f_def cf_kind_def)
  have ok: "field_ok f (VU64 v)"
    using assms(1) by (auto simp: field_ok_def k scalar_ok_def not_negative_zero_def)
  have "\<not> tag < 16" "\<not> tag < 2048" using assms(1) by (simp_all add: word_less_nat_alt word_le_nat_alt)
  then show ?thesis
    using struct_writes [of "[f]" "[VU64 v]"] ok length_tag_bytes_large [OF assms(1), of 0] assms(2)
    by (intro exI [of _ "struct_bytes [f] [VU64 v]"] conjI encode_to_vec_struct)
       (simp_all add: struct_encoded_len_def gen_encoded_len_field_def struct_bytes_def field_bytes_def k
         field_payloads_def entries_bytes_def tag_byte_count_def tw_varint_len_eq)
qed

subsection \<open>Properties\<close>

text \<open>C9. The codec that \<^verbatim>\<open>#[derive(TypewayCodec)]\<close> generates for a struct is a
  codec: for every struct whose tags the macro accepts and are below two to the 18, and all values
  of its fields that \<open>field_ok\<close> admits (integers, floats that are not a negative zero, UTF-8 strings,
  byte vectors, booleans with a tag below 16, options and vectors of scalars, and nested messages of
  any codec that itself round trips), the writers stay inside the allocation, the bytes are as many
  as \<^verbatim>\<open>encoded_len\<close> announces, and \<^verbatim>\<open>typeway_decode\<close> returns the value.\<close>

theorem derived_struct_roundtrip:
  assumes "derive_typeway_codec_impl (StructNamed fs) = Ok c" "list_all2 field_ok fs vs"
    "list_all (\<lambda>f. cf_tag f < 2 ^ 18) fs" "length (struct_bytes fs vs) < 2 ^ 64"
  shows "\<exists>bs. encode_to_vec c (VMsg vs) = Some bs \<and> cd_len c (VMsg vs) = length bs \<and>
    cd_decode c bs = Ok (VMsg vs)"
proof -
  have c: "c = struct_codec fs" and t: "check_tags fs (\<lambda>_. None) = Ok ()"
    using assms(1) by (auto simp: derive_typeway_codec_struct_def result_simps)
  from struct_roundtrips(1) [OF assms(2) _ assms(3,4)] check_tags_ok [OF t]
  have "roundtrips (struct_codec fs) (VMsg vs)" by blast
  then show ?thesis unfolding c roundtrips_def using codec_bytes_writes(1) by blast
qed

definition sample_address :: "val list" where
  "sample_address = [VStr [77, 97], VStr []]"

definition sample_user :: "val list" where
  "sample_user =
     [VStr [65, 110], VMsg sample_address, VOpt None, VVec [VMsg sample_address, VMsg [VStr [], VStr []]]]"

lemma sample_address_bytes:
  "struct_bytes address_fields sample_address = [10, 2, 77, 97]"
  "struct_bytes address_fields [VStr [], VStr []] = []"
  by code_simp+

lemma sample_address_holds: "address.holds (VMsg sample_address)" "address.holds (VMsg [VStr [], VStr []])"
  by (auto simp: address.holds_def sample_address_bytes)
     (simp_all add: address_fields_def sample_address_def field_ok_def cf_kind_def tagged_def scalar_ok_def
       not_negative_zero_def utf8_valid_ascii)

lemma sample_user_ok: "list_all2 field_ok user_fields sample_user"
  using sample_address_holds
  by (simp add: user_fields_def sample_user_def tagged_def address_codec_def address.plain_field address.repeated_field)
     (simp_all add: field_ok_def cf_kind_def scalar_ok_def not_negative_zero_def utf8_valid_ascii)

lemma sample_user_bytes:
  "struct_bytes user_fields sample_user = [10, 2, 65, 110, 18, 4, 10, 2, 77, 97, 34, 4, 10, 2, 77, 97, 34, 0]"
  by code_simp

theorem derived_struct_roundtrip_witness:
  "\<exists>bs. encode_to_vec (struct_codec user_fields) (VMsg sample_user) = Some bs \<and>
     cd_len (struct_codec user_fields) (VMsg sample_user) = length bs \<and>
     cd_decode (struct_codec user_fields) bs = Ok (VMsg sample_user)"
  by (rule derived_struct_roundtrip [OF _ sample_user_ok])
     (simp_all add: sample_user_bytes derive_typeway_codec_struct_def user.tags [simplified])



text \<open>The variants \<^verbatim>\<open>Text(String)\<close> and \<^verbatim>\<open>Number(u32)\<close>.\<close>

definition sample_variants :: "enum_variant list" where
  "sample_variants =
     [\<lparr>ev_ident = ''Text'', ev_tag_attr = Some 1, ev_fields = Unnamed [TString]\<rparr>,
      \<lparr>ev_ident = ''Number'', ev_tag_attr = None, ev_fields = Unnamed [TU32]\<rparr>]"

definition sample_states :: "enum_variant list" where
  "sample_states =
     [\<lparr>ev_ident = ''Active'', ev_tag_attr = Some 7, ev_fields = Unit\<rparr>,
      \<lparr>ev_ident = ''Inactive'', ev_tag_attr = None, ev_fields = Unit\<rparr>]"

lemma sample_enum_facts:
  "variant_tags 0 sample_states = [7, 1]" "variant_tags 1 sample_variants = [1, 2]"
  "variant_types sample_variants = Ok [TString, TU32]"
  "zip (variant_tags 1 sample_variants) [TString, TU32] ! 1 = (2, TU32)"
  "length sample_states = 2" "length sample_variants = 2"
  by (simp_all add: variant_tags_def variant_tag_def sample_states_def sample_variants_def upt_rec)




text \<open>A field of type \<^verbatim>\<open>Option<Vec<u8>>\<close> is written and never read: for every tag and
  every byte vector the encoding holds the bytes, \<^verbatim>\<open>encoded_len\<close> announces zero for
  them, and decoding the encoding succeeds with \<^verbatim>\<open>None\<close>.\<close>

theorem option_bytes_lost:
  assumes "tag \<noteq> 0" "length b < 2 ^ 63" "f = \<lparr>cf_ident = i, cf_type = TOption (TVec TU8), cf_tag = tag\<rparr>"
  shows "\<exists>bs. encode_to_vec (struct_codec [f]) (VMsg [VOpt (Some (VBytes b))]) = Some bs \<and>
    length b < length bs \<and> cd_len (struct_codec [f]) (VMsg [VOpt (Some (VBytes b))]) = 0 \<and>
    cd_decode (struct_codec [f]) bs = Ok (VMsg [VOpt None])"
  using option_bytes_skipped [OF assms]
  by (intro exI [of _ "tag_bytes tag 2 @ delimited b"])
     (simp add: struct_codec_def delimited_def tag_bytes_def length_vbytes_pos trans_less_add1)

theorem option_bytes_lost_witness:
  "\<exists>bs. encode_to_vec (struct_codec [tagged ''blob'' (TOption (TVec TU8)) 1]) (VMsg [VOpt (Some (VBytes [1, 2]))]) = Some bs \<and>
    length [1 :: u8, 2] < length bs \<and>
    cd_len (struct_codec [tagged ''blob'' (TOption (TVec TU8)) 1]) (VMsg [VOpt (Some (VBytes [1, 2]))]) = 0 \<and>
    cd_decode (struct_codec [tagged ''blob'' (TOption (TVec TU8)) 1]) bs = Ok (VMsg [VOpt None])"
  by (rule option_bytes_lost [of 1]) (simp_all add: tagged_def)

text \<open>Decoding from shared bytes (\<^verbatim>\<open>typeway_decode_bytes\<close>, which slices the
  input for a \<^verbatim>\<open>BytesStr\<close> field) gives for every struct and every input what
  \<^verbatim>\<open>typeway_decode\<close> gives, errors and panics included, if
  \<^verbatim>\<open>Bytes::slice\<close> returns the range it is asked for.\<close>

theorem decode_bytes_agrees:
  assumes "\<And>bs i j. bytes_slice bs i j = drop i (take j bs)"
  shows "struct_decode_bytes bytes_slice fs bs = struct_decode fs bs"
  by (simp add: struct_decode_bytes_def struct_decode_def struct_decode_bytes_loop_eq [OF assms])

theorem decode_bytes_agrees_witness:
  "struct_decode_bytes (\<lambda>bs i j. drop i (take j bs)) [tagged ''symbol'' TBytesStr 1] [10, 2, 77, 97]
    = struct_decode [tagged ''symbol'' TBytesStr 1] [10, 2, 77, 97]"
  by (rule decode_bytes_agrees) simp

text \<open>Input from the network can make a derived decoder panic: a string field whose announced
  length is the largest 64-bit number makes the end of the slice wrap to a position before its
  start, for every struct with a string field of tag 1, in the decoder of every message type.\<close>

theorem derived_decoder_panics:
  assumes "find_arm fs 1 = Some i" "cf_kind (fs ! i) = KLenString"
  shows "struct_decode fs (10 # replicate 9 0xFF @ [1]) = Panic"
proof -
  let ?bs = "10 # replicate 9 0xFF @ [1] :: bytes"
  have r: "read_varint ?bs 0 = Ok (10, 1)" "read_delimited ?bs 1 = Panic"
    by code_simp+
  then have a: "gen_decode_arm (fs ! i) 2 ?bs 1 v = Panic" for v
    by (simp add: gen_decode_arm_def assms(2) read_str_def)
  have d: "ucast (drop_bit 3 (10 :: u64)) = (1 :: u32)" "ucast ((10 :: u64) AND 7) = (2 :: u8)" by code_simp+
  have "struct_decode_loop fs ?bs 0 vals = Panic" for vals
    by (subst struct_decode_loop.simps) (simp only: r(1) and_then.simps prod.case Let_def d assms(1) option.case a, simp)
  then show ?thesis by (simp add: struct_decode_def)
qed

theorem derived_decoder_panics_witness:
  "struct_decode [tagged ''name'' TString 1] (10 # replicate 9 0xFF @ [1]) = Panic"
  by (rule derived_decoder_panics [where i = 0]) (simp_all add: tagged_def cf_kind_def)

end
