(* ===== verification/Session.thy ===== *)
theory Session
  imports Rust_Str
begin

text \<open>
  Session types (\<^verbatim>\<open>typeway-core/src/session.rs\<close>) and the web socket that follows one
  (\<^verbatim>\<open>typeway-server/src/typed_ws.rs\<close>). A session type is a value here, so that what
  the type parameter of \<^verbatim>\<open>TypedWebSocket\<close> tracks is a component of the state; an
  operation is a step that its type permits. The frames, the JSON texts of the messages and the
  stream of the peer are those of the libraries: reading and writing a value are parameters.
\<close>

subsection \<open>Session types\<close>

datatype 'ty session =
    Send 'ty "'ty session"
  | Recv 'ty "'ty session"
  | Offer "'ty session" "'ty session"
  | Select "'ty session" "'ty session"
  | End
  | Rec "'ty session"
  | Var

fun dual :: "'ty session \<Rightarrow> 'ty session" where
  "dual (Send t n) = Recv t (dual n)"
| "dual (Recv t n) = Send t (dual n)"
| "dual (Offer l r) = Select (dual l) (dual r)"
| "dual (Select l r) = Offer (dual l) (dual r)"
| "dual End = End"
| "dual (Rec b) = Rec (dual b)"
| "dual Var = Var"

lemma dual_dual [simp]: "dual (dual s) = s"
  by (induction s) auto

lemma size_dual [simp]: "size (dual s) = size s"
  by (induction s) auto

text \<open>Every \<^verbatim>\<open>Var\<close> is under a \<^verbatim>\<open>Rec\<close>; no \<^verbatim>\<open>Rec\<close> at all.\<close>

fun closed_session :: "bool \<Rightarrow> 'ty session \<Rightarrow> bool" where
  "closed_session b (Send t n) = closed_session b n"
| "closed_session b (Recv t n) = closed_session b n"
| "closed_session b (Offer l r) \<longleftrightarrow> closed_session b l \<and> closed_session b r"
| "closed_session b (Select l r) \<longleftrightarrow> closed_session b l \<and> closed_session b r"
| "closed_session b End = True"
| "closed_session b (Rec s) = closed_session True s"
| "closed_session b Var = b"

fun finite_session :: "'ty session \<Rightarrow> bool" where
  "finite_session (Send t n) = finite_session n"
| "finite_session (Recv t n) = finite_session n"
| "finite_session (Offer l r) \<longleftrightarrow> finite_session l \<and> finite_session r"
| "finite_session (Select l r) \<longleftrightarrow> finite_session l \<and> finite_session r"
| "finite_session End = True"
| "finite_session _ = False"

lemma closed_session_mono: "closed_session b s \<Longrightarrow> closed_session True s"
  by (induction b s rule: closed_session.induct) auto

lemma closed_session_dual [simp]: "closed_session b (dual s) = closed_session b s"
  by (induction b s rule: closed_session.induct) auto

lemma finite_session_dual [simp]: "finite_session (dual s) = finite_session s"
  by (induction s) auto

lemma finite_closed: "finite_session s \<Longrightarrow> closed_session b s"
  by (induction s) auto

subsection \<open>The web socket\<close>

datatype ws_frame = Text string | Binary bytes | Ping | Pong | Close

text \<open>What \<^verbatim>\<open>next\<close> of the stream yields: a frame, an error, or the end.\<close>

datatype incoming = Frame ws_frame | TransportFailure | StreamEnd

datatype WebSocketError = Transport | Serialize | Deserialize | Protocol string | Closed

text \<open>An operation that awaits a message returns a value and the rest, fails, or still waits.\<close>

datatype 'a awaited = Ready 'a "incoming list" | Fail WebSocketError | Waiting

text \<open>The loop that \<^verbatim>\<open>recv\<close> and \<^verbatim>\<open>offer\<close> share.\<close>

fun ws_next :: "incoming list \<Rightarrow> string awaited" where
  "ws_next [] = Waiting"
| "ws_next (Frame f # q) =
     (case f of Text t \<Rightarrow> Ready t q | Close \<Rightarrow> Fail Closed | _ \<Rightarrow> ws_next q)"
| "ws_next (TransportFailure # q) = Fail Transport"
| "ws_next (StreamEnd # q) = Fail Closed"

text \<open>Writing a frame: whether the connection takes it is a parameter.\<close>

definition ws_write :: "(ws_frame \<Rightarrow> bool) \<Rightarrow> ws_frame \<Rightarrow> (ws_frame, WebSocketError) result" where
  "ws_write takes f = (if takes f then Ok f else Err Transport)"

definition ws_send ::
  "(ws_frame \<Rightarrow> bool) \<Rightarrow> ('ty \<Rightarrow> 'v \<Rightarrow> string option) \<Rightarrow> 'ty \<Rightarrow> 'v \<Rightarrow> (ws_frame, WebSocketError) result"
where
  "ws_send takes ser t v = (case ser t v of Some json \<Rightarrow> ws_write takes (Text json) | None \<Rightarrow> Err Serialize)"

definition ws_recv :: "('ty \<Rightarrow> string \<Rightarrow> 'v option) \<Rightarrow> 'ty \<Rightarrow> incoming list \<Rightarrow> 'v awaited" where
  "ws_recv de t q =
     (case ws_next q of
        Ready text q' \<Rightarrow> (case de t text of Some v \<Rightarrow> Ready v q' | None \<Rightarrow> Fail Deserialize)
      | Fail e \<Rightarrow> Fail e
      | Waiting \<Rightarrow> Waiting)"

definition quoted_pair :: "string \<Rightarrow> string \<Rightarrow> string" where
  "quoted_pair k v = [CHR 0x22] @ k @ [CHR 0x22, CHR '':'', CHR 0x22] @ v @ [CHR 0x22]"

definition branch_left :: "string \<Rightarrow> bool" where
  "branch_left text \<longleftrightarrow>
     str_contains (quoted_pair ''branch'' ''L'') text \<or> str_contains (quoted_pair ''branch'' ''left'') text"

definition ws_offer :: "incoming list \<Rightarrow> bool awaited" where
  "ws_offer q =
     (case ws_next q of
        Ready text q' \<Rightarrow> Ready (branch_left text) q'
      | Fail e \<Rightarrow> Fail e
      | Waiting \<Rightarrow> Waiting)"

definition select_left_text :: string where
  "select_left_text = ''{'' @ quoted_pair ''branch'' ''L'' @ ''}''"

definition select_right_text :: string where
  "select_right_text = ''{'' @ quoted_pair ''branch'' ''R'' @ ''}''"

lemma branch_texts: "branch_left select_left_text" "\<not> branch_left select_right_text"
  by code_simp+

subsection \<open>Steps of an endpoint\<close>

text \<open>
  The state of one side. \<open>ep_body\<close> is the body of the \<^verbatim>\<open>Rec\<close> entered last, which the
  Rust type does not carry; \<open>ep_sent\<close> and \<open>ep_got\<close> are histories.
\<close>

datatype status = Running | Finished | Failed WebSocketError

record ('ty, 'v) endpoint =
  ep_session :: "'ty session"
  ep_body :: "'ty session option"
  ep_status :: status
  ep_sent :: "('ty \<times> 'v) list"
  ep_got :: "('ty \<times> 'v) list"

definition fresh_endpoint :: "'ty session \<Rightarrow> ('ty, 'v) endpoint" where
  "fresh_endpoint s = \<lparr>ep_session = s, ep_body = None, ep_status = Running, ep_sent = [], ep_got = []\<rparr>"

record ('ty, 'v) serde =
  sd_typed :: "'ty \<Rightarrow> 'v \<Rightarrow> bool"
  sd_ser :: "'ty \<Rightarrow> 'v \<Rightarrow> string option"
  sd_de :: "'ty \<Rightarrow> string \<Rightarrow> 'v option"
  sd_takes :: "ws_frame \<Rightarrow> bool"

type_synonym ('ty, 'v) side = "('ty, 'v) endpoint \<times> incoming list"

text \<open>
  The operations that the type of the channel permits, each with the frames it puts on the wire.
  \<^verbatim>\<open>recurse\<close> leaves the body to its caller; \<open>nearest\<close> says that the caller names the
  body of the nearest enclosing \<^verbatim>\<open>Rec\<close>, as the documentation means it.
\<close>

inductive ep_step ::
  "('ty, 'v) serde \<Rightarrow> bool \<Rightarrow> ('ty, 'v) side \<Rightarrow> ws_frame list \<Rightarrow> ('ty, 'v) side \<Rightarrow> bool"
  for sd :: "('ty, 'v) serde" and nearest :: bool
where
  send:
    "\<lbrakk>ep_status e = Running; ep_session e = Send t n; sd_typed sd t v; ws_send (sd_takes sd) (sd_ser sd) t v = Ok f\<rbrakk> \<Longrightarrow>
     ep_step sd nearest (e, q) [f] (e\<lparr>ep_session := n, ep_sent := ep_sent e @ [(t, v)]\<rparr>, q)"
| send_fails:
    "\<lbrakk>ep_status e = Running; ep_session e = Send t n; sd_typed sd t v; ws_send (sd_takes sd) (sd_ser sd) t v = Err x\<rbrakk> \<Longrightarrow>
     ep_step sd nearest (e, q) [] (e\<lparr>ep_status := Failed x\<rparr>, q)"
| recv:
    "\<lbrakk>ep_status e = Running; ep_session e = Recv t n; ws_recv (sd_de sd) t q = Ready v q'\<rbrakk> \<Longrightarrow>
     ep_step sd nearest (e, q) [] (e\<lparr>ep_session := n, ep_got := ep_got e @ [(t, v)]\<rparr>, q')"
| recv_fails:
    "\<lbrakk>ep_status e = Running; ep_session e = Recv t n; ws_recv (sd_de sd) t q = Fail x\<rbrakk> \<Longrightarrow>
     ep_step sd nearest (e, q) [] (e\<lparr>ep_status := Failed x\<rparr>, q)"
| offer:
    "\<lbrakk>ep_status e = Running; ep_session e = Offer l r; ws_offer q = Ready b q'\<rbrakk> \<Longrightarrow>
     ep_step sd nearest (e, q) [] (e\<lparr>ep_session := (if b then l else r)\<rparr>, q')"
| offer_fails:
    "\<lbrakk>ep_status e = Running; ep_session e = Offer l r; ws_offer q = Fail x\<rbrakk> \<Longrightarrow>
     ep_step sd nearest (e, q) [] (e\<lparr>ep_status := Failed x\<rparr>, q)"
| select_left:
    "\<lbrakk>ep_status e = Running; ep_session e = Select l r; ws_write (sd_takes sd) (Text select_left_text) = Ok f\<rbrakk> \<Longrightarrow>
     ep_step sd nearest (e, q) [f] (e\<lparr>ep_session := l\<rparr>, q)"
| select_right:
    "\<lbrakk>ep_status e = Running; ep_session e = Select l r; ws_write (sd_takes sd) (Text select_right_text) = Ok f\<rbrakk> \<Longrightarrow>
     ep_step sd nearest (e, q) [f] (e\<lparr>ep_session := r\<rparr>, q)"
| select_fails:
    "\<lbrakk>ep_status e = Running; ep_session e = Select l r; text \<in> {select_left_text, select_right_text};
      ws_write (sd_takes sd) (Text text) = Err x\<rbrakk> \<Longrightarrow>
     ep_step sd nearest (e, q) [] (e\<lparr>ep_status := Failed x\<rparr>, q)"
| enter:
    "\<lbrakk>ep_status e = Running; ep_session e = Rec b\<rbrakk> \<Longrightarrow>
     ep_step sd nearest (e, q) [] (e\<lparr>ep_session := b, ep_body := Some b\<rparr>, q)"
| recurse:
    "\<lbrakk>ep_status e = Running; ep_session e = Var; nearest \<Longrightarrow> ep_body e = Some b\<rbrakk> \<Longrightarrow>
     ep_step sd nearest (e, q) [] (e\<lparr>ep_session := Rec b\<rparr>, q)"
| close:
    "\<lbrakk>ep_status e = Running; ep_session e = End; ws_write (sd_takes sd) Close = Ok f\<rbrakk> \<Longrightarrow>
     ep_step sd nearest (e, q) [f] (e\<lparr>ep_status := Finished\<rparr>, q)"
| close_fails:
    "\<lbrakk>ep_status e = Running; ep_session e = End; ws_write (sd_takes sd) Close = Err x\<rbrakk> \<Longrightarrow>
     ep_step sd nearest (e, q) [] (e\<lparr>ep_status := Failed x\<rparr>, q)"

inductive_cases ep_stepE: "ep_step sd nearest (e, q) out (e', q')"

text \<open>
  Two endpoints over a connection that keeps the frames in order; the connection may add control
  frames of its own. The flag says whether an endpoint moved.
\<close>

inductive conn_step ::
  "('ty, 'v) serde \<Rightarrow> bool \<Rightarrow> ('ty, 'v) side \<times> ('ty, 'v) side \<Rightarrow> bool \<Rightarrow> ('ty, 'v) side \<times> ('ty, 'v) side \<Rightarrow> bool"
  for sd :: "('ty, 'v) serde" and nearest :: bool
where
  left_moves:
    "ep_step sd nearest x out x' \<Longrightarrow>
     conn_step sd nearest (x, (e, q)) True (x', (e, q @ map Frame out))"
| right_moves:
    "ep_step sd nearest y out y' \<Longrightarrow>
     conn_step sd nearest ((e, q), y) True ((e, q @ map Frame out), y')"
| control_left:
    "f = Ping \<or> f = Pong \<Longrightarrow> conn_step sd nearest ((e, q), y) False ((e, q @ [Frame f]), y)"
| control_right:
    "f = Ping \<or> f = Pong \<Longrightarrow> conn_step sd nearest (x, (e, q)) False (x, (e, q @ [Frame f]))"

text \<open>Runs, with the number of the steps of the endpoints.\<close>

inductive conn_run ::
  "('ty, 'v) serde \<Rightarrow> bool \<Rightarrow> ('ty, 'v) side \<times> ('ty, 'v) side \<Rightarrow> nat \<Rightarrow> ('ty, 'v) side \<times> ('ty, 'v) side \<Rightarrow> bool"
  for sd :: "('ty, 'v) serde" and nearest :: bool and c :: "('ty, 'v) side \<times> ('ty, 'v) side"
where
  start: "conn_run sd nearest c 0 c"
| continue:
    "conn_run sd nearest c k c' \<Longrightarrow> conn_step sd nearest c' m c'' \<Longrightarrow>
     conn_run sd nearest c (if m then Suc k else k) c''"

definition ws_connect :: "'ty session \<Rightarrow> 'ty session \<Rightarrow> ('ty, 'v) side \<times> ('ty, 'v) side" where
  "ws_connect s t = ((fresh_endpoint s, []), (fresh_endpoint t, []))"

end
