(* ===== verification/Session_Safety.thy ===== *)
theory Session_Safety
  imports Session
begin

text \<open>
  Two endpoints of dual session types: no message of the wrong type, no loss and no reordering, no
  deadlock, and an end of every run of a session without loops, if \<^verbatim>\<open>recurse\<close> names the
  body of the nearest loop; and what goes wrong when it does not.
\<close>

subsection \<open>Silent steps and duality\<close>

type_synonym 'ty point = "'ty session \<times> 'ty session option"

definition point :: "('ty, 'v) endpoint \<Rightarrow> 'ty point" where
  "point e = (ep_session e, ep_body e)"

definition dual_point :: "'ty point \<Rightarrow> 'ty point" where
  "dual_point = (\<lambda>(s, b). (dual s, map_option dual b))"

inductive silent :: "'ty point \<Rightarrow> 'ty point \<Rightarrow> bool" where
  enter: "silent (Rec b, x) (b, Some b)"
| recurse: "silent (Var, Some b) (Rec b, Some b)"

inductive_simps silent_simps [simp]:
  "silent (Send t n, b) y" "silent (Recv t n, b) y" "silent (Offer l r, b) y" "silent (Select l r, b) y"
  "silent (End, b) y" "silent (Rec s, b) y" "silent (Var, b) y"

lemma dual_point_dual [simp]: "dual_point (dual_point x) = x"
  by (cases x) (simp add: dual_point_def comp_def option.map_comp option.map_ident)

lemma silent_det: "silent x y \<Longrightarrow> silent x z \<Longrightarrow> y = z"
  by (auto elim: silent.cases)

lemma silent_dual: "silent x y \<Longrightarrow> silent (dual_point x) (dual_point y)"
  by (auto elim!: silent.cases simp: dual_point_def)

lemma silents_dual: "silent\<^sup>*\<^sup>* x y \<Longrightarrow> silent\<^sup>*\<^sup>* (dual_point x) (dual_point y)"
  by (induction rule: rtranclp_induct) (auto intro: rtranclp.rtrancl_into_rtrancl silent_dual)

lemma silents_meet: "silent\<^sup>*\<^sup>* x n \<Longrightarrow> \<nexists>m. silent n m \<Longrightarrow> silent\<^sup>*\<^sup>* x y \<Longrightarrow> silent\<^sup>*\<^sup>* y n"
proof (induction arbitrary: y rule: converse_rtranclp_induct)
  case base
  then show ?case by (metis converse_rtranclpE rtranclp.rtrancl_refl)
next
  case (step x z)
  from step.prems(2) show ?case
  proof (cases rule: converse_rtranclpE)
    case base
    with step.hyps show ?thesis by (metis converse_rtranclp_into_rtranclp)
  next
    case (step z')
    with step.hyps silent_det have "z' = z" by blast
    with step step.IH [OF step.prems(1)] show ?thesis by simp
  qed
qed

text \<open>The two sides stand at dual points, up to silent steps.\<close>

definition in_sync :: "'ty point \<Rightarrow> 'ty point \<Rightarrow> bool" where
  "in_sync x y \<longleftrightarrow> (\<exists>z. silent\<^sup>*\<^sup>* z x \<and> silent\<^sup>*\<^sup>* (dual_point z) y)"

lemma in_sync_dual: "in_sync x (dual_point x)"
  unfolding in_sync_def by blast

lemma in_sync_sym: "in_sync x y \<Longrightarrow> in_sync y x"
  unfolding in_sync_def by (metis dual_point_dual)

lemma in_sync_silent: "in_sync x y \<Longrightarrow> silent x x' \<Longrightarrow> in_sync x' y"
  unfolding in_sync_def by (metis rtranclp.rtrancl_into_rtrancl)

lemma in_sync_normal: "in_sync x y \<Longrightarrow> \<nexists>m. silent x m \<Longrightarrow> silent\<^sup>*\<^sup>* y (dual_point x)"
proof -
  assume "in_sync x y" and n: "\<nexists>m. silent x m"
  then obtain z where z: "silent\<^sup>*\<^sup>* z x" "silent\<^sup>*\<^sup>* (dual_point z) y" by (auto simp: in_sync_def)
  have "\<nexists>m. silent (dual_point x) m" using n silent_dual [of "dual_point x"] by (metis dual_point_dual)
  from silents_meet [OF silents_dual [OF z(1)] this z(2)] show ?thesis .
qed

subsection \<open>What an endpoint makes of its inbox\<close>

text \<open>Reading the inbox \<open>q\<close> from the point \<open>x\<close> gives the values \<open>vs\<close> and leads to \<open>y\<close>.\<close>

inductive eats ::
  "('ty \<Rightarrow> string \<Rightarrow> 'v option) \<Rightarrow> 'ty point \<Rightarrow> incoming list \<Rightarrow> ('ty \<times> 'v) list \<Rightarrow> 'ty point \<Rightarrow> bool"
  for de :: "'ty \<Rightarrow> string \<Rightarrow> 'v option"
where
  none: "eats de x [] [] x"
| control: "f = Ping \<or> f = Pong \<Longrightarrow> eats de x q vs y \<Longrightarrow> eats de x (Frame f # q) vs y"
| message: "de t text = Some v \<Longrightarrow> eats de (n, b) q vs y \<Longrightarrow>
    eats de (Recv t n, b) (Frame (Text text) # q) ((t, v) # vs) y"
| branch: "eats de (if branch_left text then l else r, b) q vs y \<Longrightarrow>
    eats de (Offer l r, b) (Frame (Text text) # q) vs y"
| moves: "silent x x' \<Longrightarrow> eats de x' q vs y \<Longrightarrow> eats de x q vs y"
| closed: "eats de (End, b) q vs y \<Longrightarrow> eats de (End, b) (Frame Close # q) vs y"

lemma eats_branch:
  "eats de (Offer l r, b) [Frame (Text t)] [] (if branch_left t then l else r, b)"
  by (intro eats.branch eats.none)

lemma eats_append: "eats de x q vs y \<Longrightarrow> eats de y q' ws z \<Longrightarrow> eats de x (q @ q') (vs @ ws) z"
  by (induction rule: eats.induct) (auto intro: eats.intros)

lemma eats_silents: "silent\<^sup>*\<^sup>* x y \<Longrightarrow> eats de y q vs z \<Longrightarrow> eats de x q vs z"
  by (induction rule: converse_rtranclp_induct) (auto intro: eats.moves)

lemma eats_then_silents: "eats de x q vs y \<Longrightarrow> silent\<^sup>*\<^sup>* y z \<Longrightarrow> eats de x q vs z"
  using eats_append [of de x q vs y "[]" "[]" z] eats_silents [of y z de "[]" "[]" z] eats.none [of de z] by simp

lemma eats_after_silent:
  "eats de x q vs y \<Longrightarrow> silent x x' \<Longrightarrow> \<exists>y'. eats de x' q vs y' \<and> (y' = y \<or> silent y y')"
proof (induction arbitrary: x' rule: eats.induct)
  case (none x)
  then show ?case using eats.none by blast
next
  case (control f x q vs y)
  then show ?case using eats.control by meson
next
  case (moves x x'' q vs y)
  then show ?case using silent_det by blast
qed auto

text \<open>A point that does not read leaves the messages to its successor.\<close>

lemma eats_writer:
  "eats de x q vs y \<Longrightarrow> fst x \<in> {Send t n, Select l r} \<Longrightarrow> y = x \<and> vs = [] \<and> (\<forall>z. eats de z q [] z)"
  by (induction rule: eats.induct) (auto intro: eats.intros elim: silent.cases)

lemma eats_end: "eats de x q vs y \<Longrightarrow> fst x = End \<Longrightarrow> y = x \<and> vs = []"
  by (induction rule: eats.induct) (auto elim: silent.cases)

lemma eats_recv:
  "eats de x q vs y \<Longrightarrow> x = (Recv t n, b) \<Longrightarrow>
   (case ws_next q of
      Ready text q' \<Rightarrow> \<exists>v vs'. de t text = Some v \<and> vs = (t, v) # vs' \<and> eats de (n, b) q' vs' y
    | Fail e \<Rightarrow> False
    | Waiting \<Rightarrow> y = x \<and> vs = [])"
  by (induction rule: eats.induct) auto

lemma eats_offer:
  "eats de x q vs y \<Longrightarrow> x = (Offer l r, b) \<Longrightarrow>
   (case ws_next q of
      Ready text q' \<Rightarrow> eats de (if branch_left text then l else r, b) q' vs y
    | Fail e \<Rightarrow> False
    | Waiting \<Rightarrow> y = x \<and> vs = [])"
  by (induction rule: eats.induct) (auto split: awaited.splits)

subsection \<open>The invariant\<close>

definition serde_ok :: "('ty, 'v) serde \<Rightarrow> bool" where
  "serde_ok sd \<longleftrightarrow> (\<forall>t v. sd_typed sd t v \<longrightarrow> (\<exists>s. sd_ser sd t v = Some s \<and> sd_de sd t s = Some v)) \<and>
     (\<forall>f. sd_takes sd f)"

lemma serde_okD: "serde_ok sd \<Longrightarrow> sd_typed sd t v \<Longrightarrow> \<exists>s. sd_ser sd t v = Some s \<and> sd_de sd t s = Some v"
  by (simp add: serde_ok_def)

lemma ws_write_total: "(\<exists>g. ws_write takes f = Ok g) \<or> (\<exists>x. ws_write takes f = Err x)"
  by (simp add: ws_write_def)

lemma serde_ok_write [simp]: "serde_ok sd \<Longrightarrow> ws_write (sd_takes sd) f = Ok f"
  by (simp add: serde_ok_def ws_write_def)

definition healthy :: "('ty, 'v) endpoint \<Rightarrow> bool" where
  "healthy e \<longleftrightarrow>
     (ep_status e = Running \<or> ep_status e = Finished \<and> ep_session e = End) \<and>
     closed_session (ep_body e \<noteq> None) (ep_session e) \<and>
     (\<forall>b. ep_body e = Some b \<longrightarrow> closed_session True b)"

definition conn_inv :: "('ty, 'v) serde \<Rightarrow> ('ty, 'v) side \<times> ('ty, 'v) side \<Rightarrow> bool" where
  "conn_inv sd = (\<lambda>((a, p), (c, q)).
     healthy a \<and> healthy c \<and>
     (\<exists>x y vs ws. eats (sd_de sd) (point a) p vs x \<and> eats (sd_de sd) (point c) q ws y \<and> in_sync x y \<and>
        ep_sent c = ep_got a @ vs \<and> ep_sent a = ep_got c @ ws))"

lemma conn_invI:
  "\<lbrakk>healthy a; healthy c; eats (sd_de sd) (point a) p vs x; eats (sd_de sd) (point c) q ws y; in_sync x y;
    ep_sent c = ep_got a @ vs; ep_sent a = ep_got c @ ws\<rbrakk> \<Longrightarrow> conn_inv sd ((a, p), (c, q))"
  unfolding conn_inv_def by (simp del: split_paired_Ex) blast

lemma conn_inv_swap: "conn_inv sd (x, y) \<Longrightarrow> conn_inv sd (y, x)"
  unfolding conn_inv_def using in_sync_sym by (auto split: prod.splits) blast

lemma conn_inv_control:
  assumes "conn_inv sd ((a, p), y)" "f = Ping \<or> f = Pong"
  shows "conn_inv sd ((a, p @ [Frame f]), y)"
proof -
  obtain c q where y: "y = (c, q)" by (cases y)
  from assms(1) obtain x z vs ws where i: "healthy a" "healthy c" "eats (sd_de sd) (point a) p vs x"
    "eats (sd_de sd) (point c) q ws z" "in_sync x z" "ep_sent c = ep_got a @ vs" "ep_sent a = ep_got c @ ws"
    by (auto simp: conn_inv_def y)
  have "eats (sd_de sd) (point a) (p @ [Frame f]) (vs @ []) x"
    using assms(2) by (intro eats_append [OF i(3)] eats.control eats.none)
  then show ?thesis using i by (auto simp: y intro: conn_invI)
qed

lemma conn_inv_start: "closed_session False s \<Longrightarrow> conn_inv sd (ws_connect s (dual s))"
  unfolding ws_connect_def
  by (intro conn_invI [of _ _ _ _ "[]" "(s, None)" _ "[]" "(dual s, None)"])
     (use in_sync_dual [of "(s, None)"] in
       \<open>auto simp: healthy_def fresh_endpoint_def point_def dual_point_def intro: eats.none\<close>)

subsection \<open>Every step keeps the invariant\<close>

lemma silent_stuck: "fst x \<in> {Send t n, Recv t n, Offer l r, Select l r, End} \<Longrightarrow> \<nexists>m. silent x m"
  by (cases x) auto

lemma ws_recv_cases:
  "ws_recv de t q = Ready v q' \<longleftrightarrow> (\<exists>text. ws_next q = Ready text q' \<and> de t text = Some v)"
  "ws_recv de t q = Fail e \<longleftrightarrow> ws_next q = Fail e \<or> e = Deserialize \<and> (\<exists>text q'. ws_next q = Ready text q' \<and> de t text = None)"
  "ws_recv de t q = Waiting \<longleftrightarrow> ws_next q = Waiting"
  by (auto simp: ws_recv_def split: awaited.splits option.splits)

lemma ws_offer_cases:
  "ws_offer q = Ready b q' \<longleftrightarrow> (\<exists>text. ws_next q = Ready text q' \<and> b = branch_left text)"
  "ws_offer q = Fail e \<longleftrightarrow> ws_next q = Fail e"
  "ws_offer q = Waiting \<longleftrightarrow> ws_next q = Waiting"
  by (auto simp: ws_offer_def split: awaited.splits)

lemma ws_send_cases:
  "ws_send takes ser t v = Ok f \<longleftrightarrow> (\<exists>text. ser t v = Some text \<and> f = Text text \<and> takes f)"
  "ws_send takes ser t v = Err e \<longleftrightarrow> ser t v = None \<and> e = Serialize \<or>
     (\<exists>text. ser t v = Some text \<and> \<not> takes (Text text) \<and> e = Transport)"
  by (auto simp: ws_send_def ws_write_def split: option.splits)

text \<open>A side that writes: its peer has come to the dual point, so it reads what is written.\<close>

lemma writer_sync:
  assumes "eats de (point a) p vs x" "fst (point a) \<in> {Send t n, Select l r}" "in_sync x y" "eats de (point c) q ws y"
  shows "eats de (point c) q ws (dual_point (point a))" "vs = []" "\<And>z. eats de z p [] z"
proof -
  from eats_writer [OF assms(1,2)] have x: "x = point a" and "vs = []" "\<And>z. eats de z p [] z" by blast+
  show "vs = []" by fact
  show "eats de z p [] z" for z by fact
  have "\<nexists>m. silent x m" using assms(2) silent_stuck [of x t n l r] by (auto simp: x)
  from eats_then_silents [OF assms(4) in_sync_normal [OF assms(3) this]]
  show "eats de (point c) q ws (dual_point (point a))" by (simp only: x)
qed

lemma conn_inv_writes:
  assumes inv: "conn_inv sd ((a, p), (c, q))" and w: "fst (point a) \<in> {Send t n, Select l r}"
    and a': "healthy a'" "ep_got a' = ep_got a" "ep_sent a' = ep_sent a @ ms"
    and out: "eats (sd_de sd) (dual_point (point a)) fs ms (dual_point (point a'))"
  shows "conn_inv sd ((a', p), (c, q @ fs))"
proof -
  from inv obtain x y vs ws where i: "healthy a" "healthy c" "eats (sd_de sd) (point a) p vs x"
    "eats (sd_de sd) (point c) q ws y" "in_sync x y" "ep_sent c = ep_got a @ vs" "ep_sent a = ep_got c @ ws"
    unfolding conn_inv_def by (simp del: split_paired_Ex) blast
  note ww = writer_sync [OF i(3) w i(5,4)]
  show ?thesis
    by (rule conn_invI [OF a'(1) i(2) ww(3) eats_append [OF ww(1) out] in_sync_dual])
       (use i(6,7) a'(2,3) ww(2) in simp_all)
qed

lemma conn_inv_reads:
  assumes inv: "conn_inv sd ((a, p), (c, q))"
    and a': "healthy a'" "ep_sent a' = ep_sent a"
    and reads: "\<And>x vs. eats (sd_de sd) (point a) p vs x \<Longrightarrow>
      \<exists>x' vs'. eats (sd_de sd) (point a') p' vs' x' \<and> (x' = x \<or> silent x x') \<and> ep_got a @ vs = ep_got a' @ vs'"
  shows "conn_inv sd ((a', p'), (c, q))"
proof -
  from inv obtain x y vs ws where i: "healthy a" "healthy c" "eats (sd_de sd) (point a) p vs x"
    "eats (sd_de sd) (point c) q ws y" "in_sync x y" "ep_sent c = ep_got a @ vs" "ep_sent a = ep_got c @ ws"
    unfolding conn_inv_def by (simp del: split_paired_Ex) blast
  from reads [OF i(3)] obtain x' vs' where r: "eats (sd_de sd) (point a') p' vs' x'" "x' = x \<or> silent x x'"
    "ep_got a @ vs = ep_got a' @ vs'" by blast
  from r(2) i(5) in_sync_silent have "in_sync x' y" by blast
  from conn_invI [OF a'(1) i(2) r(1) i(4) this] i(6,7) a'(2) r(3) show ?thesis by simp
qed

lemma point_update [simp]:
  "point (e\<lparr>ep_session := s\<rparr>) = (s, ep_body e)" "point (e\<lparr>ep_sent := m\<rparr>) = point e" "point (e\<lparr>ep_got := m\<rparr>) = point e"
  "point (e\<lparr>ep_status := x\<rparr>) = point e" "point (e\<lparr>ep_body := b\<rparr>) = (ep_session e, b)"
  by (simp_all add: point_def)

lemma healthy_running: "healthy a \<Longrightarrow> ep_status a = Running \<Longrightarrow>
  closed_session (ep_body a \<noteq> None) s \<Longrightarrow> healthy (a\<lparr>ep_session := s, ep_sent := x, ep_got := y\<rparr>)"
  by (simp add: healthy_def)

lemma conn_inv_healthy: "conn_inv sd ((a, p), (c, q)) \<Longrightarrow> healthy a \<and> healthy c"
  by (simp add: conn_inv_def)

declare split_paired_Ex [simp del]

lemma ep_step_inv:
  assumes sd: "serde_ok sd" and inv: "conn_inv sd ((a, p), (c, q))"
    and step: "ep_step sd True (a, p) out (a', p')"
  shows "conn_inv sd ((a', p'), (c, q @ map Frame out))"
  using step
proof (cases rule: ep_step.cases)
  case (send t n v f)
  from serde_okD [OF sd send(6)] obtain js where ser: "sd_ser sd t v = Some js" and de: "sd_de sd t js = Some v"
    by (elim exE conjE)
  have js: "sd_de sd t js = Some v" "f = Text js"
    using de send(7) [unfolded ws_send_cases(1) ser] by simp_all
  have ev: "eats (sd_de sd) (dual_point (point a)) [Frame (Text js)] [(t, v)] (dual_point (point a'))"
    using send js(1) by (simp add: point_def dual_point_def eats.message eats.none)
  have "conn_inv sd ((a', p), (c, q @ [Frame (Text js)]))"
    by (rule conn_inv_writes [OF inv _ _ _ _ ev])
       (use send conn_inv_healthy [OF inv] in \<open>simp_all add: healthy_def\<close>, simp add: point_def)
  with send js(2) show ?thesis by simp
next
  case (select_left l r f)
  have ev: "eats (sd_de sd) (dual_point (point a)) [Frame (Text select_left_text)] [] (dual_point (point a'))"
    using select_left eats_branch [of _ "dual l" "dual r" _ select_left_text]
    by (simp add: point_def dual_point_def branch_texts)
  have "conn_inv sd ((a', p), (c, q @ [Frame (Text select_left_text)]))"
    by (rule conn_inv_writes [OF inv _ _ _ _ ev])
       (use select_left conn_inv_healthy [OF inv] in \<open>simp_all add: healthy_def\<close>, simp add: point_def)
  moreover have "f = Text select_left_text" using select_left sd by simp
  ultimately show ?thesis using select_left by simp
next
  case (select_right l r f)
  have ev: "eats (sd_de sd) (dual_point (point a)) [Frame (Text select_right_text)] [] (dual_point (point a'))"
    using select_right eats_branch [of _ "dual l" "dual r" _ select_right_text]
    by (simp add: point_def dual_point_def branch_texts)
  have "conn_inv sd ((a', p), (c, q @ [Frame (Text select_right_text)]))"
    by (rule conn_inv_writes [OF inv _ _ _ _ ev])
       (use select_right conn_inv_healthy [OF inv] in \<open>simp_all add: healthy_def\<close>, simp add: point_def)
  moreover have "f = Text select_right_text" using select_right sd by simp
  ultimately show ?thesis using select_right by simp
next
  case (recv t n v)
  then obtain js where js: "ws_next p = Ready js p'" "sd_de sd t js = Some v" by (auto simp: ws_recv_cases)
  have "\<exists>x' vs'. eats (sd_de sd) (point a') p' vs' x' \<and> (x' = x \<or> silent x x') \<and> ep_got a @ vs = ep_got a' @ vs'"
    if "eats (sd_de sd) (point a) p vs x" for x vs
    using eats_recv [OF that, of t n "ep_body a"] recv js by (auto simp: point_def)
  with recv conn_inv_healthy [OF inv] have "conn_inv sd ((a', p'), (c, q))"
    by (intro conn_inv_reads [OF inv]) (simp_all add: healthy_def)
  with recv show ?thesis by simp
next
  case (offer l r b)
  then obtain js where js: "ws_next p = Ready js p'" "b = branch_left js" by (auto simp: ws_offer_cases)
  have "\<exists>x' vs'. eats (sd_de sd) (point a') p' vs' x' \<and> (x' = x \<or> silent x x') \<and> ep_got a @ vs = ep_got a' @ vs'"
    if "eats (sd_de sd) (point a) p vs x" for x vs
    using eats_offer [OF that, of l r "ep_body a"] offer js by (auto simp: point_def)
  with offer conn_inv_healthy [OF inv] have "conn_inv sd ((a', p'), (c, q))"
    by (intro conn_inv_reads [OF inv]) (simp_all add: healthy_def)
  with offer show ?thesis by simp
next
  case (enter b)
  have si: "silent (point a) (point a')" using enter by (simp add: point_def)
  have "\<exists>x' vs'. eats (sd_de sd) (point a') p' vs' x' \<and> (x' = x \<or> silent x x') \<and> ep_got a @ vs = ep_got a' @ vs'"
    if "eats (sd_de sd) (point a) p vs x" for x vs
  proof -
    from eats_after_silent [OF that si] obtain y where "eats (sd_de sd) (point a') p vs y" "y = x \<or> silent x y"
      by blast
    moreover have "ep_got a' = ep_got a" "p' = p" using enter by simp_all
    ultimately show ?thesis by metis
  qed
  moreover have "healthy a'" using enter conn_inv_healthy [OF inv] closed_session_mono
    by (auto simp: healthy_def)
  ultimately have "conn_inv sd ((a', p'), (c, q))"
    using enter by (intro conn_inv_reads [OF inv]) simp_all
  with enter show ?thesis by simp
next
  case (recurse b)
  have si: "silent (point a) (point a')" using recurse by (simp add: point_def)
  have "\<exists>x' vs'. eats (sd_de sd) (point a') p' vs' x' \<and> (x' = x \<or> silent x x') \<and> ep_got a @ vs = ep_got a' @ vs'"
    if "eats (sd_de sd) (point a) p vs x" for x vs
  proof -
    from eats_after_silent [OF that si] obtain y where "eats (sd_de sd) (point a') p vs y" "y = x \<or> silent x y"
      by blast
    moreover have "ep_got a' = ep_got a" "p' = p" using recurse by simp_all
    ultimately show ?thesis by metis
  qed
  moreover have "healthy a'" using recurse conn_inv_healthy [OF inv] closed_session_mono
    by (auto simp: healthy_def)
  ultimately have "conn_inv sd ((a', p'), (c, q))"
    using recurse by (intro conn_inv_reads [OF inv]) simp_all
  with recurse show ?thesis by simp
next
  case (send_fails t n v e)
  then have "sd_typed sd t v" "sd_ser sd t v = None" using sd by (auto simp: ws_send_cases serde_ok_def)
  with serde_okD [OF sd, of t v] show ?thesis by simp
next
  case (select_fails l r m x)
  with sd show ?thesis by simp
next
  case (close_fails x)
  with sd show ?thesis by simp
next
  case (recv_fails t n e)
  from inv obtain x vs where "eats (sd_de sd) (point a) p vs x" unfolding conn_inv_def by auto
  with eats_recv [OF this, of t n "ep_body a"] recv_fails show ?thesis by (auto simp: ws_recv_cases point_def)
next
  case (offer_fails l r e)
  from inv obtain x vs where "eats (sd_de sd) (point a) p vs x" unfolding conn_inv_def by auto
  with eats_offer [OF this, of l r "ep_body a"] offer_fails show ?thesis by (auto simp: ws_offer_cases point_def)
next
  case (close f)
  from inv obtain x y vs ws where i: "healthy a" "healthy c" "eats (sd_de sd) (point a) p vs x"
    "eats (sd_de sd) (point c) q ws y" "in_sync x y" "ep_sent c = ep_got a @ vs" "ep_sent a = ep_got c @ ws"
    unfolding conn_inv_def by (simp del: split_paired_Ex) blast
  from eats_end [OF i(3)] close have x: "x = (End, ep_body a)" "vs = []" by (simp_all add: point_def)
  have 1: "eats (sd_de sd) (point c) q ws (End, map_option dual (ep_body a))"
    using eats_then_silents [OF i(4) in_sync_normal [OF i(5)]] by (simp add: x dual_point_def)
  have 2: "eats (sd_de sd) (End, map_option dual (ep_body a)) [Frame Close] [] (End, map_option dual (ep_body a))"
    by (rule eats.closed [OF eats.none])
  have h: "healthy a'" using close i(1) by (simp add: healthy_def)
  have p: "eats (sd_de sd) (point a') p' vs x" using close i(3) by simp
  have "in_sync x (End, map_option dual (ep_body a))" using in_sync_dual [of x] by (simp add: x dual_point_def)
  moreover have "f = Close" using close sd by simp
  ultimately show ?thesis using conn_invI [OF h i(2) p eats_append [OF 1 2]] close i(6,7) by simp
qed

declare split_paired_Ex [simp]

lemma conn_step_inv:
  assumes "conn_step sd True c m c'" "serde_ok sd" "conn_inv sd c"
  shows "conn_inv sd c'"
  using assms
proof (induction rule: conn_step.induct)
  case (left_moves x out x' e q)
  then show ?case using ep_step_inv by (cases x; cases x') blast
next
  case (right_moves y out y' e q)
  obtain a p where y: "y = (a, p)" by (cases y)
  obtain a' p' where y': "y' = (a', p')" by (cases y')
  show ?case
    using ep_step_inv [OF _ conn_inv_swap [of sd "(e, q)" y, unfolded y] right_moves.hyps [unfolded y y']] right_moves.prems
    by (simp add: y y' conn_inv_swap)
next
  case (control_left f e q y)
  then show ?case by (simp add: conn_inv_control)
next
  case (control_right f x e q)
  then show ?case using conn_inv_swap conn_inv_control by blast
qed

lemma conn_run_inv: "conn_run sd True c k c' \<Longrightarrow> serde_ok sd \<Longrightarrow> conn_inv sd c \<Longrightarrow> conn_inv sd c'"
  by (induction rule: conn_run.induct) (auto dest: conn_step_inv)

subsection \<open>Progress\<close>

definition both_finished :: "('ty, 'v) side \<times> ('ty, 'v) side \<Rightarrow> bool" where
  "both_finished c \<longleftrightarrow> ep_status (fst (fst c)) = Finished \<and> ep_status (fst (snd c)) = Finished"

text \<open>A side that cannot move waits for a message that is not there, or has finished.\<close>

lemma stuck_waits:
  assumes h: "healthy a" and e: "eats (sd_de sd) (point a) p vs x"
    and typed: "\<And>t. \<exists>v. sd_typed sd t v" and stuck: "\<nexists>out z. ep_step sd True (a, p) out z"
  shows "ep_status a = Finished \<and> ep_session a = End \<and> x = point a \<or>
    (\<exists>t n l r. ep_session a \<in> {Recv t n, Offer l r} \<and> x = point a)"
proof (cases "ep_status a = Running")
  case False
  with h eats_end [OF e] show ?thesis by (auto simp: healthy_def point_def)
next
  case True
  show ?thesis
  proof (cases "ep_session a")
    case (Send t n)
    obtain v where "sd_typed sd t v" using typed by blast
    moreover have "(\<exists>f. ws_send (sd_takes sd) (sd_ser sd) t v = Ok f) \<or> (\<exists>x. ws_send (sd_takes sd) (sd_ser sd) t v = Err x)"
      by (cases "sd_ser sd t v") (simp_all add: ws_send_def ws_write_def)
    ultimately show ?thesis
      using stuck ep_step.send [OF True Send] ep_step.send_fails [OF True Send] by blast
  next
    case (Recv t n)
    with stuck True have "ws_recv (sd_de sd) t p = Waiting"
      by (cases "ws_recv (sd_de sd) t p") (auto dest: ep_step.recv ep_step.recv_fails)
    with eats_recv [OF e, of t n "ep_body a"] Recv show ?thesis by (auto simp: ws_recv_cases point_def)
  next
    case (Offer l r)
    with stuck True have "ws_offer p = Waiting"
      by (cases "ws_offer p") (auto dest: ep_step.offer ep_step.offer_fails)
    with eats_offer [OF e, of l r "ep_body a"] Offer show ?thesis by (auto simp: ws_offer_cases point_def)
  next
    case (Select l r)
    with True stuck show ?thesis
      using ws_write_total [of "sd_takes sd" "Text select_left_text"] ep_step.select_left [OF True Select]
        ep_step.select_fails [OF True Select] by blast
  next
    case End
    with True stuck show ?thesis
      using ws_write_total [of "sd_takes sd" Close] ep_step.close [OF True End] ep_step.close_fails [OF True End] by blast
  next
    case (Rec b)
    with True stuck show ?thesis by (auto dest: ep_step.enter)
  next
    case Var
    with h obtain b where "ep_body a = Some b" by (auto simp: healthy_def)
    with True Var stuck show ?thesis by (auto dest: ep_step.recurse)
  qed
qed

lemma in_sync_normal_both:
  "in_sync x y \<Longrightarrow> \<nexists>m. silent x m \<Longrightarrow> \<nexists>m. silent y m \<Longrightarrow> y = dual_point x"
  using in_sync_normal [of x y] by (metis converse_rtranclpE)

lemma conn_progress:
  assumes inv: "conn_inv sd c" and typed: "\<And>t. \<exists>v. sd_typed sd t v"
    and stuck: "\<nexists>c'. conn_step sd True c True c'"
  shows "both_finished c"
proof -
  obtain a p b q where c: "c = ((a, p), (b, q))" by (cases c) auto
  from inv obtain x y vs ws where i: "healthy a" "healthy b" "eats (sd_de sd) (point a) p vs x"
    "eats (sd_de sd) (point b) q ws y" "in_sync x y"
    unfolding conn_inv_def c by (simp del: split_paired_Ex) blast
  have sa: "\<nexists>out z. ep_step sd True (a, p) out z"
    using stuck conn_step.left_moves [of sd True "(a, p)" _ _ b q] by (auto simp: c)
  have sb: "\<nexists>out z. ep_step sd True (b, q) out z"
    using stuck conn_step.right_moves [of sd True "(b, q)" _ _ a p] by (auto simp: c)
  note wa = stuck_waits [OF i(1,3) typed sa] and wb = stuck_waits [OF i(2,4) typed sb]
  have "x = point a" "y = point b" using wa wb by blast+
  moreover have "\<nexists>m. silent (point a) m" "\<nexists>m. silent (point b) m"
    using wa wb by (auto simp: point_def)
  ultimately have "point b = dual_point (point a)" using in_sync_normal_both i(5) by blast
  with wa wb show ?thesis by (auto simp: both_finished_def c point_def dual_point_def)
qed

subsection \<open>Runs without loops end\<close>

definition ep_weight :: "('ty, 'v) endpoint \<Rightarrow> nat" where
  "ep_weight e = (if ep_status e = Running then Suc (size (ep_session e)) else 0)"

lemma ep_step_weight:
  "ep_step sd nearest (a, p) out (a', p') \<Longrightarrow> finite_session (ep_session a) \<Longrightarrow>
   finite_session (ep_session a') \<and> ep_weight a' < ep_weight a"
  by (erule ep_step.cases) (auto simp: ep_weight_def)

lemma conn_run_weight:
  assumes "conn_run sd nearest c k c'" "finite_session (ep_session (fst (fst c)))" "finite_session (ep_session (fst (snd c)))"
  shows "finite_session (ep_session (fst (fst c'))) \<and> finite_session (ep_session (fst (snd c'))) \<and>
    k + ep_weight (fst (fst c')) + ep_weight (fst (snd c')) \<le> ep_weight (fst (fst c)) + ep_weight (fst (snd c))"
  using assms
proof (induction rule: conn_run.induct)
  case start
  then show ?case by simp
next
  case (continue k c' m c'')
  from continue.hyps(2) continue.IH [OF continue.prems] show ?case
    by (cases rule: conn_step.cases) (auto dest: ep_step_weight)
qed

subsection \<open>Properties\<close>

text \<open>C8. Session types are safe. For every session type whose variables are bound, one side that
  follows it and one that follows its dual (\<^verbatim>\<open>Dual\<close>), connected in order with control
  frames in between, in every run where \<^verbatim>\<open>recurse\<close> goes back to the nearest loop: no
  operation fails (no message is read at a wrong type, no close frame arrives early); the values
  that one side has received are the first of those that the other has sent, in order and at the
  same types; and as long as not both have closed the channel, one of them can make a step. This
  rests on \<^verbatim>\<open>serde_json\<close> reading back what it wrote at the same type, on a
  connection that takes every frame, and on types that have a value.\<close>

theorem session_types_safe:
  assumes "closed_session False s" "serde_ok sd" "\<And>t. \<exists>v. sd_typed sd t v"
    and "conn_run sd True (ws_connect s (dual s)) k ((a, p), (b, q))"
  shows "(\<forall>x. ep_status a \<noteq> Failed x \<and> ep_status b \<noteq> Failed x) \<and>
    (\<exists>vs ws. ep_sent b = ep_got a @ vs \<and> ep_sent a = ep_got b @ ws) \<and>
    ((\<exists>c'. conn_step sd True ((a, p), (b, q)) True c') \<or> ep_status a = Finished \<and> ep_status b = Finished)"
proof (intro conjI)
  have inv: "conn_inv sd ((a, p), (b, q))"
    by (rule conn_run_inv [OF assms(4,2) conn_inv_start [OF assms(1)]])
  then show "\<forall>x. ep_status a \<noteq> Failed x \<and> ep_status b \<noteq> Failed x"
    and "\<exists>vs ws. ep_sent b = ep_got a @ vs \<and> ep_sent a = ep_got b @ ws"
    by (auto simp: conn_inv_def healthy_def)
  show "(\<exists>c'. conn_step sd True ((a, p), (b, q)) True c') \<or> ep_status a = Finished \<and> ep_status b = Finished"
    using conn_progress [OF inv assms(3)] by (auto simp: both_finished_def)
qed

text \<open>A chat: a greeting, then a loop that receives a message and sends one; on two values.\<close>

definition chat_session :: "nat session" where
  "chat_session = Send 0 (Rec (Recv 0 (Send 0 Var)))"

definition text_serde :: "(nat, string) serde" where
  "text_serde = \<lparr>sd_typed = \<lambda>t v. True, sd_ser = \<lambda>t v. Some v, sd_de = \<lambda>t s. Some s, sd_takes = \<lambda>f. True\<rparr>"

definition greeted :: "(nat, string) side \<times> (nat, string) side" where
  "greeted =
     (((fresh_endpoint chat_session)\<lparr>ep_session := Rec (Recv 0 (Send 0 Var)), ep_sent := [(0, ''hello'')]\<rparr>, []),
      (fresh_endpoint (dual chat_session), [Frame (Text ''hello'')]))"

lemma greeted_run: "conn_run text_serde b (ws_connect chat_session (dual chat_session)) 1 greeted"
proof -
  have "ep_step text_serde b (fresh_endpoint chat_session, []) [Text ''hello'']
      ((fresh_endpoint chat_session)\<lparr>ep_session := Rec (Recv 0 (Send 0 Var)),
         ep_sent := ep_sent (fresh_endpoint chat_session) @ [(0, ''hello'')]\<rparr>, [])"
    by (rule ep_step.send) (simp_all add: fresh_endpoint_def chat_session_def text_serde_def ws_send_def ws_write_def)
  from conn_run.continue [OF conn_run.start conn_step.left_moves [OF this, of "fresh_endpoint (dual chat_session)" "[]"]]
  show ?thesis by (simp add: ws_connect_def greeted_def fresh_endpoint_def)
qed

theorem session_types_safe_witness:
  "(\<forall>x. ep_status (fst (fst greeted)) \<noteq> Failed x \<and> ep_status (fst (snd greeted)) \<noteq> Failed x) \<and>
    (\<exists>vs ws. ep_sent (fst (snd greeted)) = ep_got (fst (fst greeted)) @ vs \<and>
      ep_sent (fst (fst greeted)) = ep_got (fst (snd greeted)) @ ws) \<and>
    ((\<exists>c'. conn_step text_serde True greeted True c') \<or>
      ep_status (fst (fst greeted)) = Finished \<and> ep_status (fst (snd greeted)) = Finished)"
proof -
  obtain a p b q where g: "greeted = ((a, p), (b, q))" by (cases greeted) auto
  have "serde_ok text_serde" "\<And>t. \<exists>v. sd_typed text_serde t v"
    by (simp_all add: serde_ok_def text_serde_def)
  from session_types_safe [OF _ this greeted_run [of True, unfolded g]] show ?thesis
    by (simp add: g chat_session_def)
qed

lemma conn_run_trans: "conn_run sd b c' j c'' \<Longrightarrow> conn_run sd b c k c' \<Longrightarrow> conn_run sd b c (k + j) c''"
proof (induction rule: conn_run.induct)
  case (continue j c' m c'')
  then show ?case using conn_run.continue [of sd b c "k + j" c' m c''] by (cases m) simp_all
qed simp



text \<open>C12. The body of a loop is not part of the type \<^verbatim>\<open>Var\<close>, and
  \<^verbatim>\<open>recurse\<close> accepts any body. The protocol that sends for ever and its dual both
  type-check when each side recurses to a loop that receives: after one message the two sides are
  deadlocked, both waiting for the other, although no operation has failed.\<close>

theorem recurse_deadlocks:
  assumes "sd_typed sd t v" "sd_ser sd t v = Some js" "sd_de sd t js = Some v"
    "sd_takes sd (Text js)"
  shows "\<exists>k a b. conn_run sd False (ws_connect (Rec (Send t Var)) (dual (Rec (Send t Var)))) k ((a, []), (b, [])) \<and>
    ep_status a = Running \<and> ep_status b = Running \<and> (\<nexists>c. conn_step sd False ((a, []), (b, [])) True c)"
proof -
  let ?l = "\<lambda>s b m. \<lparr>ep_session = s, ep_body = b, ep_status = Running, ep_sent = m, ep_got = []\<rparr>"
  let ?r = "\<lambda>s b m. \<lparr>ep_session = s, ep_body = b, ep_status = Running, ep_sent = [], ep_got = m\<rparr>"
  let ?m = "[(t, v)]" and ?bl = "Some (Send t Var)" and ?br = "Some (Recv t Var)"
  have L: "conn_run sd False c (Suc k) (x', (e, q @ map Frame out))"
    if "conn_run sd False c k (x, (e, q))" "ep_step sd False x out x'" for c k x e q out x'
    using conn_run.continue [OF that(1) conn_step.left_moves [OF that(2)]] by simp
  have R: "conn_run sd False c (Suc k) ((e, q @ map Frame out), x')"
    if "conn_run sd False c k ((e, q), x)" "ep_step sd False x out x'" for c k x e q out x'
    using conn_run.continue [OF that(1) conn_step.right_moves [OF that(2)]] by simp
  let ?c = "ws_connect (Rec (Send t Var)) (dual (Rec (Send t Var)))"
  have r0: "conn_run sd False ?c 0 ((?l (Rec (Send t Var)) None [], []), (?r (Rec (Recv t Var)) None [], []))"
    using conn_run.start [of sd False ?c] by (simp add: ws_connect_def fresh_endpoint_def)
  have r1: "conn_run sd False ?c 1 ((?l (Send t Var) ?bl [], []), (?r (Rec (Recv t Var)) None [], []))"
    using L [OF r0 ep_step.enter] by simp
  have r2: "conn_run sd False ?c 2 ((?l Var ?bl ?m, []), (?r (Rec (Recv t Var)) None [], [Frame (Text js)]))"
    using L [OF r1 ep_step.send [of _ t Var sd v "Text js"]] assms by (simp add: ws_send_def ws_write_def numeral_2_eq_2)
  have r3: "conn_run sd False ?c 3 ((?l Var ?bl ?m, []), (?r (Recv t Var) ?br [], [Frame (Text js)]))"
    using R [OF r2 ep_step.enter] by (simp add: numeral_3_eq_3 numeral_2_eq_2)
  have r4: "conn_run sd False ?c 4 ((?l Var ?bl ?m, []), (?r Var ?br ?m, []))"
    using R [OF r3 ep_step.recv [of _ t Var sd _ v "[]"]] assms by (simp add: ws_recv_def)
  have r5: "conn_run sd False ?c 5 ((?l (Rec (Recv t Var)) ?bl ?m, []), (?r Var ?br ?m, []))"
    using L [OF r4 ep_step.recurse [of _ False "Recv t Var"]] by simp
  have r6: "conn_run sd False ?c 6 ((?l (Recv t Var) ?br ?m, []), (?r Var ?br ?m, []))"
    using L [OF r5 ep_step.enter] by simp
  have r7: "conn_run sd False ?c 7 ((?l (Recv t Var) ?br ?m, []), (?r (Rec (Recv t Var)) ?br ?m, []))"
    using R [OF r6 ep_step.recurse [of _ False "Recv t Var"]] by simp
  have r8: "conn_run sd False ?c 8 ((?l (Recv t Var) ?br ?m, []), (?r (Recv t Var) ?br ?m, []))"
    using R [OF r7 ep_step.enter] by simp
  have "\<not> conn_step sd False ((?l (Recv t Var) ?br ?m, []), (?r (Recv t Var) ?br ?m, [])) True c" for c
    by (auto elim!: conn_step.cases ep_step.cases simp: ws_recv_def)
  with r8 show ?thesis by (metis endpoint.select_convs(3))
qed

theorem recurse_deadlocks_witness:
  "\<exists>k a b. conn_run text_serde False (ws_connect (Rec (Send 0 Var)) (dual (Rec (Send 0 Var)))) k ((a, []), (b, [])) \<and>
    ep_status a = Running \<and> ep_status b = Running \<and>
    (\<nexists>c. conn_step text_serde False ((a, []), (b, [])) True c)"
  by (rule recurse_deadlocks [of _ _ "''x''" "''x''"]) (simp_all add: text_serde_def)

end
