(* ===== verification/Http_Extract.thy ===== *)
theory Http_Extract
  imports Router Json_Value
begin

text \<open>
  Responses and extractors of the server: \<^verbatim>\<open>typeway-server/src/response.rs\<close>,
  \<^verbatim>\<open>error.rs\<close> and \<^verbatim>\<open>extract.rs\<close>. The parts of a request carry its headers
  (the first value of each name), its query and the typed extensions. Reading and writing JSON,
  reading a query string and \<^verbatim>\<open>HeaderValue::to_str\<close> are parameters; the error of a
  parser is its text.
\<close>

subsection \<open>Requests\<close>

record 'v http_ext =
  hx_headers :: header_map
  hx_query :: "string option"
  hx_types :: "string \<rightharpoonup> 'v"

type_synonym 'v http_parts = "'v http_ext parts"

definition header_get :: "string \<Rightarrow> 'v http_parts \<Rightarrow> string option" where
  "header_get name pts = hx_headers (pt_ext pts) name"

text \<open>\<^verbatim>\<open>ext.insert(state)\<close>, the state injector of \<^verbatim>\<open>with_state\<close>.\<close>

definition insert_state :: "string \<Rightarrow> 'v \<Rightarrow> 'v http_ext \<Rightarrow> 'v http_ext" where
  "insert_state ty v x = x\<lparr>hx_types := (hx_types x)(ty \<mapsto> v)\<rparr>"

subsection \<open>Responses\<close>

definition content_response :: "string \<Rightarrow> string \<Rightarrow> string response" where
  "content_response content_type body =
     \<lparr>rs_status = 200, rs_headers = [''content-type'' \<mapsto> content_type], rs_body = body\<rparr>"

definition plain_text_response :: "string \<Rightarrow> string response" where
  "plain_text_response s = content_response ''text/plain; charset=utf-8'' s"

definition bytes_response :: "bytes \<Rightarrow> string response" where
  "bytes_response bs = content_response ''application/octet-stream'' (of_bytes bs)"

definition status_response :: "nat \<Rightarrow> string response" where
  "status_response status = \<lparr>rs_status = status, rs_headers = Map.empty, rs_body = ''''\<rparr>"

text \<open>\<^verbatim>\<open>(StatusCode, T)\<close>, \<^verbatim>\<open>Result<T, E>\<close> and \<^verbatim>\<open>Json<T>\<close>.\<close>

definition with_status :: "nat \<Rightarrow> string response \<Rightarrow> string response" where
  "with_status status res = res\<lparr>rs_status := status\<rparr>"

fun result_response :: "(string response, string response) result \<Rightarrow> reply" where
  "result_response (Ok v) = Ok v"
| "result_response (Err e) = Ok e"
| "result_response Panic = Panic"

definition error_response :: "nat \<times> string \<Rightarrow> string response" where
  "error_response = (\<lambda>(status, message). with_status status (plain_text_response message))"

definition failed_to_serialize :: "string \<Rightarrow> string response" where
  "failed_to_serialize message = \<lparr>rs_status = 500, rs_headers = Map.empty, rs_body = message\<rparr>"

definition json_response :: "('a \<Rightarrow> (string, string) result) \<Rightarrow> 'a \<Rightarrow> reply" where
  "json_response to_vec v =
     (case to_vec v of
        Ok bs \<Rightarrow> Ok (content_response ''application/json'' bs)
      | Err e \<Rightarrow> Ok (failed_to_serialize (''JSON serialization error: '' @ e))
      | Panic \<Rightarrow> Panic)"

record JsonError =
  je_status :: nat
  je_message :: string

definition json_error_new :: "nat \<Rightarrow> string \<Rightarrow> JsonError" where
  "json_error_new status message = \<lparr>je_status = status, je_message = message\<rparr>"

definition bad_request :: "string \<Rightarrow> JsonError" where
  "bad_request = json_error_new 400"

definition unauthorized :: "string \<Rightarrow> JsonError" where
  "unauthorized = json_error_new 401"

definition forbidden :: "string \<Rightarrow> JsonError" where
  "forbidden = json_error_new 403"

definition not_found :: "string \<Rightarrow> JsonError" where
  "not_found = json_error_new 404"

definition conflict :: "string \<Rightarrow> JsonError" where
  "conflict = json_error_new 409"

definition unprocessable :: "string \<Rightarrow> JsonError" where
  "unprocessable = json_error_new 422"

definition internal_error :: "string \<Rightarrow> JsonError" where
  "internal_error = json_error_new 500"

definition json_error_body :: "JsonError \<Rightarrow> json" where
  "json_error_body e =
     JObj [(''error'', JObj [(''status'', JPos (word_of_nat (je_status e))), (''message'', JStr (je_message e))])]"

definition json_error_response :: "(json \<Rightarrow> (string, string) result) \<Rightarrow> JsonError \<Rightarrow> reply" where
  "json_error_response to_vec e =
     (case to_vec (json_error_body e) of
        Ok bs \<Rightarrow> Ok (with_status (je_status e) (content_response ''application/json'' bs))
      | Err m \<Rightarrow> Ok (failed_to_serialize (''error serialization failed: '' @ m))
      | Panic \<Rightarrow> Panic)"

text \<open>\<^verbatim>\<open>Display\<close>; \<open>reason\<close> gives the reason phrase of a status, which
  \<^verbatim>\<open>StatusCode\<close> prints after its number.\<close>

definition json_error_display :: "(nat \<Rightarrow> string) \<Rightarrow> JsonError \<Rightarrow> string" where
  "json_error_display reason e =
     dec (je_status e) @ '' '' @ (dec (je_status e) @ '' '' @ reason (je_status e)) @ '': '' @ je_message e"

definition json_error_from :: "nat \<times> string \<Rightarrow> JsonError" where
  "json_error_from = (\<lambda>(status, message). \<lparr>je_status = status, je_message = message\<rparr>)"

subsection \<open>Extractors of the parts\<close>

type_synonym 'a extracted = "('a, nat \<times> string) result"

definition path_extractor ::
  "('ty \<Rightarrow> string \<Rightarrow> 'c option) \<Rightarrow> 'ty path_segment list \<Rightarrow> 'v http_parts \<Rightarrow> 'c captured list extracted" where
  "path_extractor parse p pts = path_from_request parse p (pt_prefix_offset pts) (pt_path pts)"

definition state_from_parts :: "string \<Rightarrow> 'v http_parts \<Rightarrow> 'v extracted" where
  "state_from_parts ty pts =
     ok_or (500, ''state of type `'' @ ty @ ''` not found '' @ [CHR 0xE2, CHR 0x80, CHR 0x94] @
                 '' did you call .with_state()?'') (hx_types (pt_ext pts) ty)"

definition extension_from_parts :: "string \<Rightarrow> 'v http_parts \<Rightarrow> 'v extracted" where
  "extension_from_parts ty pts =
     ok_or (500, ''extension of type `'' @ ty @ ''` not found in request'') (hx_types (pt_ext pts) ty)"

definition query_from_parts :: "(string \<Rightarrow> ('a, string) result) \<Rightarrow> 'v http_parts \<Rightarrow> 'a extracted" where
  "query_from_parts from_str pts =
     map_err (\<lambda>e. (400, ''failed to parse query string: '' @ e))
       (from_str (case hx_query (pt_ext pts) of Some q \<Rightarrow> q | None \<Rightarrow> ''''))"

definition header_map_from_parts :: "'v http_parts \<Rightarrow> header_map extracted" where
  "header_map_from_parts pts = Ok (hx_headers (pt_ext pts))"

definition method_from_parts :: "'v http_parts \<Rightarrow> string extracted" where
  "method_from_parts pts = Ok (pt_method pts)"

definition uri_from_parts :: "'v http_parts \<Rightarrow> (string \<times> string option) extracted" where
  "uri_from_parts pts = Ok (pt_path pts, hx_query (pt_ext pts))"

definition named_header_from_parts ::
  "(string \<Rightarrow> string option) \<Rightarrow> string \<Rightarrow> (string \<Rightarrow> ('a, string) result) \<Rightarrow> 'v http_parts \<Rightarrow> 'a extracted" where
  "named_header_from_parts to_str name from_value pts =
     and_then (ok_or (400, ''missing required header: '' @ name) (header_get name pts)) (\<lambda>hv.
     and_then (ok_or (400, ''invalid header value for: '' @ name) (to_str hv)) (\<lambda>value.
       map_err (\<lambda>e. (400, e)) (from_value value)))"

subsection \<open>Cookies\<close>

text \<open>The \<^verbatim>\<open>Cookie\<close> header as text; a value that is not text counts as absent.\<close>

definition cookie_header :: "(string \<Rightarrow> string option) \<Rightarrow> 'v http_parts \<Rightarrow> string" where
  "cookie_header to_str pts =
     (case Option.bind (header_get ''cookie'' pts) to_str of Some s \<Rightarrow> s | None \<Rightarrow> '''')"

definition cookie_value :: "string \<Rightarrow> string \<Rightarrow> string option" where
  "cookie_value name pair = Option.bind (strip_prefix name (trim pair)) (strip_prefix ''='')"

fun first_cookie :: "string \<Rightarrow> string list \<Rightarrow> string option" where
  "first_cookie name [] = None"
| "first_cookie name (pair # pairs) =
     (case cookie_value name pair of Some value \<Rightarrow> Some value | None \<Rightarrow> first_cookie name pairs)"

definition cookie_from_parts ::
  "(string \<Rightarrow> string option) \<Rightarrow> string \<Rightarrow> (string \<Rightarrow> ('a, string) result) \<Rightarrow> 'v http_parts \<Rightarrow> 'a extracted" where
  "cookie_from_parts to_str name from_value pts =
     (case first_cookie name (split_on CHR '';'' (cookie_header to_str pts)) of
        Some value \<Rightarrow> map_err (\<lambda>e. (400, e)) (from_value value)
      | None \<Rightarrow> Err (400, ''missing cookie: '' @ name))"

definition split_once :: "char \<Rightarrow> string \<Rightarrow> (string \<times> string) option" where
  "split_once c s = map_option (\<lambda>i. (take i s, drop (i + 1) s)) (find_char c s)"

definition cookie_pairs :: "string \<Rightarrow> (string \<times> string) list" where
  "cookie_pairs cookies =
     List.map_filter (\<lambda>pair. split_once CHR ''='' (trim pair)) (split_on CHR '';'' cookies)"

text \<open>Collecting into a \<^verbatim>\<open>HashMap\<close>: the last pair of a name wins.\<close>

definition cookie_jar_from_parts :: "(string \<Rightarrow> string option) \<Rightarrow> 'v http_parts \<Rightarrow> (string \<rightharpoonup> string) extracted" where
  "cookie_jar_from_parts to_str pts = Ok (map_of (rev (cookie_pairs (cookie_header to_str pts))))"

definition cookie_jar_get :: "(string \<rightharpoonup> string) \<Rightarrow> string \<Rightarrow> string option" where
  "cookie_jar_get jar name = jar name"

subsection \<open>Extractors of the body\<close>

definition json_from_body :: "(bytes \<Rightarrow> ('a, string) result) \<Rightarrow> bytes \<Rightarrow> 'a extracted" where
  "json_from_body from_slice body = map_err (\<lambda>e. (400, ''invalid JSON: '' @ e)) (from_slice body)"

definition bytes_from_body :: "bytes \<Rightarrow> bytes extracted" where
  "bytes_from_body body = Ok body"

definition string_from_body :: "(bytes \<Rightarrow> string) \<Rightarrow> bytes \<Rightarrow> string extracted" where
  "string_from_body utf8_error body =
     (if utf8_valid body then Ok (of_bytes body)
      else Err (400, ''request body is not valid UTF-8: '' @ utf8_error body))"

definition unit_from_body :: "bytes \<Rightarrow> unit extracted" where
  "unit_from_body body = Ok ()"

subsection \<open>Lemmas\<close>

lemma find_char_SomeD: "find_char c s = Some i \<Longrightarrow> c \<notin> set (take i s) \<and> s = take i s @ c # drop (i + 1) s"
proof (induction s arbitrary: i)
  case (Cons x s)
  then show ?case by (cases "x = c") auto
qed simp

lemma split_once_iff:
  "split_once c s = Some (a, b) \<longleftrightarrow> c \<notin> set a \<and> s = a @ c # b"
proof
  assume "split_once c s = Some (a, b)"
  then obtain i where "find_char c s = Some i" "a = take i s" "b = drop (i + 1) s"
    by (auto simp: split_once_def)
  with find_char_SomeD [of c s i] show "c \<notin> set a \<and> s = a @ c # b" by simp
qed (simp add: split_once_def find_char_append)

lemma strip_prefix_iff: "strip_prefix p s = Some r \<longleftrightarrow> s = p @ r"
  by (auto simp: strip_prefix_def starts_with_def) (metis append_take_drop_id)

text \<open>A cookie of a name without \<open>=\<close> is a pair of that name.\<close>

lemma cookie_value_iff:
  assumes "CHR ''='' \<notin> set name"
  shows "cookie_value name pair = Some v \<longleftrightarrow> split_once CHR ''='' (trim pair) = Some (name, v)"
proof -
  have "cookie_value name pair = Some v \<longleftrightarrow> trim pair = name @ CHR ''='' # v"
    by (auto simp: cookie_value_def strip_prefix_iff bind_eq_Some_conv)
  then show ?thesis using assms by (simp add: split_once_iff)
qed

lemma first_cookie_pairs:
  assumes "CHR ''='' \<notin> set name"
  shows "first_cookie name pairs =
    map_of (List.map_filter (\<lambda>pair. split_once CHR ''='' (trim pair)) pairs) name"
proof (induction pairs)
  case (Cons pair pairs)
  show ?case
  proof (cases "split_once CHR ''='' (trim pair)")
    case None
    then have "cookie_value name pair = None" using cookie_value_iff [OF assms] by (metis not_Some_eq)
    with Cons None show ?thesis by (simp add: map_filter_simps)
  next
    case (Some q)
    obtain n v where q: "q = (n, v)" by (cases q)
    show ?thesis
    proof (cases "n = name")
      case True
      with Some q have "cookie_value name pair = Some v" by (simp add: cookie_value_iff [OF assms])
      with Some q True show ?thesis by (simp add: map_filter_simps)
    next
      case False
      with Some q cookie_value_iff [OF assms, of pair] have "cookie_value name pair = None" by (metis not_Some_eq option.inject prod.inject)
      with Cons Some q False show ?thesis by (simp add: map_filter_simps)
    qed
  qed
qed (simp add: map_filter_simps)

lemma cookie_from_parts_eq:
  assumes "CHR ''='' \<notin> set name"
  shows "cookie_from_parts to_str name from_value pts =
    (case map_of (cookie_pairs (cookie_header to_str pts)) name of
       Some value \<Rightarrow> map_err (\<lambda>e. (400, e)) (from_value value)
     | None \<Rightarrow> Err (400, ''missing cookie: '' @ name))"
  by (simp add: cookie_from_parts_def first_cookie_pairs [OF assms] cookie_pairs_def)

subsection \<open>Properties\<close>

text \<open>The two cookie extractors read the same pairs, and differ on a repeated name: for every
  \<^verbatim>\<open>Cookie\<close> header and every name without \<open>=\<close>, \<^verbatim>\<open>Cookie<T>\<close> fails for a missing
  cookie exactly when the jar has none, and otherwise parses the value of the first pair of that
  name, while the jar holds the value of the last; on a header that names it once they agree.\<close>

theorem cookie_extractors:
  assumes "CHR ''='' \<notin> set name" "cookie_jar_from_parts to_str pts = Ok jar"
    and "cookie_pairs (cookie_header to_str pts) = pairs"
  shows "cookie_jar_get jar name = map_of (rev pairs) name \<and>
    cookie_from_parts to_str name from_value pts =
      (case cookie_jar_get jar name of
         None \<Rightarrow> Err (400, ''missing cookie: '' @ name)
       | Some last_value \<Rightarrow>
           map_err (\<lambda>e. (400, e))
             (from_value (if distinct (map fst pairs) then last_value else the (map_of pairs name))))"
proof -
  have jar: "jar = map_of (rev pairs)" using assms(2,3) by (simp add: cookie_jar_from_parts_def)
  have none: "map_of (rev pairs) name = None \<longleftrightarrow> map_of pairs name = None"
    by (simp add: map_of_eq_None_iff)
  have "map_of (rev pairs) name = map_of pairs name" if "distinct (map fst pairs)"
    using that map_of_inject_set [of "rev pairs" pairs] by (simp add: rev_map [symmetric])
  with none show ?thesis
    unfolding cookie_jar_get_def jar cookie_from_parts_eq [OF assms(1)] assms(3)
    by (auto split: option.splits)
qed

definition cookie_parts :: "string \<Rightarrow> string http_parts" where
  "cookie_parts cookies =
     \<lparr>pt_method = ''GET'', pt_path = ''/'', pt_prefix_offset = None,
      pt_ext = \<lparr>hx_headers = [''cookie'' \<mapsto> cookies], hx_query = None, hx_types = Map.empty\<rparr>\<rparr>"

theorem cookie_extractors_witness:
  "cookie_jar_from_parts Some (cookie_parts ''id=1; id=2'') = Ok [''id'' \<mapsto> ''2''] \<and>
    cookie_from_parts Some ''id'' Ok (cookie_parts ''id=1; id=2'') = (Ok ''1'' :: string extracted)"
proof -
  have pairs: "cookie_pairs ''id=1; id=2'' = [(''id'', ''1''), (''id'', ''2'')]" by code_simp
  have "cookie_header Some (cookie_parts ''id=1; id=2'') = ''id=1; id=2''"
    by (simp add: cookie_header_def header_get_def cookie_parts_def)
  with pairs have h: "cookie_pairs (cookie_header Some (cookie_parts ''id=1; id=2'')) = [(''id'', ''1''), (''id'', ''2'')]"
    by simp
  have jar: "cookie_jar_from_parts Some (cookie_parts ''id=1; id=2'') = Ok [''id'' \<mapsto> ''2'']"
    by (simp add: cookie_jar_from_parts_def h)
  from cookie_extractors [OF _ jar h, of "''id''" Ok] jar show ?thesis by (simp add: cookie_jar_get_def)
qed

end
