(* ===== verification/Api_Types.thy ===== *)
theory Api_Types
  imports Path_Spec Rust_Lines
begin

text \<open>
  API types (\<^verbatim>\<open>typeway-core/src/api.rs\<close>, \<^verbatim>\<open>endpoint.rs\<close>, \<^verbatim>\<open>method.rs\<close>) with what
  the compiler proves about them: effects (\<^verbatim>\<open>effects.rs\<close>), versions
  (\<^verbatim>\<open>versioning.rs\<close>) and mounted sub-APIs (\<^verbatim>\<open>typeway-server/src/mount.rs\<close>). A type is
  a value here and a marker type is its name. A trait with an index parameter is a relation whose
  rules are the implementations; a bound whose index the compiler has to infer is met when there
  is exactly one index (none is the error, two are ambiguous).
\<close>

subsection \<open>API types\<close>

type_synonym ty = string

datatype HttpMethod = Get | Post | Put | Delete | Patch | Head | Options

fun METHOD :: "HttpMethod \<Rightarrow> string" where
  "METHOD Get = ''GET''"
| "METHOD Post = ''POST''"
| "METHOD Put = ''PUT''"
| "METHOD Delete = ''DELETE''"
| "METHOD Patch = ''PATCH''"
| "METHOD Head = ''HEAD''"
| "METHOD Options = ''OPTIONS''"

record Endpoint =
  en_method :: HttpMethod
  en_path :: "ty path_segment list"
  en_req :: ty
  en_res :: ty
  en_query :: ty
  en_err :: ty

datatype 'a api_change = Added 'a | Removed 'a | Replaced 'a 'a | Deprecated 'a

datatype api =
    Plain Endpoint
  | Requires ty api
  | Protected ty api
  | Validated ty api
  | Versioned ty api
  | ContentType ty api
  | RateLimited ty api
  | Strict api
  | ServerStream api
  | ClientStream api
  | BidirectionalStream api
  | VersionedApi api "api api_change list" api
  | Tuple "api list"

text \<open>\<^verbatim>\<open>ApiSpec\<close>: tuples of 1 to 25 members; a marker is a marker of its trait.\<close>

fun api_spec :: "api \<Rightarrow> bool" where
  "api_spec (Plain _) = True"
| "api_spec (Requires _ a) = api_spec a"
| "api_spec (Protected _ a) = api_spec a"
| "api_spec (Validated _ a) = api_spec a"
| "api_spec (Versioned _ a) = api_spec a"
| "api_spec (ContentType _ a) = api_spec a"
| "api_spec (RateLimited _ a) = api_spec a"
| "api_spec (Strict a) = api_spec a"
| "api_spec (ServerStream a) = api_spec a"
| "api_spec (ClientStream a) = api_spec a"
| "api_spec (BidirectionalStream a) = api_spec a"
| "api_spec (VersionedApi _ _ r) = api_spec r"
| "api_spec (Tuple as) \<longleftrightarrow> as \<noteq> [] \<and> length as \<le> 25 \<and> list_all api_spec as"

subsection \<open>Membership by index\<close>

text \<open>
  The indices \<^verbatim>\<open>EHere\<close>/\<^verbatim>\<open>EThere\<close>, \<^verbatim>\<open>MHere\<close>/\<^verbatim>\<open>MThere\<close> and
  \<^verbatim>\<open>Here\<close>/\<^verbatim>\<open>There\<close>. A list of types (\<^verbatim>\<open>ECons\<close>, \<^verbatim>\<open>MCons\<close>) is a list.
\<close>

datatype index = Here | There index

inductive has_effect :: "'a list \<Rightarrow> 'a \<Rightarrow> index \<Rightarrow> bool" where
  here: "has_effect (e # p) e Here"
| there: "has_effect p e i \<Longrightarrow> has_effect (h # p) e (There i)"

inductive_simps has_effect_simps [simp]: "has_effect [] e i" "has_effect (h # p) e i"

definition has_mount :: "api list \<Rightarrow> api \<Rightarrow> index \<Rightarrow> bool" where
  "has_mount m a i = has_effect m a i"

text \<open>What the compiler infers: there is one solution and no other.\<close>

definition infers :: "('w \<Rightarrow> bool) \<Rightarrow> bool" where
  "infers P \<longleftrightarrow> (\<exists>!w. P w)"

lemma infers_pair:
  assumes "\<And>x y x' y'. C x y = C x' y' \<longleftrightarrow> x = x' \<and> y = y'"
  shows "infers (\<lambda>z. \<exists>x y. z = C x y \<and> P x \<and> Q y) \<longleftrightarrow> infers P \<and> infers Q"
  unfolding infers_def using assms by metis

lemma infers_const [simp]: "infers (\<lambda>w. w = c)" "\<not> infers (\<lambda>w. False)"
  by (auto simp: infers_def)

lemma infers_list: "infers (\<lambda>ws. list_all2 P as ws) \<longleftrightarrow> (\<forall>a\<in>set as. infers (P a))"
proof (induction as)
  case (Cons a as)
  have "infers (\<lambda>ws. list_all2 P (a # as) ws) =
      infers (\<lambda>ws. \<exists>w ws'. ws = w # ws' \<and> P a w \<and> list_all2 P as ws')"
    by (simp add: list_all2_Cons1)
  also have "\<dots> \<longleftrightarrow> infers (P a) \<and> infers (\<lambda>ws. list_all2 P as ws)" by (rule infers_pair) simp
  finally show ?case using Cons by simp
qed simp

lemma has_effect_in: "has_effect p e i \<Longrightarrow> e \<in> set p"
  by (induction rule: has_effect.induct) simp_all

lemma in_has_effect: "e \<in> set p \<Longrightarrow> \<exists>i. has_effect p e i"
  by (induction p) (auto simp del: has_effect_simps intro: has_effect.intros)

lemma ex_has_effect: "(\<exists>i. has_effect p e i) \<longleftrightarrow> e \<in> set p"
  using has_effect_in in_has_effect by metis

text \<open>One solution at the head, or solutions under an injective constructor.\<close>

lemma infers_cons:
  assumes "\<And>j. C j \<noteq> c" "\<And>j k. C j = C k \<longleftrightarrow> j = k"
  shows "infers (\<lambda>i. h \<and> i = c \<or> (\<exists>j. i = C j \<and> P j)) \<longleftrightarrow> (if h then \<forall>j. \<not> P j else infers P)"
  using assms unfolding infers_def by (cases h; simp; metis)

lemma infers_has_effect: "infers (has_effect p e) \<longleftrightarrow> count_list p e = 1"
proof (induction p)
  case (Cons h p)
  have "has_effect (h # p) e = (\<lambda>i. h = e \<and> i = Here \<or> (\<exists>j. i = There j \<and> has_effect p e j))"
    by (rule ext) auto
  then have "infers (has_effect (h # p) e) \<longleftrightarrow>
      (if h = e then (\<forall>i. \<not> has_effect p e i) else infers (has_effect p e))"
    using infers_cons [of There Here "h = e" "has_effect p e"] by simp
  then show ?case using Cons ex_has_effect [of p e] by (auto simp del: has_effect_simps simp: count_list_0_iff)
qed (simp add: infers_def)

subsection \<open>Effects\<close>

text \<open>The composite index of \<^verbatim>\<open>AllProvided\<close>: \<^verbatim>\<open>()\<close>, a pair, a tuple.\<close>

datatype provided_index = PUnit | PPair index provided_index | PTuple "provided_index list"

inductive all_provided :: "ty list \<Rightarrow> api \<Rightarrow> provided_index \<Rightarrow> bool" for p :: "ty list" where
  plain: "all_provided p (Plain e) PUnit"
| requires: "has_effect p e i \<Longrightarrow> all_provided p a j \<Longrightarrow> all_provided p (Requires e a) (PPair i j)"
| protected: "all_provided p a j \<Longrightarrow> all_provided p (Protected auth a) j"
| validated: "all_provided p a j \<Longrightarrow> all_provided p (Validated v a) j"
| versioned_api: "api_spec r \<Longrightarrow> all_provided p r j \<Longrightarrow> all_provided p (VersionedApi b c r) j"
| unit: "all_provided p (Tuple []) PUnit"
| tuple: "as \<noteq> [] \<Longrightarrow> length as \<le> 25 \<Longrightarrow> list_all2 (all_provided p) as js \<Longrightarrow>
    all_provided p (Tuple as) (PTuple js)"

inductive_simps all_provided_simps [simp]:
  "all_provided p (Plain e) w" "all_provided p (Requires e a) w" "all_provided p (Protected auth a) w"
  "all_provided p (Validated v a) w" "all_provided p (Versioned v a) w" "all_provided p (ContentType c a) w"
  "all_provided p (RateLimited r a) w" "all_provided p (Strict a) w" "all_provided p (ServerStream a) w"
  "all_provided p (ClientStream a) w" "all_provided p (BidirectionalStream a) w"
  "all_provided p (VersionedApi b c a) w" "all_provided p (Tuple as) w"

text \<open>The effects that an API asks for, and the API types that have the trait at all.\<close>

fun required :: "api \<Rightarrow> ty set" where
  "required (Requires e a) = insert e (required a)"
| "required (Protected _ a) = required a"
| "required (Validated _ a) = required a"
| "required (VersionedApi _ _ r) = required r"
| "required (Tuple as) = (\<Union>a\<in>set as. required a)"
| "required _ = {}"

fun effect_checkable :: "api \<Rightarrow> bool" where
  "effect_checkable (Plain _) = True"
| "effect_checkable (Requires _ a) = effect_checkable a"
| "effect_checkable (Protected _ a) = effect_checkable a"
| "effect_checkable (Validated _ a) = effect_checkable a"
| "effect_checkable (VersionedApi _ _ r) \<longleftrightarrow> api_spec r \<and> effect_checkable r"
| "effect_checkable (Tuple as) \<longleftrightarrow> length as \<le> 25 \<and> list_all effect_checkable as"
| "effect_checkable _ = False"

lemma infers_all_provided:
  "infers (all_provided p a) \<longleftrightarrow> effect_checkable a \<and> (\<forall>e\<in>required a. count_list p e = 1)"
proof (induction a)
  case (Requires e a)
  have "all_provided p (Requires e a) = (\<lambda>w. \<exists>i j. w = PPair i j \<and> has_effect p e i \<and> all_provided p a j)"
    by (rule ext) auto
  then have "infers (all_provided p (Requires e a)) \<longleftrightarrow> infers (has_effect p e) \<and> infers (all_provided p a)"
    using infers_pair [of PPair "has_effect p e" "all_provided p a"] by simp
  with Requires show ?case by (simp del: all_provided_simps add: infers_has_effect conj_ac)
next
  case (Tuple as)
  show ?case
  proof (cases "as = []")
    case False
    have "infers (all_provided p (Tuple as)) \<longleftrightarrow>
        length as \<le> 25 \<and> infers (\<lambda>js. list_all2 (all_provided p) as js)"
      using False by (auto simp: infers_def)
    also have "\<dots> \<longleftrightarrow> length as \<le> 25 \<and> (\<forall>a\<in>set as. infers (all_provided p a))"
      by (simp only: infers_list)
    finally show ?thesis using Tuple by (auto simp del: all_provided_simps simp: list_all_iff)
  qed simp
qed (auto simp: infers_def)

subsection \<open>Mounted sub-APIs\<close>

inductive all_mounted :: "api list \<Rightarrow> api \<Rightarrow> index list \<Rightarrow> bool" for m :: "api list" where
  unit: "all_mounted m (Tuple []) []"
| tuple: "as \<noteq> [] \<Longrightarrow> length as \<le> 10 \<Longrightarrow> list_all api_spec as \<Longrightarrow> list_all2 (has_mount m) as js \<Longrightarrow>
    all_mounted m (Tuple as) js"

lemma all_mounted_iff:
  "all_mounted m a js \<longleftrightarrow>
     (\<exists>as. a = Tuple as \<and> length as \<le> 10 \<and> list_all api_spec as \<and> list_all2 (has_mount m) as js)"
proof
  show "\<exists>as. a = Tuple as \<and> length as \<le> 10 \<and> list_all api_spec as \<and> list_all2 (has_mount m) as js"
    if "all_mounted m a js" using that by (auto elim!: all_mounted.cases)
  show "all_mounted m a js"
    if "\<exists>as. a = Tuple as \<and> length as \<le> 10 \<and> list_all api_spec as \<and> list_all2 (has_mount m) as js"
    using that by (metis all_mounted.intros list_all2_Nil)
qed

lemma infers_has_mount: "infers (has_mount m a) \<longleftrightarrow> count_list m a = 1"
proof -
  have "has_mount m a = has_effect m a" by (rule ext) (simp add: has_mount_def)
  then show ?thesis by (simp only: infers_has_effect)
qed

lemma infers_all_mounted:
  "infers (all_mounted m a) \<longleftrightarrow>
     (\<exists>as. a = Tuple as \<and> length as \<le> 10 \<and> list_all api_spec as \<and> (\<forall>s\<in>set as. count_list m s = 1))"
proof (cases "\<exists>as. a = Tuple as \<and> length as \<le> 10 \<and> list_all api_spec as")
  case True
  then obtain as where as: "a = Tuple as" "length as \<le> 10" "list_all api_spec as" by blast
  have "all_mounted m a = list_all2 (has_mount m) as"
    by (rule ext) (simp add: all_mounted_iff as)
  then show ?thesis using as by (simp add: infers_list infers_has_mount)
next
  case False
  then have "all_mounted m a = (\<lambda>_. False)" by (intro ext) (auto simp: all_mounted_iff)
  with False show ?thesis by auto
qed

subsection \<open>Changes between versions\<close>

fun IS_ADDED :: "'a api_change \<Rightarrow> nat" where
  "IS_ADDED (Added _) = 1"
| "IS_ADDED _ = 0"

fun IS_REMOVED :: "'a api_change \<Rightarrow> nat" where
  "IS_REMOVED (Removed _) = 1"
| "IS_REMOVED _ = 0"

fun IS_REPLACED :: "'a api_change \<Rightarrow> nat" where
  "IS_REPLACED (Replaced _ _) = 1"
| "IS_REPLACED _ = 0"

fun IS_DEPRECATED :: "'a api_change \<Rightarrow> nat" where
  "IS_DEPRECATED (Deprecated _) = 1"
| "IS_DEPRECATED _ = 0"

fun describe :: "'a api_change \<Rightarrow> string" where
  "describe (Added _) = ''Added endpoint''"
| "describe (Removed _) = ''Removed endpoint''"
| "describe (Replaced _ _) = ''Replaced endpoint''"
| "describe (Deprecated _) = ''Deprecated endpoint''"

text \<open>\<^verbatim>\<open>ApiChangelog\<close>, for tuples of up to 16 changes.\<close>

record changelog =
  cl_added :: nat
  cl_removed :: nat
  cl_replaced :: nat
  cl_deprecated :: nat
  cl_summary :: string

definition api_changelog :: "'a api_change list \<Rightarrow> changelog option" where
  "api_changelog cs =
     (if length cs > 16 then None
      else Some \<lparr>cl_added = sum_list (map IS_ADDED cs), cl_removed = sum_list (map IS_REMOVED cs),
                 cl_replaced = sum_list (map IS_REPLACED cs), cl_deprecated = sum_list (map IS_DEPRECATED cs),
                 cl_summary = (if cs = [] then ''No changes'' else join_with ''; '' (map describe cs))\<rparr>)"

lemma change_counts: "IS_ADDED c + IS_REMOVED c + IS_REPLACED c + IS_DEPRECATED c = 1"
  by (cases c) auto

lemma changelog_counts:
  "api_changelog cs = Some l \<Longrightarrow> cl_added l + cl_removed l + cl_replaced l + cl_deprecated l = length cs"
proof -
  have "sum_list (map IS_ADDED cs) + sum_list (map IS_REMOVED cs) + sum_list (map IS_REPLACED cs) +
      sum_list (map IS_DEPRECATED cs) = length cs"
  proof (induction cs)
    case (Cons c cs)
    then show ?case using change_counts [of c] by simp
  qed simp
  then show "api_changelog cs = Some l \<Longrightarrow> ?thesis" by (auto simp: api_changelog_def split: if_splits)
qed

subsection \<open>Endpoints that a version has\<close>

text \<open>\<^verbatim>\<open>count_to_idx\<close>, and the implementations for every position of a tuple.\<close>

fun count_to_idx :: "nat \<Rightarrow> index" where
  "count_to_idx 0 = Here"
| "count_to_idx (Suc n) = There (count_to_idx n)"

definition has_endpoint :: "api \<Rightarrow> api \<Rightarrow> index \<Rightarrow> bool" where
  "has_endpoint a e i \<longleftrightarrow>
     (\<exists>as n. a = Tuple as \<and> length as \<le> 25 \<and> n < length as \<and> i = count_to_idx n \<and> as ! n = e)"

lemma has_effect_nth: "has_effect as e i \<longleftrightarrow> (\<exists>n < length as. i = count_to_idx n \<and> as ! n = e)"
proof (induction as arbitrary: i)
  case (Cons a as)
  then show ?case by (cases i) (auto simp: less_Suc_eq_0_disj)
qed simp

lemma has_endpoint_Tuple: "length as \<le> 25 \<Longrightarrow> has_endpoint (Tuple as) e = has_effect as e"
  by (rule ext) (auto simp: has_endpoint_def has_effect_nth)

lemma infers_has_endpoint:
  "infers (has_endpoint a e) \<longleftrightarrow> (\<exists>as. a = Tuple as \<and> length as \<le> 25 \<and> count_list as e = 1)"
proof (cases "\<exists>as. a = Tuple as \<and> length as \<le> 25")
  case True
  then show ?thesis by (auto simp: has_endpoint_Tuple infers_has_effect)
next
  case False
  then have "has_endpoint a e = (\<lambda>_. False)" by (intro ext) (auto simp: has_endpoint_def)
  with False show ?thesis by auto
qed

text \<open>
  A bound in the \<^verbatim>\<open>where\<close> clause of an item: its index is a given type, or a type
  parameter of the item. The compiler checks a bound without parameters where the item is declared;
  one with parameters it takes as given, and checks it where the item is used.
\<close>

datatype where_bound = Bound api api "index option"

fun bound_accepted :: "where_bound \<Rightarrow> bool" where
  "bound_accepted (Bound a e (Some i)) = has_endpoint a e i"
| "bound_accepted (Bound a e None) = True"

definition assert_api_has_endpoint :: "api \<Rightarrow> api \<Rightarrow> where_bound" where
  "assert_api_has_endpoint a ep = Bound a ep None"

definition assert_api_compatible :: "api list \<Rightarrow> api \<Rightarrow> where_bound list" where
  "assert_api_compatible old_eps new_api = map (assert_api_has_endpoint new_api) old_eps"

text \<open>What a use of the function would make the compiler infer.\<close>

fun bound_used :: "where_bound \<Rightarrow> bool" where
  "bound_used (Bound a e (Some i)) = has_endpoint a e i"
| "bound_used (Bound a e None) = infers (has_endpoint a e)"

subsection \<open>Properties\<close>

text \<open>C7. Effects are enforced, and how. The bound \<^verbatim>\<open>A: AllProvided<P, Idx>\<close> of
  \<^verbatim>\<open>ready\<close>, \<^verbatim>\<open>serve\<close> and \<^verbatim>\<open>build\<close> compiles exactly when
  every effect that some endpoint of the API requires, through any nesting of tuples and wrappers,
  has been provided exactly once (a second \<^verbatim>\<open>provide\<close> of the same effect makes the index
  ambiguous), and the API is made of endpoints, \<^verbatim>\<open>Requires\<close>, \<^verbatim>\<open>Protected\<close>,
  \<^verbatim>\<open>Validated\<close>, versioned APIs and tuples of up to 25 members.\<close>

theorem effects_enforced:
  "infers (all_provided p a) = (effect_checkable a \<and> required a \<subseteq> {e. count_list p e = 1})"
  by (auto simp del: all_provided_simps simp: infers_all_provided)


text \<open>A removed endpoint passes the assertion.\<close>

lemma removed_endpoint_accepted:
  "list_all bound_accepted (assert_api_compatible [Plain e, Plain f] (Tuple [Plain e]))"
  by (simp add: assert_api_compatible_def assert_api_has_endpoint_def)

text \<open>The wrappers without the trait cannot be served by a server with effects, even without any effect.\<close>

lemma wrappers_not_checkable:
  "\<not> infers (all_provided p (Tuple [Versioned v a]))" "\<not> infers (all_provided p (Tuple [ContentType c a]))"
  "\<not> infers (all_provided p (Tuple [RateLimited r a]))" "\<not> infers (all_provided p (Tuple [Strict a]))"
  by (simp_all del: all_provided_simps add: infers_all_provided)

end
