(* ===== verification/Http_Handlers.thy ===== *)
theory Http_Handlers
  imports Http_Extract Api_Types
begin

text \<open>
  From handler functions to routes: \<^verbatim>\<open>typeway-server/src/handler.rs\<close>,
  \<^verbatim>\<open>handler_for.rs\<close>, \<^verbatim>\<open>auth.rs\<close>, \<^verbatim>\<open>typed.rs\<close>, \<^verbatim>\<open>typed_bind.rs\<close>,
  \<^verbatim>\<open>typed_response.rs\<close> and \<^verbatim>\<open>serves.rs\<close>. The implementations that the compiler
  selects by the name of a type are the functions of the record \<open>traits\<close>; a handler is its list of
  argument types with a function on their values. Instances that a macro writes once per arity are
  one function on lists with the bound on their length. A macro yields \<open>None\<close> where its call does
  not compile.
\<close>

record 'v traits =
  tr_from_str :: "ty \<Rightarrow> string \<Rightarrow> 'v option"
  tr_from_parts :: "ty \<Rightarrow> 'v http_parts \<Rightarrow> ('v, string response) result"
  tr_from_body :: "ty \<Rightarrow> 'v http_parts \<Rightarrow> bytes \<Rightarrow> ('v, string response) result"
  tr_deserialize :: "ty \<Rightarrow> bytes \<Rightarrow> ('v, string) result"
  tr_validate :: "ty \<Rightarrow> 'v \<Rightarrow> (unit, string) result"
  tr_content_type :: "ty \<Rightarrow> string"
  tr_prefix :: "ty \<Rightarrow> string"
  tr_to_str :: "string \<Rightarrow> string option"
  tr_to_vec :: "json \<Rightarrow> (string, string) result"

record 'v handler =
  hd_args :: "ty list"
  hd_body :: "ty option"
  hd_res :: ty
  hd_run :: "'v list \<Rightarrow> reply"

subsection \<open>Calling a handler\<close>

text \<open>\<^verbatim>\<open>Err(e) => return e.into_response()\<close>.\<close>

fun respond :: "(reply, string response) result \<Rightarrow> reply" where
  "respond (Ok r) = r"
| "respond (Err e) = Ok e"
| "respond Panic = Panic"

fun extract_args :: "'v traits \<Rightarrow> ty list \<Rightarrow> 'v http_parts \<Rightarrow> ('v list, string response) result" where
  "extract_args tr [] pts = Ok []"
| "extract_args tr (t # ts) pts =
     and_then (tr_from_parts tr t pts) (\<lambda>v. result_map ((#) v) (extract_args tr ts pts))"

definition extract_body ::
  "'v traits \<Rightarrow> ty option \<Rightarrow> 'v http_parts \<Rightarrow> bytes \<Rightarrow> ('v list, string response) result" where
  "extract_body tr b pts body =
     (case b of None \<Rightarrow> Ok [] | Some t \<Rightarrow> result_map (\<lambda>v. [v]) (tr_from_body tr t pts body))"

text \<open>\<^verbatim>\<open>Handler::call\<close>: the arguments in order, then the body, then the function.\<close>

definition handler_call :: "'v traits \<Rightarrow> 'v handler \<Rightarrow> 'v http_parts \<Rightarrow> bytes \<Rightarrow> reply" where
  "handler_call tr h pts body =
     respond (and_then (extract_args tr (hd_args h) pts) (\<lambda>vs.
       result_map (\<lambda>b. hd_run h (vs @ b)) (extract_body tr (hd_body h) pts body)))"

text \<open>\<^verbatim>\<open>AuthHandler::call\<close>: the authentication first, whatever the other arguments.\<close>

definition auth_call :: "'v traits \<Rightarrow> ty \<Rightarrow> 'v handler \<Rightarrow> 'v http_parts \<Rightarrow> bytes \<Rightarrow> reply" where
  "auth_call tr auth h pts body =
     respond (and_then (tr_from_parts tr auth pts) (\<lambda>a.
       and_then (extract_args tr (tl (hd_args h)) pts) (\<lambda>vs.
         result_map (\<lambda>b. hd_run h (a # vs @ b)) (extract_body tr (hd_body h) pts body))))"

text \<open>The arities for which the traits are implemented.\<close>

definition is_handler :: "'v handler \<Rightarrow> bool" where
  "is_handler h \<longleftrightarrow> length (hd_args h) \<le> (if hd_body h = None then 8 else 7)"

definition is_auth_handler :: "ty \<Rightarrow> 'v handler \<Rightarrow> bool" where
  "is_auth_handler auth h \<longleftrightarrow>
     (\<exists>rest. hd_args h = auth # rest \<and> length rest \<le> (if hd_body h = None then 6 else 5))"

definition is_strict_handler :: "ty \<Rightarrow> 'v handler \<Rightarrow> bool" where
  "is_strict_handler res h \<longleftrightarrow>
     hd_res h = res \<and> length (hd_args h) \<le> (if hd_body h = None then 6 else 5)"

subsection \<open>Endpoints that can be bound\<close>

text \<open>
  \<^verbatim>\<open>BindableEndpoint\<close>: \<^verbatim>\<open>method\<close>, \<^verbatim>\<open>pattern\<close> and
  \<^verbatim>\<open>match_fn\<close>, for the types that have an implementation.
\<close>

definition versioned_match :: "string \<Rightarrow> match_fn \<Rightarrow> match_fn" where
  "versioned_match prefix inner_match segments =
     (case segments of s # rest \<Rightarrow> s = prefix \<and> inner_match rest | [] \<Rightarrow> False)"

fun bindable :: "'v traits \<Rightarrow> api \<Rightarrow> (string \<times> string \<times> match_fn) option" where
  "bindable tr (Plain e) =
     (if path_ok (en_path e)
      then Some (METHOD (en_method e), path_pattern (en_path e),
                 \<lambda>segments. extract_path (tr_from_str tr) (en_path e) segments \<noteq> None)
      else None)"
| "bindable tr (Requires _ a) = bindable tr a"
| "bindable tr (Validated _ a) = bindable tr a"
| "bindable tr (ContentType _ a) = bindable tr a"
| "bindable tr (RateLimited _ a) = bindable tr a"
| "bindable tr (ServerStream a) = bindable tr a"
| "bindable tr (ClientStream a) = bindable tr a"
| "bindable tr (BidirectionalStream a) = bindable tr a"
| "bindable tr (Versioned v a) =
     map_option (\<lambda>(method, pattern, match_fn).
       (method, ''/'' @ tr_prefix tr v @ pattern, versioned_match (tr_prefix tr v) match_fn)) (bindable tr a)"
| "bindable tr _ = None"

record 'v BoundHandler =
  bh_endpoint :: api
  bh_method :: string
  bh_pattern :: string
  bh_match_fn :: match_fn
  bh_handler :: "'v http_ext handler_fn"

definition bound :: "api \<Rightarrow> (string \<times> string \<times> match_fn) option \<Rightarrow> 'v http_ext handler_fn \<Rightarrow> 'v BoundHandler option" where
  "bound e inner handler =
     map_option (\<lambda>(method, pattern, match_fn).
       \<lparr>bh_endpoint = e, bh_method = method, bh_pattern = pattern, bh_match_fn = match_fn,
        bh_handler = handler\<rparr>) inner"

definition register_into :: "matchit \<Rightarrow> 'v BoundHandler \<Rightarrow>
    ('v http_ext handler_fn, 'ext, 'fb) RouterInner \<Rightarrow> ('v http_ext handler_fn, 'ext, 'fb) RouterInner" where
  "register_into mi b r = add_route mi (bh_method b) (bh_pattern b) (bh_match_fn b) (bh_handler b) r"

subsection \<open>Binding\<close>

definition bind :: "'v traits \<Rightarrow> api \<Rightarrow> 'v handler \<Rightarrow> 'v BoundHandler option" where
  "bind tr e h = (if is_handler h then bound e (bindable tr e) (handler_call tr h) else None)"

fun bind_protected :: "'v traits \<Rightarrow> api \<Rightarrow> 'v handler \<Rightarrow> 'v BoundHandler option" where
  "bind_protected tr (Protected auth e) h =
     (if is_auth_handler auth h then bound (Protected auth e) (bindable tr e) (auth_call tr auth h) else None)"
| "bind_protected tr _ h = None"

definition validation_result :: "'v traits \<Rightarrow> ty \<Rightarrow> ty \<Rightarrow> bytes \<Rightarrow> (unit, string) result" where
  "validation_result tr v req body =
     and_then (map_err (\<lambda>e. ''invalid request body: '' @ e) (tr_deserialize tr req body)) (tr_validate tr v)"

definition validated_call ::
  "'v traits \<Rightarrow> ty \<Rightarrow> ty \<Rightarrow> 'v handler \<Rightarrow> 'v http_parts \<Rightarrow> bytes \<Rightarrow> reply" where
  "validated_call tr v req h pts body =
     (case validation_result tr v req body of
        Ok _ \<Rightarrow> handler_call tr h pts body
      | Err msg \<Rightarrow> json_error_response (tr_to_vec tr) (unprocessable msg)
      | Panic \<Rightarrow> Panic)"

text \<open>Only \<^verbatim>\<open>Endpoint\<close> implements \<^verbatim>\<open>HasReqType\<close> and \<^verbatim>\<open>HasResType\<close>.\<close>

fun bind_validated :: "'v traits \<Rightarrow> api \<Rightarrow> 'v handler \<Rightarrow> 'v BoundHandler option" where
  "bind_validated tr (Validated v (Plain e)) h =
     (if is_handler h
      then bound (Validated v (Plain e)) (bindable tr (Plain e)) (validated_call tr v (en_req e) h)
      else None)"
| "bind_validated tr _ h = None"

definition content_type_call :: "'v traits \<Rightarrow> ty \<Rightarrow> 'v handler \<Rightarrow> 'v http_parts \<Rightarrow> bytes \<Rightarrow> reply" where
  "content_type_call tr c h pts body =
     (let expected = tr_content_type tr c;
          ct = (case Option.bind (header_get ''content-type'' pts) (tr_to_str tr) of Some s \<Rightarrow> s | None \<Rightarrow> '''')
      in if \<not> starts_with expected ct
         then json_error_response (tr_to_vec tr)
                (json_error_new 415 (''expected Content-Type: '' @ expected @ '', got: '' @ ct))
         else handler_call tr h pts body)"

fun bind_content_type :: "'v traits \<Rightarrow> api \<Rightarrow> 'v handler \<Rightarrow> 'v BoundHandler option" where
  "bind_content_type tr (ContentType c e) h =
     (if is_handler h then bound (ContentType c e) (bindable tr e) (content_type_call tr c h) else None)"
| "bind_content_type tr _ h = None"

fun bind_strict :: "'v traits \<Rightarrow> api \<Rightarrow> 'v handler \<Rightarrow> 'v BoundHandler option" where
  "bind_strict tr (Strict (Plain e)) h =
     (if is_strict_handler (en_res e) h
      then bound (Strict (Plain e)) (bindable tr (Plain e)) (handler_call tr h)
      else None)"
| "bind_strict tr _ h = None"

text \<open>The five macros that make a bound handler.\<close>

datatype bind_kind = BIND | BIND_AUTH | BIND_VALIDATED | BIND_CONTENT_TYPE | BIND_STRICT

fun bind_macro :: "bind_kind \<Rightarrow> 'v traits \<Rightarrow> api \<Rightarrow> 'v handler \<Rightarrow> 'v BoundHandler option" where
  "bind_macro BIND = bind"
| "bind_macro BIND_AUTH = bind_protected"
| "bind_macro BIND_VALIDATED = bind_validated"
| "bind_macro BIND_CONTENT_TYPE = bind_content_type"
| "bind_macro BIND_STRICT = bind_strict"

subsection \<open>Lemmas on calls\<close>

lemma auth_call_eq: "hd_args h = auth # rest \<Longrightarrow> auth_call tr auth h = handler_call tr h"
proof (intro ext)
  fix pts body
  assume "hd_args h = auth # rest"
  then show "auth_call tr auth h pts body = handler_call tr h pts body"
    by (cases "tr_from_parts tr auth pts"; cases "extract_args tr rest pts")
      (simp_all add: auth_call_def handler_call_def)
qed

text \<open>The first extractor that does not succeed decides.\<close>

lemma extract_args_split:
  "extract_args tr (ts @ us) pts =
     and_then (extract_args tr ts pts) (\<lambda>vs. result_map ((@) vs) (extract_args tr us pts))"
proof (induction ts)
  case Nil
  show ?case by (cases "extract_args tr us pts") simp_all
next
  case (Cons t ts)
  show ?case
    by (cases "tr_from_parts tr t pts"; cases "extract_args tr ts pts"; cases "extract_args tr us pts")
      (simp_all add: Cons.IH)
qed

lemma extract_args_Ok:
  "extract_args tr ts pts = Ok vs \<longleftrightarrow> list_all2 (\<lambda>t v. tr_from_parts tr t pts = Ok v) ts vs"
  by (induction ts arbitrary: vs) (auto simp: result_simps list_all2_Cons1)

lemma bound_iff:
  "bound e inner handler = Some b \<longleftrightarrow>
    (\<exists>m p f. inner = Some (m, p, f) \<and>
      b = \<lparr>bh_endpoint = e, bh_method = m, bh_pattern = p, bh_match_fn = f, bh_handler = handler\<rparr>)"
  by (auto simp: bound_def)

lemma bound_None [simp]: "bound e None handler = None"
  by (simp add: bound_def)

lemma bound_handler [simp]: "map_option bh_handler (bound e inner handler) = map_option (\<lambda>_. handler) inner"
  by (cases inner) (auto simp: bound_def)

lemma bind_macro_bound:
  "bind_macro k tr e h = Some b \<Longrightarrow> \<exists>inner handler. bound e inner handler = Some b"
proof (cases k)
  case BIND_AUTH
  then show "bind_macro k tr e h = Some b \<Longrightarrow> ?thesis" by (cases e) (auto split: if_splits)
next
  case BIND_VALIDATED
  then show "bind_macro k tr e h = Some b \<Longrightarrow> ?thesis"
    by (cases "(tr, e, h)" rule: bind_validated.cases) (auto split: if_splits)
next
  case BIND_STRICT
  then show "bind_macro k tr e h = Some b \<Longrightarrow> ?thesis"
    by (cases "(tr, e, h)" rule: bind_strict.cases) (auto split: if_splits)
next
  case BIND_CONTENT_TYPE
  then show "bind_macro k tr e h = Some b \<Longrightarrow> ?thesis" by (cases e) (auto split: if_splits)
qed (auto simp: bind_def split: if_splits)

lemma bind_macro_endpoint: "bind_macro k tr e h = Some b \<Longrightarrow> bh_endpoint b = e"
  using bind_macro_bound [of k tr e h b] by (auto simp: bound_iff)

lemma bind_protected_only:
  "bind_macro k tr (Protected auth e) h = Some b \<Longrightarrow>
    is_auth_handler auth h \<and> bh_handler b = auth_call tr auth h"
  by (cases k) (auto simp: bind_def bound_iff split: if_splits)

lemma bind_macro_pattern:
  "bind_macro k tr (Versioned v e) h = Some b \<Longrightarrow>
    k = BIND \<and> (\<exists>m p. bindable tr (Versioned v e) = Some (m, p, bh_match_fn b))"
  by (cases k) (auto simp: bind_def bound_iff split: if_splits)

subsection \<open>Paths of wrapped endpoints\<close>

fun path_of :: "api \<Rightarrow> ty path_segment list" where
  "path_of (Plain e) = en_path e"
| "path_of (Requires _ a) = path_of a"
| "path_of (Validated _ a) = path_of a"
| "path_of (ContentType _ a) = path_of a"
| "path_of (RateLimited _ a) = path_of a"
| "path_of (ServerStream a) = path_of a"
| "path_of (ClientStream a) = path_of a"
| "path_of (BidirectionalStream a) = path_of a"
| "path_of (Versioned _ a) = path_of a"
| "path_of _ = []"

fun versions :: "api \<Rightarrow> nat" where
  "versions (Requires _ a) = versions a"
| "versions (Validated _ a) = versions a"
| "versions (ContentType _ a) = versions a"
| "versions (RateLimited _ a) = versions a"
| "versions (ServerStream a) = versions a"
| "versions (ClientStream a) = versions a"
| "versions (BidirectionalStream a) = versions a"
| "versions (Versioned _ a) = Suc (versions a)"
| "versions _ = 0"

lemma extract_path_length:
  "extract_path parse p segs = Some vs \<Longrightarrow> CaptureRest \<notin> set p \<Longrightarrow> length segs = length p"
  by (induction parse p segs arbitrary: vs rule: extract_path.induct)
    (auto split: list.splits option.splits if_splits)

lemma bindable_length:
  "bindable tr a = Some (m, p, f) \<Longrightarrow> f segs \<Longrightarrow> CaptureRest \<notin> set (path_of a) \<Longrightarrow>
    length segs = versions a + length (path_of a)"
proof (induction a arbitrary: m p f segs)
  case (Plain e)
  then show ?case by (auto split: if_splits dest: extract_path_length)
next
  case (Versioned v a)
  then obtain p' f' where f: "bindable tr a = Some (m, p', f')" "f = versioned_match (tr_prefix tr v) f'" by auto
  with Versioned.prems(2) obtain rest where "segs = tr_prefix tr v # rest" "f' rest"
    by (auto simp: versioned_match_def split: list.splits)
  with Versioned.IH [OF f(1)] Versioned.prems(3) show ?case by simp
qed auto

subsection \<open>Properties\<close>

text \<open>C5. Authentication cannot be bypassed: a handler bound to a \<^verbatim>\<open>Protected\<close> endpoint,
  by whichever macro, answers every request that reaches its route and that the authentication
  extractor refuses with the extractor's own response, once the body has been read within the
  limit; the handler function, the other extractors and the body have no influence.\<close>

theorem protected_request_refused:
  assumes "bind_macro k tr (Protected auth e) h = Some b"
    and "strip_route_prefix (ri_prefix_str r) (pt_path pts) = Some path"
    and "resolve mi r (pt_method pts) path = Hit i"
    and "re_handler (ri_routes r ! i) = bh_handler b"
    and "tr_from_parts tr auth (with_extensions r pts) = Err refusal"
  shows "router_service_call mi collect r pts body =
    (case collect_body_limited collect body (ri_max_body_size r) of
       Ok _ \<Rightarrow> refusal
     | Err too_large \<Rightarrow> too_large
     | Panic \<Rightarrow> make_status_response 500 ''Internal Server Error'')"
proof -
  have "bh_handler b (with_extensions r pts) bs = Ok refusal" for bs
    using bind_protected_only [OF assms(1)] assms(5) by (simp add: auth_call_def)
  then show ?thesis
    using assms(2,3,4) by (simp add: router_service_call_def route_def Let_def split: result.split)
qed



subsection \<open>A server with two routes\<close>

definition bearer_traits :: "string traits" where
  "bearer_traits =
     \<lparr>tr_from_str = (\<lambda>_ s. Some s),
      tr_from_parts = (\<lambda>t pts.
        if t = ''Bearer'' then ok_or (status_response 401) (header_get ''authorization'' pts) else Ok ''''),
      tr_from_body = (\<lambda>_ _ body. Ok (of_bytes body)), tr_deserialize = (\<lambda>_ body. Ok (of_bytes body)),
      tr_validate = (\<lambda>_ v. if v = '''' then Err ''empty'' else Ok ()), tr_content_type = (\<lambda>_. ''application/json''),
      tr_prefix = (\<lambda>v. v), tr_to_str = Some, tr_to_vec = (\<lambda>_. Ok '''')\<rparr>"

definition users_endpoint :: Endpoint where
  "users_endpoint = \<lparr>en_method = Get, en_path = [Lit ''users''], en_req = ''NoBody'', en_res = ''String'',
     en_query = ''()'', en_err = ''()''\<rparr>"

definition users_handler :: "string handler" where
  "users_handler = \<lparr>hd_args = [''Bearer''], hd_body = None, hd_res = ''String'',
     hd_run = \<lambda>vs. Ok (plain_text_response (concat vs))\<rparr>"

definition users_bound :: "string BoundHandler" where
  "users_bound = the (bind_protected bearer_traits (Protected ''Bearer'' (Plain users_endpoint)) users_handler)"

definition versioned_bound :: "string BoundHandler" where
  "versioned_bound = the (bind bearer_traits (Versioned ''v1'' (Plain users_endpoint)) users_handler)"

definition users_router :: "(string http_ext handler_fn, string http_ext, (string http_ext, bytes) fallback_fn) RouterInner" where
  "users_router = register_into simple_matchit versioned_bound
     (register_into simple_matchit users_bound router_new)"

lemma users_bindable:
  "bind_protected bearer_traits (Protected ''Bearer'' (Plain users_endpoint)) users_handler = Some users_bound"
  "bind bearer_traits (Versioned ''v1'' (Plain users_endpoint)) users_handler = Some versioned_bound"
  by (simp_all add: users_bound_def versioned_bound_def users_endpoint_def users_handler_def bind_def bound_def
      is_auth_handler_def is_handler_def)

lemma users_patterns:
  "bh_pattern users_bound = ''/users''" "bh_pattern versioned_bound = ''/v1/users''"
  "bh_method users_bound = ''GET''" "bh_method versioned_bound = ''GET''"
  "bh_match_fn users_bound [''users'']" "bh_match_fn versioned_bound [''v1'', ''users'']"
  by (simp_all add: users_bound_def versioned_bound_def users_endpoint_def users_handler_def bind_def bound_def
      is_auth_handler_def is_handler_def bearer_traits_def versioned_match_def)

lemma users_matchit: "to_matchit_pattern ''/users'' = ''/users''" "to_matchit_pattern ''/v1/users'' = ''/v1/users''"
  by (simp_all add: to_matchit_pattern_def to_matchit_loop.simps push_latin1_def)

lemma users_router_parts:
  "ri_index users_router GET = \<lparr>mb_trie = [(''/users'', 0), (''/v1/users'', 1)], mb_fallback = []\<rparr>"
  "ri_prefix_str users_router = None" "ri_state_injector users_router = None" "ri_max_body_size users_router = 2 * 1024 * 1024"
  "ri_routes users_router =
    [\<lparr>re_method = ''GET'', re_pattern = ''/users'', re_match_fn = bh_match_fn users_bound, re_handler = bh_handler users_bound\<rparr>,
     \<lparr>re_method = ''GET'', re_pattern = ''/v1/users'', re_match_fn = bh_match_fn versioned_bound, re_handler = bh_handler versioned_bound\<rparr>]"
  by (simp_all add: users_router_def register_into_def users_patterns add_route_def router_new_def trie_insert_def
      simple_matchit_def users_matchit method_slot_def Let_def)

lemma users_router_ok: "router_ok users_router"
  by (simp add: users_router_def register_into_def add_route_ok router_new_ok)

definition users_request :: "string \<Rightarrow> string http_parts" where
  "users_request path = \<lparr>pt_method = ''GET'', pt_path = path, pt_prefix_offset = None,
     pt_ext = \<lparr>hx_headers = Map.empty, hx_query = None, hx_types = Map.empty\<rparr>\<rparr>"

lemma users_resolve:
  "resolve simple_matchit users_router ''GET'' ''/users'' = Hit 0"
  "resolve simple_matchit users_router ''GET'' ''/v1/users'' = Hit 1"
proof -
  have "trie_at simple_matchit [(''/users'', 0 :: nat), (''/v1/users'', 1)] ''/users'' = Some 0"
    "trie_at simple_matchit [(''/users'', 0 :: nat), (''/v1/users'', 1)] ''/v1/users'' = Some 1"
    by (simp_all add: trie_at_def simple_matchit_def simple_shape_def starts_with_def)
  moreover have "path_segments ''/users'' = [''users'']" "path_segments ''/v1/users'' = [''v1'', ''users'']"
    by (simp_all add: path_segments_def)
  ultimately show "resolve simple_matchit users_router ''GET'' ''/users'' = Hit 0"
    "resolve simple_matchit users_router ''GET'' ''/v1/users'' = Hit 1"
    by (simp_all add: resolve_def method_slot_def users_router_parts lookup_in_bucket_def users_patterns)
qed

theorem protected_request_refused_witness:
  "router_service_call simple_matchit (\<lambda>limit body. Some body) users_router (users_request ''/users'') [] =
    (case collect_body_limited (\<lambda>limit body. Some body) [] (ri_max_body_size users_router) of
       Ok _ \<Rightarrow> status_response 401
     | Err too_large \<Rightarrow> too_large
     | Panic \<Rightarrow> make_status_response 500 ''Internal Server Error'')"
proof (rule protected_request_refused [of BIND_AUTH bearer_traits "''Bearer''" "Plain users_endpoint" users_handler users_bound])
  show "strip_route_prefix (ri_prefix_str users_router) (pt_path (users_request ''/users'')) = Some ''/users''"
    by (simp add: users_router_parts strip_route_prefix_def users_request_def)
  show "resolve simple_matchit users_router (pt_method (users_request ''/users'')) ''/users'' = Hit 0"
    by (simp add: users_request_def users_resolve)
  show "tr_from_parts bearer_traits ''Bearer'' (with_extensions users_router (users_request ''/users'')) = Err (status_response 401)"
    by (simp add: bearer_traits_def with_extensions_def users_router_parts users_request_def header_get_def)
  show "bind_macro BIND_AUTH bearer_traits (Protected ''Bearer'' (Plain users_endpoint)) users_handler = Some users_bound"
    by (simp only: bind_macro.simps users_bindable)
qed (simp_all add: users_router_parts)


end
