(* ===== verification/Server_Builder.thy ===== *)
theory Server_Builder
  imports Http_Handlers
begin

text \<open>
  Servers and their builders: registration of handler tuples (\<^verbatim>\<open>typeway-server/src/serves.rs\<close>),
  \<^verbatim>\<open>Server\<close> and \<^verbatim>\<open>LayeredServer\<close> (\<^verbatim>\<open>server.rs\<close>), \<^verbatim>\<open>EffectfulServer\<close>
  (\<^verbatim>\<open>effects.rs\<close>) and \<^verbatim>\<open>ServerBuilder\<close> (\<^verbatim>\<open>mount.rs\<close>). A layer is a function on
  services; the router is shared behind an \<^verbatim>\<open>Arc\<close>, so that a setting made after a layer
  is seen by the layered service. The type parameters of a builder are fields of its state, and a
  call that does not compile has no result.
\<close>

subsection \<open>Handler tuples\<close>

datatype 'v handlers = Handlers "'v BoundHandler list" | SubApis "(api \<times> 'v handlers) list"

inductive serves :: "'v handlers \<Rightarrow> api \<Rightarrow> bool" where
  handlers:
    "hs \<noteq> [] \<Longrightarrow> length hs \<le> 25 \<Longrightarrow> list_all (\<lambda>b. api_spec (bh_endpoint b)) hs \<Longrightarrow>
     serves (Handlers hs) (Tuple (map bh_endpoint hs))"
| sub_apis:
    "2 \<le> length ss \<Longrightarrow> length ss \<le> 10 \<Longrightarrow> \<forall>s\<in>set ss. api_spec (fst s) \<and> serves (snd s) (fst s) \<Longrightarrow>
     serves (SubApis ss) (Tuple (map fst ss))"
| versioned_api: "api_spec r \<Longrightarrow> serves h r \<Longrightarrow> serves h (VersionedApi b c r)"

type_synonym ('v, 'body) http_router =
  "('v http_ext handler_fn, 'v http_ext, ('v http_ext, 'body) fallback_fn) RouterInner"

fun register :: "matchit \<Rightarrow> 'v handlers \<Rightarrow> ('v, 'body) http_router \<Rightarrow> ('v, 'body) http_router" where
  "register mi (Handlers hs) r = fold (register_into mi) hs r"
| "register mi (SubApis ss) r = fold (\<lambda>s. register mi (snd s)) ss r"

text \<open>The handlers in the order of their registration, and the endpoints of an API type.\<close>

fun bound_handlers :: "'v handlers \<Rightarrow> 'v BoundHandler list" where
  "bound_handlers (Handlers hs) = hs"
| "bound_handlers (SubApis ss) = concat (map (\<lambda>s. bound_handlers (snd s)) ss)"

fun leaves :: "api \<Rightarrow> api list" where
  "leaves (Tuple as) = concat (map leaves as)"
| "leaves (VersionedApi b c r) = leaves r"
| "leaves e = [e]"

lemma register_fold:
  fixes r :: "('v, 'body) http_router"
  shows "register mi hs r = fold (register_into mi) (bound_handlers hs) r"
proof (induction hs arbitrary: r rule: bound_handlers.induct)
  case (2 ss)
  have "fold (\<lambda>s. register mi (snd s)) ts r = fold (register_into mi) (concat (map (\<lambda>s. bound_handlers (snd s)) ts)) r"
    if "set ts \<subseteq> set ss" for ts and r :: "('v, 'body) http_router"
    using that
  proof (induction ts arbitrary: r)
    case (Cons t ts)
    then have "t \<in> set ss" by simp
    from "2" [OF this] have "register mi (snd t) r = fold (register_into mi) (bound_handlers (snd t)) r" .
    with Cons show ?case by simp
  qed simp
  then show ?case by simp
qed simp

definition route_of :: "'v BoundHandler \<Rightarrow> 'v http_ext handler_fn RouteEntry" where
  "route_of b = \<lparr>re_method = bh_method b, re_pattern = bh_pattern b, re_match_fn = bh_match_fn b, re_handler = bh_handler b\<rparr>"

lemma register_into_routes: "ri_routes (register_into mi b r) = ri_routes r @ [route_of b]"
  by (simp add: register_into_def add_route_def route_of_def Let_def)

lemma register_routes: "ri_routes (register mi hs r) = ri_routes r @ map route_of (bound_handlers hs)"
proof -
  have "ri_routes (fold (register_into mi) bs r) = ri_routes r @ map route_of bs" for bs
    by (induction bs arbitrary: r) (simp_all add: register_into_routes)
  then show ?thesis by (simp add: register_fold)
qed

lemma register_ok: "router_ok r \<Longrightarrow> router_ok (register mi hs r)"
proof -
  have "router_ok r \<Longrightarrow> router_ok (fold (register_into mi) bs r)" for bs
    by (induction bs arbitrary: r) (simp_all add: register_into_def add_route_ok)
  then show "router_ok r \<Longrightarrow> ?thesis" by (simp add: register_fold)
qed

lemma serves_leaves: "serves hs a \<Longrightarrow> leaves a = concat (map (\<lambda>b. leaves (bh_endpoint b)) (bound_handlers hs))"
proof (induction rule: serves.induct)
  case (sub_apis ss)
  have "concat (map leaves (map fst ts)) =
      concat (map (\<lambda>b. leaves (bh_endpoint b)) (concat (map (\<lambda>s. bound_handlers (snd s)) ts)))"
    if "set ts \<subseteq> set ss" for ts
    using that sub_apis by (induction ts) auto
  then show ?case by simp
qed (simp_all add: comp_def)

subsection \<open>Servers\<close>

type_synonym ('v, 'body) service = "'v http_parts \<Rightarrow> 'body \<Rightarrow> string response"

record ('v, 'body) server =
  sv_router :: "('v, 'body) http_router"
  sv_layers :: "(('v, 'body) service \<Rightarrow> ('v, 'body) service) list"

definition server_service ::
  "matchit \<Rightarrow> (nat \<Rightarrow> 'body \<Rightarrow> bytes option) \<Rightarrow> ('v, 'body) server \<Rightarrow> ('v, 'body) service" where
  "server_service mi collect sv = fold (\<lambda>layer service. layer service) (sv_layers sv) (router_service_call mi collect (sv_router sv))"

definition server_new :: "matchit \<Rightarrow> 'v handlers \<Rightarrow> ('v, 'body) server" where
  "server_new mi hs = \<lparr>sv_router = register mi hs router_new, sv_layers = []\<rparr>"

definition server_nest :: "string \<Rightarrow> ('v, 'body) server \<Rightarrow> ('v, 'body) server" where
  "server_nest prefix sv = sv\<lparr>sv_router := set_prefix prefix (sv_router sv)\<rparr>"

definition server_max_body_size :: "nat \<Rightarrow> ('v, 'body) server \<Rightarrow> ('v, 'body) server" where
  "server_max_body_size limit sv = sv\<lparr>sv_router := set_max_body_size limit (sv_router sv)\<rparr>"

definition server_with_state :: "ty \<Rightarrow> 'v \<Rightarrow> ('v, 'body) server \<Rightarrow> ('v, 'body) server" where
  "server_with_state ty v sv = sv\<lparr>sv_router := set_state_injector (insert_state ty v) (sv_router sv)\<rparr>"

definition server_layer ::
  "(('v, 'body) service \<Rightarrow> ('v, 'body) service) \<Rightarrow> ('v, 'body) server \<Rightarrow> ('v, 'body) server" where
  "server_layer layer sv = sv\<lparr>sv_layers := sv_layers sv @ [layer]\<rparr>"

definition server_with_fallback :: "('v http_ext, 'body) fallback_fn \<Rightarrow> ('v, 'body) server \<Rightarrow> ('v, 'body) server" where
  "server_with_fallback fb sv = sv\<lparr>sv_router := set_fallback fb (sv_router sv)\<rparr>"

subsection \<open>Builders\<close>

record ('v, 'body) builder =
  bd_api :: api
  bd_mounted :: "api list"
  bd_provided :: "ty list"
  bd_layered :: bool
  bd_server :: "('v, 'body) server"

datatype ('v, 'body) call =
    Mount api "'v handlers"
  | Provide ty
  | WithState ty 'v
  | MaxBodySize nat
  | Nest string
  | Layer "('v, 'body) service \<Rightarrow> ('v, 'body) service"

definition builder_new :: "api \<Rightarrow> ('v, 'body) builder" where
  "builder_new a = \<lparr>bd_api = a, bd_mounted = [], bd_provided = [], bd_layered = False,
     bd_server = \<lparr>sv_router = router_new, sv_layers = []\<rparr>\<rparr>"

text \<open>The calls of \<^verbatim>\<open>ServerBuilder\<close>, and those that \<^verbatim>\<open>LayeredServerBuilder\<close> still has.\<close>

fun builder_call :: "matchit \<Rightarrow> ('v, 'body) call \<Rightarrow> ('v, 'body) builder \<Rightarrow> ('v, 'body) builder option" where
  "builder_call mi (Mount sub hs) b =
     (if \<not> bd_layered b \<and> api_spec sub \<and> serves hs sub
      then Some (b\<lparr>bd_mounted := sub # bd_mounted b,
                   bd_server := (bd_server b)\<lparr>sv_router := register mi hs (sv_router (bd_server b))\<rparr>\<rparr>)
      else None)"
| "builder_call mi (Provide e) b = Some (b\<lparr>bd_provided := e # bd_provided b\<rparr>)"
| "builder_call mi (WithState ty v) b =
     (if bd_layered b then None else Some (b\<lparr>bd_server := server_with_state ty v (bd_server b)\<rparr>))"
| "builder_call mi (MaxBodySize limit) b =
     (if bd_layered b then None else Some (b\<lparr>bd_server := server_max_body_size limit (bd_server b)\<rparr>))"
| "builder_call mi (Nest prefix) b = None"
| "builder_call mi (Layer layer) b =
     Some (b\<lparr>bd_layered := True, bd_server := server_layer layer (bd_server b)\<rparr>)"

definition builder_build :: "('v, 'body) builder \<Rightarrow> ('v, 'body) server option" where
  "builder_build b =
     (if infers (all_mounted (bd_mounted b) (bd_api b)) \<and> infers (all_provided (bd_provided b) (bd_api b))
      then Some (bd_server b) else None)"

text \<open>\<^verbatim>\<open>EffectfulServer\<close>: the handlers come with \<^verbatim>\<open>new\<close>, nothing is mounted.\<close>

definition effectful_new :: "matchit \<Rightarrow> api \<Rightarrow> 'v handlers \<Rightarrow> ('v, 'body) builder option" where
  "effectful_new mi a hs =
     (if api_spec a \<and> serves hs a
      then Some \<lparr>bd_api = a, bd_mounted = [], bd_provided = [], bd_layered = False, bd_server = server_new mi hs\<rparr>
      else None)"

fun effectful_call :: "('v, 'body) call \<Rightarrow> ('v, 'body) builder \<Rightarrow> ('v, 'body) builder option" where
  "effectful_call (Mount sub hs) b = None"
| "effectful_call (Provide e) b = Some (b\<lparr>bd_provided := e # bd_provided b\<rparr>)"
| "effectful_call (WithState ty v) b = Some (b\<lparr>bd_server := server_with_state ty v (bd_server b)\<rparr>)"
| "effectful_call (MaxBodySize limit) b = Some (b\<lparr>bd_server := server_max_body_size limit (bd_server b)\<rparr>)"
| "effectful_call (Nest prefix) b = Some (b\<lparr>bd_server := server_nest prefix (bd_server b)\<rparr>)"
| "effectful_call (Layer layer) b =
     Some (b\<lparr>bd_layered := True, bd_server := server_layer layer (bd_server b)\<rparr>)"

definition effectful_ready :: "('v, 'body) builder \<Rightarrow> ('v, 'body) server option" where
  "effectful_ready b = (if infers (all_provided (bd_provided b) (bd_api b)) then Some (bd_server b) else None)"

text \<open>A chain of calls.\<close>

fun calls :: "('c \<Rightarrow> 'b \<Rightarrow> 'b option) \<Rightarrow> 'c list \<Rightarrow> 'b \<Rightarrow> 'b option" where
  "calls step [] b = Some b"
| "calls step (c # cs) b = Option.bind (step c b) (calls step cs)"

subsection \<open>What a builder has seen\<close>

definition mount_served :: "('v, 'body) call list \<Rightarrow> ('v, 'body) http_router \<Rightarrow> api \<Rightarrow> bool" where
  "mount_served cs r s \<longleftrightarrow>
     (\<exists>hs. Mount s hs \<in> set cs \<and> serves hs s \<and> set (map route_of (bound_handlers hs)) \<subseteq> set (ri_routes r))"

lemma mount_served_mono:
  "mount_served cs r s \<Longrightarrow> set (ri_routes r) \<subseteq> set (ri_routes r') \<Longrightarrow> mount_served (cs @ ds) r' s"
  unfolding mount_served_def by fastforce

definition layer_of :: "('v, 'body) call \<Rightarrow> (('v, 'body) service \<Rightarrow> ('v, 'body) service) list" where
  "layer_of c = (case c of Layer l \<Rightarrow> [l] | _ \<Rightarrow> [])"

definition builder_inv :: "api \<Rightarrow> ('v, 'body) call list \<Rightarrow> ('v, 'body) builder \<Rightarrow> bool" where
  "builder_inv a cs b \<longleftrightarrow>
     bd_api b = a \<and> router_ok (sv_router (bd_server b)) \<and>
     (\<forall>s\<in>set (bd_mounted b). mount_served cs (sv_router (bd_server b)) s) \<and>
     (\<forall>e\<in>set (bd_provided b). Provide e \<in> set cs) \<and>
     sv_layers (bd_server b) = concat (map layer_of cs)"

lemma router_ok_settings:
  "router_ok (set_state_injector f r) = router_ok r" "router_ok (set_max_body_size n r) = router_ok r"
  by (simp_all add: router_ok_def set_state_injector_def set_max_body_size_def in_trie_def in_fallback_def)

lemma server_settings [simp]:
  "ri_routes (sv_router (server_with_state ty v sv)) = ri_routes (sv_router sv)"
  "ri_routes (sv_router (server_max_body_size n sv)) = ri_routes (sv_router sv)"
  "sv_router (server_layer l sv) = sv_router sv" "sv_layers (server_layer l sv) = sv_layers sv @ [l]"
  "sv_layers (server_with_state ty v sv) = sv_layers sv" "sv_layers (server_max_body_size n sv) = sv_layers sv"
  by (simp_all add: server_with_state_def server_max_body_size_def server_layer_def set_state_injector_def
      set_max_body_size_def)

lemma router_ok_server [simp]:
  "router_ok (sv_router (server_with_state ty v sv)) = router_ok (sv_router sv)"
  "router_ok (sv_router (server_max_body_size n sv)) = router_ok (sv_router sv)"
  by (simp_all add: server_with_state_def server_max_body_size_def router_ok_settings)

lemma builder_call_inv:
  assumes inv: "builder_inv a cs b" and call: "builder_call mi c b = Some b'"
  shows "builder_inv a (cs @ [c]) b'"
proof -
  have m: "mount_served cs (sv_router (bd_server b)) s" if "s \<in> set (bd_mounted b)" for s
    using inv that by (simp add: builder_inv_def)
  have p: "\<forall>e\<in>set (bd_provided b). Provide e \<in> set cs" and i: "bd_api b = a" "router_ok (sv_router (bd_server b))"
    "sv_layers (bd_server b) = concat (map layer_of cs)"
    using inv by (simp_all add: builder_inv_def)
  have keeps: "mount_served (cs @ [c]) r' s"
    if "s \<in> set (bd_mounted b)" "set (ri_routes (sv_router (bd_server b))) \<subseteq> set (ri_routes r')" for r' s
    by (rule mount_served_mono [OF m [OF that(1)] that(2)])
  show ?thesis
  proof (cases c)
    case (Mount sub hs)
    with call have sv: "serves hs sub" and b': "b' = b\<lparr>bd_mounted := sub # bd_mounted b,
        bd_server := (bd_server b)\<lparr>sv_router := register mi hs (sv_router (bd_server b))\<rparr>\<rparr>"
      by (auto split: if_splits)
    have "mount_served (cs @ [c]) (register mi hs (sv_router (bd_server b))) sub"
      unfolding mount_served_def using sv by (intro exI [of _ hs]) (auto simp: Mount register_routes)
    with p i keeps show ?thesis
      by (auto simp: builder_inv_def b' register_ok register_routes layer_of_def Mount)
  next
    case (Provide e)
    with call p i keeps show ?thesis by (auto simp: builder_inv_def layer_of_def)
  next
    case (WithState ty v)
    with call p i keeps show ?thesis by (auto simp: builder_inv_def layer_of_def split: if_splits)
  next
    case (MaxBodySize n)
    with call p i keeps show ?thesis by (auto simp: builder_inv_def layer_of_def split: if_splits)
  next
    case (Nest prefix)
    with call show ?thesis by simp
  next
    case (Layer l)
    with call p i keeps show ?thesis by (auto simp: builder_inv_def layer_of_def)
  qed
qed

lemma builder_calls_inv:
  "calls (builder_call mi) cs b = Some b' \<Longrightarrow> builder_inv a ds b \<Longrightarrow> builder_inv a (ds @ cs) b'"
proof (induction cs arbitrary: b ds)
  case (Cons c cs)
  then obtain b1 where b1: "builder_call mi c b = Some b1" "calls (builder_call mi) cs b1 = Some b'"
    by (auto simp: bind_eq_Some_conv)
  from Cons.IH [OF b1(2) builder_call_inv [OF Cons.prems(2) b1(1)]] show ?case by simp
qed simp

lemma builder_new_inv: "builder_inv a [] (builder_new a)"
  by (simp add: builder_inv_def builder_new_def router_new_ok)

lemma count_list_pos: "count_list xs x = 1 \<Longrightarrow> x \<in> set xs"
  by (metis count_list_0_iff zero_neq_one)

subsection \<open>Properties\<close>

text \<open>C6. A server that compiles is complete: whatever chain of \<^verbatim>\<open>mount\<close>,
  \<^verbatim>\<open>provide\<close>, \<^verbatim>\<open>layer\<close> and settings leads to a \<^verbatim>\<open>build\<close> that
  compiles, every sub-API of the API has been mounted, with handlers whose endpoints are, in order,
  exactly those of the sub-API; each of these handlers is a route of a well-formed router under its
  method and pattern; every effect that any endpoint requires has been provided; and the service
  applies the layers in the order of the calls around the router.\<close>

theorem built_server_complete:
  assumes "calls (builder_call mi) cs (builder_new a) = Some b" "builder_build b = Some sv"
  shows "router_ok (sv_router sv) \<and> sv_layers sv = concat (map layer_of cs) \<and>
    Provide ` required a \<subseteq> set cs \<and>
    (\<exists>subs. a = Tuple subs \<and> list_all (\<lambda>s. \<exists>hs. Mount s hs \<in> set cs \<and>
       leaves s = concat (map (\<lambda>h. leaves (bh_endpoint h)) (bound_handlers hs)) \<and>
       set (map route_of (bound_handlers hs)) \<subseteq> set (ri_routes (sv_router sv))) subs)"
proof -
  have inv: "builder_inv a cs b" using builder_calls_inv [OF assms(1) builder_new_inv] by simp
  then have a: "bd_api b = a" by (simp add: builder_inv_def)
  have sv: "sv = bd_server b" "infers (all_mounted (bd_mounted b) a)" "infers (all_provided (bd_provided b) a)"
    using assms(2) by (auto simp: builder_build_def a split: if_splits)
  from sv(2) obtain subs where subs: "a = Tuple subs" "\<forall>s\<in>set subs. count_list (bd_mounted b) s = 1"
    unfolding infers_all_mounted by blast
  have "mount_served cs (sv_router sv) s" if "s \<in> set subs" for s
    using inv count_list_pos [OF bspec [OF subs(2) that]] by (simp add: builder_inv_def sv(1))
  then have "list_all (\<lambda>s. \<exists>hs. Mount s hs \<in> set cs \<and>
       leaves s = concat (map (\<lambda>h. leaves (bh_endpoint h)) (bound_handlers hs)) \<and>
       set (map route_of (bound_handlers hs)) \<subseteq> set (ri_routes (sv_router sv))) subs"
    unfolding list_all_iff mount_served_def using serves_leaves by blast
  moreover have "Provide e \<in> set cs" if "e \<in> required a" for e
  proof -
    have "count_list (bd_provided b) e = 1" using sv(3) that unfolding infers_all_provided by blast
    from count_list_pos [OF this] inv show ?thesis by (simp add: builder_inv_def)
  qed
  ultimately show ?thesis using inv subs(1) by (auto simp: builder_inv_def sv(1))
qed

definition cors_bound :: "string BoundHandler" where
  "cors_bound = the (bind bearer_traits (Requires ''Cors'' (Plain users_endpoint)) users_handler)"

lemma cors_bound_endpoint: "bh_endpoint cors_bound = Requires ''Cors'' (Plain users_endpoint)"
  by (simp add: cors_bound_def bind_def bound_def users_endpoint_def is_handler_def users_handler_def)

definition cors_calls :: "(string, bytes) call list" where
  "cors_calls = [Mount (Tuple [Requires ''Cors'' (Plain users_endpoint)]) (Handlers [cors_bound]), Provide ''Cors'', Layer id]"

definition cors_builder :: "(string, bytes) builder" where
  "cors_builder = the (calls (builder_call simple_matchit) cors_calls
     (builder_new (Tuple [Tuple [Requires ''Cors'' (Plain users_endpoint)]])))"

lemma cors_serves: "serves (Handlers [cors_bound]) (Tuple [Requires ''Cors'' (Plain users_endpoint)])"
  using serves.handlers [of "[cors_bound]"] by (simp add: cors_bound_endpoint)

lemma cors_built:
  "calls (builder_call simple_matchit) cors_calls
     (builder_new (Tuple [Tuple [Requires ''Cors'' (Plain users_endpoint)]])) = Some cors_builder"
  "bd_mounted cors_builder = [Tuple [Requires ''Cors'' (Plain users_endpoint)]]" "bd_provided cors_builder = [''Cors'']"
  "bd_api cors_builder = Tuple [Tuple [Requires ''Cors'' (Plain users_endpoint)]]"
  by (simp_all add: cors_builder_def cors_calls_def cors_serves builder_new_def)

theorem built_server_complete_witness:
  "router_ok (sv_router (bd_server cors_builder)) \<and> sv_layers (bd_server cors_builder) = concat (map layer_of cors_calls) \<and>
    Provide ` required (Tuple [Tuple [Requires ''Cors'' (Plain users_endpoint)]]) \<subseteq> set cors_calls \<and>
    (\<exists>subs. Tuple [Tuple [Requires ''Cors'' (Plain users_endpoint)]] = Tuple subs \<and>
      list_all (\<lambda>s. \<exists>hs. Mount s hs \<in> set cors_calls \<and>
       leaves s = concat (map (\<lambda>h. leaves (bh_endpoint h)) (bound_handlers hs)) \<and>
       set (map route_of (bound_handlers hs)) \<subseteq> set (ri_routes (sv_router (bd_server cors_builder)))) subs)"
proof (rule built_server_complete [OF cors_built(1)])
  show "builder_build cors_builder = Some (bd_server cors_builder)"
    by (simp del: all_provided_simps add: builder_build_def cors_built infers_all_mounted infers_all_provided)
qed

text \<open>Providing an effect is a promise: no layer is asked for.\<close>

lemma provide_without_layer:
  "infers (all_provided (bd_provided b) (bd_api b)) \<Longrightarrow> sv_layers (bd_server b) = [] \<Longrightarrow>
    \<exists>sv. effectful_ready b = Some sv \<and> sv_layers sv = []"
  by (simp add: effectful_ready_def)

end
