(* ===== verification/Static_Files.thy ===== *)
theory Static_Files
  imports Server_Builder
begin

text \<open>
  Files and pages that a server adds to its API: \<^verbatim>\<open>with_static_files\<close>,
  \<^verbatim>\<open>with_spa_fallback\<close>, \<^verbatim>\<open>with_openapi\<close> and
  \<^verbatim>\<open>mime_from_path\<close> of \<^verbatim>\<open>typeway-server/src/server.rs\<close> and the handlers of
  \<^verbatim>\<open>openapi.rs\<close>. The file system is a record of two functions; the text of a file that
  cannot be read is a parameter, and so is \<^verbatim>\<open>HeaderValue::from_str\<close>.
\<close>

subsection \<open>Media types\<close>

text \<open>\<^verbatim>\<open>Path::file_name\<close> and \<^verbatim>\<open>Path::extension\<close>.\<close>

definition file_name :: "string \<Rightarrow> string option" where
  "file_name path =
     (case rev (filter (\<lambda>s. s \<noteq> '''' \<and> s \<noteq> ''.'') (split_on CHR ''/'' path)) of
        [] \<Rightarrow> None
      | s # _ \<Rightarrow> if s = ''..'' then None else Some s)"

definition file_extension :: "string \<Rightarrow> string option" where
  "file_extension path =
     Option.bind (file_name path) (\<lambda>name.
       case rev (split_on CHR ''.'' name) of
         ext # before # others \<Rightarrow> if others = [] \<and> before = '''' then None else Some ext
       | _ \<Rightarrow> None)"

definition mime_from_path :: "string \<Rightarrow> string" where
  "mime_from_path path =
     (case file_extension path of
        Some e \<Rightarrow>
          (if e \<in> {''html'', ''htm''} then ''text/html; charset=utf-8''
           else if e = ''css'' then ''text/css; charset=utf-8''
           else if e \<in> {''js'', ''mjs''} then ''application/javascript; charset=utf-8''
           else if e = ''json'' then ''application/json''
           else if e = ''png'' then ''image/png''
           else if e \<in> {''jpg'', ''jpeg''} then ''image/jpeg''
           else if e = ''gif'' then ''image/gif''
           else if e = ''svg'' then ''image/svg+xml''
           else if e = ''ico'' then ''image/x-icon''
           else if e = ''woff'' then ''font/woff''
           else if e = ''woff2'' then ''font/woff2''
           else if e = ''ttf'' then ''font/ttf''
           else if e = ''txt'' then ''text/plain; charset=utf-8''
           else if e = ''xml'' then ''application/xml''
           else if e = ''wasm'' then ''application/wasm''
           else ''application/octet-stream'')
      | None \<Rightarrow> ''application/octet-stream'')"

subsection \<open>Static files\<close>

record files =
  fs_is_dir :: "string \<Rightarrow> bool"
  fs_read :: "string \<Rightarrow> bytes option"

definition static_match :: "string list \<Rightarrow> match_fn" where
  "static_match prefix_segs segments \<longleftrightarrow>
     length prefix_segs \<le> length segments \<and> list_all2 (=) (take (length prefix_segs) segments) prefix_segs"

text \<open>\<^verbatim>\<open>path.splitn(prefix_len + 2, '/').skip(prefix_len + 1)\<close>, joined.\<close>

definition static_file_path :: "nat \<Rightarrow> string \<Rightarrow> string" where
  "static_file_path prefix_len path =
     join_with ''/'' (drop (prefix_len + 1) (splitn (prefix_len + 2) CHR ''/'' path))"

definition static_full_path :: "files \<Rightarrow> string \<Rightarrow> string \<Rightarrow> string" where
  "static_full_path fs dir file_path =
     (if file_path = '''' then path_join dir ''index.html''
      else let p = path_join dir file_path
           in if fs_is_dir fs p then path_join p ''index.html'' else p)"

definition file_response :: "(string \<Rightarrow> string option) \<Rightarrow> files \<Rightarrow> string \<Rightarrow> string response" where
  "file_response parse_hv fs full_path =
     (case fs_read fs full_path of
        Some contents \<Rightarrow>
          \<lparr>rs_status = 200,
           rs_headers = (case parse_hv (mime_from_path full_path) of
                           Some v \<Rightarrow> [''content-type'' \<mapsto> v] | None \<Rightarrow> Map.empty),
           rs_body = of_bytes contents\<rparr>
      | None \<Rightarrow> make_status_response 404 ''Not Found'')"

definition static_handler ::
  "(string \<Rightarrow> string option) \<Rightarrow> files \<Rightarrow> string \<Rightarrow> nat \<Rightarrow> 'v http_parts \<Rightarrow> bytes \<Rightarrow> reply" where
  "static_handler parse_hv fs dir prefix_len pts body =
     (let file_path = static_file_path prefix_len (pt_path pts)
      in if str_contains ''..'' file_path then Ok (make_status_response 403 ''Forbidden'')
         else Ok (file_response parse_hv fs (static_full_path fs dir file_path)))"

definition with_static_files ::
  "matchit \<Rightarrow> (string \<Rightarrow> string option) \<Rightarrow> files \<Rightarrow> string \<Rightarrow> string \<Rightarrow> ('v, 'body) server \<Rightarrow> ('v, 'body) server" where
  "with_static_files mi parse_hv fs prefix dir sv =
     (let prefix_segs = path_segments prefix
      in sv\<lparr>sv_router := add_route mi ''GET'' (prefix @ ''/{*path}'') (static_match prefix_segs)
              (static_handler parse_hv fs dir (length prefix_segs)) (sv_router sv)\<rparr>)"

subsection \<open>The fallback page of a single-page application\<close>

definition last_segment :: "string \<Rightarrow> string" where
  "last_segment path = last (split_on CHR ''/'' path)"

definition spa_fallback :: "string \<Rightarrow> ('v http_ext, 'body) fallback_fn" where
  "spa_fallback html pts body =
     (if str_contains ''.'' (last_segment (pt_path pts)) then Ok (make_status_response 404 ''Not Found'')
      else Ok (content_response ''text/html; charset=utf-8'' html))"

definition with_spa_fallback :: "(string \<Rightarrow> string) \<Rightarrow> files \<Rightarrow> string \<Rightarrow> ('v, 'body) server \<Rightarrow> ('v, 'body) server" where
  "with_spa_fallback error_page fs index_path sv =
     server_with_fallback (spa_fallback
       (case fs_read fs index_path of
          Some contents \<Rightarrow> if utf8_valid contents then of_bytes contents else error_page index_path
        | None \<Rightarrow> error_page index_path)) sv"

subsection \<open>The pages of the API description\<close>

definition exact_match :: "string list \<Rightarrow> match_fn" where
  "exact_match expected segments \<longleftrightarrow> segments = expected"

definition spec_handler :: "string \<Rightarrow> 'v http_parts \<Rightarrow> bytes \<Rightarrow> reply" where
  "spec_handler spec_json pts body = Ok (content_response ''application/json'' spec_json)"

definition docs_handler :: "string \<Rightarrow> 'v http_parts \<Rightarrow> bytes \<Rightarrow> reply" where
  "docs_handler html pts body = Ok (content_response ''text/html; charset=utf-8'' html)"

text \<open>The pretty-printed description and the page are parameters.\<close>

definition with_openapi :: "matchit \<Rightarrow> string \<Rightarrow> string \<Rightarrow> ('v, 'body) server \<Rightarrow> ('v, 'body) server" where
  "with_openapi mi spec_json docs_html sv =
     sv\<lparr>sv_router :=
        add_route mi ''GET'' ''/docs'' (exact_match [''docs'']) (docs_handler docs_html)
          (add_route mi ''GET'' ''/openapi.json'' (exact_match [''openapi.json'']) (spec_handler spec_json)
             (sv_router sv))\<rparr>"

subsection \<open>Lemmas\<close>

lemma splitn_join:
  "list_all (\<lambda>s. CHR ''/'' \<notin> set s) segs \<Longrightarrow>
    splitn (Suc (length segs)) CHR ''/'' (concat (map (\<lambda>s. s @ ''/'') segs) @ rest) = segs @ [rest]"
proof (induction segs)
  case (Cons s segs)
  then show ?case
    using find_char_append [of "CHR ''/''" s "concat (map (\<lambda>s. s @ ''/'') segs) @ rest"]
    by simp
qed simp

lemma join_path_front: "join_path segs @ ''/'' = ''/'' @ concat (map (\<lambda>s. s @ ''/'') segs)"
  by (induction segs) (simp_all add: join_path_def)

text \<open>The file that a path under the prefix names.\<close>

lemma static_file_path_under:
  assumes "list_all (\<lambda>s. CHR ''/'' \<notin> set s) segs"
  shows "static_file_path (length segs) (join_path segs @ ''/'' @ rest) = rest"
proof -
  have "join_path segs @ ''/'' @ rest = concat (map (\<lambda>s. s @ ''/'') ('''' # segs)) @ rest"
    using join_path_front [of segs] by (metis append.assoc concat.simps(2) list.simps(9) self_append_conv2)
  moreover have "splitn (Suc (length ('''' # segs))) CHR ''/'' (concat (map (\<lambda>s. s @ ''/'') ('''' # segs)) @ rest) = ('''' # segs) @ [rest]"
    by (rule splitn_join) (use assms in simp)
  ultimately have k: "splitn (length segs + 2) CHR ''/'' (join_path segs @ ''/'' @ rest) = '''' # segs @ [rest]"
    by (metis add_2_eq_Suc' append_Cons length_Cons)
  show ?thesis unfolding static_file_path_def k by simp
qed

lemma path_segments_no_slash: "list_all (\<lambda>s. CHR ''/'' \<notin> set s) (path_segments path)"
proof -
  have "list_all (\<lambda>s. c \<notin> set s) (split_on c t)" for c t
  proof (induction t)
    case (Cons a t)
    then show ?case by (cases "split_on c t") (auto simp: list_all_iff)
  qed simp
  then show ?thesis by (auto simp: path_segments_def list_all_iff)
qed

text \<open>Doubled dots cannot arise by joining.\<close>

lemma contains_iff: "str_contains p s \<longleftrightarrow> (\<exists>u v. s = u @ p @ v)"
proof (induction s)
  case (Cons c s)
  have "(\<exists>u v. c # s = u @ p @ v) \<longleftrightarrow> (\<exists>v. c # s = p @ v) \<or> (\<exists>u v. s = u @ p @ v)"
    by (metis append_Cons append_Nil list.inject list.exhaust)
  then show ?case using Cons by (simp add: starts_with_iff)
qed simp

text \<open>Without a leading slash the file lies under the directory; with one it is the file named.\<close>

lemma static_full_path_cases:
  assumes "dir \<noteq> ''''"
  shows "static_full_path fs dir file_path =
    (if starts_with ''/'' file_path then
       (if fs_is_dir fs file_path then path_join file_path ''index.html'' else file_path)
     else path_join dir
       (if file_path = '''' then ''index.html''
        else if fs_is_dir fs (path_join dir file_path) then path_join file_path ''index.html'' else file_path))"
  using assms
  by (cases file_path) (auto simp: static_full_path_def path_join_def starts_with_def Let_def)

lemma path_segments_under:
  "list_all (\<lambda>s. CHR ''/'' \<notin> set s \<and> s \<noteq> '''') segs \<Longrightarrow>
    path_segments (join_path segs @ CHR ''/'' # t) = segs @ path_segments t"
proof (induction segs)
  case Nil
  then show ?case by (simp add: join_path_def)
next
  case (Cons s segs)
  obtain u where u: "join_path segs @ CHR ''/'' # t = CHR ''/'' # u"
    by (cases segs) (auto simp: join_path_def)
  have "path_segments (join_path (s # segs) @ CHR ''/'' # t) = path_segments (s @ CHR ''/'' # u)"
    by (simp add: join_path_def flip: u)
  also have "\<dots> = s # path_segments (CHR ''/'' # u)" using Cons.prems by (simp add: path_segments_sep)
  finally show ?case using Cons by (simp flip: u)
qed

lemma no_dots_append:
  "str_contains ''..'' (u @ t) \<Longrightarrow> \<not> starts_with ''.'' t \<Longrightarrow> \<not> str_contains ''..'' t \<Longrightarrow> str_contains ''..'' u"
proof (induction u)
  case (Cons c u)
  then show ?case by (cases u; cases t) (auto simp: starts_with_def)
qed simp

lemma no_dots_index:
  assumes "\<not> str_contains ''..'' x" "\<not> starts_with ''/'' x" "x \<noteq> ''''"
  shows "\<not> str_contains ''..'' (path_join x ''index.html'') \<and> \<not> starts_with ''/'' (path_join x ''index.html'')"
proof -
  have "\<not> str_contains ''..'' ''index.html''" "\<not> str_contains ''..'' ''/index.html''" by code_simp+
  then have "\<not> str_contains ''..'' (x @ ''index.html'')" "\<not> str_contains ''..'' (x @ ''/index.html'')"
    using no_dots_append [of x "''index.html''"] no_dots_append [of x "''/index.html''"] assms(1)
    by (auto simp: starts_with_def)
  moreover have "starts_with ''/'' (x @ t) \<longleftrightarrow> starts_with ''/'' x" for t
    using assms(3) by (cases x) (auto simp: starts_with_def)
  ultimately show ?thesis using assms(2) by (auto simp: path_join_def starts_with_def)
qed

text \<open>The intended case: behind a single slash, what is read lies under the directory.\<close>

lemma static_files_contained:
  assumes "dir \<noteq> ''''" "\<not> starts_with ''/'' (static_file_path n (pt_path pts))"
  shows "static_handler parse_hv fs dir n pts body = Ok (make_status_response 403 ''Forbidden'') \<or>
    (\<exists>x. \<not> str_contains ''..'' x \<and> \<not> starts_with ''/'' x \<and>
       static_handler parse_hv fs dir n pts body = Ok (file_response parse_hv fs (path_join dir x)))"
proof (cases "str_contains ''..'' (static_file_path n (pt_path pts))")
  case False
  have "\<not> str_contains ''..'' ''index.html''" by code_simp
  moreover define fp where "fp = static_file_path n (pt_path pts)"
  moreover define x where "x = (if fp = '''' then ''index.html''
      else if fs_is_dir fs (path_join dir fp) then path_join fp ''index.html'' else fp)"
  ultimately have "\<not> str_contains ''..'' x \<and> \<not> starts_with ''/'' x"
    using False assms(2) no_dots_index [OF False assms(2)] by (auto simp: starts_with_def)
  moreover have "static_handler parse_hv fs dir n pts body = Ok (file_response parse_hv fs (path_join dir x))"
    using False assms(2) by (simp add: static_handler_def static_full_path_cases [OF assms(1)] x_def flip: fp_def)
  ultimately show ?thesis by blast
qed (simp add: static_handler_def)

text \<open>Under \<^verbatim>\<open>nest\<close> the count of segments is wrong: the prefix of the files becomes part
  of the file name.\<close>

lemma static_files_nested:
  "static_file_path (length (path_segments ''/static'')) ''/api/static/app.js'' = ''static/app.js''"
  by code_simp

subsection \<open>Properties\<close>

text \<open>C13. Static files can be read from anywhere. A request for the prefix, a slash and the absolute
  name of a file (two slashes after the prefix) is answered with the contents of that file, wherever
  it lies in the file system: the test for doubled dots does not look at it, and joining an absolute
  path drops the directory. The match function of the route accepts the request. The route is
  reached if the trie selects its catch-all pattern for that path, as \<^verbatim>\<open>matchit\<close> does.\<close>

theorem static_files_escape:
  assumes "fs_read fs file = Some contents" "starts_with ''/'' file" "\<not> str_contains ''..'' file" "\<not> fs_is_dir fs file"
    and "path_segments prefix = segs" "pt_path pts = join_path segs @ ''/'' @ file"
    and "strip_route_prefix (ri_prefix_str r) (pt_path pts) = Some path" "resolve mi r (pt_method pts) path = Hit i"
    and "re_handler (ri_routes r ! i) = static_handler parse_hv fs dir (length (path_segments prefix))"
    and "collect_body_limited collect body (ri_max_body_size r) = Ok bs"
  shows "static_match segs (path_segments (pt_path pts)) \<and>
    rs_status (router_service_call mi collect r pts body) = 200 \<and>
    rs_body (router_service_call mi collect r pts body) = of_bytes contents"
proof -
  have same: "pt_path (with_extensions r pts) = pt_path pts"
    by (auto simp: with_extensions_def Let_def split: option.splits)
  have no: "list_all (\<lambda>s. CHR ''/'' \<notin> set s) segs" using path_segments_no_slash assms(5) by metis
  have fp: "static_file_path (length segs) (pt_path (with_extensions r pts)) = file"
    unfolding same assms(6) by (rule static_file_path_under [OF no])
  have ne: "file \<noteq> ''''" using assms(2) by (auto simp: starts_with_def)
  have full: "static_full_path fs dir file = file"
    using assms(2,4) ne by (simp add: static_full_path_def path_join_def)
  have h: "re_handler (ri_routes r ! i) (with_extensions r pts) bs = Ok (file_response parse_hv fs file)"
    unfolding assms(9) static_handler_def assms(5) fp using assms(3) by (simp add: full)
  have call: "router_service_call mi collect r pts body = file_response parse_hv fs file"
    using assms(7,8,10) h by (simp add: router_service_call_def route_def)
  have "list_all (\<lambda>s. CHR ''/'' \<notin> set s \<and> s \<noteq> '''') segs"
    using no assms(5) by (auto simp: path_segments_def list_all_iff)
  from path_segments_under [OF this]
  have segs': "path_segments (join_path segs @ CHR ''/'' # t) = segs @ path_segments t" for t .
  have "static_match segs (path_segments (pt_path pts))"
    unfolding assms(6) by (simp add: segs' static_match_def list.rel_eq)
  with call assms(1) show ?thesis by (simp add: file_response_def)
qed

text \<open>A server with files under \<^verbatim>\<open>/static\<close>.\<close>

definition etc_files :: files where
  "etc_files = \<lparr>fs_is_dir = (\<lambda>_. False), fs_read = (\<lambda>p. if p = ''/etc/passwd'' then Some (as_bytes ''root'') else None)\<rparr>"

definition static_server :: "(string, bytes) server" where
  "static_server = with_static_files simple_matchit ascii_hv etc_files ''/static'' ''public''
     \<lparr>sv_router = router_new, sv_layers = []\<rparr>"

lemma static_matchit: "to_matchit_pattern ''/static/{*path}'' = ''/static/{*path}''"
  by (simp add: to_matchit_pattern_def to_matchit_loop.simps push_latin1_def)

lemma static_segments [simp]: "path_segments ''/static'' = [''static'']" "path_segments ''static'' = [''static'']"
  by (simp_all add: path_segments_def)

lemma static_server_parts:
  "ri_index (sv_router static_server) GET = \<lparr>mb_trie = [(''/static/{*path}'', 0)], mb_fallback = []\<rparr>"
  "ri_prefix_str (sv_router static_server) = None" "ri_state_injector (sv_router static_server) = None"
  "ri_methods_present (sv_router static_server) = method_bit ''GET''"
  "ri_routes (sv_router static_server) =
    [\<lparr>re_method = ''GET'', re_pattern = ''/static/{*path}'', re_match_fn = static_match [''static''],
      re_handler = static_handler ascii_hv etc_files ''public'' 1\<rparr>]"
  by (simp_all add: static_server_def with_static_files_def add_route_def router_new_def trie_insert_def
      simple_matchit_def static_matchit static_segments method_slot_def Let_def)

theorem static_files_escape_witness:
  "static_match [''static''] (path_segments (pt_path (users_request ''/static//etc/passwd''))) \<and>
    rs_status (router_service_call simple_matchit (\<lambda>_. Some) (sv_router static_server) (users_request ''/static//etc/passwd'') []) = 200 \<and>
    rs_body (router_service_call simple_matchit (\<lambda>_. Some) (sv_router static_server) (users_request ''/static//etc/passwd'') []) =
      of_bytes (as_bytes ''root'')"
proof (rule static_files_escape [of etc_files "''/etc/passwd''" "as_bytes ''root''" "''/static''" "[''static'']"
      "users_request ''/static//etc/passwd''" "sv_router static_server" "''/static//etc/passwd''" simple_matchit 0
      ascii_hv "''public''" "\<lambda>_. Some" "[]" "[]"])
  show "pt_path (users_request ''/static//etc/passwd'') = join_path [''static''] @ ''/'' @ ''/etc/passwd''"
    by (simp add: users_request_def join_path_def)
  show "strip_route_prefix (ri_prefix_str (sv_router static_server)) (pt_path (users_request ''/static//etc/passwd'')) =
      Some ''/static//etc/passwd''"
    by (simp add: static_server_parts strip_route_prefix_def users_request_def)
  have "trie_at simple_matchit [(''/static/{*path}'', 0 :: nat)] ''/static//etc/passwd'' = Some 0"
    by (simp add: trie_at_def simple_matchit_def simple_shape_def starts_with_def)
  moreover have "path_segments ''/static//etc/passwd'' = [''static'', ''etc'', ''passwd'']" by (simp add: path_segments_def)
  ultimately show "resolve simple_matchit (sv_router static_server) (pt_method (users_request ''/static//etc/passwd''))
      ''/static//etc/passwd'' = Hit 0"
    by (simp add: resolve_def method_slot_def static_server_parts lookup_in_bucket_def users_request_def static_match_def)
  show "\<not> str_contains ''..'' ''/etc/passwd''" by code_simp
qed (simp_all add: etc_files_def starts_with_def static_segments static_server_parts collect_body_limited_def)

text \<open>The prefix itself is not served, although the match function accepts it: the catch-all of the
  trie does not match an empty rest.\<close>

lemma static_root_not_found:
  "static_match [''static''] (path_segments ''/static/'')"
  "resolve simple_matchit (sv_router static_server) ''GET'' ''/static/'' = NotFound"
proof -
  have "trie_at simple_matchit [(''/static/{*path}'', 0 :: nat)] ''/static/'' = None"
    by (simp add: trie_at_def simple_matchit_def simple_shape_def starts_with_def)
  then show "resolve simple_matchit (sv_router static_server) ''GET'' ''/static/'' = NotFound"
    by (simp add: resolve_def method_slot_def static_server_parts lookup_in_bucket_def)
  show "static_match [''static''] (path_segments ''/static/'')"
    by (simp add: path_segments_def static_match_def)
qed

end
