(* ===== verification/Server_Layers.thy ===== *)
theory Server_Layers
  imports Server_Builder
begin

text \<open>
  Layers around the router: the security headers of \<^verbatim>\<open>typeway-server/src/secure_headers.rs\<close>
  and the request identifiers of \<^verbatim>\<open>request_id.rs\<close>. The parsers of header names and values
  and the random identifier are parameters.
\<close>

subsection \<open>Security headers\<close>

type_synonym header_list = "(string \<times> string) list"

definition secure_new :: header_list where
  "secure_new =
     [(''x-content-type-options'', ''nosniff''), (''x-frame-options'', ''DENY''), (''x-xss-protection'', ''0''),
      (''referrer-policy'', ''strict-origin-when-cross-origin''),
      (''content-security-policy'', ''default-src '' @ [CHR 0x27] @ ''self'' @ [CHR 0x27]),
      (''permissions-policy'', ''camera=(), microphone=(), geolocation=()'')]"

fun set_header :: "string \<Rightarrow> string \<Rightarrow> header_list \<Rightarrow> header_list" where
  "set_header name value [] = [(name, value)]"
| "set_header name value ((n, v) # hs) =
     (if n = name then (n, value) # hs else (n, v) # set_header name value hs)"

definition ascii_lowercase :: "string \<Rightarrow> string" where
  "ascii_lowercase s =
     map (\<lambda>c. let n = of_char c :: nat in if 65 \<le> n \<and> n \<le> 90 then char_of (n + 32) else c) s"

datatype secure_op =
    Hsts u64
  | FrameOptions string
  | ContentSecurityPolicy string
  | DisableCsp
  | Custom string string

definition hsts_value :: "u64 \<Rightarrow> string" where
  "hsts_value max_age_secs = ''max-age='' @ dec (unat max_age_secs) @ ''; includeSubDomains; preload''"

fun secure_call :: "secure_op \<Rightarrow> header_list \<Rightarrow> header_list" where
  "secure_call (Hsts secs) hs = set_header ''strict-transport-security'' (hsts_value secs) hs"
| "secure_call (FrameOptions v) hs = set_header ''x-frame-options'' v hs"
| "secure_call (ContentSecurityPolicy v) hs = set_header ''content-security-policy'' v hs"
| "secure_call DisableCsp hs = filter (\<lambda>(name, _). name \<noteq> ''content-security-policy'') hs"
| "secure_call (Custom name v) hs = set_header (ascii_lowercase name) v hs"

text \<open>\<^verbatim>\<open>layer\<close> parses the pairs and leaves out those that are no header.\<close>

definition parse_headers ::
  "(string \<Rightarrow> string option) \<Rightarrow> (string \<Rightarrow> string option) \<Rightarrow> header_list \<Rightarrow> header_list" where
  "parse_headers parse_hn parse_hv hs =
     List.map_filter (\<lambda>(name, value).
       Option.bind (parse_hn name) (\<lambda>n. map_option (Pair n) (parse_hv value))) hs"

definition insert_headers :: "header_list \<Rightarrow> string response \<Rightarrow> string response" where
  "insert_headers hs resp = resp\<lparr>rs_headers := fold (\<lambda>(n, v) m. m(n \<mapsto> v)) hs (rs_headers resp)\<rparr>"

definition secure_layer ::
  "(string \<Rightarrow> string option) \<Rightarrow> (string \<Rightarrow> string option) \<Rightarrow> header_list \<Rightarrow>
   ('v, 'body) service \<Rightarrow> ('v, 'body) service" where
  "secure_layer parse_hn parse_hv hs inner = (\<lambda>pts body.
     insert_headers (parse_headers parse_hn parse_hv hs) (inner pts body))"

text \<open>The configuration as a map, and the calls on it.\<close>

fun secure_map :: "secure_op \<Rightarrow> (string \<rightharpoonup> string) \<Rightarrow> (string \<rightharpoonup> string)" where
  "secure_map (Hsts secs) m = m(''strict-transport-security'' \<mapsto> hsts_value secs)"
| "secure_map (FrameOptions v) m = m(''x-frame-options'' \<mapsto> v)"
| "secure_map (ContentSecurityPolicy v) m = m(''content-security-policy'' \<mapsto> v)"
| "secure_map DisableCsp m = m(''content-security-policy'' := None)"
| "secure_map (Custom name v) m = m(ascii_lowercase name \<mapsto> v)"

lemma fst_set_header: "fst ` set (set_header n v hs) = insert n (fst ` set hs)"
  by (induction n v hs rule: set_header.induct) auto

lemma distinct_set_header: "distinct (map fst hs) \<Longrightarrow> distinct (map fst (set_header n v hs))"
proof (induction n v hs rule: set_header.induct)
  case (2 k w n v hs)
  then show ?case using fst_set_header [of k w hs] by auto
qed simp

lemma map_of_set_header: "map_of (set_header n v hs) = (map_of hs)(n \<mapsto> v)"
  by (induction n v hs rule: set_header.induct) auto

lemma map_of_filter_name: "map_of (filter (\<lambda>(n, _). n \<noteq> k) hs) = (map_of hs)(k := None)"
  by (induction hs) auto

lemma secure_call_map: "map_of (secure_call c hs) = secure_map c (map_of hs)"
  by (cases c) (simp_all add: map_of_set_header map_of_filter_name)

lemma distinct_secure_call: "distinct (map fst hs) \<Longrightarrow> distinct (map fst (secure_call c hs))"
  by (cases c) (simp_all add: distinct_set_header distinct_map_filter)

lemma secure_calls:
  "distinct (map fst hs) \<Longrightarrow>
    distinct (map fst (fold secure_call cs hs)) \<and> map_of (fold secure_call cs hs) = fold secure_map cs (map_of hs)"
  by (induction cs arbitrary: hs) (simp_all add: distinct_secure_call secure_call_map)

lemma secure_new_distinct: "distinct (map fst secure_new)"
  by (simp add: secure_new_def)

text \<open>A name parses to itself or not at all.\<close>

definition header_names :: "(string \<Rightarrow> string option) \<Rightarrow> bool" where
  "header_names parse_hn \<longleftrightarrow> (\<forall>n n'. parse_hn n = Some n' \<longrightarrow> n' = ascii_lowercase n)"

definition lowercase_name :: "string \<Rightarrow> bool" where
  "lowercase_name n \<longleftrightarrow> ascii_lowercase n = n"

lemma insert_fold: "fold (\<lambda>(n, v) m. m(n \<mapsto> v)) hs m = m ++ map_of (rev hs)"
  by (induction hs arbitrary: m) (auto simp: map_add_def split: option.splits)

lemma map_of_rev_distinct: "distinct (map fst hs) \<Longrightarrow> map_of (rev hs) = map_of hs"
  using map_of_inject_set [of "rev hs" hs] by (simp add: rev_map [symmetric])

lemma ascii_lowercase_idem [simp]: "ascii_lowercase (ascii_lowercase s) = ascii_lowercase s"
  by (simp add: ascii_lowercase_def Let_def)

lemma lowercase_literals [simp]:
  "lowercase_name ''strict-transport-security''" "lowercase_name ''x-frame-options''"
  "lowercase_name ''content-security-policy''"
  by code_simp+

lemma set_header_lowercase:
  "list_all (\<lambda>h. lowercase_name (fst h)) hs \<Longrightarrow> lowercase_name n \<Longrightarrow>
    list_all (\<lambda>h. lowercase_name (fst h)) (set_header n v hs)"
  by (induction n v hs rule: set_header.induct) auto

lemma secure_call_lowercase:
  assumes "list_all (\<lambda>h. lowercase_name (fst h)) hs"
  shows "list_all (\<lambda>h. lowercase_name (fst h)) (secure_call c hs)"
proof (cases c)
  case (Custom name v)
  have "lowercase_name (ascii_lowercase name)" by (simp add: lowercase_name_def)
  then show ?thesis using set_header_lowercase [OF assms] Custom by simp
next
  case DisableCsp
  then show ?thesis using assms by (auto simp: list_all_iff)
qed (use set_header_lowercase [OF assms] in simp_all)

lemma secure_calls_lowercase:
  "list_all (\<lambda>h. lowercase_name (fst h)) hs \<Longrightarrow> list_all (\<lambda>h. lowercase_name (fst h)) (fold secure_call cs hs)"
  by (induction cs arbitrary: hs) (simp_all add: secure_call_lowercase)

lemma secure_new_lowercase: "list_all (\<lambda>h. lowercase_name (fst h)) secure_new"
  by code_simp

lemma map_filter_values:
  "distinct (map fst hs) \<Longrightarrow>
    fst ` set (List.map_filter (\<lambda>(n, v). map_option (Pair n) (g n v)) hs) \<subseteq> fst ` set hs \<and>
    distinct (map fst (List.map_filter (\<lambda>(n, v). map_option (Pair n) (g n v)) hs)) \<and>
    map_of (List.map_filter (\<lambda>(n, v). map_option (Pair n) (g n v)) hs) k = Option.bind (map_of hs k) (g k)"
proof (induction hs)
  case (Cons h hs)
  obtain n v where h: "h = (n, v)" by (cases h)
  have "k = n \<Longrightarrow> map_of hs k = None" using Cons.prems by (simp add: h map_of_eq_None_iff)
  with Cons h show ?case by (cases "g n v") (auto simp: map_filter_simps)
qed (simp add: map_filter_simps)

lemma parse_headers_eq:
  assumes "header_names parse_hn" "list_all (\<lambda>h. lowercase_name (fst h)) hs"
  shows "parse_headers parse_hn parse_hv hs =
    List.map_filter (\<lambda>(n, v). map_option (Pair n) (if parse_hn n = None then None else parse_hv v)) hs"
  using assms(2)
proof (induction hs)
  case (Cons h hs)
  obtain n v where h: "h = (n, v)" by (cases h)
  have "parse_hn n = Some n' \<Longrightarrow> n' = n" for n'
    using assms(1) Cons.prems by (simp add: header_names_def lowercase_name_def h)
  with Cons show ?case
    by (cases "parse_hn n"; cases "parse_hv v") (auto simp: parse_headers_def map_filter_simps h)
qed (simp add: parse_headers_def map_filter_simps)

subsection \<open>Request identifiers\<close>

text \<open>\<open>mk\<close> puts the identifier into the typed extensions; \<open>uuid\<close> is the random one of the request.\<close>

definition request_id ::
  "(string \<Rightarrow> string option) \<Rightarrow> string \<Rightarrow> 'v http_parts \<Rightarrow> string" where
  "request_id to_str uuid pts =
     (case Option.bind (header_get ''x-request-id'' pts) to_str of Some s \<Rightarrow> s | None \<Rightarrow> uuid)"

definition request_id_layer ::
  "(string \<Rightarrow> string option) \<Rightarrow> (string \<Rightarrow> string option) \<Rightarrow> (string \<Rightarrow> 'v) \<Rightarrow> ('v http_parts \<Rightarrow> string) \<Rightarrow>
   ('v, 'body) service \<Rightarrow> ('v, 'body) service" where
  "request_id_layer to_str parse_hv mk uuid inner = (\<lambda>pts body.
     (let id = request_id to_str (uuid pts) pts;
          resp = inner (pts\<lparr>pt_ext := insert_state ''RequestId'' (mk id) (pt_ext pts)\<rparr>) body
      in case parse_hv id of
           Some v \<Rightarrow> resp\<lparr>rs_headers := (rs_headers resp)(''x-request-id'' \<mapsto> v)\<rparr>
         | None \<Rightarrow> resp))"

subsection \<open>Properties\<close>

text \<open>Every response carries the security headers: on a server whose outermost layer was made by
  any chain of calls, every response to every request, those of the router itself (404, 405, 413 and
  the 500 of a panic) included, has for each configured name the value of the last call that set
  it, if name and value are a header; every other header, the status and the body are those of the
  inner service. The configuration is a map: a call sets one name, disabling removes one.\<close>

theorem secure_headers_everywhere:
  assumes "header_names parse_hn" "sv_layers sv = ls @ [secure_layer parse_hn parse_hv (fold secure_call cs secure_new)]"
  shows "server_service mi collect sv pts body =
    (let resp = server_service mi collect (sv\<lparr>sv_layers := ls\<rparr>) pts body;
         config = fold secure_map cs (map_of secure_new)
     in resp\<lparr>rs_headers := \<lambda>name.
          (case (if parse_hn name = None then None else Option.bind (config name) parse_hv) of
             Some v \<Rightarrow> Some v
           | None \<Rightarrow> rs_headers resp name)\<rparr>)"
proof -
  let ?hs = "fold secure_call cs secure_new"
  have d: "distinct (map fst ?hs)" and m: "map_of ?hs = fold secure_map cs (map_of secure_new)"
    using secure_calls [OF secure_new_distinct] by blast+
  let ?ps = "parse_headers parse_hn parse_hv ?hs"
  note eq = parse_headers_eq [OF assms(1) secure_calls_lowercase [OF secure_new_lowercase, of cs], of parse_hv]
  note p = map_filter_values [OF d, of "\<lambda>n v. if parse_hn n = None then None else parse_hv v", folded eq]
  have "map_of (rev ?ps) k = (if parse_hn k = None then None else Option.bind (map_of ?hs k) parse_hv)" for k
    using map_of_rev_distinct [of ?ps] p [of k] by (auto split: bind_splits)
  then have "fold (\<lambda>(n, v) m. m(n \<mapsto> v)) ?ps h =
      (\<lambda>name. case (if parse_hn name = None then None else Option.bind (map_of ?hs name) parse_hv) of
         Some v \<Rightarrow> Some v | None \<Rightarrow> h name)" for h
    by (intro ext) (simp add: insert_fold map_add_def)
  then show ?thesis
    using assms(2) by (simp add: server_service_def secure_layer_def insert_headers_def Let_def m [symmetric])
qed

definition plain_names :: "string \<Rightarrow> string option" where
  "plain_names n = Some (ascii_lowercase n)"

definition secured_server :: "(string, bytes) server" where
  "secured_server = \<lparr>sv_router = users_router,
     sv_layers = [] @ [secure_layer plain_names ascii_hv (fold secure_call [Hsts 60, DisableCsp] secure_new)]\<rparr>"

theorem secure_headers_everywhere_witness:
  "server_service simple_matchit (\<lambda>_. Some) secured_server (users_request ''/nowhere'') [] =
    (let resp = server_service simple_matchit (\<lambda>_. Some) (secured_server\<lparr>sv_layers := []\<rparr>) (users_request ''/nowhere'') [];
         config = fold secure_map [Hsts 60, DisableCsp] (map_of secure_new)
     in resp\<lparr>rs_headers := \<lambda>name.
          (case (if plain_names name = None then None else Option.bind (config name) ascii_hv) of
             Some v \<Rightarrow> Some v
           | None \<Rightarrow> rs_headers resp name)\<rparr>)"
proof (rule secure_headers_everywhere)
  show "header_names plain_names" by (simp add: header_names_def plain_names_def)
  show "sv_layers secured_server = [] @ [secure_layer plain_names ascii_hv (fold secure_call [Hsts 60, DisableCsp] secure_new)]"
    by (simp only: secured_server_def server.select_convs)
qed

text \<open>The identifier of the response is the one that the handler sees, and the one of the request
  if the request has one that is text.\<close>

lemma request_id_echoed:
  assumes "\<And>v s. to_str v = Some s \<Longrightarrow> parse_hv s = Some s" "parse_hv (uuid pts) = Some (uuid pts)"
  shows "rs_headers (request_id_layer to_str parse_hv mk uuid inner pts body) ''x-request-id'' =
      Some (request_id to_str (uuid pts) pts)"
    "\<exists>pts'. request_id_layer to_str parse_hv mk uuid inner pts body =
        (inner pts' body)\<lparr>rs_headers := (rs_headers (inner pts' body))(''x-request-id'' \<mapsto> request_id to_str (uuid pts) pts)\<rparr> \<and>
      state_from_parts ''RequestId'' pts' = Ok (mk (request_id to_str (uuid pts) pts)) \<and> pt_path pts' = pt_path pts"
proof -
  have hv: "parse_hv (request_id to_str (uuid pts) pts) = Some (request_id to_str (uuid pts) pts)"
    using assms by (auto simp: request_id_def bind_eq_Some_conv split: option.splits)
  then show "rs_headers (request_id_layer to_str parse_hv mk uuid inner pts body) ''x-request-id'' =
      Some (request_id to_str (uuid pts) pts)"
    by (simp add: request_id_layer_def Let_def)
  show "\<exists>pts'. request_id_layer to_str parse_hv mk uuid inner pts body =
        (inner pts' body)\<lparr>rs_headers := (rs_headers (inner pts' body))(''x-request-id'' \<mapsto> request_id to_str (uuid pts) pts)\<rparr> \<and>
      state_from_parts ''RequestId'' pts' = Ok (mk (request_id to_str (uuid pts) pts)) \<and> pt_path pts' = pt_path pts"
    by (rule exI [of _ "pts\<lparr>pt_ext := insert_state ''RequestId'' (mk (request_id to_str (uuid pts) pts)) (pt_ext pts)\<rparr>"])
      (simp add: request_id_layer_def hv Let_def state_from_parts_def insert_state_def)
qed

end
