(* ===== verification/Protobuf_Types.thy ===== *)
theory Protobuf_Types
  imports Derive_Encode
begin

text \<open>
  The helper types of \<^verbatim>\<open>typeway-protobuf\<close>: \<^verbatim>\<open>BytesStr\<close>, \<^verbatim>\<open>EncodeBuf\<close>,
  \<^verbatim>\<open>BufPool\<close> and the views of \<^verbatim>\<open>lib.rs\<close>, and \<^verbatim>\<open>RepeatedField\<close> of
  \<^verbatim>\<open>repeated.rs\<close>. What they rely on of \<^verbatim>\<open>TypewayEncode\<close> is the locale
  \<open>encoding\<close>; \<^verbatim>\<open>BytesStr\<close> and \<^verbatim>\<open>RepeatedField\<close> are interpretations of it.
\<close>

subsection \<open>Encoders\<close>

locale encoding =
  fixes enc :: "'m \<Rightarrow> raw_vec \<Rightarrow> raw_vec option" and out :: "'m \<Rightarrow> bytes"
  assumes enc_writes: "writes (enc m) (out m)"

subsection \<open>BytesStr\<close>

type_synonym BytesStr = bytes

definition bytes_str_from_utf8 :: "bytes \<Rightarrow> (BytesStr, unit) result" where
  "bytes_str_from_utf8 bs = (if utf8_valid bs then Ok bs else Err ())"

text \<open>\<^verbatim>\<open>Bytes::slice\<close> panics when the range is not inside.\<close>

definition bytes_str_slice :: "BytesStr \<Rightarrow> nat \<Rightarrow> nat \<Rightarrow> (BytesStr, unit) result" where
  "bytes_str_slice s start end' =
     (if start \<le> end' \<and> end' \<le> length s then Ok (take (end' - start) (drop start s)) else Panic)"

definition bytes_str_encoded_len :: "BytesStr \<Rightarrow> nat" where
  "bytes_str_encoded_len s = (if s = [] then 0 else tw_varint_len (word_of_nat (length s)) + length s)"

definition bytes_str_encode_to :: "BytesStr \<Rightarrow> raw_vec \<Rightarrow> raw_vec option" where
  "bytes_str_encode_to s buf =
     (if s = [] then Some buf
      else map_option (rv_extend s) (tw_encode_varint buf (word_of_nat (length s))))"

definition bytes_str_decode :: "bytes \<Rightarrow> (BytesStr, TypewayDecodeError) result" where
  "bytes_str_decode bs = (if utf8_valid bs then Ok bs else Err (InvalidUtf8 ''BytesStr''))"

definition bytes_str_decode_bytes :: "bytes \<Rightarrow> (BytesStr, TypewayDecodeError) result" where
  "bytes_str_decode_bytes bs = map_err (\<lambda>_. InvalidUtf8 ''BytesStr'') (bytes_str_from_utf8 bs)"

definition bytes_str_out :: "BytesStr \<Rightarrow> bytes" where
  "bytes_str_out s = (if s = [] then [] else vbytes (unat (word_of_nat (length s) :: u64)) @ s)"

lemma bytes_str_decode_bytes_eq: "bytes_str_decode_bytes = bytes_str_decode"
  by (intro ext) (simp add: bytes_str_decode_bytes_def bytes_str_decode_def bytes_str_from_utf8_def)

lemma writes_bytes_str: "writes (bytes_str_encode_to s) (bytes_str_out s)"
proof (rule writesI)
  fix b assume ok: "rv_ok b"
  show "rv_writes (bytes_str_encode_to s b) b (bytes_str_out s)"
  proof (cases "s = []")
    case False
    from tw_encode_varint_writes [OF ok, of "word_of_nat (length s)"] obtain b' where b':
      "tw_encode_varint b (word_of_nat (length s)) = Some b'" "rv_ok b'"
      "rv_bytes b' = rv_bytes b @ vbytes (unat (word_of_nat (length s) :: u64))"
      by (auto simp: rv_writes_def)
    have "writes (w_extend s) s" by (rule writes_extend)
    then have "rv_writes (w_extend s b') b' s" using b'(2) by (simp add: writes_def)
    then show ?thesis using False b' by (simp add: bytes_str_encode_to_def bytes_str_out_def rv_writes_def w_extend_def)
  qed (simp add: bytes_str_encode_to_def bytes_str_out_def rv_writes_def ok)
qed

interpretation bytes_str: encoding bytes_str_encode_to bytes_str_out
  by unfold_locales (rule writes_bytes_str)

subsection \<open>RepeatedField\<close>

record 'a RepeatedField =
  rf_buf :: "'a list"
  rf_len :: nat

definition rf_new :: "'a RepeatedField" where
  "rf_new = \<lparr>rf_buf = [], rf_len = 0\<rparr>"

definition rf_push :: "'a \<Rightarrow> 'a RepeatedField \<Rightarrow> 'a RepeatedField" where
  "rf_push val f =
     (if rf_len f < length (rf_buf f) then f\<lparr>rf_buf := (rf_buf f)[rf_len f := val], rf_len := rf_len f + 1\<rparr>
      else f\<lparr>rf_buf := rf_buf f @ [val], rf_len := rf_len f + 1\<rparr>)"

definition rf_clear :: "'a RepeatedField \<Rightarrow> 'a RepeatedField" where
  "rf_clear f = f\<lparr>rf_len := 0\<rparr>"

definition rf_is_empty :: "'a RepeatedField \<Rightarrow> bool" where
  "rf_is_empty f \<longleftrightarrow> rf_len f = 0"

definition rf_iter :: "'a RepeatedField \<Rightarrow> 'a list" where
  "rf_iter f = take (rf_len f) (rf_buf f)"

definition rf_into_vec :: "'a RepeatedField \<Rightarrow> 'a list" where
  "rf_into_vec f = take (rf_len f) (rf_buf f)"

definition rf_iter_mut :: "('a \<Rightarrow> 'a) \<Rightarrow> 'a RepeatedField \<Rightarrow> 'a RepeatedField" where
  "rf_iter_mut g f = f\<lparr>rf_buf := map g (take (rf_len f) (rf_buf f)) @ drop (rf_len f) (rf_buf f)\<rparr>"

definition rf_clone :: "'a RepeatedField \<Rightarrow> 'a RepeatedField" where
  "rf_clone f = \<lparr>rf_buf = take (rf_len f) (rf_buf f), rf_len = rf_len f\<rparr>"

definition rf_eq :: "'a RepeatedField \<Rightarrow> 'a RepeatedField \<Rightarrow> bool" where
  "rf_eq f g \<longleftrightarrow> rf_iter f = rf_iter g"

definition rf_from_vec :: "'a list \<Rightarrow> 'a RepeatedField" where
  "rf_from_vec xs = \<lparr>rf_buf = xs, rf_len = length xs\<rparr>"

definition rf_ok :: "'a RepeatedField \<Rightarrow> bool" where
  "rf_ok f \<longleftrightarrow> rf_len f \<le> length (rf_buf f)"

text \<open>The encoder of a repeated field runs that of its elements.\<close>

definition rf_encoded_len :: "('a \<Rightarrow> nat) \<Rightarrow> 'a RepeatedField \<Rightarrow> nat" where
  "rf_encoded_len encoded_len f = sum_list (map encoded_len (rf_iter f))"

definition rf_encode_to :: "('a \<Rightarrow> raw_vec \<Rightarrow> raw_vec option) \<Rightarrow> 'a RepeatedField \<Rightarrow> raw_vec \<Rightarrow> raw_vec option" where
  "rf_encode_to encode_to f = do_all (map encode_to (rf_iter f))"

text \<open>A field of a length-checked buffer is a list.\<close>

lemma rf_push_items [simp]: "rf_ok f \<Longrightarrow> rf_iter (rf_push x f) = rf_iter f @ [x] \<and> rf_ok (rf_push x f)"
  by (auto simp: rf_ok_def rf_push_def rf_iter_def take_Suc_conv_app_nth)

lemma rf_clear_items [simp]: "rf_iter (rf_clear f) = [] \<and> rf_ok (rf_clear f)"
  by (simp add: rf_ok_def rf_clear_def rf_iter_def)

lemma rf_iter_mut_items [simp]: "rf_ok f \<Longrightarrow> rf_iter (rf_iter_mut g f) = map g (rf_iter f) \<and> rf_ok (rf_iter_mut g f)"
  by (simp add: rf_ok_def rf_iter_mut_def rf_iter_def)

lemma rf_new_items [simp]: "rf_iter rf_new = [] \<and> rf_ok rf_new"
  by (simp add: rf_ok_def rf_new_def rf_iter_def)

lemma rf_from_vec_items [simp]: "rf_iter (rf_from_vec xs) = xs \<and> rf_ok (rf_from_vec xs)"
  by (simp add: rf_ok_def rf_from_vec_def rf_iter_def)

context encoding
begin

lemma repeated_writes: "writes (rf_encode_to enc f) (concat (map out (rf_iter f)))"
  unfolding rf_encode_to_def by (rule writes_do_all) (simp add: list.rel_map enc_writes list_all2_refl)

end

interpretation repeated_str: encoding "rf_encode_to bytes_str_encode_to" "\<lambda>f. concat (map bytes_str_out (rf_iter f))"
  by unfold_locales (rule bytes_str.repeated_writes)

subsection \<open>Views\<close>

definition view_str_from_bytes :: "bytes \<Rightarrow> (bytes, TypewayDecodeError) result" where
  "view_str_from_bytes bs = (if utf8_valid bs then Ok bs else Err (InvalidUtf8 ''ViewStr''))"

definition view_bytes_from_slice :: "bytes \<Rightarrow> bytes" where
  "view_bytes_from_slice bs = bs"

subsection \<open>Reusable buffers\<close>

definition rv_with_capacity :: "nat \<Rightarrow> raw_vec" where
  "rv_with_capacity n = \<lparr>rv_mem = replicate n 0, rv_len = 0\<rparr>"

definition rv_clear :: "raw_vec \<Rightarrow> raw_vec" where
  "rv_clear b = b\<lparr>rv_len := 0\<rparr>"

text \<open>\<^verbatim>\<open>EncodeBuf::encode\<close> and \<^verbatim>\<open>PooledBuf::encode\<close>; the result is what the
  buffer holds, or a copy of it (\<^verbatim>\<open>encode_to_bytes\<close>).\<close>

definition buf_encode ::
  "('m \<Rightarrow> nat) \<Rightarrow> ('m \<Rightarrow> raw_vec \<Rightarrow> raw_vec option) \<Rightarrow> 'm \<Rightarrow> raw_vec \<Rightarrow> raw_vec option" where
  "buf_encode encoded_len encode_to msg buf = encode_to msg (rv_reserve (encoded_len msg) (rv_clear buf))"

record BufPool =
  bp_bufs :: "raw_vec list"
  bp_default_capacity :: nat

definition pool_new :: "nat \<Rightarrow> nat \<Rightarrow> BufPool" where
  "pool_new count capacity =
     \<lparr>bp_bufs = replicate count (rv_with_capacity capacity), bp_default_capacity = capacity\<rparr>"

definition pool_get :: "BufPool \<Rightarrow> raw_vec \<times> BufPool" where
  "pool_get p =
     (if bp_bufs p = [] then (rv_with_capacity (bp_default_capacity p), p)
      else (last (bp_bufs p), p\<lparr>bp_bufs := butlast (bp_bufs p)\<rparr>))"

definition pool_return :: "raw_vec \<Rightarrow> BufPool \<Rightarrow> BufPool" where
  "pool_return b p = p\<lparr>bp_bufs := bp_bufs p @ [rv_clear b]\<rparr>"

text \<open>
  Threads share the pool behind its lock, so that their operations interleave in any order. The
  handles that are alive hold their buffers; \<open>ps_out\<close> records what was encoded.
\<close>

record 'm pool_state =
  ps_pool :: BufPool
  ps_held :: "nat \<rightharpoonup> raw_vec"
  ps_out :: "('m \<times> bytes) list"

definition pool_start :: "nat \<Rightarrow> nat \<Rightarrow> 'm pool_state" where
  "pool_start count capacity = \<lparr>ps_pool = pool_new count capacity, ps_held = Map.empty, ps_out = []\<rparr>"

inductive pool_step ::
  "('m \<Rightarrow> nat) \<Rightarrow> ('m \<Rightarrow> raw_vec \<Rightarrow> raw_vec option) \<Rightarrow> 'm pool_state \<Rightarrow> 'm pool_state \<Rightarrow> bool"
  for encoded_len :: "'m \<Rightarrow> nat" and encode_to :: "'m \<Rightarrow> raw_vec \<Rightarrow> raw_vec option"
where
  get:
    "ps_held s h = None \<Longrightarrow> pool_get (ps_pool s) = (b, p) \<Longrightarrow>
     pool_step encoded_len encode_to s (s\<lparr>ps_pool := p, ps_held := (ps_held s)(h \<mapsto> b)\<rparr>)"
| encode:
    "ps_held s h = Some b \<Longrightarrow> buf_encode encoded_len encode_to m b = Some b' \<Longrightarrow>
     pool_step encoded_len encode_to s
       (s\<lparr>ps_held := (ps_held s)(h \<mapsto> b'), ps_out := ps_out s @ [(m, rv_bytes b')]\<rparr>)"
| drop:
    "ps_held s h = Some b \<Longrightarrow>
     pool_step encoded_len encode_to s
       (s\<lparr>ps_pool := pool_return b (ps_pool s), ps_held := (ps_held s)(h := None)\<rparr>)"

lemma rv_clear_ok: "rv_ok (rv_clear b) \<and> rv_bytes (rv_clear b) = []"
  by (simp add: rv_ok_def rv_clear_def rv_bytes_def)

lemma rv_with_capacity_ok: "rv_ok (rv_with_capacity n) \<and> rv_bytes (rv_with_capacity n) = []"
  by (simp add: rv_ok_def rv_with_capacity_def rv_bytes_def)

definition pool_inv :: "('m \<Rightarrow> bytes) \<Rightarrow> nat \<Rightarrow> 'm pool_state \<Rightarrow> bool" where
  "pool_inv out count s \<longleftrightarrow>
     (\<forall>b\<in>set (bp_bufs (ps_pool s)). rv_ok b \<and> rv_bytes b = []) \<and>
     (\<forall>h b. ps_held s h = Some b \<longrightarrow> rv_ok b) \<and> finite (dom (ps_held s)) \<and>
     count \<le> length (bp_bufs (ps_pool s)) + card (dom (ps_held s)) \<and>
     (\<forall>(m, bs)\<in>set (ps_out s). bs = out m)"

context encoding
begin

lemma buf_encode_exact:
  "\<exists>b'. buf_encode encoded_len enc m b = Some b' \<and> rv_ok b' \<and> rv_bytes b' = out m"
proof -
  let ?b = "rv_reserve (encoded_len m) (rv_clear b)"
  have "rv_ok ?b" "rv_bytes ?b = []"
    using rv_reserve_keeps(2,3) [of "rv_clear b"] rv_clear_ok [of b] by simp_all
  then show ?thesis using enc_writes [of m] by (auto simp: buf_encode_def writes_def rv_writes_def)
qed

lemma pool_step_inv:
  assumes "pool_step encoded_len enc s s'" "pool_inv out count s"
  shows "pool_inv out count s'"
  using assms
proof (induction rule: pool_step.induct)
  case (get s h b p)
  have "h \<notin> dom (ps_held s)" using get.hyps(1) by auto
  moreover have "set (butlast (bp_bufs (ps_pool s))) \<subseteq> set (bp_bufs (ps_pool s))"
    by (auto dest: in_set_butlastD)
  ultimately show ?case using get
    by (auto simp: pool_inv_def pool_get_def rv_with_capacity_ok card_insert_if subset_iff split: if_splits)
next
  case (encode s h b m b')
  then have "h \<in> dom (ps_held s)" by auto
  then have "insert h (dom (ps_held s)) = dom (ps_held s)" by auto
  with encode buf_encode_exact [of encoded_len m b] show ?case
    by (auto simp: pool_inv_def)
next
  case (drop s h b)
  then have "h \<in> dom (ps_held s)" by auto
  with drop show ?case
    by (auto simp: pool_inv_def pool_return_def rv_clear_ok card_Diff_singleton_if split: if_splits)
qed

end

subsection \<open>Properties\<close>

text \<open>C36. A pooled buffer never leaks what it held. For every encoder that appends the bytes of a
  message, and every interleaving of getting, encoding and dropping handles by any number of
  threads: every encoding is exactly that of its own message, whatever the buffer was used for
  before; an encoding never writes outside the allocation; every buffer in the pool is empty; and
  no buffer of the pool is lost.\<close>

theorem pooled_encoding_exact:
  assumes "encoding enc out" "(pool_step encoded_len enc)\<^sup>*\<^sup>* (pool_start count capacity) s"
  shows "list_all (\<lambda>(m, bs). bs = out m) (ps_out s) \<and>
    (\<forall>m b. buf_encode encoded_len enc m b \<noteq> None) \<and>
    list_all (\<lambda>b. rv_bytes b = []) (bp_bufs (ps_pool s)) \<and>
    count \<le> length (bp_bufs (ps_pool s)) + card (dom (ps_held s))"
proof -
  have "pool_inv out count (pool_start count capacity)"
    by (simp add: pool_inv_def pool_start_def pool_new_def rv_with_capacity_ok)
  with assms(2) have "pool_inv out count s"
    by (induction rule: rtranclp_induct) (auto intro: encoding.pool_step_inv [OF assms(1)])
  moreover have "buf_encode encoded_len enc m b \<noteq> None" for m b
    using encoding.buf_encode_exact [OF assms(1), of encoded_len m b] by auto
  ultimately show ?thesis by (auto simp: pool_inv_def list_all_iff)
qed

definition greeting_state :: "bytes pool_state" where
  "greeting_state = (pool_start 1 0)\<lparr>ps_pool := \<lparr>bp_bufs = [], bp_default_capacity = 0\<rparr>,
     ps_held := [0 \<mapsto> the (buf_encode bytes_str_encoded_len bytes_str_encode_to (as_bytes ''hi'') (rv_with_capacity 0))],
     ps_out := [(as_bytes ''hi'', 2 # as_bytes ''hi'')]\<rparr>"

lemma greeting_reached:
  "(pool_step bytes_str_encoded_len bytes_str_encode_to)\<^sup>*\<^sup>* (pool_start 1 0) greeting_state"
proof -
  let ?b = "the (buf_encode bytes_str_encoded_len bytes_str_encode_to (as_bytes ''hi'') (rv_with_capacity 0))"
  let ?s = "(pool_start 1 0)\<lparr>ps_pool := \<lparr>bp_bufs = [], bp_default_capacity = 0\<rparr>,
     ps_held := [0 \<mapsto> rv_with_capacity 0]\<rparr> :: bytes pool_state"
  from bytes_str.buf_encode_exact [of bytes_str_encoded_len "as_bytes ''hi''" "rv_with_capacity 0"]
  have b: "buf_encode bytes_str_encoded_len bytes_str_encode_to (as_bytes ''hi'') (rv_with_capacity 0) = Some ?b"
    "rv_bytes ?b = 2 # as_bytes ''hi''"
    by (auto simp: bytes_str_out_def vbytes.simps as_bytes_def)
  have "pool_step bytes_str_encoded_len bytes_str_encode_to (pool_start 1 0) ?s"
    using pool_step.get [of "pool_start 1 0" 0 "rv_with_capacity 0" "\<lparr>bp_bufs = [], bp_default_capacity = 0\<rparr>" bytes_str_encoded_len bytes_str_encode_to]
    by (simp add: pool_start_def pool_get_def pool_new_def)
  moreover have "pool_step bytes_str_encoded_len bytes_str_encode_to ?s greeting_state"
    using pool_step.encode [of ?s 0 "rv_with_capacity 0" bytes_str_encoded_len bytes_str_encode_to, OF _ b(1)] b(2)
    by (simp add: greeting_state_def pool_start_def)
  ultimately show ?thesis by (meson converse_rtranclp_into_rtranclp rtranclp.rtrancl_refl)
qed

theorem pooled_encoding_exact_witness:
  "list_all (\<lambda>(m, bs). bs = bytes_str_out m) (ps_out greeting_state) \<and>
    (\<forall>m b. buf_encode bytes_str_encoded_len bytes_str_encode_to m b \<noteq> None) \<and>
    list_all (\<lambda>b. rv_bytes b = []) (bp_bufs (ps_pool greeting_state)) \<and>
    1 \<le> length (bp_bufs (ps_pool greeting_state)) + card (dom (ps_held greeting_state))"
  by (rule pooled_encoding_exact [OF bytes_str.encoding_axioms greeting_reached])

text \<open>A \<^verbatim>\<open>BytesStr\<close> does not survive its own codec: \<^verbatim>\<open>encode_to\<close> writes
  the length in front of the text and \<^verbatim>\<open>typeway_decode\<close> takes all bytes for the text, so
  that decoding what was encoded never gives the string back unless it is empty; and a safe
  \<^verbatim>\<open>slice\<close> of a valid string can be no UTF-8 at all, which the string view of it assumes.\<close>

theorem bytes_str_codec_broken:
  "(\<forall>s. s = [] \<or> (\<exists>b. bytes_str_encode_to s (rv_with_capacity 0) = Some b \<and> bytes_str_decode (rv_bytes b) \<noteq> Ok s)) \<and>
   (\<exists>s t. utf8_valid s \<and> bytes_str_slice s 0 1 = Ok t \<and> \<not> utf8_valid t)"
proof (intro conjI allI)
  fix s :: bytes
  show "s = [] \<or> (\<exists>b. bytes_str_encode_to s (rv_with_capacity 0) = Some b \<and> bytes_str_decode (rv_bytes b) \<noteq> Ok s)"
  proof (cases "s = []")
    case False
    from writes_bytes_str [of s] obtain b where b: "bytes_str_encode_to s (rv_with_capacity 0) = Some b" "rv_bytes b = bytes_str_out s"
      using rv_with_capacity_ok [of 0] by (auto simp: writes_def rv_writes_def)
    have "length (bytes_str_out s) \<noteq> length s"
      using False length_vbytes_pos by (auto simp: bytes_str_out_def)
    then have "bytes_str_decode (rv_bytes b) \<noteq> Ok s" by (auto simp: bytes_str_decode_def b(2) split: if_splits)
    with b show ?thesis by blast
  qed simp
  show "\<exists>s t. utf8_valid s \<and> bytes_str_slice s 0 1 = Ok t \<and> \<not> utf8_valid t"
    by (rule exI [of _ "[0xC3, 0xA9]"]) (simp add: bytes_str_slice_def utf8_tail_def)
qed

text \<open>The announced length is that of the encoding.\<close>

lemma bytes_str_len: "bytes_str_encoded_len s = length (bytes_str_out s)"
  by (simp add: bytes_str_encoded_len_def bytes_str_out_def tw_varint_len_eq)

end
