(* ===== verification/Openapi_Spec.thy ===== *)
theory Openapi_Spec
  imports Api_Types Json_Value "HOL-Library.AList"
begin

text \<open>
  The OpenAPI description of an API type: \<^verbatim>\<open>typeway-openapi/src/spec.rs\<close>,
  \<^verbatim>\<open>derive.rs\<close> and the server's wrappers in \<^verbatim>\<open>typeway-server/src/openapi.rs\<close>.
  An \<^verbatim>\<open>IndexMap\<close> is the list of its entries in insertion order, and
  \<^verbatim>\<open>insert\<close> is \<^const>\<open>AList.update\<close> (the place of an entry stays). What a user implements
  (\<^verbatim>\<open>ToSchema\<close>, \<^verbatim>\<open>QueryParameters\<close>, \<^verbatim>\<open>ErrorResponses\<close>) is a record of
  parameters.
\<close>

subsection \<open>The document\<close>

datatype Discriminator = Discriminator (dc_property_name: string) (dc_mapping: "(string \<times> string) list option")

datatype Schema = Schema
  (sc_type: "string option") (sc_format: "string option") (sc_items: "Schema option")
  (sc_properties: "(string \<times> Schema) list option") (sc_description: "string option")
  (sc_one_of: "Schema list option") (sc_enum: "json list option") (sc_discriminator: "Discriminator option")

datatype ParameterLocation = InQuery | InPath | InHeader | InCookie

record Parameter =
  prm_name :: string
  prm_location :: ParameterLocation
  prm_required :: bool
  prm_schema :: "Schema option"

record MediaType =
  mt_schema :: "Schema option"
  mt_example :: "json option"

record RequestBody =
  rb_required :: bool
  rb_content :: "(string \<times> MediaType) list"

record ApiResponse =
  ar_description :: string
  ar_content :: "(string \<times> MediaType) list"

type_synonym SecurityRequirement = "(string \<times> string list) list"

record Operation =
  op_summary :: "string option"
  op_description :: "string option"
  op_operation_id :: "string option"
  op_tags :: "string list"
  op_parameters :: "Parameter list"
  op_request_body :: "RequestBody option"
  op_responses :: "(string \<times> ApiResponse) list"
  op_security :: "SecurityRequirement list"
  op_deprecated :: bool

record PathItem =
  pi_get :: "Operation option"
  pi_post :: "Operation option"
  pi_put :: "Operation option"
  pi_delete :: "Operation option"
  pi_patch :: "Operation option"
  pi_head :: "Operation option"
  pi_options :: "Operation option"

record SecurityScheme =
  ss_type :: string
  ss_scheme :: "string option"
  ss_bearer_format :: "string option"
  ss_description :: "string option"

record SpecInfo =
  in_title :: string
  in_version :: string
  in_description :: "string option"

record OpenApiSpec =
  oa_openapi :: string
  oa_info :: SpecInfo
  oa_paths :: "(string \<times> PathItem) list"
  oa_components :: "(string \<times> SecurityScheme) list option"

definition spec_new :: "string \<Rightarrow> string \<Rightarrow> OpenApiSpec" where
  "spec_new title version =
     \<lparr>oa_openapi = ''3.1.0'', oa_info = \<lparr>in_title = title, in_version = version, in_description = None\<rparr>,
      oa_paths = [], oa_components = None\<rparr>"

definition operation_new :: Operation where
  "operation_new = \<lparr>op_summary = None, op_description = None, op_operation_id = None, op_tags = [],
     op_parameters = [], op_request_body = None, op_responses = [], op_security = [], op_deprecated = False\<rparr>"

definition path_item_default :: PathItem where
  "path_item_default = \<lparr>pi_get = None, pi_post = None, pi_put = None, pi_delete = None, pi_patch = None,
     pi_head = None, pi_options = None\<rparr>"

definition set_operation :: "string \<Rightarrow> Operation \<Rightarrow> PathItem \<Rightarrow> PathItem" where
  "set_operation m op it =
     (if m = ''GET'' then it\<lparr>pi_get := Some op\<rparr>
      else if m = ''POST'' then it\<lparr>pi_post := Some op\<rparr>
      else if m = ''PUT'' then it\<lparr>pi_put := Some op\<rparr>
      else if m = ''DELETE'' then it\<lparr>pi_delete := Some op\<rparr>
      else if m = ''PATCH'' then it\<lparr>pi_patch := Some op\<rparr>
      else if m = ''HEAD'' then it\<lparr>pi_head := Some op\<rparr>
      else if m = ''OPTIONS'' then it\<lparr>pi_options := Some op\<rparr>
      else it)"

text \<open>\<^verbatim>\<open>all_operations_mut\<close> gives references to the operations in the order of the
  fields; a reference is the method, through which \<open>set_operation\<close> writes.\<close>

definition all_operations :: "PathItem \<Rightarrow> (string \<times> Operation) list" where
  "all_operations it =
     [(m, op). (m, Some op) \<leftarrow> [(''GET'', pi_get it), (''POST'', pi_post it), (''PUT'', pi_put it),
       (''DELETE'', pi_delete it), (''PATCH'', pi_patch it), (''HEAD'', pi_head it), (''OPTIONS'', pi_options it)]]"

definition bearer :: SecurityRequirement where
  "bearer = AList.update ''bearerAuth'' [] []"

definition bearer_jwt :: SecurityScheme where
  "bearer_jwt = \<lparr>ss_type = ''http'', ss_scheme = Some ''bearer'', ss_bearer_format = Some ''JWT'',
     ss_description = Some ''Bearer token authentication''\<rparr>"

subsection \<open>Schemas of Rust types\<close>

definition schema_of_type :: "string \<Rightarrow> Schema" where
  "schema_of_type t = Schema (Some t) None None None None None None None"

definition schema_string :: Schema where "schema_string = schema_of_type ''string''"
definition schema_number :: Schema where "schema_number = schema_of_type ''number''"
definition schema_boolean :: Schema where "schema_boolean = schema_of_type ''boolean''"
definition schema_object :: Schema where "schema_object = schema_of_type ''object''"

definition schema_integer :: Schema where
  "schema_integer = Schema (Some ''integer'') (Some ''int32'') None None None None None None"

definition schema_integer64 :: Schema where
  "schema_integer64 = Schema (Some ''integer'') (Some ''int64'') None None None None None None"

definition schema_array :: "Schema \<Rightarrow> Schema" where
  "schema_array items = Schema (Some ''array'') None (Some items) None None None None None"

definition schema_string_enum :: "string list \<Rightarrow> Schema" where
  "schema_string_enum values =
     Schema (Some ''string'') None None None None None (Some (map JStr values)) None"

definition schema_one_of :: "Schema list \<Rightarrow> Discriminator option \<Rightarrow> Schema" where
  "schema_one_of variants discriminator = Schema None None None None None (Some variants) None discriminator"

definition object_with_properties :: "(string \<times> Schema) list \<Rightarrow> string option \<Rightarrow> Schema" where
  "object_with_properties properties description =
     Schema (Some ''object'') None None
       (Some (fold (\<lambda>(name, schema). AList.update name schema) properties [])) description None None None"

fun with_description :: "string \<Rightarrow> Schema \<Rightarrow> Schema" where
  "with_description desc (Schema ty f i p _ v e d) = Schema ty f i p (Some desc) v e d"

text \<open>The types with a \<^verbatim>\<open>ToSchema\<close> implementation; \<open>OUser\<close> is one with the user's.\<close>

datatype schema_ty =
    OString | OStr | OU8 | OU16 | OU32 | OU64 | OI32 | OI64 | OF32 | OF64 | OBool | OUnit | OValue | OStatusCode
  | OVec schema_ty | OOption schema_ty | OBox schema_ty | OArc schema_ty
  | OHashMap schema_ty schema_ty | OIndexMap schema_ty schema_ty
  | OUser ty

fun schema_of :: "(ty \<Rightarrow> Schema) \<Rightarrow> schema_ty \<Rightarrow> Schema" where
  "schema_of us OString = schema_string"
| "schema_of us OStr = schema_string"
| "schema_of us OU8 = schema_integer"
| "schema_of us OU16 = schema_integer"
| "schema_of us OU32 = schema_integer"
| "schema_of us OU64 = schema_integer64"
| "schema_of us OI32 = schema_integer"
| "schema_of us OI64 = schema_integer64"
| "schema_of us OF32 = schema_number"
| "schema_of us OF64 = schema_number"
| "schema_of us OBool = schema_boolean"
| "schema_of us (OVec t) = schema_array (schema_of us t)"
| "schema_of us OUnit = schema_object"
| "schema_of us OValue = schema_object"
| "schema_of us OStatusCode = schema_integer"
| "schema_of us (OOption t) = schema_of us t"
| "schema_of us (OBox t) = schema_of us t"
| "schema_of us (OArc t) = schema_of us t"
| "schema_of us (OHashMap k v) = schema_object"
| "schema_of us (OIndexMap k v) = schema_object"
| "schema_of us (OUser t) = us t"

fun schema_type_name :: "(ty \<Rightarrow> string) \<Rightarrow> schema_ty \<Rightarrow> string" where
  "schema_type_name un OString = ''string''"
| "schema_type_name un OStr = ''string''"
| "schema_type_name un OU8 = ''u8''"
| "schema_type_name un OU16 = ''u16''"
| "schema_type_name un OU32 = ''u32''"
| "schema_type_name un OU64 = ''u64''"
| "schema_type_name un OI32 = ''i32''"
| "schema_type_name un OI64 = ''i64''"
| "schema_type_name un OF32 = ''f32''"
| "schema_type_name un OF64 = ''f64''"
| "schema_type_name un OBool = ''bool''"
| "schema_type_name un (OVec t) = ''array''"
| "schema_type_name un OUnit = ''()''"
| "schema_type_name un OValue = ''Value''"
| "schema_type_name un OStatusCode = ''StatusCode''"
| "schema_type_name un (OOption t) = schema_type_name un t"
| "schema_type_name un (OBox t) = schema_type_name un t"
| "schema_type_name un (OArc t) = schema_type_name un t"
| "schema_type_name un (OHashMap k v) = ''object''"
| "schema_type_name un (OIndexMap k v) = ''object''"
| "schema_type_name un (OUser t) = un t"

text \<open>Only a user's implementation has an example; the one of the trait is \<^verbatim>\<open>None\<close>, and the
  containers do not forward to their element.\<close>

fun schema_example :: "(ty \<Rightarrow> json option) \<Rightarrow> schema_ty \<Rightarrow> json option" where
  "schema_example ue (OUser t) = ue t"
| "schema_example ue _ = None"

text \<open>The schema that \<^verbatim>\<open>schemars\<close> produced, as a JSON value.\<close>

definition json_get :: "string \<Rightarrow> json \<Rightarrow> json option" where
  "json_get k j = (case j of JObj m \<Rightarrow> map_of m k | _ \<Rightarrow> None)"

lemma size_map_of: "map_of m k = Some (v :: json) \<Longrightarrow> size v < size_list (size_prod (\<lambda>x. 0) size) m"
  by (induction m) (auto split: if_splits)

lemma size_in_list: "(a, v :: json) \<in> set m \<Longrightarrow> size v < size_list (size_prod (\<lambda>x. 0) size) m"
  by (induction m) auto

lemma size_json_get [termination_simp]: "json_get k j = Some v \<Longrightarrow> size v < size j"
  using size_map_of by (cases j) (force simp: json_get_def)+

lemma size_json_props [termination_simp]:
  "json_get k j = Some (JObj m) \<Longrightarrow> (a, v) \<in> set m \<Longrightarrow> size v < size j"
  using size_json_get [of k j "JObj m"] size_in_list [of a v m] by simp

lemma size_json_elems [termination_simp]:
  "json_get k j = Some (JArr vs) \<Longrightarrow> v \<in> set vs \<Longrightarrow> size v < size j"
  using size_json_get [of k j "JArr vs"] size_list_estimation' [of v vs "size v" size] by simp

function (sequential) convert_schemars_schema :: "json \<Rightarrow> Schema" where
  "convert_schemars_schema j = Schema
     (Option.bind (json_get ''type'' j) as_str)
     (Option.bind (json_get ''format'' j) as_str)
     (case json_get ''items'' j of Some v \<Rightarrow> Some (convert_schemars_schema v) | None \<Rightarrow> None)
     (case json_get ''properties'' j of
        Some (JObj obj) \<Rightarrow> Some (map (\<lambda>(k, v). (k, convert_schemars_schema v)) obj)
      | _ \<Rightarrow> None)
     (Option.bind (json_get ''description'' j) as_str) None None None"
  by pat_completeness auto
termination by (relation "measure size") (auto simp: size_json_get size_json_props)

subsection \<open>Operations of endpoints\<close>

text \<open>
  \<open>ot_type\<close> is the type that a name stands for, where it has a \<^verbatim>\<open>ToSchema\<close>; the other
  components are the implementations of the user.
\<close>

record openapi_traits =
  ot_type :: "ty \<Rightarrow> schema_ty option"
  ot_schema :: "ty \<Rightarrow> Schema"
  ot_example :: "ty \<Rightarrow> json option"
  ot_query :: "ty \<Rightarrow> Parameter list"
  ot_errors :: "ty \<Rightarrow> (string \<times> ApiResponse) list"

definition has_schema :: "openapi_traits \<Rightarrow> ty \<Rightarrow> bool" where
  "has_schema tr t \<longleftrightarrow> ot_type tr t \<noteq> None"

definition ty_schema :: "openapi_traits \<Rightarrow> ty \<Rightarrow> Schema" where
  "ty_schema tr t = schema_of (ot_schema tr) (the (ot_type tr t))"

definition ty_example :: "openapi_traits \<Rightarrow> ty \<Rightarrow> json option" where
  "ty_example tr t = schema_example (ot_example tr) (the (ot_type tr t))"

definition query_parameters :: "openapi_traits \<Rightarrow> ty \<Rightarrow> Parameter list" where
  "query_parameters tr q = (if q = ''()'' then [] else ot_query tr q)"

definition error_responses :: "openapi_traits \<Rightarrow> ty \<Rightarrow> (string \<times> ApiResponse) list" where
  "error_responses tr e = (if e = ''()'' then [] else ot_errors tr e)"

text \<open>The implementation for \<^verbatim>\<open>JsonError\<close>.\<close>

definition json_error_responses :: "(string \<times> ApiResponse) list" where
  "json_error_responses =
     (let content = [(''application/json'', \<lparr>mt_schema = Some (Schema (Some ''object'') None None
          (Some [(''error'', Schema (Some ''object'') None None
             (Some [(''status'', schema_integer), (''message'', schema_string)]) None None None None)])
          (Some ''JSON error response'') None None None), mt_example = None\<rparr>)]
      in [(''4XX'', \<lparr>ar_description = ''Client error'', ar_content = content\<rparr>),
          (''5XX'', \<lparr>ar_description = ''Server error'', ar_content = content\<rparr>)])"

text \<open>There is no implementation for a path with a rest capture.\<close>

fun path_parameters :: "openapi_traits \<Rightarrow> ty path_segment list \<Rightarrow> Parameter list option" where
  "path_parameters tr [] = Some []"
| "path_parameters tr (Lit l # p) = path_parameters tr p"
| "path_parameters tr (Capture u # p) =
     (if has_schema tr u then
        map_option (\<lambda>params. \<lparr>prm_name = ''param'' @ dec (length params), prm_location = InPath,
          prm_required = True, prm_schema = Some (ty_schema tr u)\<rparr> # params) (path_parameters tr p)
      else None)"
| "path_parameters tr (CaptureRest # p) = None"

definition placeholder_names :: "string \<Rightarrow> string list" where
  "placeholder_names pattern =
     map (\<lambda>seg. butlast (tl seg))
       (filter (\<lambda>seg. starts_with ''{'' seg \<and> ends_with ''}'' seg) (split_on CHR ''/'' pattern))"

fun assign_names :: "string list \<Rightarrow> Parameter list \<Rightarrow> Parameter list" where
  "assign_names (n # ns) (p # ps) = (if n = [] then p else p\<lparr>prm_name := n\<rparr>) # assign_names ns ps"
| "assign_names _ ps = ps"

definition assign_param_names_from_pattern :: "string \<Rightarrow> Parameter list \<Rightarrow> Parameter list" where
  "assign_param_names_from_pattern pattern params = assign_names (placeholder_names pattern) params"

text \<open>\<^verbatim>\<open>EndpointDoc\<close> has one implementation, for every endpoint, with the defaults.\<close>

definition json_content :: "openapi_traits \<Rightarrow> ty \<Rightarrow> (string \<times> MediaType) list" where
  "json_content tr t =
     [(''application/json'', \<lparr>mt_schema = Some (ty_schema tr t), mt_example = ty_example tr t\<rparr>)]"

definition takes_body :: "HttpMethod \<Rightarrow> bool" where
  "takes_body m \<longleftrightarrow> m = Post \<or> m = Put \<or> m = Patch"

definition endpoint_operation :: "openapi_traits \<Rightarrow> Endpoint \<Rightarrow> Operation option" where
  "endpoint_operation tr e =
     (case path_parameters tr (en_path e) of
        None \<Rightarrow> None
      | Some params \<Rightarrow>
          if \<not> has_schema tr (en_res e) then None
          else
            let op = operation_new\<lparr>
              op_parameters := assign_param_names_from_pattern (path_pattern (en_path e)) params
                @ query_parameters tr (en_query e),
              op_responses := fold (\<lambda>(k, r). AList.update k r) (error_responses tr (en_err e))
                [(''200'', \<lparr>ar_description = ''Successful response'', ar_content = json_content tr (en_res e)\<rparr>)]\<rparr>
            in if en_req e = ''NoBody'' then Some op
               else if takes_body (en_method e) \<and> has_schema tr (en_req e) then
                 Some (op\<lparr>op_request_body := Some \<lparr>rb_required = True, rb_content = json_content tr (en_req e)\<rparr>\<rparr>)
               else None)"

text \<open>The implementations of \<^verbatim>\<open>EndpointToOperation\<close>; \<^const>\<open>None\<close> where there is none
  (the program does not compile).\<close>

fun to_operation :: "openapi_traits \<Rightarrow> api \<Rightarrow> Operation option" where
  "to_operation tr (Plain e) = endpoint_operation tr e"
| "to_operation tr (Requires eff a) = to_operation tr a"
| "to_operation tr (Protected auth a) =
     map_option (\<lambda>op. op\<lparr>op_security := op_security op @ [bearer]\<rparr>) (to_operation tr a)"
| "to_operation tr (Validated v a) = to_operation tr a"
| "to_operation tr _ = None"

definition deprecated_operation :: "openapi_traits \<Rightarrow> api api_change \<Rightarrow> Operation option" where
  "deprecated_operation tr c =
     (case c of Deprecated a \<Rightarrow> map_option (\<lambda>op. op\<lparr>op_deprecated := True\<rparr>) (to_operation tr a) | _ \<Rightarrow> None)"

fun operation_endpoint :: "api \<Rightarrow> Endpoint option" where
  "operation_endpoint (Plain e) = Some e"
| "operation_endpoint (Requires eff a) = operation_endpoint a"
| "operation_endpoint (Protected auth a) = operation_endpoint a"
| "operation_endpoint (Validated v a) = operation_endpoint a"
| "operation_endpoint _ = None"

definition operation_pattern :: "api \<Rightarrow> string" where
  "operation_pattern a = (case operation_endpoint a of Some e \<Rightarrow> path_pattern (en_path e) | None \<Rightarrow> [])"

definition operation_method :: "api \<Rightarrow> string" where
  "operation_method a = (case operation_endpoint a of Some e \<Rightarrow> METHOD (en_method e) | None \<Rightarrow> [])"

subsection \<open>The description of an API\<close>

definition path_entry :: "string \<Rightarrow> (string \<times> PathItem) list \<Rightarrow> PathItem" where
  "path_entry p paths = (case map_of paths p of Some it \<Rightarrow> it | None \<Rightarrow> path_item_default)"

definition add_operation :: "string \<Rightarrow> string \<Rightarrow> Operation \<Rightarrow> OpenApiSpec \<Rightarrow> OpenApiSpec" where
  "add_operation pattern m op spec =
     spec\<lparr>oa_paths := AList.update pattern (set_operation m op (path_entry pattern (oa_paths spec))) (oa_paths spec)\<rparr>"

fun collect_into :: "openapi_traits \<Rightarrow> api \<Rightarrow> OpenApiSpec \<Rightarrow> OpenApiSpec option"
and collect_all :: "openapi_traits \<Rightarrow> api list \<Rightarrow> OpenApiSpec \<Rightarrow> OpenApiSpec option" where
  "collect_into tr (Tuple as) spec = (if as = [] \<or> 16 < length as then None else collect_all tr as spec)"
| "collect_into tr a spec =
     map_option (\<lambda>op. add_operation (operation_pattern a) (operation_method a) op spec) (to_operation tr a)"
| "collect_all tr [] spec = Some spec"
| "collect_all tr (a # as) spec = Option.bind (collect_into tr a spec) (collect_all tr as)"

definition extract_tag_from_path :: "string \<Rightarrow> string option" where
  "extract_tag_from_path path = find (\<lambda>s. \<not> starts_with ''{'' s) (path_segments path)"

definition auto_tag :: "string \<Rightarrow> Operation \<Rightarrow> Operation" where
  "auto_tag path op =
     (case extract_tag_from_path path of
        Some tag \<Rightarrow> if op_tags op = [] then op\<lparr>op_tags := op_tags op @ [tag]\<rparr> else op
      | None \<Rightarrow> op)"

definition map_operations :: "(Operation \<Rightarrow> Operation) \<Rightarrow> PathItem \<Rightarrow> PathItem" where
  "map_operations f it = fold (\<lambda>(m, op). set_operation m (f op)) (all_operations it) it"

definition auto_tag_operations :: "OpenApiSpec \<Rightarrow> OpenApiSpec" where
  "auto_tag_operations spec =
     spec\<lparr>oa_paths := map (\<lambda>(path, it). (path, map_operations (auto_tag path) it)) (oa_paths spec)\<rparr>"

definition has_bearer :: "OpenApiSpec \<Rightarrow> bool" where
  "has_bearer spec \<longleftrightarrow>
     list_ex (\<lambda>(path, it). list_ex (\<lambda>(m, op). list_ex (\<lambda>req. map_of req ''bearerAuth'' \<noteq> None) (op_security op))
       (all_operations it)) (oa_paths spec)"

definition collect_security_schemes :: "OpenApiSpec \<Rightarrow> OpenApiSpec" where
  "collect_security_schemes spec =
     (if has_bearer spec then
        let schemes = (case oa_components spec of Some c \<Rightarrow> c | None \<Rightarrow> [])
        in spec\<lparr>oa_components := Some
             (if map_of schemes ''bearerAuth'' = None then AList.update ''bearerAuth'' bearer_jwt schemes else schemes)\<rparr>
      else spec)"

definition to_spec :: "openapi_traits \<Rightarrow> string \<Rightarrow> string \<Rightarrow> api \<Rightarrow> OpenApiSpec option" where
  "to_spec tr title version api =
     (case api of
        Tuple as \<Rightarrow>
          if as = [] \<or> 16 < length as then None
          else map_option (\<lambda>spec. collect_security_schemes (auto_tag_operations spec))
            (collect_all tr as (spec_new title version))
      | _ \<Rightarrow> None)"

subsection \<open>Looking operations up\<close>

definition operation_at :: "string \<Rightarrow> PathItem \<Rightarrow> Operation option" where
  "operation_at m it = map_of (all_operations it) m"

definition spec_operation :: "OpenApiSpec \<Rightarrow> string \<Rightarrow> string \<Rightarrow> Operation option" where
  "spec_operation spec p m = operation_at m (path_entry p (oa_paths spec))"

definition http_methods :: "string list" where
  "http_methods = [''GET'', ''POST'', ''PUT'', ''DELETE'', ''PATCH'', ''HEAD'', ''OPTIONS'']"

lemma METHOD_in [simp]: "METHOD m \<in> set http_methods"
  by (cases m) (simp_all add: http_methods_def)

lemma operation_at_eq:
  "operation_at m it =
     (if m = ''GET'' then pi_get it else if m = ''POST'' then pi_post it else if m = ''PUT'' then pi_put it
      else if m = ''DELETE'' then pi_delete it else if m = ''PATCH'' then pi_patch it
      else if m = ''HEAD'' then pi_head it else if m = ''OPTIONS'' then pi_options it else None)"
  by (simp add: operation_at_def all_operations_def map_of_eq_None_iff split: option.splits)

lemma operation_at_set [simp]:
  "m \<in> set http_methods \<Longrightarrow> operation_at n (set_operation m op it) = (if n = m then Some op else operation_at n it)"
  by (auto simp: operation_at_eq set_operation_def http_methods_def)

lemma operation_at_default [simp]: "operation_at m path_item_default = None"
  by (simp add: operation_at_eq path_item_default_def)

lemma all_operations_methods: "(m, op) \<in> set (all_operations it) \<Longrightarrow> m \<in> set http_methods"
  by (auto simp: all_operations_def http_methods_def split: option.splits if_splits)

lemma all_operations_distinct: "distinct (map fst (all_operations it))"
  by (auto simp: all_operations_def split: option.splits)

lemma all_operations_at: "(m, op) \<in> set (all_operations it) \<longleftrightarrow> operation_at m it = Some op"
  unfolding operation_at_def using all_operations_distinct [of it] by (simp add: map_of_eq_Some_iff)

lemma operation_at_fold_set:
  "list_all (\<lambda>(m, op). m \<in> set http_methods) ops \<Longrightarrow> distinct (map fst ops) \<Longrightarrow>
   operation_at n (fold (\<lambda>(m, op). set_operation m (f op)) ops it) =
     (case map_of ops n of Some op \<Rightarrow> Some (f op) | None \<Rightarrow> operation_at n it)"
  by (induction ops arbitrary: it) (auto split: option.splits simp: map_of_eq_None_iff rev_image_eqI)

lemma operation_at_map [simp]: "operation_at n (map_operations f it) = map_option f (operation_at n it)"
proof -
  have "operation_at n (map_operations f it) =
      (case map_of (all_operations it) n of Some op \<Rightarrow> Some (f op) | None \<Rightarrow> operation_at n it)"
    unfolding map_operations_def
    by (rule operation_at_fold_set) (auto simp: list_all_iff all_operations_distinct dest: all_operations_methods)
  then show ?thesis by (simp add: operation_at_def split: option.splits)
qed

lemma path_entry_update [simp]:
  "path_entry q (AList.update p it paths) = (if q = p then it else path_entry q paths)"
  by (simp add: path_entry_def update_conv')

lemma spec_operation_add [simp]:
  "m \<in> set http_methods \<Longrightarrow>
   spec_operation (add_operation p m op spec) q n = (if (q, n) = (p, m) then Some op else spec_operation spec q n)"
  by (simp add: spec_operation_def add_operation_def)

lemma add_operation_components [simp]: "oa_components (add_operation p m op spec) = oa_components spec"
  by (simp add: add_operation_def)

lemma path_entry_map:
  assumes "\<And>p. f p path_item_default = path_item_default"
  shows "path_entry q (map (\<lambda>(p, it). (p, f p it)) paths) = f q (path_entry q paths)"
  using assms by (induction paths) (auto simp: path_entry_def)

lemma map_operations_default [simp]: "map_operations f path_item_default = path_item_default"
  by (simp add: map_operations_def all_operations_def path_item_default_def)

lemma spec_operation_auto_tag [simp]:
  "spec_operation (auto_tag_operations spec) p m = map_option (auto_tag p) (spec_operation spec p m)"
  by (simp add: spec_operation_def auto_tag_operations_def path_entry_map)

lemma has_bearer_iff:
  assumes "distinct (map fst (oa_paths spec))"
  shows "has_bearer spec \<longleftrightarrow>
    (\<exists>p m op. spec_operation spec p m = Some op \<and> list_ex (\<lambda>req. map_of req ''bearerAuth'' \<noteq> None) (op_security op))"
proof -
  have "(p, it) \<in> set (oa_paths spec) \<and> (m, op) \<in> set (all_operations it) \<longleftrightarrow>
      map_of (oa_paths spec) p = Some it \<and> operation_at m it = Some op" for p it m op
    using assms by (simp add: all_operations_at map_of_eq_Some_iff)
  moreover have "spec_operation spec p m = Some op \<longleftrightarrow>
      (\<exists>it. map_of (oa_paths spec) p = Some it \<and> operation_at m it = Some op)" for p m op
    by (auto simp: spec_operation_def path_entry_def split: option.splits)
  ultimately show ?thesis
    by (fastforce simp: has_bearer_def list_ex_iff)
qed

lemma collect_security_schemes_fields [simp]:
  "oa_paths (collect_security_schemes spec) = oa_paths spec"
  "spec_operation (collect_security_schemes spec) p m = spec_operation spec p m"
  by (simp_all add: collect_security_schemes_def spec_operation_def Let_def)

subsection \<open>What is collected\<close>

fun endpoints_of :: "api \<Rightarrow> api list" where
  "endpoints_of (Tuple as) = concat (map endpoints_of as)"
| "endpoints_of a = [a]"

definition api_operations :: "openapi_traits \<Rightarrow> api \<Rightarrow> ((string \<times> string) \<times> Operation) list" where
  "api_operations tr a =
     map (\<lambda>e. ((operation_pattern e, operation_method e), the (to_operation tr e))) (endpoints_of a)"

abbreviation add_all :: "((string \<times> string) \<times> Operation) list \<Rightarrow> OpenApiSpec \<Rightarrow> OpenApiSpec" where
  "add_all ops spec \<equiv> fold (\<lambda>((p, m), op). add_operation p m op) ops spec"

lemma collect_fold:
  "collect_into tr a spec = Some spec' \<Longrightarrow>
     spec' = add_all (api_operations tr a) spec \<and> list_all (\<lambda>e. to_operation tr e \<noteq> None) (endpoints_of a)"
  "collect_all tr as spec = Some spec' \<Longrightarrow>
     spec' = add_all (concat (map (api_operations tr) as)) spec \<and>
     list_all (\<lambda>e. to_operation tr e \<noteq> None) (concat (map endpoints_of as))"
proof (induction tr a spec and tr as spec arbitrary: spec' and spec' rule: collect_into_collect_all.induct)
  case (1 tr as spec)
  then show ?case by (auto simp: api_operations_def map_concat comp_def split: if_splits)
next
  case (4 tr a as spec)
  then show ?case by (auto simp: bind_eq_Some_conv)
qed (auto simp: api_operations_def)

lemma to_operation_method: "to_operation tr a \<noteq> None \<Longrightarrow> operation_method a \<in> set http_methods"
proof -
  assume "to_operation tr a \<noteq> None"
  then have "operation_endpoint a \<noteq> None" by (induction tr a rule: to_operation.induct) auto
  then show ?thesis by (auto simp: operation_method_def)
qed

lemma spec_operation_add_all:
  "list_all (\<lambda>((p, m), op). m \<in> set http_methods) ops \<Longrightarrow>
   spec_operation (add_all ops spec) p m =
     (case map_of (rev ops) (p, m) of Some op \<Rightarrow> Some op | None \<Rightarrow> spec_operation spec p m)"
  by (induction ops arbitrary: spec) (auto simp: map_add_def split: option.splits)

text \<open>The paths are those of the endpoints, each at its first occurrence.\<close>

definition first_occurrences :: "'a list \<Rightarrow> 'a list" where
  "first_occurrences xs = rev (remdups (rev xs))"

lemma first_occurrences_snoc:
  "first_occurrences (xs @ [x]) = (if x \<in> set xs then first_occurrences xs else first_occurrences xs @ [x])"
  by (simp add: first_occurrences_def)

lemma set_first_occurrences [simp]: "set (first_occurrences xs) = set xs"
  by (simp add: first_occurrences_def)

lemma distinct_first_occurrences [simp]: "distinct (first_occurrences xs)"
  by (simp add: first_occurrences_def)

lemma paths_add_all:
  "oa_paths spec = [] \<Longrightarrow>
   map fst (oa_paths (add_all ops spec)) = first_occurrences (map (\<lambda>((p, m), op). p) ops)"
proof (induction ops rule: rev_induct)
  case (snoc o' ops)
  then show ?case
    by (auto simp: add_operation_def update_keys first_occurrences_snoc split_def
        simp flip: set_map simp del: list.set_map)
qed (simp add: first_occurrences_def)

lemma components_add_all: "oa_components (add_all ops spec) = oa_components spec"
  by (induction ops arbitrary: spec) auto

fun is_protected :: "api \<Rightarrow> bool" where
  "is_protected (Protected auth a) = True"
| "is_protected (Requires eff a) = is_protected a"
| "is_protected (Validated v a) = is_protected a"
| "is_protected _ = False"

lemma security_bearer:
  "to_operation tr a = Some op \<Longrightarrow> set (op_security op) = (if is_protected a then {bearer} else {})"
proof (induction tr a arbitrary: op rule: to_operation.induct)
  case (1 tr e)
  then show ?case
    by (auto simp: endpoint_operation_def operation_new_def Let_def split: option.splits if_splits)
qed (auto split: if_splits)

lemma bearer_has: "map_of bearer ''bearerAuth'' \<noteq> None"
  by (simp add: bearer_def)

subsection \<open>Properties\<close>

text \<open>The document before its last two passes.\<close>

lemma to_spec_collected:
  assumes "to_spec tr title version api = Some spec"
  obtains spec1 where "spec = collect_security_schemes (auto_tag_operations spec1)"
    "spec1 = add_all (api_operations tr api) (spec_new title version)"
    "list_all (\<lambda>e. to_operation tr e \<noteq> None) (endpoints_of api)"
proof -
  obtain as spec1 where api: "api = Tuple as" and c: "collect_all tr as (spec_new title version) = Some spec1"
    and spec: "spec = collect_security_schemes (auto_tag_operations spec1)"
    using assms by (auto simp: to_spec_def split: api.splits if_splits)
  have ops: "concat (map (api_operations tr) as) = api_operations tr api"
    by (simp add: api api_operations_def [abs_def] map_concat comp_def)
  show ?thesis using collect_fold(2) [OF c] spec by (intro that) (simp_all add: ops api)
qed

lemma collected_operation:
  assumes "list_all (\<lambda>e. to_operation tr e \<noteq> None) (endpoints_of api)"
  shows "spec_operation (add_all (api_operations tr api) (spec_new title version)) p m =
    map_of (rev (api_operations tr api)) (p, m)"
proof -
  have "list_all (\<lambda>((p, m), op). m \<in> set http_methods) (api_operations tr api)"
    using assms to_operation_method by (auto simp: api_operations_def list_all_iff)
  moreover have "spec_operation (spec_new title version) p m = None" for p m
    by (simp add: spec_operation_def spec_new_def path_entry_def)
  ultimately show ?thesis by (simp add: spec_operation_add_all split: option.splits)
qed

lemma to_spec_operation:
  assumes "to_spec tr title version api = Some spec"
  shows "spec_operation spec p m = map_option (auto_tag p) (map_of (rev (api_operations tr api)) (p, m))"
  using assms by (elim to_spec_collected) (simp add: collected_operation)

lemma to_spec_paths:
  assumes "to_spec tr title version api = Some spec"
  shows "map fst (oa_paths spec) = first_occurrences (map operation_pattern (endpoints_of api))"
proof -
  have "map fst (oa_paths (auto_tag_operations s)) = map fst (oa_paths s)" for s
    by (auto simp: auto_tag_operations_def)
  then show ?thesis
    using assms paths_add_all [of "spec_new title version" "api_operations tr api"]
    by (elim to_spec_collected) (simp add: spec_new_def api_operations_def comp_def)
qed

text \<open>C37. The OpenAPI document describes the API and nothing else. Where the document of an API can be
  built, the operation that it has at a path and a method is the one of the last endpoint of the
  API (tuples flattened) with that path and method, with the tag of the path where it has no tag of
  its own, and there is none where no endpoint has them; the paths are those of the endpoints in the
  order of their first occurrence; the scheme of the bearer token is declared exactly when a
  documented operation asks for it, and an operation asks for it exactly when its endpoint is
  protected.\<close>

theorem spec_describes_api:
  assumes "to_spec tr title version api = Some spec"
  shows "spec_operation spec p m = map_option (auto_tag p) (map_of (rev (api_operations tr api)) (p, m)) \<and>
    map fst (oa_paths spec) = first_occurrences (map operation_pattern (endpoints_of api)) \<and>
    oa_components spec =
      (if \<exists>p m op. map_of (rev (api_operations tr api)) (p, m) = Some op \<and> bearer \<in> set (op_security op)
       then Some [(''bearerAuth'', bearer_jwt)] else None) \<and>
    list_all (\<lambda>e. bearer \<in> set (op_security (the (to_operation tr e))) \<longleftrightarrow> is_protected e) (endpoints_of api)"
proof -
  let ?ops = "api_operations tr api"
  obtain spec1 where spec: "spec = collect_security_schemes (auto_tag_operations spec1)"
    and spec1: "spec1 = add_all ?ops (spec_new title version)"
    and impl: "list_all (\<lambda>e. to_operation tr e \<noteq> None) (endpoints_of api)"
    using assms by (rule to_spec_collected)
  have at1: "spec_operation spec1 p m = map_of (rev ?ops) (p, m)" for p m
    unfolding spec1 by (rule collected_operation [OF impl])
  have auto_sec: "op_security (auto_tag p op) = op_security op" for p op
    by (simp add: auto_tag_def split: option.splits)
  have sec: "list_ex (\<lambda>req. map_of req ''bearerAuth'' \<noteq> None) (op_security op) \<longleftrightarrow> bearer \<in> set (op_security op)"
    if "map_of (rev ?ops) k = Some op" for k op
  proof -
    from that obtain e where "e \<in> set (endpoints_of api)" "op = the (to_operation tr e)"
      by (auto simp: api_operations_def dest!: map_of_SomeD)
    with impl have "to_operation tr e = Some op" by (auto simp: list_all_iff)
    then have "set (op_security op) = (if is_protected e then {bearer} else {})"
      using security_bearer [of tr e op] by auto
    then show ?thesis using bearer_has by (auto simp: list_ex_iff split: if_splits)
  qed
  have "has_bearer (auto_tag_operations spec1) \<longleftrightarrow>
      (\<exists>p m op. map_of (rev ?ops) (p, m) = Some op \<and> bearer \<in> set (op_security op))"
  proof -
    have "distinct (map fst (oa_paths (auto_tag_operations spec1)))"
      using to_spec_paths [OF assms] by (simp add: spec)
    note h = has_bearer_iff [OF this]
    show ?thesis
    proof
      assume "has_bearer (auto_tag_operations spec1)"
      then obtain p m op where "map_of (rev ?ops) (p, m) = Some op"
        "list_ex (\<lambda>req. map_of req ''bearerAuth'' \<noteq> None) (op_security (auto_tag p op))"
        unfolding h spec_operation_auto_tag at1 by auto
      with sec [of "(p, m)" op] show "\<exists>p m op. map_of (rev ?ops) (p, m) = Some op \<and> bearer \<in> set (op_security op)"
        unfolding auto_sec by blast
    next
      assume "\<exists>p m op. map_of (rev ?ops) (p, m) = Some op \<and> bearer \<in> set (op_security op)"
      then obtain p m op where "map_of (rev ?ops) (p, m) = Some op" "bearer \<in> set (op_security op)" by blast
      then have "spec_operation (auto_tag_operations spec1) p m = Some (auto_tag p op)"
        "list_ex (\<lambda>req. map_of req ''bearerAuth'' \<noteq> None) (op_security (auto_tag p op))"
        unfolding spec_operation_auto_tag at1 auto_sec using sec by simp_all
      then show "has_bearer (auto_tag_operations spec1)" unfolding h by blast
    qed
  qed
  moreover have "oa_components (auto_tag_operations spec1) = None"
    by (simp add: auto_tag_operations_def spec1 components_add_all spec_new_def)
  moreover have "list_all (\<lambda>e. bearer \<in> set (op_security (the (to_operation tr e))) \<longleftrightarrow> is_protected e) (endpoints_of api)"
    using impl security_bearer by (fastforce simp: list_all_iff)
  moreover have "oa_components spec =
      (if has_bearer (auto_tag_operations spec1) then Some [(''bearerAuth'', bearer_jwt)]
       else oa_components (auto_tag_operations spec1))"
    by (simp add: spec collect_security_schemes_def calculation(2))
  ultimately show ?thesis by (simp only: to_spec_operation [OF assms] to_spec_paths [OF assms])
qed

definition user_api :: api where
  "user_api = Tuple
     [Plain \<lparr>en_method = Post, en_path = [Lit ''users''], en_req = ''String'', en_res = ''u32'', en_query = ''()'', en_err = ''()''\<rparr>,
      Protected ''Token'' (Plain \<lparr>en_method = Get, en_path = [Lit ''users'', Capture ''u32''], en_req = ''NoBody'', en_res = ''String'',
        en_query = ''()'', en_err = ''JsonError''\<rparr>)]"

definition user_traits :: openapi_traits where
  "user_traits = \<lparr>ot_type = [''String'' \<mapsto> OString, ''u32'' \<mapsto> OU32], ot_schema = \<lambda>_. schema_object,
     ot_example = \<lambda>_. None, ot_query = \<lambda>_. [], ot_errors = \<lambda>_. json_error_responses\<rparr>"

lemma user_spec: "to_spec user_traits ''Users'' ''1'' user_api \<noteq> None"
  by code_simp

theorem spec_describes_api_witness:
  "map fst (oa_paths (the (to_spec user_traits ''Users'' ''1'' user_api))) = [''/users'', ''/users/{}''] \<and>
   oa_components (the (to_spec user_traits ''Users'' ''1'' user_api)) = Some [(''bearerAuth'', bearer_jwt)]"
proof -
  let ?s = "the (to_spec user_traits ''Users'' ''1'' user_api)"
  have "to_spec user_traits ''Users'' ''1'' user_api = Some ?s" using user_spec by simp
  note c = spec_describes_api [OF this, of "''/users/{}''" "''GET''"]
  have "first_occurrences (map operation_pattern (endpoints_of user_api)) = [''/users'', ''/users/{}'']"
    by code_simp
  moreover have "\<exists>op. map_of (rev (api_operations user_traits user_api)) (''/users/{}'', ''GET'') = Some op \<and> bearer \<in> set (op_security op)"
  proof -
    have "\<exists>op. map_of (rev (api_operations user_traits user_api)) (''/users/{}'', ''GET'') = Some op \<and> op_security op = [bearer]"
      by (simp add: api_operations_def user_api_def operation_pattern_def operation_method_def
        endpoint_operation_def has_schema_def user_traits_def operation_new_def)
    then show ?thesis by auto
  qed
  ultimately show ?thesis using c by auto
qed

text \<open>The placeholders of a path, segment by segment.\<close>

lemma placeholder_names_slash:
  assumes "CHR ''/'' \<notin> set s" "t = [] \<or> hd t = CHR ''/''"
  shows "placeholder_names (CHR ''/'' # s @ t) =
    (if starts_with ''{'' s \<and> ends_with ''}'' s then [butlast (tl s)] else []) @ placeholder_names t"
proof (cases t)
  case Nil
  then show ?thesis using assms(1) by (simp add: placeholder_names_def split_on_no_sep starts_with_def)
next
  case (Cons c t')
  then have "t = CHR ''/'' # t'" using assms(2) by simp
  then show ?thesis using assms(1) by (simp add: placeholder_names_def split_on_append starts_with_def)
qed

lemma path_pattern_slash: "path_ok p \<Longrightarrow> path_pattern p = [] \<or> hd (path_pattern p) = CHR ''/''"
  by (cases p rule: path_pattern.cases) auto

lemma path_parameters_ok: "path_parameters tr path = Some params \<Longrightarrow>
   path_ok path \<and> CaptureRest \<notin> set path \<and> length params = captures path"
  by (induction tr path arbitrary: params rule: path_parameters.induct) (auto split: if_splits)

lemma path_parameters_names:
  "path_parameters tr path = Some params \<Longrightarrow> map prm_name params = rev (map (\<lambda>i. ''param'' @ dec i) [0..<captures path])"
proof (induction tr path arbitrary: params rule: path_parameters.induct)
  case (3 tr u p)
  then show ?case using path_parameters_ok [of tr p] by (auto split: if_splits)
qed auto

lemma assign_no_names: "assign_names (replicate (length params) []) params = params"
  by (induction params) auto

text \<open>C0. The path parameters of the document have no name of the path. The patterns of typed paths
  write every capture as empty braces, so that the assignment of names from the pattern changes
  nothing: the parameters of an endpoint keep generated names, counted downwards, and no
  placeholder of the path names one of them.\<close>

theorem path_parameters_unnamed:
  assumes "path_parameters tr path = Some params"
    "list_all (\<lambda>s. case s of Lit l \<Rightarrow> CHR ''/'' \<notin> set l \<and> \<not> starts_with ''{'' l | _ \<Rightarrow> True) path"
  shows "assign_param_names_from_pattern (path_pattern path) params = params \<and>
    map prm_name params = rev (map (\<lambda>i. ''param'' @ dec i) [0..<captures path]) \<and>
    placeholder_names (path_pattern path) = replicate (captures path) []"
proof -
  have "path_ok path \<Longrightarrow> CaptureRest \<notin> set path \<Longrightarrow> placeholder_names (path_pattern path) = replicate (captures path) []"
    using assms(2)
  proof (induction path rule: path_pattern.induct)
    case (2 l p)
    then show ?case using placeholder_names_slash [of l "path_pattern p"] path_pattern_slash [of p] by simp
  next
    case (3 u p)
    then show ?case
      using placeholder_names_slash [of "''{}''" "path_pattern p"] path_pattern_slash [of p]
      by (simp add: starts_with_def ends_with_def)
  qed (auto simp: placeholder_names_def starts_with_def)
  then have "placeholder_names (path_pattern path) = replicate (length params) []"
    using path_parameters_ok [OF assms(1)] by simp
  then show ?thesis
    using path_parameters_ok [OF assms(1)] path_parameters_names [OF assms(1)] assign_no_names [of params]
    by (simp add: assign_param_names_from_pattern_def)
qed

theorem path_parameters_unnamed_witness:
  "map prm_name (the (path_parameters user_traits [Lit ''a'', Capture ''u32'', Lit ''b'', Capture ''u32''])) = [''param1'', ''param0'']"
proof -
  let ?p = "[Lit ''a'', Capture ''u32'', Lit ''b'', Capture ''u32'']"
  have "path_parameters user_traits ?p = Some (the (path_parameters user_traits ?p))"
    by (simp add: has_schema_def user_traits_def)
  then have "map prm_name (the (path_parameters user_traits ?p)) = rev (map (\<lambda>i. ''param'' @ dec i) [0..<captures ?p])"
    by (rule path_parameters_unnamed [THEN conjunct2, THEN conjunct1]) (simp add: starts_with_def)
  moreover have "dec 0 = ''0''" "dec (Suc 0) = ''1''" by code_simp+
  ultimately show ?thesis by (simp del: path_parameters.simps)
qed

end
