(* ===== verification/Openapi_Output.thy ===== *)
theory Openapi_Output
  imports Openapi_Spec Proto_Spec
begin

text \<open>
  What is done with an OpenAPI document: the documentation of handlers is put into it
  (\<^verbatim>\<open>apply_handler_docs\<close> in \<^verbatim>\<open>typeway-openapi/src/derive.rs\<close>), and it is converted
  to Swagger 2.0 (\<^verbatim>\<open>swagger_output.rs\<close>). The JSON of a schema is what its derived
  \<^verbatim>\<open>Serialize\<close> gives: fields that are \<^verbatim>\<open>None\<close> are left out.
\<close>

subsection \<open>Handler documentation\<close>

definition apply_doc_to_operation :: "HandlerDoc \<Rightarrow> Operation \<Rightarrow> Operation" where
  "apply_doc_to_operation doc op =
     (let op = (if hd_summary doc \<noteq> [] then op\<lparr>op_summary := Some (hd_summary doc)\<rparr> else op);
          op = (if hd_description doc \<noteq> [] then op\<lparr>op_description := Some (hd_description doc)\<rparr> else op);
          op = op\<lparr>op_operation_id := Some (hd_operation_id doc)\<rparr>
      in if hd_tags doc \<noteq> [] then op\<lparr>op_tags := hd_tags doc\<rparr> else op)"

text \<open>The operations of a document in the order of the loops, each with its path and method.\<close>

definition spec_operations :: "(string \<times> PathItem) list \<Rightarrow> ((string \<times> string) \<times> Operation) list" where
  "spec_operations paths =
     concat (map (\<lambda>(path, it). map (\<lambda>(m, op). ((path, m), op)) (all_operations it)) paths)"

text \<open>The first operation that satisfies a test is documented; then both loops end.\<close>

definition document_first :: "(Operation \<Rightarrow> bool) \<Rightarrow> HandlerDoc \<Rightarrow> OpenApiSpec \<Rightarrow> OpenApiSpec option" where
  "document_first P doc spec =
     (case find (\<lambda>(k, op). P op) (spec_operations (oa_paths spec)) of
        None \<Rightarrow> None
      | Some ((path, m), op) \<Rightarrow> Some (add_operation path m (apply_doc_to_operation doc op) spec))"

definition apply_handler_doc :: "HandlerDoc \<Rightarrow> OpenApiSpec \<Rightarrow> OpenApiSpec" where
  "apply_handler_doc doc spec =
     (case document_first (\<lambda>op. op_operation_id op = Some (hd_operation_id doc)) doc spec of
        Some spec' \<Rightarrow> spec'
      | None \<Rightarrow>
          (case document_first (\<lambda>op. op_operation_id op = None \<and> op_summary op = None) doc spec of
             Some spec' \<Rightarrow> spec'
           | None \<Rightarrow> spec))"

definition apply_handler_docs :: "HandlerDoc list \<Rightarrow> OpenApiSpec \<Rightarrow> OpenApiSpec" where
  "apply_handler_docs docs spec = fold apply_handler_doc docs spec"

subsection \<open>JSON of a schema\<close>

definition json_object :: "(string \<times> json option) list \<Rightarrow> json" where
  "json_object members = JObj (fold (\<lambda>(k, v) m. case v of Some j \<Rightarrow> obj_insert k j m | None \<Rightarrow> m) members [])"

definition discriminator_json :: "Discriminator \<Rightarrow> json" where
  "discriminator_json d = json_object
     [(''propertyName'', Some (JStr (dc_property_name d))),
      (''mapping'', map_option (\<lambda>m. json_object (map (\<lambda>(k, v). (k, Some (JStr v))) m)) (dc_mapping d))]"

fun schema_json :: "Schema \<Rightarrow> json" where
  "schema_json (Schema t f i p d v e dc) = json_object
     [(''type'', map_option JStr t), (''format'', map_option JStr f), (''items'', map_option schema_json i),
      (''properties'', map_option (\<lambda>m. json_object (map (\<lambda>(k, s). (k, Some (schema_json s))) m)) p),
      (''description'', map_option JStr d), (''oneOf'', map_option (\<lambda>vs. JArr (map schema_json vs)) v),
      (''enum'', map_option JArr e), (''discriminator'', map_option discriminator_json dc)]"

fun location_json :: "ParameterLocation \<Rightarrow> json" where
  "location_json InQuery = JStr ''query''"
| "location_json InPath = JStr ''path''"
| "location_json InHeader = JStr ''header''"
| "location_json InCookie = JStr ''cookie''"

subsection \<open>Swagger 2.0\<close>

definition obj_remove :: "string \<Rightarrow> (string \<times> json) list \<Rightarrow> (string \<times> json) list" where
  "obj_remove k m = filter (\<lambda>(k', v). k' \<noteq> k) m"

text \<open>
  The four keys are read from the object as it came (none of the steps touches the key of a later
  one); \<open>sanitize_object\<close> puts the results of the recursion back.
\<close>

definition put_items :: "json option \<Rightarrow> (string \<times> json) list \<Rightarrow> (string \<times> json) list" where
  "put_items items obj =
     (case items of Some i \<Rightarrow> obj_insert ''items'' i (obj_remove ''items'' obj) | None \<Rightarrow> obj)"

definition put_properties :: "(string \<times> json) list option \<Rightarrow> (string \<times> json) list \<Rightarrow> (string \<times> json) list" where
  "put_properties properties obj =
     (case properties of
        Some m \<Rightarrow> obj_insert ''properties'' (JObj m) (obj_remove ''properties'' obj)
      | None \<Rightarrow> obj_remove ''properties'' obj)"

definition put_variants :: "json list option \<Rightarrow> (string \<times> json) list \<Rightarrow> (string \<times> json) list" where
  "put_variants variants obj =
     (case variants of
        Some vs \<Rightarrow>
          let m = obj_remove ''oneOf'' obj;
              m = (if map_of m ''type'' = None then obj_insert ''type'' (JStr ''object'') m else m)
          in obj_insert ''x-oneOf'' (JArr vs) m
      | None \<Rightarrow> obj_remove ''oneOf'' obj)"

definition discriminator_name :: "json option \<Rightarrow> string option" where
  "discriminator_name d =
     (case d of Some (JObj m) \<Rightarrow> Option.bind (map_of m ''propertyName'') as_str | _ \<Rightarrow> None)"

definition put_discriminator :: "json option \<Rightarrow> (string \<times> json) list \<Rightarrow> (string \<times> json) list" where
  "put_discriminator d obj =
     (case discriminator_name d of
        Some name \<Rightarrow> obj_insert ''discriminator'' (JStr name) (obj_remove ''discriminator'' obj)
      | None \<Rightarrow> obj_remove ''discriminator'' obj)"

definition sanitize_object ::
  "(string \<times> json) list \<Rightarrow> json option \<Rightarrow> (string \<times> json) list option \<Rightarrow> json list option \<Rightarrow>
   (string \<times> json) list" where
  "sanitize_object obj items properties variants =
     put_discriminator (map_of obj ''discriminator'')
       (put_variants variants (put_properties properties (put_items items obj)))"

function sanitize_for_swagger2 :: "json \<Rightarrow> json" where
  "sanitize_for_swagger2 j =
     (case j of
        JObj obj \<Rightarrow> JObj (sanitize_object obj
          (case json_get ''items'' j of Some i \<Rightarrow> Some (sanitize_for_swagger2 i) | None \<Rightarrow> None)
          (case json_get ''properties'' j of
             Some (JObj m) \<Rightarrow> Some (map (\<lambda>(k, v). (k, sanitize_for_swagger2 v)) m)
           | _ \<Rightarrow> None)
          (case json_get ''oneOf'' j of
             Some (JArr vs) \<Rightarrow> Some (map sanitize_for_swagger2 vs)
           | _ \<Rightarrow> None))
      | JArr items \<Rightarrow> JArr (map sanitize_for_swagger2 items)
      | other \<Rightarrow> other)"
  by pat_completeness auto
termination
  by (relation "measure size")
    (auto simp: less_Suc_eq_le intro: size_list_estimation' dest: size_json_get size_json_props size_json_elems)

declare sanitize_for_swagger2.simps [simp del]

record SwaggerResponse =
  sr_description :: string
  sr_schema :: "json option"

record SwaggerOperation =
  so_summary :: "string option"
  so_description :: "string option"
  so_operation_id :: "string option"
  so_tags :: "string list"
  so_parameters :: "json list"
  so_responses :: "(string \<times> SwaggerResponse) list"
  so_deprecated :: bool

record SwaggerOutput =
  sw_swagger :: string
  sw_info :: SpecInfo
  sw_paths :: "(string \<times> (string \<times> SwaggerOperation) list) list"
  sw_definitions :: "(string \<times> json) list"
  sw_consumes :: "string list"
  sw_produces :: "string list"

definition swagger_parameter :: "Parameter \<Rightarrow> json" where
  "swagger_parameter p = json_object
     [(''name'', Some (JStr (prm_name p))), (''in'', Some (location_json (prm_location p))),
      (''required'', Some (JBool (prm_required p))),
      (''type'', map_option JStr (Option.bind (prm_schema p) sc_type)),
      (''format'', map_option JStr (Option.bind (prm_schema p) sc_format))]"

definition swagger_body_parameter :: "RequestBody \<Rightarrow> json list" where
  "swagger_body_parameter body =
     (case map_of (rb_content body) ''application/json'' of
        None \<Rightarrow> []
      | Some media \<Rightarrow>
          [json_object
            [(''in'', Some (JStr ''body'')), (''name'', Some (JStr ''body'')),
             (''required'', Some (JBool (rb_required body))),
             (''schema'', Some (case mt_schema media of
                 Some s \<Rightarrow> sanitize_for_swagger2 (schema_json s)
               | None \<Rightarrow> json_object [(''type'', Some (JStr ''object''))]))]])"

definition convert_operation :: "Operation \<Rightarrow> SwaggerOperation" where
  "convert_operation op =
     \<lparr>so_summary = op_summary op, so_description = op_description op, so_operation_id = op_operation_id op,
      so_tags = op_tags op,
      so_parameters = map swagger_parameter (op_parameters op)
        @ (case op_request_body op of Some body \<Rightarrow> swagger_body_parameter body | None \<Rightarrow> []),
      so_responses = fold (\<lambda>(code, resp). AList.update code
          \<lparr>sr_description = ar_description resp,
           sr_schema = map_option (\<lambda>s. sanitize_for_swagger2 (schema_json s))
             (Option.bind (map_of (ar_content resp) ''application/json'') mt_schema)\<rparr>) (op_responses op) [],
      so_deprecated = op_deprecated op\<rparr>"

definition swagger_methods :: "PathItem \<Rightarrow> (string \<times> SwaggerOperation) list" where
  "swagger_methods it =
     fold (\<lambda>(m, op). case op of Some o' \<Rightarrow> AList.update m (convert_operation o') | None \<Rightarrow> id)
       [(''get'', pi_get it), (''post'', pi_post it), (''put'', pi_put it), (''delete'', pi_delete it),
        (''patch'', pi_patch it), (''head'', pi_head it), (''options'', pi_options it)] []"

definition to_swagger2 :: "OpenApiSpec \<Rightarrow> SwaggerOutput" where
  "to_swagger2 spec =
     \<lparr>sw_swagger = ''2.0'', sw_info = oa_info spec,
      sw_paths = fold (\<lambda>(path, it) paths.
          let methods = swagger_methods it
          in if methods \<noteq> [] then AList.update path methods paths else paths) (oa_paths spec) [],
      sw_definitions = [], sw_consumes = [''application/json''], sw_produces = [''application/json'']\<rparr>"

subsection \<open>Documenting in place\<close>

lemma update_append:
  "AList.update k v (xs @ ys) =
     (if k \<in> fst ` set xs then AList.update k v xs @ ys else xs @ AList.update k v ys)"
  by (induction xs) auto

lemma update_map_key:
  "inj g \<Longrightarrow> AList.update (g k) v (map (\<lambda>(k, v). (g k, v)) xs) = map (\<lambda>(k, v). (g k, v)) (AList.update k v xs)"
  by (induction xs) (auto simp: inj_eq)

lemma all_operations_by_method:
  "all_operations it = concat (map (\<lambda>m. case operation_at m it of Some op \<Rightarrow> [(m, op)] | None \<Rightarrow> []) http_methods)"
  by (simp add: all_operations_def http_methods_def operation_at_eq)

lemma update_listing:
  assumes "k \<in> set ks" "distinct ks" "f k \<noteq> None"
  shows "AList.update k v (concat (map (\<lambda>k. case f k of Some w \<Rightarrow> [(k, w)] | None \<Rightarrow> []) ks)) =
    concat (map (\<lambda>j. case (f(k \<mapsto> v)) j of Some w \<Rightarrow> [(j, w)] | None \<Rightarrow> []) ks)"
  using assms
proof (induction ks)
  case (Cons j ks)
  show ?case
  proof (cases "j = k")
    case True
    with Cons.prems have "concat (map (\<lambda>j. case (f(k \<mapsto> v)) j of Some w \<Rightarrow> [(j, w)] | None \<Rightarrow> []) ks) =
        concat (map (\<lambda>j. case f j of Some w \<Rightarrow> [(j, w)] | None \<Rightarrow> []) ks)"
      by (intro arg_cong [of _ _ concat] map_cong) auto
    with True Cons.prems show ?thesis by auto
  next
    case False
    with Cons show ?thesis by (auto split: option.splits)
  qed
qed simp

lemma all_operations_set:
  assumes "operation_at m it \<noteq> None"
  shows "all_operations (set_operation m op it) = AList.update m op (all_operations it)"
proof -
  have m: "m \<in> set http_methods" using assms by (auto simp: operation_at_eq http_methods_def split: if_splits)
  then have "operation_at n (set_operation m op it) = ((\<lambda>n. operation_at n it)(m \<mapsto> op)) n" for n by simp
  then show ?thesis
    unfolding all_operations_by_method
    using update_listing [of m http_methods "\<lambda>n. operation_at n it" op] m assms
    by (simp add: http_methods_def)
qed

lemma spec_operations_Cons [simp]:
  "spec_operations ((p, it) # paths) = map (\<lambda>(m, op). ((p, m), op)) (all_operations it) @ spec_operations paths"
  by (simp add: spec_operations_def)

lemma spec_operations_Nil [simp]: "spec_operations [] = []"
  by (simp add: spec_operations_def)

lemma spec_operations_keys:
  "((p, m), op) \<in> set (spec_operations paths) \<Longrightarrow> p \<in> fst ` set paths"
  by (force simp: spec_operations_def)

lemma spec_operations_update:
  "distinct (map fst paths) \<Longrightarrow> operation_at m (path_entry p paths) \<noteq> None \<Longrightarrow>
   spec_operations (AList.update p (set_operation m op (path_entry p paths)) paths) =
     AList.update (p, m) op (spec_operations paths)"
proof (induction paths)
  case (Cons e paths)
  obtain q it where e: "e = (q, it)" by force
  have inj: "inj (Pair q :: string \<Rightarrow> _)" by (simp add: inj_def)
  show ?case
  proof (cases "q = p")
    case True
    then have it: "path_entry p ((q, it) # paths) = it" by (simp add: path_entry_def)
    obtain op0 where "(m, op0) \<in> set (all_operations it)"
      using Cons.prems(2) by (auto simp: e it all_operations_at)
    then have "(p, m) \<in> fst ` set (map (\<lambda>(m, op). ((q, m), op)) (all_operations it))"
      using True by force
    then show ?thesis
      using Cons.prems(2) True update_map_key [OF inj, of m op "all_operations it"]
      by (simp add: e it [unfolded True] update_append all_operations_set)
  next
    case False
    then have pe: "path_entry p ((q, it) # paths) = path_entry p paths" by (simp add: path_entry_def)
    have "(p, m) \<notin> fst ` set (map (\<lambda>(m, op). ((q, m), op)) (all_operations it))" using False by auto
    with False Cons show ?thesis by (simp add: e pe update_append)
  qed
qed (simp add: path_entry_def)

lemma spec_operations_at:
  "distinct (map fst paths) \<Longrightarrow>
   ((p, m), op) \<in> set (spec_operations paths) \<longleftrightarrow> operation_at m (path_entry p paths) = Some op"
proof (induction paths)
  case (Cons e paths)
  obtain q it where e: "e = (q, it)" by force
  have "((p, m), op) \<in> set (map (\<lambda>(m, op). ((q, m), op)) (all_operations it)) \<longleftrightarrow> p = q \<and> operation_at m it = Some op"
    by (auto simp: all_operations_at [symmetric])
  moreover have "path_entry p ((q, it) # paths) = (if p = q then it else path_entry p paths)"
    by (simp add: path_entry_def)
  ultimately show ?case
    using Cons spec_operations_keys [of p m op paths] by (auto simp: e)
qed (simp add: path_entry_def)

lemma spec_operations_distinct: "distinct (map fst paths) \<Longrightarrow> distinct (map fst (spec_operations paths))"
proof (induction paths)
  case (Cons e paths)
  obtain q it where e: "e = (q, it)" by force
  have "map fst (map (\<lambda>(m, op). ((q, m), op)) (all_operations it)) = map (Pair q) (map fst (all_operations it))"
    by auto
  moreover have "distinct (map (Pair q) (map fst (all_operations it)))"
    using all_operations_distinct [of it] by (subst distinct_map) (simp add: inj_on_def)
  ultimately have "distinct (map fst (map (\<lambda>(m, op). ((q, m), op)) (all_operations it)))"
    by (simp only:)
  moreover have "((q, m), op) \<notin> set (spec_operations paths)" for m op
    using Cons.prems spec_operations_keys [of q m op paths] by (auto simp: e)
  ultimately show ?case using Cons by (auto simp: e)
qed simp

text \<open>On the list of the operations, documenting changes one entry in its place.\<close>

definition document_list ::
  "HandlerDoc \<Rightarrow> ((string \<times> string) \<times> Operation) list \<Rightarrow> ((string \<times> string) \<times> Operation) list" where
  "document_list doc ops =
     (case find (\<lambda>(k, op). op_operation_id op = Some (hd_operation_id doc)) ops of
        Some (k, op) \<Rightarrow> AList.update k (apply_doc_to_operation doc op) ops
      | None \<Rightarrow>
          (case find (\<lambda>(k, op). op_operation_id op = None \<and> op_summary op = None) ops of
             Some (k, op) \<Rightarrow> AList.update k (apply_doc_to_operation doc op) ops
           | None \<Rightarrow> ops))"

lemma find_in: "find P xs = Some x \<Longrightarrow> x \<in> set xs"
  by (auto simp: find_Some_iff)

lemma document_first_list:
  assumes "distinct (map fst (oa_paths spec))"
  shows "(case document_first P doc spec of None \<Rightarrow> find (\<lambda>(k, op). P op) (spec_operations (oa_paths spec)) = None
     | Some spec' \<Rightarrow> \<exists>k op. find (\<lambda>(k, op). P op) (spec_operations (oa_paths spec)) = Some (k, op) \<and>
         spec_operations (oa_paths spec') = AList.update k (apply_doc_to_operation doc op) (spec_operations (oa_paths spec)) \<and>
         map fst (oa_paths spec') = map fst (oa_paths spec))"
proof (cases "find (\<lambda>(k, op). P op) (spec_operations (oa_paths spec))")
  case (Some e)
  obtain p m op where e: "e = ((p, m), op)" by (metis prod.collapse)
  have "((p, m), op) \<in> set (spec_operations (oa_paths spec))" using find_in [OF Some] e by simp
  moreover from this have "p \<in> set (map fst (oa_paths spec))" using spec_operations_keys by fastforce
  ultimately show ?thesis
    using Some e assms
    by (simp add: document_first_def add_operation_def spec_operations_update spec_operations_at update_keys)
qed (simp add: document_first_def)

lemma apply_handler_doc_list:
  assumes "distinct (map fst (oa_paths spec))"
  shows "spec_operations (oa_paths (apply_handler_doc doc spec)) = document_list doc (spec_operations (oa_paths spec)) \<and>
    map fst (oa_paths (apply_handler_doc doc spec)) = map fst (oa_paths spec)"
  using document_first_list [OF assms, of "\<lambda>op. op_operation_id op = Some (hd_operation_id doc)" doc]
    document_first_list [OF assms, of "\<lambda>op. op_operation_id op = None \<and> op_summary op = None" doc]
  by (auto simp: apply_handler_doc_def document_list_def split: option.splits)

lemma apply_handler_docs_list:
  "distinct (map fst (oa_paths spec)) \<Longrightarrow>
   spec_operations (oa_paths (apply_handler_docs docs spec)) = fold document_list docs (spec_operations (oa_paths spec))"
  unfolding apply_handler_docs_def
  using apply_handler_doc_list by (induction docs arbitrary: spec) auto

lemma apply_doc_id [simp]: "op_operation_id (apply_doc_to_operation doc op) = Some (hd_operation_id doc)"
  by (simp add: apply_doc_to_operation_def Let_def)

abbreviation undocumented :: "Operation \<Rightarrow> bool" where
  "undocumented op \<equiv> op_operation_id op = None \<and> op_summary op = None"

lemma fold_document_list:
  "list_all (\<lambda>(k, op). op_operation_id op \<noteq> None \<and> the (op_operation_id op) \<notin> hd_operation_id ` set docs) done' \<Longrightarrow>
   list_all (\<lambda>(k, op). undocumented op) fresh \<Longrightarrow> distinct (map hd_operation_id docs) \<Longrightarrow>
   length docs \<le> length fresh \<Longrightarrow> distinct (map fst (done' @ fresh)) \<Longrightarrow>
   fold document_list docs (done' @ fresh) =
     done' @ map (\<lambda>(d, k, op). (k, apply_doc_to_operation d op)) (zip docs fresh) @ drop (length docs) fresh"
proof (induction docs arbitrary: done' fresh)
  case (Cons d docs)
  obtain k op rest where fresh: "fresh = (k, op) # rest" using Cons.prems(4) by (cases fresh) auto
  have none: "find (\<lambda>(k, op). op_operation_id op = Some (hd_operation_id d)) (done' @ fresh) = None"
    using Cons.prems(1,2) by (fastforce simp: find_None_iff list_all_iff)
  have "find (\<lambda>(k, op). undocumented op) done' = None"
    using Cons.prems(1) by (fastforce simp: find_None_iff list_all_iff)
  then have first: "find (\<lambda>(k, op). undocumented op) (done' @ fresh) = Some (k, op)"
    using Cons.prems(2) by (induction done') (auto simp: fresh split: if_splits)
  have "k \<notin> fst ` set done'" using Cons.prems(5) by (auto simp: fresh)
  then have "document_list d (done' @ fresh) = (done' @ [(k, apply_doc_to_operation d op)]) @ rest"
    using none first by (simp add: document_list_def fresh update_append)
  moreover have "fold document_list docs ((done' @ [(k, apply_doc_to_operation d op)]) @ rest) =
      (done' @ [(k, apply_doc_to_operation d op)]) @
      map (\<lambda>(d, k, op). (k, apply_doc_to_operation d op)) (zip docs rest) @ drop (length docs) rest"
    using Cons.prems by (intro Cons.IH) (auto simp: fresh list_all_iff)
  ultimately show ?case by (simp add: fresh)
qed simp

subsection \<open>Schemas in Swagger 2.0\<close>

text \<open>Two objects with the same entries are equal, since the entries are sorted.\<close>

lemma obj_sorted_Cons: "obj_sorted ((k, v) # m) \<longleftrightarrow> (\<forall>k'\<in>fst ` set m. str_less k k') \<and> obj_sorted m"
  by (auto simp: obj_sorted_def)

lemma map_of_None_fst: "k \<notin> fst ` set m \<Longrightarrow> map_of m k = None"
  by (simp add: map_of_eq_None_iff)

lemma obj_sorted_eqI: "obj_sorted m \<Longrightarrow> obj_sorted n \<Longrightarrow> map_of m = map_of n \<Longrightarrow> m = n"
proof (induction m arbitrary: n)
  case Nil
  then show ?case by (metis empty_eq_map_of_iff map_of.simps(1))
next
  case (Cons e m)
  obtain k v where e: "e = (k, v)" by force
  from Cons.prems(3) have "map_of n k = Some v" by (auto simp: e dest: fun_cong [of _ _ k])
  then obtain k' v' n' where n: "n = (k', v') # n'" by (cases n) auto
  have dom: "fst ` set (e # m) = fst ` set n" using Cons.prems(3) by (metis dom_map_of_conv_image_fst)
  have "k = k'"
  proof (rule ccontr)
    assume "k \<noteq> k'"
    then have "k \<in> fst ` set n'" "k' \<in> fst ` set m" using dom by (auto simp: e n)
    then have "str_less k k'" "str_less k' k" using Cons.prems(1,2) by (auto simp: e n obj_sorted_Cons)
    then show False using str_less_trans str_less_irrefl by blast
  qed
  have out: "k \<notin> fst ` set m" "k \<notin> fst ` set n'"
    using Cons.prems(1,2) str_less_irrefl \<open>k = k'\<close> by (auto simp: e n obj_sorted_Cons)
  have "map_of m = map_of n'"
  proof
    fix x
    show "map_of m x = map_of n' x"
      using fun_cong [OF Cons.prems(3), of x] out \<open>k = k'\<close> by (cases "x = k") (auto simp: e n map_of_None_fst)
  qed
  then show ?case
    using Cons \<open>k = k'\<close> \<open>map_of n k = Some v\<close> by (auto simp: e n obj_sorted_Cons)
qed

lemma obj_sorted_remove: "obj_sorted m \<Longrightarrow> obj_sorted (obj_remove k m)"
  by (induction m) (auto simp: obj_remove_def obj_sorted_Cons)

lemma map_of_obj_remove: "map_of (obj_remove k m) = (map_of m)(k := None)"
  by (induction m) (auto simp: obj_remove_def fun_eq_iff)

lemma map_of_optional_insert:
  "map_of (case v of Some j \<Rightarrow> obj_insert k j m | None \<Rightarrow> m) x = (if x = k \<and> v \<noteq> None then v else map_of m x)"
  by (simp add: map_of_obj_insert split: option.splits)

lemma obj_sorted_members:
  "obj_sorted m \<Longrightarrow>
   obj_sorted (fold (\<lambda>(k, v) m. case v of Some j \<Rightarrow> obj_insert k j m | None \<Rightarrow> m) members m)"
  by (induction members arbitrary: m) (auto simp: obj_sorted_insert split: option.splits)

lemma map_of_put:
  "map_of (put_items items obj) x = (if x = ''items'' \<and> items \<noteq> None then items else map_of obj x)"
  "map_of (put_properties properties obj) x = (if x = ''properties'' then map_option JObj properties else map_of obj x)"
  "map_of (put_variants variants obj) x =
     (if x = ''oneOf'' then None
      else if x = ''x-oneOf'' \<and> variants \<noteq> None then map_option JArr variants
      else if x = ''type'' \<and> variants \<noteq> None \<and> map_of obj ''type'' = None then Some (JStr ''object'')
      else map_of obj x)"
  "map_of (put_discriminator d obj) x =
     (if x = ''discriminator'' then map_option JStr (discriminator_name d) else map_of obj x)"
  by (simp_all add: put_items_def put_properties_def put_variants_def put_discriminator_def Let_def
    map_of_obj_insert map_of_obj_remove split: option.splits)

lemma obj_sorted_put:
  "obj_sorted obj \<Longrightarrow> obj_sorted (put_items items obj)"
  "obj_sorted obj \<Longrightarrow> obj_sorted (put_properties properties obj)"
  "obj_sorted obj \<Longrightarrow> obj_sorted (put_variants variants obj)"
  "obj_sorted obj \<Longrightarrow> obj_sorted (put_discriminator d obj)"
  by (simp_all add: put_items_def put_properties_def put_variants_def put_discriminator_def Let_def
    obj_sorted_insert obj_sorted_remove split: option.splits)

lemma map_of_sanitize_object:
  "map_of (sanitize_object obj items properties variants) x =
    (if x = ''discriminator'' then map_option JStr (discriminator_name (map_of obj ''discriminator''))
     else if x = ''oneOf'' then None
     else if x = ''x-oneOf'' \<and> variants \<noteq> None then map_option JArr variants
     else if x = ''type'' \<and> variants \<noteq> None \<and> map_of obj ''type'' = None then Some (JStr ''object'')
     else if x = ''properties'' then map_option JObj properties
     else if x = ''items'' \<and> items \<noteq> None then items
     else map_of obj x)"
  by (auto simp: sanitize_object_def map_of_put)

lemma obj_sorted_sanitize: "obj_sorted obj \<Longrightarrow> obj_sorted (sanitize_object obj items properties variants)"
  by (simp add: sanitize_object_def obj_sorted_put)

lemma obj_insert_map_snd:
  "map (\<lambda>(k, v). (k, g v)) (obj_insert k v m) = obj_insert k (g v) (map (\<lambda>(k, v). (k, g v)) m)"
  by (induction k v m rule: obj_insert.induct) auto

lemma json_object_map_snd:
  "map (\<lambda>(k, v). (k, g v)) (fold (\<lambda>(k, v) m. case v of Some j \<Rightarrow> obj_insert k j m | None \<Rightarrow> m)
     (map (\<lambda>(k, s). (k, Some (f s))) ps) m) =
   fold (\<lambda>(k, v) m. case v of Some j \<Rightarrow> obj_insert k j m | None \<Rightarrow> m)
     (map (\<lambda>(k, s). (k, Some (g (f s)))) ps) (map (\<lambda>(k, v). (k, g v)) m)"
  by (induction ps arbitrary: m) (auto simp: obj_insert_map_snd)

text \<open>The schema of Swagger 2.0 that a schema stands for.\<close>

fun swagger_schema :: "Schema \<Rightarrow> json" where
  "swagger_schema (Schema t f i p d v e dc) = json_object
     [(''type'', if v \<noteq> None \<and> t = None then Some (JStr ''object'') else map_option JStr t),
      (''format'', map_option JStr f), (''items'', map_option swagger_schema i),
      (''properties'', map_option (\<lambda>m. json_object (map (\<lambda>(k, s). (k, Some (swagger_schema s))) m)) p),
      (''description'', map_option JStr d), (''enum'', map_option JArr e),
      (''x-oneOf'', map_option (\<lambda>vs. JArr (map swagger_schema vs)) v),
      (''discriminator'', map_option (\<lambda>d. JStr (dc_property_name d)) dc)]"

definition object_entries :: "(string \<times> 'v option) list \<Rightarrow> (string \<times> 'v) list" where
  "object_entries members =
     fold (\<lambda>(k, v) m. case v of Some j \<Rightarrow> obj_insert k j m | None \<Rightarrow> m) members []"

lemma json_object_entries: "json_object members = JObj (object_entries members)"
  by (simp add: json_object_def object_entries_def)

lemma object_entries_sorted [simp]: "obj_sorted (object_entries members)"
  unfolding object_entries_def by (rule obj_sorted_members) (simp add: obj_sorted_def)

lemma object_entries_map:
  "map (\<lambda>(k, v). (k, g v)) (object_entries (map (\<lambda>(k, s). (k, Some (f s))) ps)) =
   object_entries (map (\<lambda>(k, s). (k, Some (g (f s)))) ps)"
  unfolding object_entries_def using json_object_map_snd [of g f ps "[]"] by simp

lemma map_of_optional_inserts:
  "distinct (map fst members) \<Longrightarrow>
   map_of (fold (\<lambda>(k, v) m. case v of Some j \<Rightarrow> obj_insert k j m | None \<Rightarrow> m) members m) x =
     (case map_of members x of Some (Some j) \<Rightarrow> Some j | _ \<Rightarrow> map_of m x)"
proof (induction members arbitrary: m)
  case (Cons e members)
  obtain k v where e: "e = (k, v)" by force
  have "map_of members k = None" using Cons.prems by (simp add: e map_of_None_fst)
  with Cons show ?case by (auto simp: e map_of_optional_insert map_of_obj_insert split: option.splits)
qed simp

lemma map_of_object_entries:
  "distinct (map fst members) \<Longrightarrow>
   map_of (object_entries members) x = (case map_of members x of Some v \<Rightarrow> v | None \<Rightarrow> None)"
  by (simp add: object_entries_def map_of_optional_inserts split: option.splits)

lemma sanitize_for_swagger2_object:
  "j = JObj obj \<Longrightarrow> sanitize_for_swagger2 j = JObj (sanitize_object obj
     (case json_get ''items'' j of Some i \<Rightarrow> Some (sanitize_for_swagger2 i) | None \<Rightarrow> None)
     (case json_get ''properties'' j of
        Some (JObj m) \<Rightarrow> Some (map (\<lambda>(k, v). (k, sanitize_for_swagger2 v)) m) | _ \<Rightarrow> None)
     (case json_get ''oneOf'' j of Some (JArr vs) \<Rightarrow> Some (map sanitize_for_swagger2 vs) | _ \<Rightarrow> None))"
  by (subst sanitize_for_swagger2.simps) simp

lemma sanitize_schema: "sanitize_for_swagger2 (schema_json s) = swagger_schema s"
proof (induction s rule: schema_json.induct)
  case (1 t f i p d v e dc)
  let ?j = "schema_json (Schema t f i p d v e dc)"
  let ?ms = "[(''type'', map_option JStr t), (''format'', map_option JStr f), (''items'', map_option schema_json i),
      (''properties'', map_option (\<lambda>m. json_object (map (\<lambda>(k, s). (k, Some (schema_json s))) m)) p),
      (''description'', map_option JStr d), (''oneOf'', map_option (\<lambda>vs. JArr (map schema_json vs)) v),
      (''enum'', map_option JArr e), (''discriminator'', map_option discriminator_json dc)]"
  let ?obj = "object_entries ?ms"
  have j: "?j = JObj ?obj" by (simp add: json_object_entries)
  have get: "map_of ?obj x =
      (if x = ''discriminator'' then map_option discriminator_json dc
       else if x = ''enum'' then map_option JArr e
       else if x = ''oneOf'' then map_option (\<lambda>vs. JArr (map schema_json vs)) v
       else if x = ''description'' then map_option JStr d
       else if x = ''properties'' then map_option (\<lambda>m. json_object (map (\<lambda>(k, s). (k, Some (schema_json s))) m)) p
       else if x = ''items'' then map_option schema_json i
       else if x = ''format'' then map_option JStr f
       else if x = ''type'' then map_option JStr t else None)" for x
    by (simp add: map_of_object_entries)
  have g: "json_get k ?j = map_of ?obj k" for k
    by (simp only: json_get_def j json.case)
  have items: "(case json_get ''items'' ?j of Some i \<Rightarrow> Some (sanitize_for_swagger2 i) | None \<Rightarrow> None) =
      map_option swagger_schema i"
    unfolding g get using 1(1) by (cases i) simp_all
  have properties: "(case json_get ''properties'' ?j of
        Some (JObj m) \<Rightarrow> Some (map (\<lambda>(k, v). (k, sanitize_for_swagger2 v)) m) | _ \<Rightarrow> None) =
      map_option (\<lambda>m. object_entries (map (\<lambda>(k, s). (k, Some (swagger_schema s))) m)) p"
  proof (cases p)
    case (Some m)
    have eq: "map (\<lambda>(k, s). (k, Some (sanitize_for_swagger2 (schema_json s)))) m =
        map (\<lambda>(k, s). (k, Some (swagger_schema s))) m"
      using 1(2) [OF Some] by auto
    show ?thesis unfolding g get by (simp add: Some json_object_entries object_entries_map) (simp only: eq)
  next
    case None
    then show ?thesis unfolding g get by simp
  qed
  have variants: "(case json_get ''oneOf'' ?j of Some (JArr vs) \<Rightarrow> Some (map sanitize_for_swagger2 vs) | _ \<Rightarrow> None) =
      map_option (map swagger_schema) v"
    unfolding g get using 1(3) by (cases v) simp_all
  have name: "discriminator_name (map_of ?obj ''discriminator'') = map_option dc_property_name dc"
    unfolding get by (cases dc) (simp_all add: discriminator_name_def discriminator_json_def json_object_entries
      map_of_object_entries)
  let ?sw = "object_entries
     [(''type'', if v \<noteq> None \<and> t = None then Some (JStr ''object'') else map_option JStr t),
      (''format'', map_option JStr f), (''items'', map_option swagger_schema i),
      (''properties'', map_option (\<lambda>m. json_object (map (\<lambda>(k, s). (k, Some (swagger_schema s))) m)) p),
      (''description'', map_option JStr d), (''enum'', map_option JArr e),
      (''x-oneOf'', map_option (\<lambda>vs. JArr (map swagger_schema vs)) v),
      (''discriminator'', map_option (\<lambda>d. JStr (dc_property_name d)) dc)]"
  have sw: "map_of ?sw x =
      (if x = ''discriminator'' then map_option (\<lambda>d. JStr (dc_property_name d)) dc
       else if x = ''x-oneOf'' then map_option (\<lambda>vs. JArr (map swagger_schema vs)) v
       else if x = ''enum'' then map_option JArr e
       else if x = ''description'' then map_option JStr d
       else if x = ''properties'' then map_option (\<lambda>m. json_object (map (\<lambda>(k, s). (k, Some (swagger_schema s))) m)) p
       else if x = ''items'' then map_option swagger_schema i
       else if x = ''format'' then map_option JStr f
       else if x = ''type'' then (if v \<noteq> None \<and> t = None then Some (JStr ''object'') else map_option JStr t)
       else None)" for x
    by (simp add: map_of_object_entries)
  have "sanitize_object ?obj (map_option swagger_schema i)
      (map_option (\<lambda>m. object_entries (map (\<lambda>(k, s). (k, Some (swagger_schema s))) m)) p)
      (map_option (map swagger_schema) v) = ?sw"
  proof (rule obj_sorted_eqI)
    show "map_of (sanitize_object ?obj (map_option swagger_schema i)
      (map_option (\<lambda>m. object_entries (map (\<lambda>(k, s). (k, Some (swagger_schema s))) m)) p)
      (map_option (map swagger_schema) v)) = map_of ?sw"
      unfolding fun_eq_iff map_of_sanitize_object name unfolding get sw
      by (auto simp: option.map_comp comp_def json_object_entries)
  qed (simp_all add: obj_sorted_sanitize)
  moreover have "swagger_schema (Schema t f i p d v e dc) = JObj ?sw"
    by (simp only: swagger_schema.simps json_object_entries)
  ultimately show ?case
    unfolding sanitize_for_swagger2_object [OF j] items properties variants by (simp only:)
qed

subsection \<open>Properties\<close>

lemma documented_fresh:
  assumes "to_spec tr title version api = Some spec" "((p, m), op) \<in> set (spec_operations (oa_paths spec))"
  shows "undocumented op"
proof -
  have "spec_operation spec p m = Some op"
    using assms spec_operations_at [of "oa_paths spec" p m op] to_spec_paths [OF assms(1)]
    by (simp add: spec_operation_def)
  then obtain o' where o': "map_of (rev (api_operations tr api)) (p, m) = Some o'" and op: "op = auto_tag p o'"
    using to_spec_operation [OF assms(1), of p m] by auto
  from o' obtain e where e: "e \<in> set (endpoints_of api)" "o' = the (to_operation tr e)"
    by (auto simp: api_operations_def dest!: map_of_SomeD)
  from assms(1) have "to_operation tr e = Some o'"
    by (rule to_spec_collected) (use e in \<open>auto simp: list_all_iff\<close>)
  then have "undocumented o'"
  proof (induction tr e arbitrary: o' rule: to_operation.induct)
    case (1 tr e)
    then show ?case
      by (auto simp: endpoint_operation_def operation_new_def Let_def split: option.splits if_splits)
  qed auto
  then show ?thesis by (simp add: op auto_tag_def split: option.splits)
qed

text \<open>C38. Handler documentation goes to operations by position. In the document of an API no operation
  has an identifier, so that a list of handler documents with different identifiers is dealt out to
  the operations in the order of the document (paths by first occurrence, then \<^verbatim>\<open>GET\<close>,
  \<^verbatim>\<open>POST\<close>, \<^verbatim>\<open>PUT\<close>, \<open>\<dots>\<close>), whatever handlers they come from: the i-th document describes the
  i-th operation, and the operations after the last one stay as they are. In the witness the
  handlers are documented in the order of the API, and each operation gets the text of the other.\<close>

theorem docs_by_position:
  assumes "to_spec tr title version api = Some spec" "distinct (map hd_operation_id docs)"
    "length docs \<le> length (spec_operations (oa_paths spec))"
  shows "spec_operations (oa_paths (apply_handler_docs docs spec)) =
    map (\<lambda>(d, k, op). (k, apply_doc_to_operation d op)) (zip docs (spec_operations (oa_paths spec))) @
    drop (length docs) (spec_operations (oa_paths spec))"
proof -
  have "distinct (map fst (oa_paths spec))" using to_spec_paths [OF assms(1)] by simp
  moreover from this have "distinct (map fst (spec_operations (oa_paths spec)))" by (rule spec_operations_distinct)
  moreover have "list_all (\<lambda>(k, op). undocumented op) (spec_operations (oa_paths spec))"
    using documented_fresh [OF assms(1)] by (auto simp: list_all_iff)
  ultimately show ?thesis
    using fold_document_list [of docs "[]" "spec_operations (oa_paths spec)"] assms(2,3)
    by (simp add: apply_handler_docs_list)
qed

definition two_handlers :: api where
  "two_handlers = Tuple
     [Plain \<lparr>en_method = Post, en_path = [Lit ''users''], en_req = ''String'', en_res = ''u32'', en_query = ''()'', en_err = ''()''\<rparr>,
      Plain \<lparr>en_method = Get, en_path = [Lit ''users''], en_req = ''NoBody'', en_res = ''String'', en_query = ''()'', en_err = ''()''\<rparr>]"

definition two_docs :: "HandlerDoc list" where
  "two_docs =
     [\<lparr>hd_operation_id = ''create_user'', hd_summary = ''Create a user'', hd_description = [], hd_tags = []\<rparr>,
      \<lparr>hd_operation_id = ''list_users'', hd_summary = ''List all users'', hd_description = [], hd_tags = []\<rparr>]"

lemma two_handlers_spec:
  "to_spec user_traits ''Users'' ''1'' two_handlers \<noteq> None"
  "map fst (spec_operations (oa_paths (the (to_spec user_traits ''Users'' ''1'' two_handlers)))) =
     [(''/users'', ''GET''), (''/users'', ''POST'')]"
  by code_simp+

theorem docs_by_position_witness:
  "map (\<lambda>(k, op). (k, op_operation_id op))
     (spec_operations (oa_paths (apply_handler_docs two_docs (the (to_spec user_traits ''Users'' ''1'' two_handlers))))) =
   [((''/users'', ''GET''), Some ''create_user''), ((''/users'', ''POST''), Some ''list_users'')]"
proof -
  let ?s = "the (to_spec user_traits ''Users'' ''1'' two_handlers)"
  have s: "to_spec user_traits ''Users'' ''1'' two_handlers = Some ?s" using two_handlers_spec(1) by simp
  obtain op1 op2 where ops: "spec_operations (oa_paths ?s) = [((''/users'', ''GET''), op1), ((''/users'', ''POST''), op2)]"
    using two_handlers_spec(2) by (auto simp: map_eq_Cons_conv)
  have "distinct (map hd_operation_id two_docs)" "length two_docs \<le> length (spec_operations (oa_paths ?s))"
    by (simp_all add: two_docs_def ops)
  from docs_by_position [OF s this] show ?thesis by (simp add: ops two_docs_def)
qed

text \<open>The operations of the converted document.\<close>

definition swagger_operation :: "SwaggerOutput \<Rightarrow> string \<Rightarrow> string \<Rightarrow> SwaggerOperation option" where
  "swagger_operation sw p m = (case map_of (sw_paths sw) p of Some ms \<Rightarrow> map_of ms m | None \<Rightarrow> None)"

fun method_key :: "HttpMethod \<Rightarrow> string" where
  "method_key Get = ''get''"
| "method_key Post = ''post''"
| "method_key Put = ''put''"
| "method_key Delete = ''delete''"
| "method_key Patch = ''patch''"
| "method_key Head = ''head''"
| "method_key Options = ''options''"

lemma map_of_swagger_methods:
  "map_of (swagger_methods it) (method_key m) = map_option convert_operation (operation_at (METHOD m) it)"
proof -
  have step: "map_of ((case op of Some o' \<Rightarrow> AList.update k (convert_operation o') | None \<Rightarrow> id) ms) x =
      (if x = k \<and> op \<noteq> None then map_option convert_operation op else map_of ms x)" for k op ms x
    by (auto simp: update_conv' split: option.splits)
  show ?thesis by (cases m) (simp_all add: swagger_methods_def step operation_at_eq)
qed

lemma map_of_swagger_paths:
  "distinct (map fst paths) \<Longrightarrow>
   map_of (fold (\<lambda>(path, it) acc. let methods = swagger_methods it
      in if methods \<noteq> [] then AList.update path methods acc else acc) paths acc) p =
   (case map_of paths p of
      Some it \<Rightarrow> if swagger_methods it \<noteq> [] then Some (swagger_methods it) else map_of acc p
    | None \<Rightarrow> map_of acc p)"
proof (induction paths arbitrary: acc)
  case (Cons e paths)
  obtain q it where e: "e = (q, it)" by force
  have "map_of paths q = None" using Cons.prems by (simp add: e map_of_None_fst)
  with Cons show ?case by (auto simp: e Let_def update_conv' split: option.splits)
qed simp

text \<open>C35. The Swagger 2.0 document says what the OpenAPI document says: it has an operation at a path
  and a method exactly where that one has it, and it is that operation converted; and the rewriting
  of JSON schemas gives, at any depth of properties, items and variants, the schema without
  \<^verbatim>\<open>oneOf\<close> and with the bare name of the discriminator.\<close>

theorem swagger_document_exact:
  assumes "distinct (map fst (oa_paths spec))"
  shows "swagger_operation (to_swagger2 spec) p (method_key m) =
      map_option convert_operation (spec_operation spec p (METHOD m)) \<and>
    sanitize_for_swagger2 (schema_json s) = swagger_schema s"
proof -
  have "swagger_operation (to_swagger2 spec) p (method_key m) =
      (case map_of (oa_paths spec) p of Some it \<Rightarrow> map_of (swagger_methods it) (method_key m) | None \<Rightarrow> None)"
    using map_of_swagger_paths [OF assms, of "[]" p]
    by (auto simp: swagger_operation_def to_swagger2_def split: option.splits)
  then show ?thesis
    by (simp add: map_of_swagger_methods spec_operation_def path_entry_def sanitize_schema split: option.splits)
qed

theorem swagger_document_exact_witness:
  "swagger_operation (to_swagger2 (the (to_spec user_traits ''Users'' ''1'' two_handlers))) ''/users'' ''get'' =
     map_option convert_operation (spec_operation (the (to_spec user_traits ''Users'' ''1'' two_handlers)) ''/users'' ''GET'')"
proof -
  let ?s = "the (to_spec user_traits ''Users'' ''1'' two_handlers)"
  have "map fst (oa_paths ?s) = [''/users'']" by code_simp
  then have "distinct (map fst (oa_paths ?s))" by simp
  from swagger_document_exact [OF this, of "''/users''" Get] show ?thesis by simp
qed

end
