(* ===== verification/Openapi_Codegen.thy ===== *)
theory Openapi_Codegen
  imports Openapi_Output
begin

text \<open>
  Rust sources from an OpenAPI 3 or a Swagger 2.0 document:
  \<^verbatim>\<open>typeway-openapi/src/codegen_common.rs\<close>, \<^verbatim>\<open>codegen_v3.rs\<close> and
  \<^verbatim>\<open>codegen_v2.rs\<close>. The parsers of JSON and YAML texts are parameters; what the derived
  \<^verbatim>\<open>Deserialize\<close> takes from a JSON object is modelled. A \<^verbatim>\<open>BTreeMap\<close> is the list
  of its entries in the order of the keys. \<open>up\<close> is \<^verbatim>\<open>char::to_uppercase\<close> on the characters
  that are not ASCII.
\<close>

subsection \<open>Names and types\<close>

definition openapi_type_to_rust :: "string \<Rightarrow> string option \<Rightarrow> string" where
  "openapi_type_to_rust ty format =
     (if ty = ''string'' then
        (if format = Some ''binary'' \<or> format = Some ''byte'' then ''Vec<u8>'' else ''String'')
      else if ty = ''integer'' then (if format = Some ''int32'' then ''i32'' else ''i64'')
      else if ty = ''number'' then (if format = Some ''float'' then ''f32'' else ''f64'')
      else if ty = ''boolean'' then ''bool''
      else if ty = ''array'' then ''Vec<serde_json::Value>''
      else ''serde_json::Value'')"

definition quote :: string where "quote = [CHR 0x22]"

definition macro_arg :: "string \<Rightarrow> string" where
  "macro_arg seg =
     (if starts_with ''{'' seg \<and> ends_with ''}'' seg then ''String'' else quote @ seg @ quote)"

definition path_to_macro_args :: "string \<Rightarrow> string" where
  "path_to_macro_args path =
     (let segments = path_segments path
      in if segments = [] then quote @ quote else join_with '' / '' (map macro_arg segments))"

definition capitalize :: "(string \<Rightarrow> string) \<Rightarrow> string \<Rightarrow> string" where
  "capitalize up s = capitalize_word up s"

definition type_name_part :: "(string \<Rightarrow> string) \<Rightarrow> string \<Rightarrow> string" where
  "type_name_part up seg = (if starts_with ''{'' seg then ''ById'' else capitalize up seg)"

definition path_to_type_name :: "(string \<Rightarrow> string) \<Rightarrow> string \<Rightarrow> string" where
  "path_to_type_name up path =
     (let segments = path_segments path
      in if segments = [] then ''RootPath'' else concat (map (type_name_part up) segments) @ ''Path'')"

definition sanitize_name :: "string \<Rightarrow> string" where
  "sanitize_name name = map (\<lambda>c. if c \<in> set ''.- /'' then CHR ''_'' else c) name"

definition ref_to_name :: "string \<Rightarrow> string" where
  "ref_to_name ref = last (split_on CHR ''/'' ref)"

text \<open>\<^verbatim>\<open>str::to_uppercase\<close>, character by character.\<close>

function str_upper :: "(string \<Rightarrow> string) \<Rightarrow> string \<Rightarrow> string" where
  "str_upper up s =
     (case s of
        [] \<Rightarrow> []
      | c # r \<Rightarrow>
          if utf8_len c = 1 then ascii_upper c # str_upper up r
          else up (take (utf8_len c) s) @ str_upper up (drop (utf8_len c) s))"
  by pat_completeness auto
termination by (relation "measure (length \<circ> snd)") (auto simp: utf8_len_def Let_def split: if_splits)

declare str_upper.simps [simp del]

definition endpoint_type ::
  "(string \<Rightarrow> string) \<Rightarrow> string \<Rightarrow> string \<Rightarrow> string option \<Rightarrow> string \<Rightarrow> string" where
  "endpoint_type up m path_type req_type res_type =
     (let m = str_upper up m;
          req = (case req_type of Some r \<Rightarrow> r | None \<Rightarrow> ''serde_json::Value'');
          bodyless = (\<lambda>name. name @ ''Endpoint<'' @ path_type @ '', Json<'' @ res_type @ ''>>'');
          with_body = (\<lambda>name. name @ ''Endpoint<'' @ path_type @ '', Json<'' @ req @ ''>, Json<'' @ res_type @ ''>>'')
      in if m = ''GET'' \<or> m = ''HEAD'' then bodyless ''Get''
         else if m = ''DELETE'' then bodyless ''Delete''
         else if m = ''POST'' then with_body ''Post''
         else if m = ''PUT'' then with_body ''Put''
         else if m = ''PATCH'' then with_body ''Patch''
         else bodyless ''Get'')"

definition generate_struct :: "string \<Rightarrow> (string \<times> string) list \<Rightarrow> string" where
  "generate_struct name members =
     ''#[derive(Debug, Clone, Serialize, Deserialize)]'' @ [newline] @
     ''pub struct '' @ sanitize_name name @ '' {'' @ [newline] @
     concat (map (\<lambda>(n, t). ''    pub '' @ n @ '': '' @ t @ '','' @ [newline]) members) @ ''}''"

subsection \<open>OpenAPI 3\<close>

datatype SchemaRef = SchemaRef
  (rf_ref: "string option") (rf_type: "string option") (rf_format: "string option")
  (rf_items: "SchemaRef option") (rf_properties: "(string \<times> SchemaRef) list")
  (rf_all_of: "SchemaRef list") (rf_one_of: "SchemaRef list")

record OpenApi3Schema =
  s3_type :: "string option"
  s3_format :: "string option"
  s3_properties :: "(string \<times> SchemaRef) list"
  s3_items :: "SchemaRef option"
  s3_enum :: "string list"
  s3_required :: "string list"

type_synonym media3 = "(string \<times> SchemaRef option) list"

record OpenApi3Operation =
  o3_summary :: "string option"
  o3_request_body :: "media3 option"
  o3_responses :: "(string \<times> media3 option) list"

record OpenApi3Spec =
  p3_openapi :: string
  p3_title :: string
  p3_version :: string
  p3_paths :: "(string \<times> (string \<times> OpenApi3Operation) list) list"
  p3_components :: "(string \<times> OpenApi3Schema) list option"

fun schema_ref_to_rust_v3 :: "SchemaRef \<Rightarrow> string" where
  "schema_ref_to_rust_v3 (SchemaRef ref_path ty f items properties all_of one_of) =
     (case ref_path of
        Some r \<Rightarrow> sanitize_name (ref_to_name r)
      | None \<Rightarrow>
          (case ty of
             Some t \<Rightarrow>
               if t = ''array'' then
                 (case items of
                    Some i \<Rightarrow> ''Vec<'' @ schema_ref_to_rust_v3 i @ ''>''
                  | None \<Rightarrow> ''Vec<serde_json::Value>'')
               else if t = ''object'' \<and> properties \<noteq> [] then ''serde_json::Value''
               else openapi_type_to_rust t f
           | None \<Rightarrow>
               (case all_of of
                  s # _ \<Rightarrow> schema_ref_to_rust_v3 s
                | [] \<Rightarrow>
                    (case one_of of
                       s # _ \<Rightarrow> schema_ref_to_rust_v3 s
                     | [] \<Rightarrow> ''serde_json::Value''))))"

definition schema_to_fields_v3 :: "OpenApi3Schema \<Rightarrow> (string \<times> string) list" where
  "schema_to_fields_v3 schema =
     map (\<lambda>(name, prop).
       let base_type = schema_ref_to_rust_v3 prop
       in (name, if name \<in> set (s3_required schema) then base_type else ''Option<'' @ base_type @ ''>''))
       (s3_properties schema)"

definition json_or_first :: "(string \<times> 'a) list \<Rightarrow> 'a option" where
  "json_or_first content =
     (case map_of content ''application/json'' of
        Some media \<Rightarrow> Some media
      | None \<Rightarrow> (case content of (_, media) # _ \<Rightarrow> Some media | [] \<Rightarrow> None))"

definition find_body_type_v3 :: "OpenApi3Operation \<Rightarrow> string option" where
  "find_body_type_v3 op =
     Option.bind (o3_request_body op) (\<lambda>content.
     Option.bind (json_or_first content) (\<lambda>media.
     Option.bind media (\<lambda>schema. Some (schema_ref_to_rust_v3 schema))))"

definition or_else :: "'a option \<Rightarrow> 'a option \<Rightarrow> 'a option" where
  "or_else a b = (case a of Some x \<Rightarrow> Some x | None \<Rightarrow> b)"

definition find_response_type_v3 :: "OpenApi3Operation \<Rightarrow> string" where
  "find_response_type_v3 op =
     (case or_else (map_of (o3_responses op) ''200'') (or_else (map_of (o3_responses op) ''201'')
         (map_of (o3_responses op) ''default'')) of
        Some (Some content) \<Rightarrow>
          (case json_or_first content of
             Some (Some schema) \<Rightarrow> schema_ref_to_rust_v3 schema
           | _ \<Rightarrow> ''serde_json::Value'')
      | _ \<Rightarrow> ''serde_json::Value'')"

definition generate_enum_from_values :: "(string \<Rightarrow> string) \<Rightarrow> string \<Rightarrow> string list \<Rightarrow> string" where
  "generate_enum_from_values up name values =
     ''#[derive(Debug, Clone, Serialize, Deserialize)]'' @ [newline] @
     ''pub enum '' @ sanitize_name name @ '' {'' @ [newline] @
     concat (map (\<lambda>val. ''    #[serde(rename = '' @ quote @ val @ quote @ '')]'' @ [newline] @
       ''    '' @ capitalize up val @ '','' @ [newline]) values) @ ''}''"

text \<open>The loop over the paths: the declarations of the path types and the endpoint types.\<close>

definition path_decl :: "(string \<Rightarrow> string) \<Rightarrow> string \<Rightarrow> string" where
  "path_decl up path =
     ''typeway_path!(type '' @ path_to_type_name up path @ '' = '' @ path_to_macro_args path @ '');''"

definition generate_paths ::
  "(string \<Rightarrow> string) \<Rightarrow> ('op \<Rightarrow> string option) \<Rightarrow> ('op \<Rightarrow> string) \<Rightarrow>
   (string \<times> (string \<times> 'op) list) list \<Rightarrow> string list \<times> string list" where
  "generate_paths up body_type response_type paths =
     (concat (map (\<lambda>(path, methods). if methods = [] then [] else [path_decl up path]) paths),
      concat (map (\<lambda>(path, methods).
        map (\<lambda>(m, op). endpoint_type up m (path_to_type_name up path) (body_type op) (response_type op)) methods)
        paths))"

definition emit_paths :: "string list \<times> string list \<Rightarrow> string" where
  "emit_paths ps =
     (case ps of (path_decls, endpoint_types) \<Rightarrow>
        (if path_decls = [] then []
         else ''// Path type declarations'' @ [newline] @ concat (map (\<lambda>d. d @ [newline]) path_decls) @ [newline]) @
        (if endpoint_types = [] then []
         else ''type API = ('' @ [newline] @ concat (map (\<lambda>e. ''    '' @ e @ '','' @ [newline]) endpoint_types) @
           '');'' @ [newline]))"

definition code_header :: "string \<Rightarrow> string \<Rightarrow> string" where
  "code_header kind title =
     ''//! Generated from '' @ kind @ '' spec: '' @ title @ [newline] @
     ''//! Manual edits may be overwritten.'' @ [newline, newline] @
     ''use typeway::prelude::*;'' @ [newline] @
     ''use serde::{Serialize, Deserialize};'' @ [newline, newline]"

definition component_code :: "(string \<Rightarrow> string) \<Rightarrow> string \<times> OpenApi3Schema \<Rightarrow> string" where
  "component_code up c =
     (case c of (name, schema) \<Rightarrow>
        (if s3_enum schema \<noteq> [] then generate_enum_from_values up name (s3_enum schema)
         else generate_struct name (schema_to_fields_v3 schema)) @ [newline, newline])"

definition parse_source ::
  "(string \<Rightarrow> ('spec, 'e) result) \<Rightarrow> (string \<Rightarrow> ('spec, string) result) \<Rightarrow> string \<Rightarrow> string \<Rightarrow> ('spec, string) result" where
  "parse_source from_json from_yaml kind source =
     map_err (\<lambda>e. ''failed to parse '' @ kind @ '' spec: '' @ e)
       (case from_json source of Ok s \<Rightarrow> Ok s | Panic \<Rightarrow> Panic | Err _ \<Rightarrow> from_yaml source)"

definition openapi3_to_typeway ::
  "(string \<Rightarrow> string) \<Rightarrow> (string \<Rightarrow> (OpenApi3Spec, 'e) result) \<Rightarrow> (string \<Rightarrow> (OpenApi3Spec, string) result) \<Rightarrow>
   string \<Rightarrow> (string, string) result" where
  "openapi3_to_typeway up from_json from_yaml source =
     and_then (parse_source from_json from_yaml ''OpenAPI'' source) (\<lambda>spec.
       if \<not> starts_with ''3'' (p3_openapi spec) then
         Err (''expected OpenAPI 3.x, got version '' @ [CHR 0x27] @ p3_openapi spec @ [CHR 0x27])
       else
         Ok (code_header ''OpenAPI 3.x'' (p3_title spec) @
           (case p3_components spec of Some cs \<Rightarrow> concat (map (component_code up) cs) | None \<Rightarrow> []) @
           emit_paths (generate_paths up find_body_type_v3 find_response_type_v3 (p3_paths spec))))"

subsection \<open>Swagger 2.0\<close>

datatype SwaggerSchemaRef = SwaggerSchemaRef
  (r2_ref: "string option") (r2_type: "string option") (r2_format: "string option")
  (r2_items: "SwaggerSchemaRef option")

record SwaggerParameter2 =
  q2_name :: string
  q2_location :: string
  q2_schema :: "SwaggerSchemaRef option"
  q2_type :: "string option"
  q2_format :: "string option"

record SwaggerOperation2 =
  o2_parameters :: "SwaggerParameter2 list"
  o2_responses :: "(string \<times> SwaggerSchemaRef option) list"
  o2_summary :: "string option"

record SwaggerSpec =
  p2_swagger :: string
  p2_title :: string
  p2_version :: string
  p2_paths :: "(string \<times> (string \<times> SwaggerOperation2) list) list"
  p2_definitions :: "(string \<times> (string \<times> SwaggerSchemaRef) list) list"

fun schema_ref_to_rust :: "SwaggerSchemaRef \<Rightarrow> string" where
  "schema_ref_to_rust (SwaggerSchemaRef ref_path ty f items) =
     (case ref_path of
        Some r \<Rightarrow> sanitize_name (ref_to_name r)
      | None \<Rightarrow>
          (case ty of
             Some t \<Rightarrow>
               if t = ''array'' then
                 (case items of
                    Some i \<Rightarrow> ''Vec<'' @ schema_ref_to_rust i @ ''>''
                  | None \<Rightarrow> ''Vec<serde_json::Value>'')
               else openapi_type_to_rust t f
           | None \<Rightarrow> ''serde_json::Value''))"

definition schema_to_fields :: "(string \<times> SwaggerSchemaRef) list \<Rightarrow> (string \<times> string) list" where
  "schema_to_fields properties = map (\<lambda>(name, prop). (name, schema_ref_to_rust prop)) properties"

definition find_body_type_v2 :: "SwaggerOperation2 \<Rightarrow> string option" where
  "find_body_type_v2 op =
     map_option schema_ref_to_rust
       (Option.bind (find (\<lambda>p. q2_location p = ''body'' \<and> q2_schema p \<noteq> None) (o2_parameters op)) q2_schema)"

definition find_response_type_v2 :: "SwaggerOperation2 \<Rightarrow> string" where
  "find_response_type_v2 op =
     (case or_else (map_of (o2_responses op) ''200'') (map_of (o2_responses op) ''201'') of
        Some (Some schema) \<Rightarrow> schema_ref_to_rust schema
      | _ \<Rightarrow> ''serde_json::Value'')"

definition swagger_to_typeway ::
  "(string \<Rightarrow> string) \<Rightarrow> (string \<Rightarrow> (SwaggerSpec, 'e) result) \<Rightarrow> (string \<Rightarrow> (SwaggerSpec, string) result) \<Rightarrow>
   string \<Rightarrow> (string, string) result" where
  "swagger_to_typeway up from_json from_yaml source =
     and_then (parse_source from_json from_yaml ''Swagger'' source) (\<lambda>spec.
       if \<not> starts_with ''2'' (p2_swagger spec) then
         Err (''expected Swagger 2.x, got version '' @ [CHR 0x27] @ p2_swagger spec @ [CHR 0x27])
       else
         Ok (code_header ''Swagger 2.0'' (p2_title spec) @
           concat (map (\<lambda>(name, properties). generate_struct name (schema_to_fields properties) @ [newline, newline])
             (p2_definitions spec)) @
           emit_paths (generate_paths up find_body_type_v2 find_response_type_v2 (p2_paths spec))))"

end
