(* ===== verification/Openapi_Roundtrip.thy ===== *)
theory Openapi_Roundtrip
  imports Openapi_Codegen
begin

text \<open>
  From an API to a document, to JSON, and back to Rust: the derived \<^verbatim>\<open>Serialize\<close> of
  \<^verbatim>\<open>typeway-openapi/src/spec.rs\<close>, the derived \<^verbatim>\<open>Deserialize\<close> of
  \<^verbatim>\<open>codegen_v3.rs\<close> on the objects that it writes (unknown keys are skipped, a missing key is
  the default where the field has one or is an \<^verbatim>\<open>Option\<close>), and the code that the generator
  makes of an API's own document.
\<close>

subsection \<open>JSON of a document\<close>

definition json_map :: "('v \<Rightarrow> json) \<Rightarrow> (string \<times> 'v) list \<Rightarrow> json" where
  "json_map f m = json_object (map (\<lambda>(k, v). (k, Some (f v))) m)"

definition unless_empty :: "'a list \<Rightarrow> json \<Rightarrow> json option" where
  "unless_empty xs j = (if xs = [] then None else Some j)"

definition when_true :: "bool \<Rightarrow> json option" where
  "when_true b = (if b then Some (JBool b) else None)"

definition media_json :: "MediaType \<Rightarrow> json" where
  "media_json m = json_object [(''schema'', map_option schema_json (mt_schema m)), (''example'', mt_example m)]"

definition parameter_json :: "Parameter \<Rightarrow> json" where
  "parameter_json p = json_object
     [(''name'', Some (JStr (prm_name p))), (''in'', Some (location_json (prm_location p))),
      (''required'', when_true (prm_required p)), (''schema'', map_option schema_json (prm_schema p))]"

definition body_json :: "RequestBody \<Rightarrow> json" where
  "body_json b = json_object
     [(''required'', when_true (rb_required b)), (''content'', Some (json_map media_json (rb_content b)))]"

definition response_json :: "ApiResponse \<Rightarrow> json" where
  "response_json r = json_object
     [(''description'', Some (JStr (ar_description r))),
      (''content'', unless_empty (ar_content r) (json_map media_json (ar_content r)))]"

definition security_json :: "SecurityRequirement \<Rightarrow> json" where
  "security_json r = json_map (\<lambda>scopes. JArr (map JStr scopes)) r"

definition operation_json :: "Operation \<Rightarrow> json" where
  "operation_json op = json_object
     [(''summary'', map_option JStr (op_summary op)), (''description'', map_option JStr (op_description op)),
      (''operationId'', map_option JStr (op_operation_id op)),
      (''tags'', unless_empty (op_tags op) (JArr (map JStr (op_tags op)))),
      (''parameters'', unless_empty (op_parameters op) (JArr (map parameter_json (op_parameters op)))),
      (''requestBody'', map_option body_json (op_request_body op)),
      (''responses'', Some (json_map response_json (op_responses op))),
      (''security'', unless_empty (op_security op) (JArr (map security_json (op_security op)))),
      (''deprecated'', when_true (op_deprecated op))]"

definition path_item_json :: "PathItem \<Rightarrow> json" where
  "path_item_json it = json_object
     [(''get'', map_option operation_json (pi_get it)), (''post'', map_option operation_json (pi_post it)),
      (''put'', map_option operation_json (pi_put it)), (''delete'', map_option operation_json (pi_delete it)),
      (''patch'', map_option operation_json (pi_patch it)), (''head'', map_option operation_json (pi_head it)),
      (''options'', map_option operation_json (pi_options it))]"

definition scheme_json :: "SecurityScheme \<Rightarrow> json" where
  "scheme_json s = json_object
     [(''type'', Some (JStr (ss_type s))), (''scheme'', map_option JStr (ss_scheme s)),
      (''bearerFormat'', map_option JStr (ss_bearer_format s)), (''description'', map_option JStr (ss_description s))]"

definition spec_json :: "OpenApiSpec \<Rightarrow> json" where
  "spec_json spec = json_object
     [(''openapi'', Some (JStr (oa_openapi spec))),
      (''info'', Some (json_object
         [(''title'', Some (JStr (in_title (oa_info spec)))), (''version'', Some (JStr (in_version (oa_info spec)))),
          (''description'', map_option JStr (in_description (oa_info spec)))])),
      (''paths'', Some (json_map path_item_json (oa_paths spec))),
      (''components'', map_option (\<lambda>c. json_object
         [(''securitySchemes'', unless_empty c (json_map scheme_json c))]) (oa_components spec))]"

subsection \<open>Reading objects\<close>

fun read_str :: "json \<Rightarrow> string option" where
  "read_str (JStr s) = Some s"
| "read_str _ = None"

fun read_option :: "(json \<Rightarrow> 'a option) \<Rightarrow> json \<Rightarrow> 'a option option" where
  "read_option rd JNull = Some None"
| "read_option rd j = map_option Some (rd j)"

fun read_list :: "(json \<Rightarrow> 'a option) \<Rightarrow> json \<Rightarrow> 'a list option" where
  "read_list rd (JArr xs) = those (map rd xs)"
| "read_list rd _ = None"

fun read_map :: "(json \<Rightarrow> 'a option) \<Rightarrow> json \<Rightarrow> (string \<times> 'a) list option" where
  "read_map rd (JObj m) = those (map (\<lambda>(k, v). map_option (Pair k) (rd v)) m)"
| "read_map rd _ = None"

definition field_or :: "'a \<Rightarrow> (json \<Rightarrow> 'a option) \<Rightarrow> string \<Rightarrow> json \<Rightarrow> 'a option" where
  "field_or d rd k j = (case json_get k j of Some v \<Rightarrow> rd v | None \<Rightarrow> Some d)"

fun is_object :: "json \<Rightarrow> bool" where
  "is_object (JObj _) = True"
| "is_object _ = False"

definition make_schema_ref ::
  "json \<Rightarrow> SchemaRef option option \<Rightarrow> (string \<times> SchemaRef) list option \<Rightarrow> SchemaRef list option \<Rightarrow>
   SchemaRef list option \<Rightarrow> SchemaRef option" where
  "make_schema_ref j items properties all_of one_of =
     (case (field_or None (read_option read_str) ''$ref'' j, field_or None (read_option read_str) ''type'' j,
        field_or None (read_option read_str) ''format'' j, items, properties, all_of, one_of) of
        (Some r, Some t, Some f, Some i, Some p, Some a, Some v) \<Rightarrow> Some (SchemaRef r t f i p a v)
      | _ \<Rightarrow> None)"

function read_schema_ref :: "json \<Rightarrow> SchemaRef option" where
  "read_schema_ref j =
     (if \<not> is_object j then None
      else make_schema_ref j
        (case json_get ''items'' j of
           None \<Rightarrow> Some None
         | Some v \<Rightarrow> if v = JNull then Some None else map_option Some (read_schema_ref v))
        (case json_get ''properties'' j of
           None \<Rightarrow> Some []
         | Some (JObj m) \<Rightarrow> those (map (\<lambda>(k, v). map_option (Pair k) (read_schema_ref v)) m)
         | _ \<Rightarrow> None)
        (case json_get ''allOf'' j of
           None \<Rightarrow> Some []
         | Some (JArr vs) \<Rightarrow> those (map read_schema_ref vs)
         | _ \<Rightarrow> None)
        (case json_get ''oneOf'' j of
           None \<Rightarrow> Some []
         | Some (JArr vs) \<Rightarrow> those (map read_schema_ref vs)
         | _ \<Rightarrow> None))"
  by pat_completeness auto
termination
  by (relation "measure size") (auto dest: size_json_get size_json_props size_json_elems)

declare read_schema_ref.simps [simp del]

definition read_media :: "json \<Rightarrow> SchemaRef option option" where
  "read_media j = (if is_object j then field_or None (read_option read_schema_ref) ''schema'' j else None)"

definition read_body :: "json \<Rightarrow> media3 option" where
  "read_body j = (if is_object j then field_or [] (read_map read_media) ''content'' j else None)"

definition read_response :: "json \<Rightarrow> media3 option option" where
  "read_response j =
     (if is_object j then field_or None (read_option (read_map read_media)) ''content'' j else None)"

definition read_operation :: "json \<Rightarrow> OpenApi3Operation option" where
  "read_operation j =
     (if \<not> is_object j then None
      else
        Option.bind (field_or None (read_option read_str) ''summary'' j) (\<lambda>s.
        Option.bind (field_or None (read_option read_body) ''requestBody'' j) (\<lambda>b.
        Option.bind (field_or [] (read_map read_response) ''responses'' j) (\<lambda>r.
        Some \<lparr>o3_summary = s, o3_request_body = b, o3_responses = r\<rparr>))))"

definition read_schema3 :: "json \<Rightarrow> OpenApi3Schema option" where
  "read_schema3 j =
     (if \<not> is_object j then None
      else
        Option.bind (field_or None (read_option read_str) ''type'' j) (\<lambda>t.
        Option.bind (field_or None (read_option read_str) ''format'' j) (\<lambda>f.
        Option.bind (field_or [] (read_map read_schema_ref) ''properties'' j) (\<lambda>p.
        Option.bind (field_or None (read_option read_schema_ref) ''items'' j) (\<lambda>i.
        Option.bind (field_or [] (read_list read_str) ''enum'' j) (\<lambda>e.
        Option.bind (field_or [] (read_list read_str) ''required'' j) (\<lambda>r.
        Some \<lparr>s3_type = t, s3_format = f, s3_properties = p, s3_items = i, s3_enum = e, s3_required = r\<rparr>)))))))"

definition read_info :: "json \<Rightarrow> (string \<times> string) option" where
  "read_info j =
     (if \<not> is_object j then None
      else
        Option.bind (field_or [] read_str ''title'' j) (\<lambda>t.
        Option.bind (field_or [] read_str ''version'' j) (\<lambda>v. Some (t, v))))"

definition read_components :: "json \<Rightarrow> (string \<times> OpenApi3Schema) list option" where
  "read_components j = (if is_object j then field_or [] (read_map read_schema3) ''schemas'' j else None)"

definition read_spec3 :: "json \<Rightarrow> OpenApi3Spec option" where
  "read_spec3 j =
     (if \<not> is_object j then None
      else
        Option.bind (Option.bind (json_get ''openapi'' j) read_str) (\<lambda>v.
        Option.bind (field_or ([], []) read_info ''info'' j) (\<lambda>(title, version).
        Option.bind (field_or [] (read_map (read_map read_operation)) ''paths'' j) (\<lambda>p.
        Option.bind (field_or None (read_option read_components) ''components'' j) (\<lambda>c.
        Some \<lparr>p3_openapi = v, p3_title = title, p3_version = version, p3_paths = p, p3_components = c\<rparr>)))))"

subsection \<open>Reading what was written\<close>

text \<open>\<^verbatim>\<open>BTreeMap::from_iter\<close>.\<close>

definition sort_entries :: "(string \<times> 'v) list \<Rightarrow> (string \<times> 'v) list" where
  "sort_entries m = object_entries (map (\<lambda>(k, v). (k, Some v)) m)"

lemma sort_entries_map: "map (\<lambda>(k, v). (k, g v)) (sort_entries m) = sort_entries (map (\<lambda>(k, v). (k, g v)) m)"
  unfolding sort_entries_def object_entries_map by (simp add: comp_def split_def)

lemma set_obj_insert: "e \<in> set (obj_insert k v m) \<Longrightarrow> e = (k, v) \<or> e \<in> set m"
  by (induction k v m rule: obj_insert.induct) (auto split: if_splits)

lemma set_optional_inserts:
  "(k, v) \<in> set (fold (\<lambda>(k, v) m. case v of Some j \<Rightarrow> obj_insert k j m | None \<Rightarrow> m) members m) \<Longrightarrow>
   (k, Some v) \<in> set members \<or> (k, v) \<in> set m"
proof (induction members arbitrary: m)
  case (Cons e members)
  obtain k' o' where e: "e = (k', o')" by force
  from Cons.prems have "(k, v) \<in> set (fold (\<lambda>(k, v) m. case v of Some j \<Rightarrow> obj_insert k j m | None \<Rightarrow> m) members
      (case o' of Some j \<Rightarrow> obj_insert k' j m | None \<Rightarrow> m))" by (simp add: e)
  from Cons.IH [OF this] show ?case by (auto simp: e split: option.splits dest: set_obj_insert)
qed simp

lemma set_object_entries: "(k, v) \<in> set (object_entries members) \<Longrightarrow> (k, Some v) \<in> set members"
  unfolding object_entries_def using set_optional_inserts [of k v members "[]"] by simp

lemma set_sort_entries: "(k, v) \<in> set (sort_entries m) \<Longrightarrow> (k, v) \<in> set m"
  unfolding sort_entries_def by (drule set_object_entries) auto

lemma map_of_sort_entries: "distinct (map fst m) \<Longrightarrow> map_of (sort_entries m) = map_of m"
proof
  fix x
  assume "distinct (map fst m)"
  then have "distinct (map fst (map (\<lambda>(k, v). (k, Some v)) m))" by (simp add: comp_def split_def)
  from map_of_object_entries [OF this, of x] show "map_of (sort_entries m) x = map_of m x"
    by (simp add: sort_entries_def map_of_map split: option.splits)
qed

lemma those_map: "(\<And>x. x \<in> set xs \<Longrightarrow> f x = Some (g x)) \<Longrightarrow> those (map f xs) = Some (map g xs)"
  by (induction xs) auto

lemma read_map_json_map:
  assumes "\<And>k v. (k, v) \<in> set m \<Longrightarrow> rd (f v) = Some (g v)"
  shows "read_map rd (json_map f m) = Some (sort_entries (map (\<lambda>(k, v). (k, g v)) m))"
proof -
  let ?E = "object_entries (map (\<lambda>(k, v). (k, Some (f v))) m)"
  have "map_option (Pair k) (rd j) = Some (k, the (rd j))" if "(k, j) \<in> set ?E" for k j
    using set_object_entries [OF that] assms by auto
  then have "read_map rd (json_map f m) = Some (map (\<lambda>(k, j). (k, the (rd j))) ?E)"
    by (simp add: json_map_def json_object_entries, intro those_map) auto
  also have "map (\<lambda>(k, j). (k, the (rd j))) ?E = object_entries (map (\<lambda>(k, v). (k, Some (the (rd (f v))))) m)"
    by (rule object_entries_map)
  also have "map (\<lambda>(k, v). (k, Some (the (rd (f v))))) m = map (\<lambda>(k, v). (k, Some (g v))) m"
    using assms by (intro map_cong) auto
  finally show ?thesis by (simp add: sort_entries_def comp_def split_def)
qed

lemma json_get_object:
  "distinct (map fst members) \<Longrightarrow>
   json_get k (json_object members) = (case map_of members k of Some v \<Rightarrow> v | None \<Rightarrow> None)"
  by (simp add: json_get_def json_object_entries map_of_object_entries)

lemma field_or_object:
  "distinct (map fst members) \<Longrightarrow>
   field_or d rd k (json_object members) = (case map_of members k of Some (Some v) \<Rightarrow> rd v | _ \<Rightarrow> Some d)"
  by (simp add: field_or_def json_get_object split: option.splits)

lemma is_object_object [simp]: "is_object (json_object members)" "is_object (json_map f m)"
  by (simp_all add: json_object_def json_map_def)

lemma read_option_object [simp]:
  "read_option rd (json_object members) = map_option Some (rd (json_object members))"
  "read_option rd (json_map f m) = map_option Some (rd (json_map f m))"
  by (simp_all add: json_object_def json_map_def)

text \<open>What the reader keeps of each part of a document.\<close>

fun ref_of :: "Schema \<Rightarrow> SchemaRef" where
  "ref_of (Schema t f i p d v e dc) =
     SchemaRef None t f (map_option ref_of i)
       (case p of Some m \<Rightarrow> sort_entries (map (\<lambda>(k, s). (k, ref_of s)) m) | None \<Rightarrow> []) []
       (case v of Some vs \<Rightarrow> map ref_of vs | None \<Rightarrow> [])"

definition media3_of :: "(string \<times> MediaType) list \<Rightarrow> media3" where
  "media3_of content = sort_entries (map (\<lambda>(k, m). (k, map_option ref_of (mt_schema m))) content)"

definition response3_of :: "ApiResponse \<Rightarrow> media3 option" where
  "response3_of r = (if ar_content r = [] then None else Some (media3_of (ar_content r)))"

definition operation3_of :: "Operation \<Rightarrow> OpenApi3Operation" where
  "operation3_of op =
     \<lparr>o3_summary = op_summary op, o3_request_body = map_option (\<lambda>b. media3_of (rb_content b)) (op_request_body op),
      o3_responses = sort_entries (map (\<lambda>(k, r). (k, response3_of r)) (op_responses op))\<rparr>"

definition present :: "(string \<times> 'v option) list \<Rightarrow> (string \<times> 'v) list" where
  "present members = concat (map (\<lambda>(k, v). case v of Some x \<Rightarrow> [(k, x)] | None \<Rightarrow> []) members)"

definition methods3_of :: "PathItem \<Rightarrow> (string \<times> OpenApi3Operation) list" where
  "methods3_of it = present (map (\<lambda>(k, op). (k, map_option operation3_of op))
     [(''delete'', pi_delete it), (''get'', pi_get it), (''head'', pi_head it), (''options'', pi_options it),
      (''patch'', pi_patch it), (''post'', pi_post it), (''put'', pi_put it)])"

definition spec3_of :: "OpenApiSpec \<Rightarrow> OpenApi3Spec" where
  "spec3_of spec =
     \<lparr>p3_openapi = oa_openapi spec, p3_title = in_title (oa_info spec), p3_version = in_version (oa_info spec),
      p3_paths = sort_entries (map (\<lambda>(p, it). (p, methods3_of it)) (oa_paths spec)),
      p3_components = map_option (\<lambda>_. []) (oa_components spec)\<rparr>"

lemma read_schema_ref_json: "read_schema_ref (schema_json s) = Some (ref_of s)"
proof (induction s rule: schema_json.induct)
  case (1 t f i p d v e dc)
  let ?j = "schema_json (Schema t f i p d v e dc)"
  have get: "json_get x ?j =
      (if x = ''discriminator'' then map_option discriminator_json dc
       else if x = ''enum'' then map_option JArr e
       else if x = ''oneOf'' then map_option (\<lambda>vs. JArr (map schema_json vs)) v
       else if x = ''description'' then map_option JStr d
       else if x = ''properties'' then map_option (json_map schema_json) p
       else if x = ''items'' then map_option schema_json i
       else if x = ''format'' then map_option JStr f
       else if x = ''type'' then map_option JStr t else None)" for x
    by (simp add: json_get_object json_map_def [abs_def])
  have obj: "is_object ?j" by simp
  have nn: "schema_json x \<noteq> JNull" for x by (cases x) (simp add: json_object_def)
  have strs: "field_or None (read_option read_str) ''$ref'' ?j = Some None"
    "field_or None (read_option read_str) ''type'' ?j = Some t"
    "field_or None (read_option read_str) ''format'' ?j = Some f"
    unfolding field_or_def get by (cases t; cases f; simp)+
  have items: "(case json_get ''items'' ?j of None \<Rightarrow> Some None
      | Some v \<Rightarrow> if v = JNull then Some None else map_option Some (read_schema_ref v)) = Some (map_option ref_of i)"
    unfolding get using 1(1) nn by (cases i) simp_all
  have properties: "(case json_get ''properties'' ?j of None \<Rightarrow> Some []
      | Some (JObj m) \<Rightarrow> those (map (\<lambda>(k, v). map_option (Pair k) (read_schema_ref v)) m) | _ \<Rightarrow> None) =
      Some (case p of Some m \<Rightarrow> sort_entries (map (\<lambda>(k, s). (k, ref_of s)) m) | None \<Rightarrow> [])"
  proof (cases p)
    case (Some m)
    have "read_map read_schema_ref (json_map schema_json m) = Some (sort_entries (map (\<lambda>(k, s). (k, ref_of s)) m))"
      by (rule read_map_json_map) (use 1(2) [OF Some] in auto)
    then show ?thesis unfolding get by (simp add: Some json_map_def json_object_def)
  next
    case None
    then show ?thesis unfolding get by simp
  qed
  have variants: "(case json_get ''oneOf'' ?j of None \<Rightarrow> Some []
      | Some (JArr vs) \<Rightarrow> those (map read_schema_ref vs) | _ \<Rightarrow> None) =
      Some (case v of Some vs \<Rightarrow> map ref_of vs | None \<Rightarrow> [])"
    unfolding get using 1(3) those_map [of "the v" "\<lambda>s. read_schema_ref (schema_json s)" ref_of]
    by (cases v) (simp_all add: comp_def)
  have none: "json_get ''allOf'' ?j = None" unfolding get by simp
  show ?case
    unfolding read_schema_ref.simps [of ?j] items properties variants none
    using obj by (simp add: make_schema_ref_def strs del: schema_json.simps)
qed

lemma read_media_json: "read_media (media_json m) = Some (map_option ref_of (mt_schema m))"
proof -
  have nn: "schema_json x \<noteq> JNull" for x by (cases x) (simp add: json_object_def)
  have "read_option read_schema_ref (schema_json x) = Some (Some (ref_of x))" for x
    using nn [of x] read_schema_ref_json [of x] by (cases "schema_json x") auto
  then show ?thesis
    by (cases "mt_schema m") (simp_all add: read_media_def media_json_def field_or_object)
qed

lemma read_content: "read_map read_media (json_map media_json c) = Some (media3_of c)"
  unfolding media3_of_def by (rule read_map_json_map) (simp add: read_media_json)

lemma read_body_json: "read_body (body_json b) = Some (media3_of (rb_content b))"
  by (simp add: read_body_def body_json_def field_or_object read_content)

lemma read_response_json: "read_response (response_json r) = Some (response3_of r)"
  by (simp add: read_response_def response_json_def field_or_object unless_empty_def response3_of_def read_content)

lemma read_responses: "read_map read_response (json_map response_json m) =
    Some (sort_entries (map (\<lambda>(k, r). (k, response3_of r)) m))"
  by (rule read_map_json_map) (simp add: read_response_json)

lemma read_operation_json: "read_operation (operation_json op) = Some (operation3_of op)"
proof -
  have body: "read_option read_body (body_json b) = Some (Some (media3_of (rb_content b)))" for b
    using read_body_json [of b] by (simp add: body_json_def)
  show ?thesis
    by (cases "op_summary op"; cases "op_request_body op")
      (simp_all add: read_operation_def operation_json_def field_or_object read_responses body operation3_of_def)
qed

text \<open>The methods of a path come in the order of their keys.\<close>

lemma map_of_present:
  "distinct (map fst members) \<Longrightarrow> map_of (present members) x = (case map_of members x of Some v \<Rightarrow> v | None \<Rightarrow> None)"
proof (induction members)
  case (Cons e members)
  obtain k v where e: "e = (k, v)" by force
  have "map_of members k = None" using Cons.prems by (simp add: e map_of_None_fst)
  with Cons show ?case by (auto simp: e present_def split: option.splits)
qed (simp add: present_def)

lemma present_keys: "fst ` set (present members) \<subseteq> fst ` set members"
  by (force simp: present_def split: option.splits)

lemma present_sorted: "sorted_wrt str_less (map fst members) \<Longrightarrow> obj_sorted (present members)"
proof (induction members)
  case (Cons e members)
  obtain k v where e: "e = (k, v)" by force
  have "present (e # members) = (case v of Some x \<Rightarrow> [(k, x)] | None \<Rightarrow> []) @ present members"
    by (simp add: e present_def)
  moreover have "\<forall>k'\<in>fst ` set (present members). str_less k k'"
    using Cons.prems present_keys [of members] by (fastforce simp: e)
  ultimately show ?case
    using Cons by (simp add: e obj_sorted_Cons split: option.splits)
qed (simp add: present_def obj_sorted_def)

lemma object_entries_present:
  assumes "distinct (map fst members)" "sorted_wrt str_less (map fst sorted')" "map_of members = map_of sorted'"
  shows "object_entries members = present sorted'"
proof (rule obj_sorted_eqI)
  have "distinct (map fst sorted')"
    using assms(2) str_less_irrefl by (auto simp: strict_sorted_iff distinct_conv_nth sorted_wrt_iff_nth_less) (metis nat_neq_iff)
  then show "map_of (object_entries members) = map_of (present sorted')"
    using assms(1,3) by (simp add: fun_eq_iff map_of_object_entries map_of_present)
qed (simp_all add: present_sorted assms(2))

lemma present_map: "present (map (\<lambda>(k, v). (k, map_option f v)) ms) = map (\<lambda>(k, v). (k, f v)) (present ms)"
  by (induction ms) (auto simp: present_def split: option.splits)

lemma path_item_entries:
  "path_item_json it = JObj (present (map (\<lambda>(k, op). (k, map_option operation_json op))
     [(''delete'', pi_delete it), (''get'', pi_get it), (''head'', pi_head it), (''options'', pi_options it),
      (''patch'', pi_patch it), (''post'', pi_post it), (''put'', pi_put it)]))"
  unfolding path_item_json_def json_object_entries
  by (intro arg_cong [of _ _ JObj] object_entries_present) (auto simp: fun_eq_iff)

lemma read_path_item: "read_map read_operation (path_item_json it) = Some (methods3_of it)"
proof -
  have "those (map (\<lambda>(k, v). map_option (Pair k) (read_operation v)) (map (\<lambda>(k, op). (k, operation_json op)) ops)) =
      Some (map (\<lambda>(k, op). (k, operation3_of op)) ops)" for ops
    using those_map [of ops "\<lambda>(k, op). map_option (Pair k) (read_operation (operation_json op))" "\<lambda>(k, op). (k, operation3_of op)"]
    by (auto simp: read_operation_json comp_def split_def)
  then show ?thesis by (simp only: path_item_entries methods3_of_def present_map read_map.simps)
qed

lemma read_spec_json: "read_spec3 (spec_json spec) = Some (spec3_of spec)"
proof -
  have paths: "read_map (read_map read_operation) (json_map path_item_json ps) =
      Some (sort_entries (map (\<lambda>(p, it). (p, methods3_of it)) ps))" for ps
    by (rule read_map_json_map) (simp add: read_path_item)
  show ?thesis
    by (cases "oa_components spec")
      (simp_all add: read_spec3_def spec_json_def json_get_object field_or_object read_info_def paths
        read_components_def unless_empty_def spec3_of_def)
qed

subsection \<open>Types that come back\<close>

text \<open>The type that the generator writes for the schema of a type, and its text. The text of a
  user's type is that of its schema: documents have no named schemas.\<close>

fun regenerated :: "schema_ty \<Rightarrow> schema_ty" where
  "regenerated OString = OString"
| "regenerated OStr = OString"
| "regenerated OU8 = OI32"
| "regenerated OU16 = OI32"
| "regenerated OU32 = OI32"
| "regenerated OU64 = OI64"
| "regenerated OI32 = OI32"
| "regenerated OI64 = OI64"
| "regenerated OF32 = OF64"
| "regenerated OF64 = OF64"
| "regenerated OBool = OBool"
| "regenerated OUnit = OValue"
| "regenerated OValue = OValue"
| "regenerated OStatusCode = OI32"
| "regenerated (OVec t) = OVec (regenerated t)"
| "regenerated (OOption t) = regenerated t"
| "regenerated (OBox t) = regenerated t"
| "regenerated (OArc t) = regenerated t"
| "regenerated (OHashMap k v) = OValue"
| "regenerated (OIndexMap k v) = OValue"
| "regenerated (OUser t) = OUser t"

fun rust_text :: "(ty \<Rightarrow> Schema) \<Rightarrow> schema_ty \<Rightarrow> string" where
  "rust_text us OI32 = ''i32''"
| "rust_text us OI64 = ''i64''"
| "rust_text us OF64 = ''f64''"
| "rust_text us OBool = ''bool''"
| "rust_text us OString = ''String''"
| "rust_text us (OVec t) = ''Vec<'' @ rust_text us t @ ''>''"
| "rust_text us (OUser t) = schema_ref_to_rust_v3 (ref_of (us t))"
| "rust_text us _ = ''serde_json::Value''"

lemmas schema_defs = schema_string_def schema_number_def schema_boolean_def schema_object_def
  schema_of_type_def schema_integer_def schema_integer64_def schema_array_def

lemma rust_of_schema: "schema_ref_to_rust_v3 (ref_of (schema_of us t)) = rust_text us (regenerated t)"
  by (induction t) (simp_all add: schema_defs openapi_type_to_rust_def)

lemma regenerated_schema: "schema_of us (regenerated t) = schema_of us t"
  by (induction t) simp_all

subsection \<open>Code that comes back\<close>

definition key_order :: "HttpMethod list" where
  "key_order = [Delete, Get, Head, Options, Patch, Post, Put]"

lemma methods3_by_key:
  "methods3_of it = present (map (\<lambda>m. (method_key m, map_option operation3_of (operation_at (METHOD m) it))) key_order)"
  by (simp add: methods3_of_def key_order_def operation_at_eq)

definition sorted_strings :: "string list \<Rightarrow> string list" where
  "sorted_strings xs = map fst (sort_entries (map (\<lambda>x. (x, ())) xs))"

lemma obj_sorted_sort [simp]: "obj_sorted (sort_entries m)"
  by (simp add: sort_entries_def)

lemma fst_set_sort: "distinct (map fst m) \<Longrightarrow> fst ` set (sort_entries m) = fst ` set m"
  using map_of_sort_entries [of m] by (metis dom_map_of_conv_image_fst)

lemma map_of_units: "map_of (map (\<lambda>x. (x, ())) xs) x = (if x \<in> set xs then Some () else None)"
  by (induction xs) auto

lemma sorted_units: "obj_sorted m \<Longrightarrow> obj_sorted (map (\<lambda>(k, v). (k, ())) m)"
  by (simp add: obj_sorted_def comp_def split_def)

lemma map_of_inserts:
  "map_of (fold (\<lambda>(k, v) m. case v of Some j \<Rightarrow> obj_insert k j m | None \<Rightarrow> m) (map (\<lambda>x. (x, Some ())) xs) m) x =
     (if x \<in> set xs then Some () else map_of m x)"
  by (induction xs arbitrary: m) (auto simp: map_of_obj_insert)

lemma map_of_sort_units: "map_of (sort_entries (map (\<lambda>x. (x, ())) xs)) x = (if x \<in> set xs then Some () else None)"
  using map_of_inserts [of xs "[]" x] by (simp add: sort_entries_def object_entries_def comp_def)

lemma sorted_keys:
  assumes "distinct (map fst m)" "fst ` set m = set xs"
  shows "map fst (sort_entries m) = sorted_strings xs"
proof -
  have "map (\<lambda>(k, v). (k, ())) (sort_entries m) = sort_entries (map (\<lambda>x. (x, ())) xs)"
  proof (rule obj_sorted_eqI)
    have "map_of (map (\<lambda>(k, v). (k, ())) (sort_entries m)) x = map_option (\<lambda>_. ()) (map_of m x)" for x
      using map_of_sort_entries [OF assms(1)] by (simp add: map_of_map)
    moreover have "map_of m x = None \<longleftrightarrow> x \<notin> set xs" for x
      using assms(2) by (simp add: map_of_eq_None_iff)
    ultimately show "map_of (map (\<lambda>(k, v). (k, ())) (sort_entries m)) = map_of (sort_entries (map (\<lambda>x. (x, ())) xs))"
      by (fastforce simp: fun_eq_iff map_of_sort_units)
  qed (simp_all add: sorted_units)
  then have "map fst (map (\<lambda>(k, v). (k, ())) (sort_entries m)) = sorted_strings xs"
    by (simp only: sorted_strings_def)
  then show ?thesis by (simp add: comp_def split_def)
qed

definition type_text :: "openapi_traits \<Rightarrow> ty \<Rightarrow> string" where
  "type_text tr t = rust_text (ot_schema tr) (regenerated (the (ot_type tr t)))"

lemma type_text_schema: "schema_ref_to_rust_v3 (ref_of (ty_schema tr t)) = type_text tr t"
  by (simp add: type_text_def ty_schema_def rust_of_schema)

definition endpoint_line :: "(string \<Rightarrow> string) \<Rightarrow> openapi_traits \<Rightarrow> HttpMethod \<Rightarrow> api \<Rightarrow> string" where
  "endpoint_line up tr m a =
     (case operation_endpoint a of
        None \<Rightarrow> []
      | Some e \<Rightarrow> endpoint_type up (method_key m) (path_to_type_name up (path_pattern (en_path e)))
          (if en_req e = ''NoBody'' then None else Some (type_text tr (en_req e))) (type_text tr (en_res e)))"

text \<open>The last endpoint of an API at a path and a method.\<close>

definition endpoint_at :: "api \<Rightarrow> string \<Rightarrow> HttpMethod \<Rightarrow> api option" where
  "endpoint_at api p m =
     find (\<lambda>e. operation_pattern e = p \<and> operation_method e = METHOD m) (rev (endpoints_of api))"

text \<open>The error type of an endpoint has no response of its own for success.\<close>

definition errors_only :: "openapi_traits \<Rightarrow> api \<Rightarrow> bool" where
  "errors_only tr a \<longleftrightarrow>
     (case operation_endpoint a of
        Some e \<Rightarrow> map_of (error_responses tr (en_err e)) ''200'' = None
      | None \<Rightarrow> True)"

lemma map_of_updates:
  "map_of es k = None \<Longrightarrow> map_of (fold (\<lambda>(k, r). AList.update k r) es m) k = map_of m k"
  by (induction es arbitrary: m) (auto simp: update_conv' split: if_splits)

lemma distinct_updates:
  "distinct (map fst m) \<Longrightarrow> distinct (map fst (fold (\<lambda>(k, r). AList.update k r) es m))"
  by (induction es arbitrary: m) (auto simp: distinct_update)

lemma endpoint_operation_types:
  assumes "endpoint_operation tr e = Some op" "map_of (error_responses tr (en_err e)) ''200'' = None"
  shows "find_body_type_v3 (operation3_of op) = (if en_req e = ''NoBody'' then None else Some (type_text tr (en_req e))) \<and>
    find_response_type_v3 (operation3_of op) = type_text tr (en_res e)"
proof -
  let ?ok = "\<lparr>ar_description = ''Successful response'', ar_content = json_content tr (en_res e)\<rparr>"
  have resp: "op_responses op = fold (\<lambda>(k, r). AList.update k r) (error_responses tr (en_err e)) [(''200'', ?ok)]"
    and body: "op_request_body op = (if en_req e = ''NoBody'' then None
      else Some \<lparr>rb_required = True, rb_content = json_content tr (en_req e)\<rparr>)"
    using assms(1) by (auto simp: endpoint_operation_def operation_new_def Let_def split: option.splits if_splits)
  have content: "media3_of (json_content tr t) = [(''application/json'', Some (ref_of (ty_schema tr t)))]" for t
    by (simp add: media3_of_def json_content_def sort_entries_def object_entries_def)
  have "distinct (map fst (op_responses op))" unfolding resp by (rule distinct_updates) simp
  then have "distinct (map fst (map (\<lambda>(k, r). (k, response3_of r)) (op_responses op)))" by (simp add: comp_def split_def)
  from map_of_sort_entries [OF this]
  have "map_of (o3_responses (operation3_of op)) ''200'' = map_option response3_of (map_of (op_responses op) ''200'')"
    by (simp add: operation3_of_def map_of_map)
  also have "map_of (op_responses op) ''200'' = Some ?ok"
    unfolding resp using map_of_updates [OF assms(2)] by simp
  finally have "map_of (o3_responses (operation3_of op)) ''200'' = Some (Some [(''application/json'', Some (ref_of (ty_schema tr (en_res e))))])"
    by (simp add: response3_of_def content) (simp add: json_content_def)
  then show ?thesis
    by (simp add: find_response_type_v3_def find_body_type_v3_def or_else_def json_or_first_def type_text_schema
      operation3_of_def body content)
qed

lemma to_operation_types:
  assumes "to_operation tr a = Some op" "errors_only tr a"
  shows "endpoint_line up tr m a =
    endpoint_type up (method_key m) (path_to_type_name up (operation_pattern a))
      (find_body_type_v3 (operation3_of op)) (find_response_type_v3 (operation3_of op))"
proof -
  have "\<exists>e op'. operation_endpoint a = Some e \<and> endpoint_operation tr e = Some op' \<and>
      operation3_of op' = operation3_of op"
    using assms(1) by (induction tr a arbitrary: op rule: to_operation.induct) (fastforce simp: operation3_of_def)+
  then obtain e op' where e: "operation_endpoint a = Some e" "endpoint_operation tr e = Some op'"
    "operation3_of op' = operation3_of op" by blast
  with assms(2) endpoint_operation_types [OF e(2)] show ?thesis
    by (simp add: endpoint_line_def operation_pattern_def errors_only_def)
qed

lemma find_keyed: "map_of (map (\<lambda>e. (k e, g e)) xs) x = map_option g (find (\<lambda>e. k e = x) xs)"
  by (induction xs) auto

lemma api_operation_at:
  "map_of (rev (api_operations tr api)) (p, METHOD m) =
     map_option (\<lambda>e. the (to_operation tr e)) (endpoint_at api p m)"
  by (simp add: api_operations_def endpoint_at_def rev_map find_keyed)

lemma endpoint_at_in:
  "endpoint_at api p m = Some e \<Longrightarrow> e \<in> set (endpoints_of api) \<and> operation_pattern e = p \<and> operation_method e = METHOD m"
  by (auto simp: endpoint_at_def dest: find_in) (auto simp: find_Some_iff)

lemma operation_method_ex: "to_operation tr a \<noteq> None \<Longrightarrow> \<exists>m. operation_method a = METHOD m"
proof -
  assume "to_operation tr a \<noteq> None"
  then have "operation_endpoint a \<noteq> None" by (induction tr a rule: to_operation.induct) auto
  then show ?thesis by (auto simp: operation_method_def)
qed

lemma endpoint_at_exists:
  assumes "e \<in> set (endpoints_of api)" "to_operation tr e \<noteq> None"
  shows "\<exists>m. endpoint_at api (operation_pattern e) m \<noteq> None"
proof -
  obtain m where "operation_method e = METHOD m" using operation_method_ex [OF assms(2)] by blast
  with assms(1) have "endpoint_at api (operation_pattern e) m \<noteq> None"
    by (auto simp: endpoint_at_def find_None_iff)
  then show ?thesis by blast
qed

lemma in_key_order [simp]: "m \<in> set key_order"
  by (cases m) (simp_all add: key_order_def)

lemma present_empty: "present members = [] \<longleftrightarrow> (\<forall>(k, v)\<in>set members. v = None)"
  by (auto simp: present_def split: option.splits)

lemma operation3_auto_tag [simp]: "operation3_of (auto_tag p op) = operation3_of op"
  by (simp add: auto_tag_def operation3_of_def split: option.splits)

definition endpoint_lines :: "(string \<Rightarrow> string) \<Rightarrow> openapi_traits \<Rightarrow> api \<Rightarrow> string \<Rightarrow> string list" where
  "endpoint_lines up tr api p =
     concat (map (\<lambda>m. case endpoint_at api p m of Some e \<Rightarrow> [endpoint_line up tr m e] | None \<Rightarrow> []) key_order)"

lemma methods_of_path:
  assumes "to_spec tr title version api = Some spec" "map_of (oa_paths spec) p = Some it"
  shows "methods3_of it = present (map (\<lambda>m. (method_key m,
      map_option (\<lambda>e. operation3_of (the (to_operation tr e))) (endpoint_at api p m))) key_order)"
proof -
  have "operation_at (METHOD m) it = spec_operation spec p (METHOD m)" for m
    by (simp add: spec_operation_def path_entry_def assms(2))
  then have "map_option operation3_of (operation_at (METHOD m) it) =
      map_option (\<lambda>e. operation3_of (the (to_operation tr e))) (endpoint_at api p m)" for m
    by (simp add: to_spec_operation [OF assms(1)] api_operation_at option.map_comp comp_def)
  then show ?thesis by (simp add: methods3_by_key)
qed

lemma spec_path_lines:
  assumes "to_spec tr title version api = Some spec" "list_all (errors_only tr) (endpoints_of api)"
    "map_of (oa_paths spec) p = Some it"
  shows "map (\<lambda>(m, op). endpoint_type up m (path_to_type_name up p) (find_body_type_v3 op) (find_response_type_v3 op))
      (methods3_of it) = endpoint_lines up tr api p"
proof -
  have impl: "to_operation tr e \<noteq> None" if "e \<in> set (endpoints_of api)" for e
    using assms(1) by (rule to_spec_collected) (use that in \<open>simp add: list_all_iff\<close>)
  have line: "endpoint_type up (method_key m) (path_to_type_name up p)
      (find_body_type_v3 (operation3_of (the (to_operation tr e)))) (find_response_type_v3 (operation3_of (the (to_operation tr e)))) =
      endpoint_line up tr m e" if "endpoint_at api p m = Some e" for m e
  proof -
    note e = endpoint_at_in [OF that]
    then obtain op where "to_operation tr e = Some op" using impl by blast
    then show ?thesis using to_operation_types [of tr e op up m] e assms(2) by (simp add: list_all_iff)
  qed
  have "map f (present (map (\<lambda>m. (method_key m, map_option g (endpoint_at api p m))) ms)) =
      concat (map (\<lambda>m. case endpoint_at api p m of Some e \<Rightarrow> [f (method_key m, g e)] | None \<Rightarrow> []) ms)"
    for f :: "string \<times> OpenApi3Operation \<Rightarrow> string" and g ms
    by (induction ms) (auto simp: present_def split: option.splits)
  note this [of "\<lambda>(m, op). endpoint_type up m (path_to_type_name up p) (find_body_type_v3 op) (find_response_type_v3 op)"
    "\<lambda>e. operation3_of (the (to_operation tr e))" key_order]
  moreover have "(case endpoint_at api p m of Some e \<Rightarrow>
        [(\<lambda>(m, op). endpoint_type up m (path_to_type_name up p) (find_body_type_v3 op) (find_response_type_v3 op))
          (method_key m, operation3_of (the (to_operation tr e)))] | None \<Rightarrow> []) =
      (case endpoint_at api p m of Some e \<Rightarrow> [endpoint_line up tr m e] | None \<Rightarrow> [])" for m
    using line by (simp split: option.splits)
  ultimately show ?thesis
    unfolding methods_of_path [OF assms(1,3)] endpoint_lines_def by simp
qed

lemma path_has_methods:
  assumes "to_spec tr title version api = Some spec" "map_of (oa_paths spec) p = Some it"
  shows "methods3_of it \<noteq> []"
proof -
  have "p \<in> set (map fst (oa_paths spec))" using map_of_SomeD [OF assms(2)] by force
  then obtain e where e: "e \<in> set (endpoints_of api)" "operation_pattern e = p"
    unfolding to_spec_paths [OF assms(1)] by auto
  from assms(1) have "to_operation tr e \<noteq> None"
    by (rule to_spec_collected) (use e(1) in \<open>simp add: list_all_iff\<close>)
  with e obtain m where "endpoint_at api p m \<noteq> None" using endpoint_at_exists by blast
  then show ?thesis
    unfolding methods_of_path [OF assms] present_empty
    by (auto simp: in_key_order intro!: bexI [of _ m])
qed

lemma add_all_fields: "oa_info (add_all ops spec) = oa_info spec \<and> oa_openapi (add_all ops spec) = oa_openapi spec"
  by (induction ops arbitrary: spec) (auto simp: add_operation_def)

lemma to_spec_fields:
  assumes "to_spec tr title version api = Some spec"
  shows "in_title (oa_info spec) = title \<and> oa_openapi spec = ''3.1.0''"
  using assms
  by (elim to_spec_collected)
    (simp add: collect_security_schemes_def auto_tag_operations_def add_all_fields spec_new_def Let_def)

lemma generate_paths_spec:
  assumes "to_spec tr title version api = Some spec" "list_all (errors_only tr) (endpoints_of api)"
  shows "generate_paths up find_body_type_v3 find_response_type_v3 (p3_paths (spec3_of spec)) =
    (let ps = sorted_strings (map operation_pattern (endpoints_of api))
     in (map (path_decl up) ps, concat (map (endpoint_lines up tr api) ps)))"
proof -
  let ?entries = "sort_entries (oa_paths spec)"
  have d: "distinct (map fst (oa_paths spec))" using to_spec_paths [OF assms(1)] by simp
  have "fst ` set (oa_paths spec) = set (map operation_pattern (endpoints_of api))"
    using arg_cong [OF to_spec_paths [OF assms(1)], of set] by simp
  from sorted_keys [OF d this] have keys: "map fst ?entries = sorted_strings (map operation_pattern (endpoints_of api))" .
  have paths: "p3_paths (spec3_of spec) = map (\<lambda>(p, it). (p, methods3_of it)) ?entries"
    by (simp add: spec3_of_def sort_entries_map)
  have entry: "map_of (oa_paths spec) p = Some it" if "(p, it) \<in> set ?entries" for p it
    using set_sort_entries [OF that] d by simp
  have has: "methods3_of it \<noteq> []" if "(p, it) \<in> set ?entries" for p it
    using path_has_methods [OF assms(1) entry [OF that]] .
  have lines: "map (\<lambda>(m, op). endpoint_type up m (path_to_type_name up p) (find_body_type_v3 op) (find_response_type_v3 op))
      (methods3_of it) = endpoint_lines up tr api p" if "(p, it) \<in> set ?entries" for p it
    using spec_path_lines [OF assms entry [OF that]] .
  have "map (\<lambda>(path, methods). if methods = [] then [] else [path_decl up path]) (map (\<lambda>(p, it). (p, methods3_of it)) ?entries) =
      map (\<lambda>p. [path_decl up p]) (map fst ?entries)"
    using has by auto
  moreover have "map (\<lambda>(path, methods). map (\<lambda>(m, op). endpoint_type up m (path_to_type_name up path)
        (find_body_type_v3 op) (find_response_type_v3 op)) methods) (map (\<lambda>(p, it). (p, methods3_of it)) ?entries) =
      map (endpoint_lines up tr api) (map fst ?entries)"
    using lines by auto
  moreover have "concat (map (\<lambda>p. [path_decl up p]) ps) = map (path_decl up) ps" for ps
    by (induction ps) auto
  ultimately show ?thesis unfolding generate_paths_def paths Let_def keys [symmetric] by (simp only:)
qed

subsection \<open>Properties\<close>


lemma user_api_code:
  "sorted_strings (map operation_pattern (endpoints_of user_api)) = [''/users'', ''/users/{}'']"
  "map (path_decl id) [''/users'', ''/users/{}''] =
     [''typeway_path!(type UsersPath = '' @ quote @ ''users'' @ quote @ '');'',
      ''typeway_path!(type UsersByIdPath = '' @ quote @ ''users'' @ quote @ '' / String);'']"
  "concat (map (endpoint_lines id user_traits user_api) [''/users'', ''/users/{}'']) =
     [''PostEndpoint<UsersPath, Json<String>, Json<i32>>'', ''GetEndpoint<UsersByIdPath, Json<String>>'']"
  "list_all (errors_only user_traits) (endpoints_of user_api)"
  by code_simp+


text \<open>C0. A type that went through a document keeps its schema. The generator's reading of the JSON of
  the schema of any type is the text of \<open>regenerated\<close>, which has the same schema; but it is another
  type than the one it came from for the unsigned and narrow integers, for \<^verbatim>\<open>f32\<close>, the unit
  and the maps, and an optional type comes back as required.\<close>

theorem regenerated_type_schema:
  "map_option schema_ref_to_rust_v3 (read_schema_ref (schema_json (schema_of us t))) = Some (rust_text us (regenerated t)) \<and>
   schema_of us (regenerated t) = schema_of us t \<and>
   regenerated (OOption t) = regenerated t \<and> regenerated OU32 = OI32 \<and> regenerated OU64 = OI64"
  by (simp add: read_schema_ref_json rust_of_schema regenerated_schema)

text \<open>C0. Generated code can be no program. A path segment that spells out \<^verbatim>\<open>byId\<close> and a
  placeholder give the same type name, so that the code of a document with both paths declares one
  type twice, with different paths; a segment with a hyphen puts the hyphen into the name of a type;
  and a \<^verbatim>\<open>HEAD\<close> operation becomes a second \<^verbatim>\<open>GetEndpoint\<close>, the very type of the
  \<^verbatim>\<open>GET\<close> operation beside it.\<close>

theorem generated_names_clash:
  "path_to_type_name up ''/users/byId'' = path_to_type_name up ''/users/{id}'' \<and>
   path_to_macro_args ''/users/byId'' \<noteq> path_to_macro_args ''/users/{id}'' \<and>
   CHR ''-'' \<in> set (path_to_type_name up ''/user-profiles'') \<and>
   endpoint_type up ''head'' p req res = endpoint_type up ''get'' p req res"
proof -
  have segs: "path_segments ''users/byId'' = [''users'', ''byId'']" "path_segments ''users/{id}'' = [''users'', ''{id}'']"
    "path_segments ''user-profiles'' = [''user-profiles'']"
    by code_simp+
  have upper: "str_upper up ''head'' = ''HEAD''" "str_upper up ''get'' = ''GET''"
    by (simp_all add: str_upper.simps utf8_len_def ascii_upper_def) (simp_all add: char_of_def bit_0)
  have "capitalize up ''byId'' = ''ById''"
    by (simp add: capitalize_def capitalize_word_def utf8_len_def ascii_upper_def) (simp add: char_of_def bit_0)
  moreover have "CHR ''-'' \<in> set (capitalize up ''user-profiles'')"
    by (simp add: capitalize_def capitalize_word_def utf8_len_def)
  ultimately show ?thesis
    by (simp add: path_to_type_name_def path_to_macro_args_def segs type_name_part_def macro_arg_def starts_with_def
      ends_with_def endpoint_type_def upper quote_def)
qed

end
