(* ===== verification/Proto_Codegen.thy ===== *)
theory Proto_Codegen
  imports Proto_Roundtrip Openapi_Codegen
begin

text \<open>
  Rust sources from a \<^verbatim>\<open>.proto\<close> file, \<^verbatim>\<open>typeway-grpc/src/codegen.rs\<close>: the plain
  variant and the one whose types derive the codec. \<open>up\<close> is \<^verbatim>\<open>char::to_uppercase\<close> on the
  characters that are not ASCII and \<open>low\<close> is \<^verbatim>\<open>str::to_lowercase\<close>.
\<close>

subsection \<open>Types and names\<close>

definition underscored :: "string \<Rightarrow> string" where
  "underscored s = map (\<lambda>c. if c = CHR ''.'' then CHR ''_'' else c) s"

definition in_container :: "string \<Rightarrow> bool \<Rightarrow> bool \<Rightarrow> string" where
  "in_container t repeated optional =
     (if repeated then ''Vec<'' @ t @ ''>'' else if optional then ''Option<'' @ t @ ''>'' else t)"

definition proto_base_type :: "bool \<Rightarrow> string \<Rightarrow> string" where
  "proto_base_type use_bytes_str t =
     (if t = ''string'' then (if use_bytes_str then ''BytesStr'' else ''String'')
      else if t = ''uint32'' \<or> t = ''fixed32'' then ''u32''
      else if t = ''uint64'' \<or> t = ''fixed64'' then ''u64''
      else if t = ''int32'' \<or> t = ''sint32'' \<or> t = ''sfixed32'' then ''i32''
      else if t = ''int64'' \<or> t = ''sint64'' \<or> t = ''sfixed64'' then ''i64''
      else if t = ''float'' then ''f32''
      else if t = ''double'' then ''f64''
      else if t = ''bool'' then ''bool''
      else if t = ''bytes'' then ''Vec<u8>''
      else if t = ''google.protobuf.Empty'' then ''()''
      else underscored t)"

definition proto_type_to_rust_impl :: "string \<Rightarrow> bool \<Rightarrow> bool \<Rightarrow> bool \<Rightarrow> string" where
  "proto_type_to_rust_impl t repeated optional use_bytes_str =
     in_container (proto_base_type use_bytes_str t) repeated optional"

definition capital_rest_lower :: "(string \<Rightarrow> string) \<Rightarrow> (string \<Rightarrow> string) \<Rightarrow> string \<Rightarrow> string" where
  "capital_rest_lower up low part =
     (case part of
        [] \<Rightarrow> []
      | c # r \<Rightarrow>
          if utf8_len c = 1 then ascii_upper c # low r
          else up (take (utf8_len c) part) @ low (drop (utf8_len c) part))"

definition screaming_snake_to_pascal :: "(string \<Rightarrow> string) \<Rightarrow> (string \<Rightarrow> string) \<Rightarrow> string \<Rightarrow> string" where
  "screaming_snake_to_pascal up low s =
     concat (map (capital_rest_lower up low) (filter (\<lambda>part. part \<noteq> []) (split_on CHR ''_'' s)))"

subsection \<open>Structs and enums\<close>

definition tag_attribute :: "bool \<Rightarrow> u32 \<Rightarrow> string" where
  "tag_attribute with_codec tag =
     (if with_codec then ''    #[proto(tag = '' @ dec (unat tag) @ '')]'' @ [newline] else [])"

definition field_rust_type :: "bool \<Rightarrow> ParsedField \<Rightarrow> string" where
  "field_rust_type with_codec f =
     (if pa_is_map f then
        ''std::collections::HashMap<'' @
        proto_type_to_rust_impl (case pa_map_key_type f of Some k \<Rightarrow> k | None \<Rightarrow> ''string'') False False with_codec @ '', '' @
        proto_type_to_rust_impl (case pa_map_value_type f of Some v \<Rightarrow> v | None \<Rightarrow> ''string'') False False with_codec @ ''>''
      else proto_type_to_rust_impl (pa_proto_type f) (pa_repeated f) (pa_optional f) with_codec)"

definition proto_struct :: "bool \<Rightarrow> ParsedMessage \<Rightarrow> string" where
  "proto_struct with_codec msg =
     (if with_codec then ''#[derive(Debug, Clone, Default, Serialize, Deserialize, TypewayCodec, ToProtoType)]''
      else ''#[derive(Debug, Clone, Serialize, Deserialize)]'') @ [newline] @
     ''pub struct '' @ underscored (pm_name msg) @ '' {'' @ [newline] @
     concat (map (\<lambda>f. tag_attribute with_codec (pa_tag f) @
       ''    pub '' @ pa_name f @ '': '' @ field_rust_type with_codec f @ '','' @ [newline]) (pm_fields msg)) @ ''}''"

definition proto_enum :: "(string \<Rightarrow> string) \<Rightarrow> (string \<Rightarrow> string) \<Rightarrow> bool \<Rightarrow> ParsedEnum \<Rightarrow> string" where
  "proto_enum up low with_codec e =
     (if with_codec
      then ''#[derive(Debug, Clone, Copy, PartialEq, Eq, Serialize, Deserialize, TypewayCodec, ToProtoType)]''
      else ''#[derive(Debug, Clone, Copy, PartialEq, Eq, Serialize, Deserialize)]'') @ [newline] @
     ''pub enum '' @ en_name e @ '' {'' @ [newline] @
     concat (map (\<lambda>v. tag_attribute with_codec (ev_tag v) @
       ''    '' @ screaming_snake_to_pascal up low (ev_name v) @ '','' @ [newline]) (en_variants e)) @ ''}''"

subsection \<open>Paths and endpoints\<close>

definition is_http_method :: "string \<Rightarrow> bool" where
  "is_http_method s \<longleftrightarrow> s \<in> set http_methods"

definition parse_rpc_comment :: "(string \<Rightarrow> string) \<Rightarrow> string option \<Rightarrow> string \<times> string" where
  "parse_rpc_comment up comment =
     (case comment of
        None \<Rightarrow> (''GET'', ''/'')
      | Some c \<Rightarrow>
          let c = trim (trim_start_str ''//'' (trim c));
              parts = splitn 2 CHR 0x20 c
          in if length parts = 2 then
               let m = str_upper up (parts ! 0); path = trim (parts ! 1)
               in if is_http_method m then (m, path) else (''GET'', ''/'')
             else (''GET'', ''/''))"

definition proto_path_type_name :: "(string \<Rightarrow> string) \<Rightarrow> string \<Rightarrow> string" where
  "proto_path_type_name up path =
     (let segments = path_segments path
      in if segments = [] then ''RootPath''
         else concat (map (\<lambda>seg. if starts_with ''{'' seg then ''ById'' else capitalize_word up seg) segments) @ ''Path'')"

definition proto_path_macro_args :: "string \<Rightarrow> string" where
  "proto_path_macro_args path =
     (let segments = path_segments path
      in if segments = [] then quote @ quote
         else join_with '' / '' (map (\<lambda>seg. if starts_with ''{'' seg then ''String'' else quote @ seg @ quote) segments))"

definition request_rust_name :: "string \<Rightarrow> string" where
  "request_rust_name t = (if t = ''google.protobuf.Empty'' then ''()'' else underscored t)"

definition response_rust_name :: "ParsedMessage list \<Rightarrow> string \<Rightarrow> string" where
  "response_rust_name messages t =
     (if t = ''google.protobuf.Empty'' then ''()''
      else
        (case find (\<lambda>m. pm_name m = t) messages of
           Some msg \<Rightarrow>
             (case pm_fields msg of
                [f] \<Rightarrow> if pa_repeated f then ''Vec<'' @ underscored (pa_proto_type f) @ ''>'' else underscored t
              | _ \<Rightarrow> underscored t)
         | None \<Rightarrow> underscored t))"

definition proto_endpoint_type :: "string \<Rightarrow> string \<Rightarrow> string \<Rightarrow> string \<Rightarrow> string" where
  "proto_endpoint_type m path_type rust_input rust_output =
     (let bodyless = ''GetEndpoint<'' @ path_type @ '', Json<'' @ rust_output @ ''>>'';
          with_body = (\<lambda>name. name @ ''Endpoint<'' @ path_type @ '', Json<'' @ rust_input @ ''>, Json<'' @ rust_output @ ''>>'')
      in if m = ''GET'' \<or> m = ''HEAD'' then bodyless
         else if m = ''POST'' then with_body ''Post''
         else if m = ''PUT'' then with_body ''Put''
         else if m = ''PATCH'' then with_body ''Patch''
         else if m = ''DELETE'' then ''DeleteEndpoint<'' @ path_type @ '', ()>''
         else bodyless)"

definition generate_endpoint_type ::
  "string \<Rightarrow> string \<Rightarrow> string \<Rightarrow> string \<Rightarrow> ParsedMessage list \<Rightarrow> string" where
  "generate_endpoint_type m path_type input_type output_type messages =
     proto_endpoint_type m path_type (request_rust_name input_type) (response_rust_name messages output_type)"

definition proto_path_decl :: "(string \<Rightarrow> string) \<Rightarrow> string \<Rightarrow> string" where
  "proto_path_decl up path =
     ''typeway_path!(type '' @ proto_path_type_name up path @ '' = '' @ proto_path_macro_args path @ '');''"

definition rpc_declarations ::
  "(string \<Rightarrow> string) \<Rightarrow> ParsedMessage list \<Rightarrow> ProtoRpcMethod \<Rightarrow> string \<times> string" where
  "rpc_declarations up messages r =
     (case parse_rpc_comment up (pr_comment r) of (m, path) \<Rightarrow>
        (proto_path_decl up path,
         generate_endpoint_type m (proto_path_type_name up path) (pr_input_type r) (pr_output_type r) messages))"

definition proto_code_header :: "bool \<Rightarrow> string \<Rightarrow> string" where
  "proto_code_header with_codec package =
     ''//! Generated from proto package `'' @ package @ ''`.'' @ [newline] @
     ''//!'' @ [newline] @
     ''//! This file was auto-generated by `typeway-grpc '' @
       (if with_codec then ''codegen'' else ''api-from-proto'') @ ''`.'' @ [newline] @
     ''//! Manual edits may be overwritten.'' @ [newline, newline] @
     ''use typeway::prelude::*;'' @ [newline] @
     ''use serde::{Serialize, Deserialize};'' @ [newline] @
     (if with_codec then ''use typeway_macros::{TypewayCodec, ToProtoType};'' @ [newline] @
        ''use typeway_protobuf::BytesStr;'' @ [newline, newline]
      else [newline])"

definition generate_code ::
  "(string \<Rightarrow> string) \<Rightarrow> (string \<Rightarrow> string) \<Rightarrow> bool \<Rightarrow> ProtoFile \<Rightarrow> string" where
  "generate_code up low with_codec proto =
     (let ds = map (rpc_declarations up (fl_messages proto)) (concat (map ps_methods (fl_services proto)))
      in proto_code_header with_codec (fl_package proto) @
         concat (map (\<lambda>m. proto_struct with_codec m @ [newline, newline]) (fl_messages proto)) @
         concat (map (\<lambda>e. proto_enum up low with_codec e @ [newline, newline]) (fl_enums proto)) @
         emit_paths (map fst ds, map snd ds))"

definition generate_typeway_from_proto :: "(string \<Rightarrow> string) \<Rightarrow> (string \<Rightarrow> string) \<Rightarrow> ProtoFile \<Rightarrow> string" where
  "generate_typeway_from_proto up low proto = generate_code up low False proto"

definition generate_typeway_from_proto_with_codec ::
  "(string \<Rightarrow> string) \<Rightarrow> (string \<Rightarrow> string) \<Rightarrow> ProtoFile \<Rightarrow> string" where
  "generate_typeway_from_proto_with_codec up low proto = generate_code up low True proto"

definition proto_to_typeway :: "(string \<Rightarrow> string) \<Rightarrow> (string \<Rightarrow> string) \<Rightarrow> string \<Rightarrow> (string, string) result" where
  "proto_to_typeway up low source = result_map (generate_typeway_from_proto up low) (parse_proto source)"

definition proto_to_typeway_with_codec ::
  "(string \<Rightarrow> string) \<Rightarrow> (string \<Rightarrow> string) \<Rightarrow> string \<Rightarrow> (string, string) result" where
  "proto_to_typeway_with_codec up low source =
     result_map (generate_typeway_from_proto_with_codec up low) (parse_proto source)"

subsection \<open>Comments of generated methods\<close>

lemma http_method_word: "m \<in> set http_methods \<Longrightarrow> word_text m \<and> CHR 0x20 \<notin> set m \<and> str_upper up m = m"
  by (auto simp: http_methods_def word_text_def graphic_def str_upper.simps utf8_len_def ascii_upper_def)

lemma parse_generated_comment:
  assumes "m \<in> set http_methods" "word_text path"
  shows "parse_rpc_comment up (Some (''// '' @ m @ '' '' @ path)) = (m, path)"
proof -
  note m = http_method_word [OF assms(1), of up]
  have pe: "path \<noteq> []" "graphic (hd path)" "graphic (last path)" using word_ends [OF assms(2)] by auto
  have me: "m \<noteq> []" "graphic (hd m)" using word_ends [of m] m by auto
  let ?c = "m @ '' '' @ path"
  have "trim (''// '' @ ?c) = ''// '' @ ?c"
    using pe by (intro trim_between) (simp_all add: graphic_def)
  moreover have "trim_start_str ''//'' (''// '' @ ?c) = CHR 0x20 # ?c"
    by (subst trim_start_str.simps, simp add: starts_with_def) (simp add: trim_start_str_no starts_with_def)
  moreover have "trim (CHR 0x20 # ?c) = ?c"
    unfolding trim_spaces using pe me by (intro trim_between) auto
  moreover have "splitn 2 CHR 0x20 ?c = [m, path]"
    using m find_char_append [of "CHR 0x20" m path] by (simp add: numeral_2_eq_2)
  moreover have "trim path = path" using pe by (intro trim_between)
  ultimately show ?thesis
    using assms(1) m by (simp add: parse_rpc_comment_def Let_def is_http_method_def)
qed

subsection \<open>Properties\<close>

lemma generated_rpc:
  assumes "wf_rpc r" "rpc_http_method r \<in> set http_methods"
  shows "rpc_declarations up messages (parsed_rpc r) =
    (proto_path_decl up (rpc_path_pattern r),
     generate_endpoint_type (rpc_http_method r) (proto_path_type_name up (rpc_path_pattern r))
       (stream_type (rpc_client_streaming r) (request_type_name r))
       (stream_type (rpc_server_streaming r) (mm_name (rpc_response_message r))) messages)"
  using assms parse_generated_comment [of "rpc_http_method r" "rpc_path_pattern r" up]
  by (simp add: rpc_declarations_def parsed_rpc_def wf_rpc_def)



text \<open>The proto types that the generator does not tell apart.\<close>

definition same_rust_type :: "string \<Rightarrow> string" where
  "same_rust_type t =
     (if t = ''sint32'' \<or> t = ''sfixed32'' then ''int32''
      else if t = ''sint64'' \<or> t = ''sfixed64'' then ''int64''
      else if t = ''fixed32'' then ''uint32''
      else if t = ''fixed64'' then ''uint64''
      else t)"

lemma proto_base_type_same: "proto_base_type b (same_rust_type t) = proto_base_type b t"
  by (simp add: proto_base_type_def same_rust_type_def)

fun scalar_text :: "rust_scalar \<Rightarrow> string" where
  "scalar_text RString = ''String''"
| "scalar_text RStr = ''String''"
| "scalar_text RU32 = ''u32''"
| "scalar_text RU64 = ''u64''"
| "scalar_text RI32 = ''i32''"
| "scalar_text RI64 = ''i64''"
| "scalar_text RF32 = ''f32''"
| "scalar_text RF64 = ''f64''"
| "scalar_text RBool = ''bool''"
| "scalar_text RBytesStr = ''String''"
| "scalar_text RVecU8 = ''Vec<u8>''"
| "scalar_text RUnit = ''()''"
| "scalar_text RUsize = ''u64''"
| "scalar_text RStatusCode = ''i32''"

text \<open>C0. What generated code keeps of a proto type. The type of a Rust scalar comes back as itself
  (with \<^verbatim>\<open>usize\<close> as \<^verbatim>\<open>u64\<close> and a status code as \<^verbatim>\<open>i32\<close>); but the zigzag and the
  fixed-width integers give the struct of the plain ones, so that a derived codec writes a field of
  type \<^verbatim>\<open>sint32\<close> or \<^verbatim>\<open>fixed32\<close> in the encoding of \<^verbatim>\<open>int32\<close> or
  \<^verbatim>\<open>uint32\<close>; a streamed message is written as a type with the word \<^verbatim>\<open>stream\<close>, and a
  list of scalars as a \<^verbatim>\<open>Vec\<close> of the proto name.\<close>

theorem proto_code_types:
  "proto_base_type False (scalar_name s) = scalar_text s \<and>
   proto_struct with_codec (msg\<lparr>pm_fields := map (\<lambda>f. f\<lparr>pa_proto_type := same_rust_type (pa_proto_type f)\<rparr>) (pm_fields msg)\<rparr>) =
     proto_struct with_codec msg \<and>
   request_rust_name (stream_type True ''User'') = ''stream User'' \<and>
   response_rust_name [\<lparr>pm_name = ''Ids'', pm_fields = [\<lparr>pa_name = ''value'', pa_proto_type = ''uint32'', pa_tag = 1,
     pa_repeated = True, pa_optional = False, pa_is_map = False, pa_map_key_type = None, pa_map_value_type = None\<rparr>]\<rparr>] ''Ids'' =
     ''Vec<uint32>''"
proof -
  have "proto_base_type False (scalar_name s) = scalar_text s"
    by (cases s) (simp_all add: proto_base_type_def)
  moreover have "field_rust_type with_codec (f\<lparr>pa_proto_type := same_rust_type (pa_proto_type f)\<rparr>) = field_rust_type with_codec f" for f
    by (simp add: field_rust_type_def proto_type_to_rust_impl_def proto_base_type_same)
  then have "proto_struct with_codec (msg\<lparr>pm_fields := map (\<lambda>f. f\<lparr>pa_proto_type := same_rust_type (pa_proto_type f)\<rparr>) (pm_fields msg)\<rparr>) =
     proto_struct with_codec msg"
    by (simp add: proto_struct_def comp_def)
  ultimately show ?thesis
    by (simp add: request_rust_name_def response_rust_name_def stream_type_def underscored_def)
qed

end
