(* ===== verification/Schema_Derive.thy ===== *)
theory Schema_Derive
  imports Openapi_Codegen
begin

text \<open>
  \<^verbatim>\<open>#[derive(TypewaySchema)]\<close> of \<^verbatim>\<open>typeway-macros/src/lib.rs\<close>: the schema that
  the generated \<^verbatim>\<open>ToSchema\<close> gives for a struct or an enum. The input is the parsed item with
  its attributes. \<open>up\<close> is \<^verbatim>\<open>char::to_uppercase\<close> and
  \<open>upper_char\<close> and \<open>lower_char\<close> classify letters, on the characters that are not ASCII.
\<close>

subsection \<open>The item and its attributes\<close>

text \<open>The items of a \<^verbatim>\<open>serde\<close> attribute are \<^verbatim>\<open>key\<close> or
  \<^verbatim>\<open>key = "literal"\<close>.\<close>

type_synonym serde_meta = "string \<times> string option"

datatype attribute = DocAttr string | SerdeAttr "serde_meta list" | OtherAttr

record schema_field =
  sf_ident :: string
  sf_attrs :: "attribute list"
  sf_ty :: schema_ty

datatype serde_fields = VUnit | VUnnamed "schema_ty list" | VNamed "schema_field list"

record schema_variant =
  sv_ident :: string
  sv_attrs :: "attribute list"
  sv_fields :: serde_fields

datatype schema_data = StructNamed "schema_field list" | StructOther | EnumData "schema_variant list" | UnionData

record schema_item =
  si_attrs :: "attribute list"
  si_data :: schema_data

record EnumTagging =
  et_tag :: "string option"
  et_content :: "string option"
  et_untagged :: bool

fun doc_line :: "attribute \<Rightarrow> string option" where
  "doc_line (DocAttr s) = Some (trim s)"
| "doc_line _ = None"

definition extract_doc_string :: "attribute list \<Rightarrow> string option" where
  "extract_doc_string attrs =
     (let doc_lines = filter (\<lambda>s. s \<noteq> []) (List.map_filter doc_line attrs)
      in if doc_lines = [] then None else Some (join_with [newline] doc_lines))"

text \<open>\<^verbatim>\<open>parse_nested_meta\<close> of \<^verbatim>\<open>syn\<close> reads a key and calls the closure,
  which reads the value of the key that it looks for; then it wants a comma, so that it stops at the value
  of a key that the closure left alone.\<close>

fun nested_meta :: "string \<Rightarrow> serde_meta list \<Rightarrow> string option \<Rightarrow> string option" where
  "nested_meta key [] result = result"
| "nested_meta key ((k, v) # ms) result =
     (if k = key then (case v of Some lit \<Rightarrow> nested_meta key ms (Some lit) | None \<Rightarrow> result)
      else (case v of None \<Rightarrow> nested_meta key ms result | Some lit \<Rightarrow> result))"

fun extract_serde :: "string \<Rightarrow> attribute list \<Rightarrow> string option" where
  "extract_serde key [] = None"
| "extract_serde key (SerdeAttr ms # attrs) =
     (case nested_meta key ms None of Some r \<Rightarrow> Some r | None \<Rightarrow> extract_serde key attrs)"
| "extract_serde key (_ # attrs) = extract_serde key attrs"

definition extract_serde_rename_all :: "attribute list \<Rightarrow> string option" where
  "extract_serde_rename_all = extract_serde ''rename_all''"

definition extract_serde_field_rename :: "attribute list \<Rightarrow> string option" where
  "extract_serde_field_rename = extract_serde ''rename''"

fun nested_tagging :: "serde_meta list \<Rightarrow> EnumTagging \<Rightarrow> EnumTagging" where
  "nested_tagging [] t = t"
| "nested_tagging ((k, v) # ms) t =
     (if k = ''tag'' then (case v of Some lit \<Rightarrow> nested_tagging ms (t\<lparr>et_tag := Some lit\<rparr>) | None \<Rightarrow> t)
      else if k = ''content'' then (case v of Some lit \<Rightarrow> nested_tagging ms (t\<lparr>et_content := Some lit\<rparr>) | None \<Rightarrow> t)
      else
        let t' = (if k = ''untagged'' then t\<lparr>et_untagged := True\<rparr> else t)
        in (case v of None \<Rightarrow> nested_tagging ms t' | Some lit \<Rightarrow> t'))"

definition extract_serde_enum_tagging :: "attribute list \<Rightarrow> EnumTagging" where
  "extract_serde_enum_tagging attrs =
     fold (\<lambda>attr t. case attr of SerdeAttr ms \<Rightarrow> nested_tagging ms t | _ \<Rightarrow> t) attrs
       \<lparr>et_tag = None, et_content = None, et_untagged = False\<rparr>"

subsection \<open>Renaming\<close>

function str_chars :: "string \<Rightarrow> string list" where
  "str_chars s =
     (case s of [] \<Rightarrow> [] | c # r \<Rightarrow> take (utf8_len c) s # str_chars (drop (utf8_len c) s))"
  by pat_completeness auto
termination by (relation "measure length") (auto simp: utf8_len_def Let_def)

declare str_chars.simps [simp del]

definition is_uppercase :: "(string \<Rightarrow> bool) \<Rightarrow> string \<Rightarrow> bool" where
  "is_uppercase upper_char ch =
     (case ch of [c] \<Rightarrow> let n = of_char c :: nat in 65 \<le> n \<and> n \<le> 90 | _ \<Rightarrow> upper_char ch)"

definition is_lowercase :: "(string \<Rightarrow> bool) \<Rightarrow> string \<Rightarrow> bool" where
  "is_lowercase lower_char ch =
     (case ch of [c] \<Rightarrow> let n = of_char c :: nat in 97 \<le> n \<and> n \<le> 122 | _ \<Rightarrow> lower_char ch)"

definition to_ascii_lowercase :: "string \<Rightarrow> string" where
  "to_ascii_lowercase ch =
     (case ch of [c] \<Rightarrow> let n = of_char c :: nat in if 65 \<le> n \<and> n \<le> 90 then [char_of (n + 32)] else ch | _ \<Rightarrow> ch)"

definition to_snake_case :: "(string \<Rightarrow> bool) \<Rightarrow> (string \<Rightarrow> bool) \<Rightarrow> string \<Rightarrow> string" where
  "to_snake_case upper_char lower_char s =
     (let chars = str_chars s
      in concat (map (\<lambda>(i, ch).
           if is_uppercase upper_char ch then
             (if 0 < i \<and> (\<not> is_uppercase upper_char (chars ! (i - 1)) \<or>
                 i + 1 < length chars \<and> is_lowercase lower_char (chars ! (i + 1)))
              then ''_'' else []) @ to_ascii_lowercase ch
           else ch) (enumerate 0 chars)))"

text \<open>The loop of \<^verbatim>\<open>camelCase\<close>; the flag is \<^verbatim>\<open>capitalize_next\<close>.\<close>

fun camel_chars :: "(string \<Rightarrow> string) \<Rightarrow> bool \<Rightarrow> string list \<Rightarrow> string" where
  "camel_chars up capitalize_next [] = []"
| "camel_chars up capitalize_next (c # cs) =
     (if c = ''_'' then camel_chars up True cs
      else if capitalize_next then str_upper up c @ camel_chars up False cs
      else c @ camel_chars up False cs)"

definition apply_rename_strategy ::
  "(string \<Rightarrow> string) \<Rightarrow> (string \<Rightarrow> bool) \<Rightarrow> (string \<Rightarrow> bool) \<Rightarrow> string \<Rightarrow> string \<Rightarrow> string" where
  "apply_rename_strategy up upper_char lower_char name strategy =
     (let snake = to_snake_case upper_char lower_char name
      in if strategy = ''camelCase'' then camel_chars up False (str_chars snake)
         else if strategy = ''snake_case'' then snake
         else if strategy = ''PascalCase'' then concat (map (capitalize_word up) (split_on CHR ''_'' snake))
         else if strategy = ''SCREAMING_SNAKE_CASE'' then str_upper up snake
         else if strategy = ''kebab-case'' then map (\<lambda>c. if c = CHR ''_'' then CHR ''-'' else c) snake
         else if strategy = ''lowercase'' then filter (\<lambda>c. c \<noteq> CHR ''_'') snake
         else if strategy = ''UPPERCASE'' then str_upper up (filter (\<lambda>c. c \<noteq> CHR ''_'') snake)
         else name)"

text \<open>\<open>rn name strategy\<close> is \<open>apply_rename_strategy\<close> from here on.\<close>

type_synonym renaming = "string \<Rightarrow> string \<Rightarrow> string"

definition serialized_name :: "renaming \<Rightarrow> string option \<Rightarrow> attribute list \<Rightarrow> string \<Rightarrow> string" where
  "serialized_name rn rename_all attrs name =
     (case extract_serde_field_rename attrs of
        Some r \<Rightarrow> r
      | None \<Rightarrow> (case rename_all of Some strategy \<Rightarrow> rn name strategy | None \<Rightarrow> name))"

subsection \<open>Structs\<close>

definition with_doc :: "string option \<Rightarrow> Schema \<Rightarrow> Schema" where
  "with_doc doc s = (case doc of Some d \<Rightarrow> with_description d s | None \<Rightarrow> s)"

definition derive_struct_schema ::
  "renaming \<Rightarrow> (ty \<Rightarrow> Schema) \<Rightarrow> schema_field list \<Rightarrow> string option \<Rightarrow> string option \<Rightarrow> Schema" where
  "derive_struct_schema rn us fields' rename_all struct_doc =
     object_with_properties
       (map (\<lambda>f. (serialized_name rn rename_all (sf_attrs f) (sf_ident f),
                  with_doc (extract_doc_string (sf_attrs f)) (schema_of us (sf_ty f)))) fields') struct_doc"

subsection \<open>Enums\<close>

text \<open>Fields of a variant are renamed one by one only.\<close>

definition named_field_entries :: "(ty \<Rightarrow> Schema) \<Rightarrow> schema_field list \<Rightarrow> (string \<times> Schema) list" where
  "named_field_entries us fields' =
     map (\<lambda>f. (case extract_serde_field_rename (sf_attrs f) of Some r \<Rightarrow> r | None \<Rightarrow> sf_ident f, schema_of us (sf_ty f))) fields'"

text \<open>A tuple variant without elements makes the macro panic.\<close>

definition bare_payload_schema :: "(ty \<Rightarrow> Schema) \<Rightarrow> serde_fields \<Rightarrow> (Schema, string) result" where
  "bare_payload_schema us fields' =
     (case fields' of
        VUnit \<Rightarrow> Ok schema_object
      | VUnnamed [t] \<Rightarrow> Ok (schema_of us t)
      | VUnnamed [] \<Rightarrow> Panic
      | VUnnamed (t # _) \<Rightarrow> Ok (schema_array (schema_of us t))
      | VNamed fs \<Rightarrow> Ok (object_with_properties (named_field_entries us fs) None))"

definition build_variant_schema ::
  "(ty \<Rightarrow> Schema) \<Rightarrow> string \<Rightarrow> schema_variant \<Rightarrow> EnumTagging \<Rightarrow> (Schema, string) result" where
  "build_variant_schema us serialized v tagging =
     and_then (bare_payload_schema us (sv_fields v)) (\<lambda>payload.
       let tag_schema = schema_string_enum [serialized];
           tag_only = (\<lambda>tag. object_with_properties [(tag, tag_schema)] None);
           body =
             (if et_untagged tagging then payload
              else (case (et_tag tagging, et_content tagging, sv_fields v) of
                  (Some tag, Some content, VUnit) \<Rightarrow> tag_only tag
                | (Some tag, Some content, _) \<Rightarrow> object_with_properties [(tag, tag_schema), (content, payload)] None
                | (Some tag, None, VUnit) \<Rightarrow> tag_only tag
                | (Some tag, None, VNamed fs) \<Rightarrow>
                    object_with_properties ((tag, tag_schema) # named_field_entries us fs) None
                | (Some tag, None, VUnnamed _) \<Rightarrow> payload
                | (None, _, VUnit) \<Rightarrow> tag_schema
                | (None, _, _) \<Rightarrow> object_with_properties [(serialized, payload)] None))
       in Ok (with_doc (extract_doc_string (sv_attrs v)) body))"

definition derive_enum_schema ::
  "renaming \<Rightarrow> (ty \<Rightarrow> Schema) \<Rightarrow> schema_variant list \<Rightarrow> attribute list \<Rightarrow> string option \<Rightarrow> string option \<Rightarrow>
   (Schema, string) result" where
  "derive_enum_schema rn us variants attrs rename_all struct_doc =
     (let tagging = extract_serde_enum_tagging attrs;
          name = (\<lambda>v. serialized_name rn rename_all (sv_attrs v) (sv_ident v))
      in if list_all (\<lambda>v. sv_fields v = VUnit) variants \<and> et_tag tagging = None \<and> \<not> et_untagged tagging then
           Ok (with_doc struct_doc (schema_string_enum (map name variants)))
         else
           and_then (concat_mapM (\<lambda>v. result_map (\<lambda>s. [s]) (build_variant_schema us (name v) v tagging)) variants)
             (\<lambda>schemas. Ok (with_doc struct_doc (schema_one_of schemas
               (case (et_tag tagging, et_untagged tagging) of
                  (Some tag, False) \<Rightarrow> Some (Discriminator tag None)
                | _ \<Rightarrow> None)))))"

definition derive_typeway_schema :: "renaming \<Rightarrow> (ty \<Rightarrow> Schema) \<Rightarrow> schema_item \<Rightarrow> (Schema, string) result" where
  "derive_typeway_schema rn us item =
     (let doc = extract_doc_string (si_attrs item);
          rename_all = extract_serde_rename_all (si_attrs item)
      in case si_data item of
           StructNamed fs \<Rightarrow> Ok (derive_struct_schema rn us fs rename_all doc)
         | StructOther \<Rightarrow> Err ''TypewaySchema only supports structs with named fields''
         | EnumData vs \<Rightarrow> derive_enum_schema rn us vs (si_attrs item) rename_all doc
         | UnionData \<Rightarrow> Err ''TypewaySchema supports structs and enums'')"

subsection \<open>What a schema accepts\<close>

fun type_accepts :: "string \<Rightarrow> json \<Rightarrow> bool" where
  "type_accepts t JNull = (t = ''null'')"
| "type_accepts t (JBool _) = (t = ''boolean'')"
| "type_accepts t (JPos _) = (t = ''integer'' \<or> t = ''number'')"
| "type_accepts t (JNeg _) = (t = ''integer'' \<or> t = ''number'')"
| "type_accepts t (JFloat _) = (t = ''number'')"
| "type_accepts t (JStr _) = (t = ''string'')"
| "type_accepts t (JArr _) = (t = ''array'')"
| "type_accepts t (JObj _) = (t = ''object'')"

text \<open>JSON Schema: the type, the members of \<^verbatim>\<open>enum\<close>, the properties that are there, the items,
  and one of the variants.\<close>

fun accepts :: "Schema \<Rightarrow> json \<Rightarrow> bool" where
  "accepts (Schema t f i p d v e dc) j \<longleftrightarrow>
     (case t of Some ty \<Rightarrow> type_accepts ty j | None \<Rightarrow> True) \<and>
     (case e of Some vs \<Rightarrow> j \<in> set vs | None \<Rightarrow> True) \<and>
     (case p of
        Some ps \<Rightarrow> list_all (\<lambda>(k, s). case json_get k j of Some x \<Rightarrow> accepts s x | None \<Rightarrow> True) ps
      | None \<Rightarrow> True) \<and>
     (case i of
        Some s \<Rightarrow> (case j of JArr xs \<Rightarrow> list_all (\<lambda>x. accepts s x) xs | _ \<Rightarrow> True)
      | None \<Rightarrow> True) \<and>
     (case v of Some vs \<Rightarrow> list_ex (\<lambda>s. accepts s j) vs | None \<Rightarrow> True)"

subsection \<open>Schemas that accept\<close>

lemma accepts_with_doc [simp]: "accepts (with_doc d s) j = accepts s j"
  by (cases s; cases d) (simp_all add: with_doc_def)

lemma accepts_string_enum [simp]: "accepts (schema_string_enum names) (JStr n) \<longleftrightarrow> n \<in> set names"
  by (auto simp: schema_string_enum_def)

lemma accepts_array: "list_all (accepts s) xs \<Longrightarrow> accepts (schema_array s) (JArr xs)"
  by (simp add: schema_array_def)

lemma accepts_one_of: "s \<in> set vs \<Longrightarrow> accepts s j \<Longrightarrow> accepts (schema_one_of vs d) j"
  by (auto simp: schema_one_of_def list_ex_iff)

lemma set_updates:
  "(k, s) \<in> set (fold (\<lambda>(name, schema). AList.update name schema) ps acc) \<Longrightarrow> (k, s) \<in> set ps \<or> (k, s) \<in> set acc"
proof (induction ps arbitrary: acc)
  case (Cons p ps)
  obtain n t where p: "p = (n, t)" by force
  have "(k, s) \<in> set (AList.update n t acc) \<Longrightarrow> (k, s) = (n, t) \<or> (k, s) \<in> set acc"
    by (induction acc) (auto split: if_splits)
  with Cons show ?case by (auto simp: p)
qed simp

lemma accepts_object:
  assumes "\<And>k s x. (k, s) \<in> set ps \<Longrightarrow> map_of m k = Some x \<Longrightarrow> accepts s x"
  shows "accepts (object_with_properties ps d) (JObj m)"
  using assms set_updates [of _ _ ps "[]"]
  by (fastforce simp: object_with_properties_def list_all_iff json_get_def split: option.splits)

subsection \<open>What serde writes\<close>

text \<open>The values of a variant, with the JSON of each field.\<close>

datatype payload = PUnit | PTuple "json list" | PStruct "(string \<times> json) list"

fun payload_json :: "payload \<Rightarrow> json" where
  "payload_json PUnit = JNull"
| "payload_json (PTuple [x]) = x"
| "payload_json (PTuple xs) = JArr xs"
| "payload_json (PStruct m) = JObj m"

text \<open>The four representations of an enum that the documentation of serde describes; an internal
  tag for a tuple is left open.\<close>

definition serde_enum :: "(EnumTagging \<Rightarrow> string \<Rightarrow> payload \<Rightarrow> json) \<Rightarrow> bool" where
  "serde_enum ser \<longleftrightarrow> (\<forall>tg name p.
     (if et_untagged tg then ser tg name p = payload_json p
      else (case (et_tag tg, et_content tg, p) of
          (None, _, PUnit) \<Rightarrow> ser tg name p = JStr name
        | (None, _, _) \<Rightarrow> ser tg name p = JObj [(name, payload_json p)]
        | (Some t, _, PUnit) \<Rightarrow> ser tg name p = JObj [(t, JStr name)]
        | (Some t, Some c, _) \<Rightarrow> ser tg name p = JObj (obj_insert c (payload_json p) [(t, JStr name)])
        | (Some t, None, PStruct m) \<Rightarrow> ser tg name p = JObj (obj_insert t (JStr name) m)
        | (Some t, None, PTuple xs) \<Rightarrow> True)))"

fun fits :: "(ty \<Rightarrow> Schema) \<Rightarrow> serde_fields \<Rightarrow> payload \<Rightarrow> bool" where
  "fits us VUnit PUnit = True"
| "fits us (VUnnamed ts) (PTuple xs) = list_all2 (\<lambda>t x. accepts (schema_of us t) x) ts xs"
| "fits us (VNamed fs) (PStruct m) =
     (\<forall>(k, s)\<in>set (named_field_entries us fs). \<forall>x. map_of m k = Some x \<longrightarrow> accepts s x)"
| "fits us _ _ = False"

text \<open>The variants that the macro can describe: the elements of a tuple have one type, a tag is no
  field, and neither an untagged unit nor an internally tagged tuple is among them.\<close>

definition describable :: "EnumTagging \<Rightarrow> serde_fields \<Rightarrow> bool" where
  "describable tg fields' \<longleftrightarrow>
     (case fields' of
        VUnit \<Rightarrow> \<not> et_untagged tg
      | VUnnamed ts \<Rightarrow> ts \<noteq> [] \<and> set ts = {hd ts} \<and> (et_untagged tg \<or> et_tag tg = None \<or> et_content tg \<noteq> None)
      | VNamed fs \<Rightarrow> (case et_tag tg of
          Some t \<Rightarrow> \<forall>f\<in>set fs. (case extract_serde_field_rename (sf_attrs f) of Some r \<Rightarrow> r | None \<Rightarrow> sf_ident f) \<noteq> t
        | None \<Rightarrow> True)) \<and>
     (et_tag tg \<noteq> None \<longrightarrow> et_content tg \<noteq> et_tag tg)"

lemma payload_accepted:
  assumes "bare_payload_schema us fields' = Ok s" "fits us fields' p" "fields' \<noteq> VUnit"
    "case fields' of VUnnamed ts \<Rightarrow> ts \<noteq> [] \<and> set ts = {hd ts} | _ \<Rightarrow> True"
  shows "accepts s (payload_json p)"
proof (cases fields')
  case VUnit
  then show ?thesis using assms(3) by simp
next
  case (VUnnamed ts)
  then obtain xs where p: "p = PTuple xs" and xs: "list_all2 (\<lambda>t x. accepts (schema_of us t) x) ts xs"
    using assms(2) by (cases p) auto
  obtain t ts' where ts: "ts = t # ts'" using assms(4) VUnnamed by (cases ts) auto
  with assms(4) VUnnamed have "\<forall>u\<in>set ts. u = t" by auto
  with xs have all: "list_all (accepts (schema_of us t)) xs"
    by (induction rule: list_all2_induct) auto
  show ?thesis
  proof (cases ts')
    case Nil
    with xs ts have "\<exists>x. xs = [x]" by (auto simp: list_all2_Cons1)
    with all assms(1) VUnnamed ts Nil p show ?thesis by (auto simp: bare_payload_schema_def)
  next
    case (Cons u us')
    with xs ts have "\<exists>x y ys. xs = x # y # ys" by (auto simp: list_all2_Cons1)
    with all assms(1) VUnnamed ts Cons p show ?thesis
      by (auto simp: bare_payload_schema_def intro!: accepts_array)
  qed
next
  case (VNamed fs)
  with assms(1,2) show ?thesis
    by (cases p) (auto simp: bare_payload_schema_def intro!: accepts_object)
qed

lemma variant_accepted:
  assumes "serde_enum ser" "build_variant_schema us name v tg = Ok s" "fits us (sv_fields v) p"
    "describable tg (sv_fields v)"
  shows "accepts s (ser tg name p)"
proof -
  obtain pay where pay: "bare_payload_schema us (sv_fields v) = Ok pay"
    using assms(2) by (auto simp: build_variant_schema_def and_then_eq_Ok)
  have ok: "accepts pay (payload_json p)" if "sv_fields v \<noteq> VUnit"
    using payload_accepted [OF pay assms(3) that] assms(4)
    by (auto simp: describable_def split: serde_fields.splits)
  have ser: "if et_untagged tg then ser tg name p = payload_json p
      else (case (et_tag tg, et_content tg, p) of
          (None, _, PUnit) \<Rightarrow> ser tg name p = JStr name
        | (None, _, _) \<Rightarrow> ser tg name p = JObj [(name, payload_json p)]
        | (Some t, _, PUnit) \<Rightarrow> ser tg name p = JObj [(t, JStr name)]
        | (Some t, Some c, _) \<Rightarrow> ser tg name p = JObj (obj_insert c (payload_json p) [(t, JStr name)])
        | (Some t, None, PStruct m) \<Rightarrow> ser tg name p = JObj (obj_insert t (JStr name) m)
        | (Some t, None, PTuple xs) \<Rightarrow> True)"
    using assms(1) unfolding serde_enum_def by blast
  have obj: "accepts (object_with_properties [(t, schema_string_enum [name])] None) (JObj [(t, JStr name)])" for t
    by (rule accepts_object) (auto split: if_splits)
  have pair: "accepts (object_with_properties [(t, schema_string_enum [name]), (c, pay)] None)
      (JObj (obj_insert c x [(t, JStr name)]))" if "accepts pay x" "c \<noteq> t" for t c x
    using that by (intro accepts_object) (auto simp: map_of_obj_insert split: if_splits)
  have single: "accepts (object_with_properties [(name, pay)] None) (JObj [(name, x)])" if "accepts pay x" for x
    using that by (intro accepts_object) (auto split: if_splits)
  show ?thesis
  proof (cases "sv_fields v")
    case VUnit
    then have "p = PUnit" using assms(3) by (cases p) auto
    with VUnit ser obj assms(2,4) pay show ?thesis
      by (auto simp: build_variant_schema_def describable_def split: option.splits)
  next
    case (VUnnamed ts)
    then obtain xs where p: "p = PTuple xs" using assms(3) by (cases p) auto
    have "accepts pay (payload_json p)" using ok VUnnamed by simp
    note facts = pair [OF this] single [OF this] this ser assms(2,4) pay VUnnamed p
    show ?thesis
      using facts by (cases "et_untagged tg"; cases "et_tag tg"; cases "et_content tg")
        (auto simp: build_variant_schema_def describable_def simp del: obj_insert.simps)
  next
    case (VNamed fs)
    then obtain m where p: "p = PStruct m" using assms(3) by (cases p) auto
    have pm: "accepts pay (payload_json p)" using ok VNamed by simp
    have field: "(k, s) \<in> set (named_field_entries us fs) \<Longrightarrow> map_of m k = Some x \<Longrightarrow> accepts s x" for k s x
      using assms(3) VNamed p by auto
    have no: "(k, s) \<in> set (named_field_entries us fs) \<Longrightarrow> et_tag tg = Some t \<Longrightarrow> k \<noteq> t" for k s t
      using assms(4) VNamed by (auto simp: describable_def named_field_entries_def)
    have tagged: "accepts (object_with_properties ((t, schema_string_enum [name]) # named_field_entries us fs) None)
        (JObj (obj_insert t (JStr name) m))" if "et_tag tg = Some t" for t
    proof (rule accepts_object)
      fix k s x
      assume "(k, s) \<in> set ((t, schema_string_enum [name]) # named_field_entries us fs)"
        and x: "map_of (obj_insert t (JStr name) m) k = Some x"
      then consider "k = t" "s = schema_string_enum [name]" | "(k, s) \<in> set (named_field_entries us fs)" by auto
      then show "accepts s x"
      proof cases
        case 2
        with no that have "k \<noteq> t" by blast
        with 2 x show ?thesis using field by (simp add: map_of_obj_insert)
      qed (use x in \<open>auto simp: map_of_obj_insert\<close>)
    qed
    note facts = tagged pair [OF pm] single [OF pm] pm ser assms(2,4) pay VNamed p
    show ?thesis
      using facts by (cases "et_untagged tg"; cases "et_tag tg"; cases "et_content tg")
        (auto simp: build_variant_schema_def describable_def simp del: obj_insert.simps)
  qed
qed

subsection \<open>Types\<close>

text \<open>The JSON that serde writes for the values of a type; \<open>ut\<close> tells it for the user's types.\<close>

fun serde_type :: "(ty \<Rightarrow> json \<Rightarrow> bool) \<Rightarrow> schema_ty \<Rightarrow> json \<Rightarrow> bool" where
  "serde_type ut OString j = (\<exists>s. j = JStr s)"
| "serde_type ut OStr j = (\<exists>s. j = JStr s)"
| "serde_type ut OU8 j = (\<exists>n. j = JPos n \<and> unat n < 2 ^ 8)"
| "serde_type ut OU16 j = (\<exists>n. j = JPos n \<and> unat n < 2 ^ 16)"
| "serde_type ut OU32 j = (\<exists>n. j = JPos n \<and> unat n < 2 ^ 32)"
| "serde_type ut OU64 j = (\<exists>n. j = JPos n)"
| "serde_type ut OI32 j = ((\<exists>n. j = JPos n \<and> unat n < 2 ^ 31) \<or> (\<exists>n. j = JNeg n))"
| "serde_type ut OI64 j = ((\<exists>n. j = JPos n \<and> unat n < 2 ^ 63) \<or> (\<exists>n. j = JNeg n))"
| "serde_type ut OF32 j = (\<exists>f. j = JFloat f)"
| "serde_type ut OF64 j = (\<exists>f. j = JFloat f)"
| "serde_type ut OBool j = (\<exists>b. j = JBool b)"
| "serde_type ut OUnit j = (j = JNull)"
| "serde_type ut OValue j = True"
| "serde_type ut OStatusCode j = False"
| "serde_type ut (OVec t) j = (\<exists>xs. j = JArr xs \<and> list_all (serde_type ut t) xs)"
| "serde_type ut (OOption t) j = (j = JNull \<or> serde_type ut t j)"
| "serde_type ut (OBox t) j = serde_type ut t j"
| "serde_type ut (OArc t) j = serde_type ut t j"
| "serde_type ut (OHashMap k v) j = (\<exists>m. j = JObj m)"
| "serde_type ut (OIndexMap k v) j = (\<exists>m. j = JObj m)"
| "serde_type ut (OUser t) j = ut t j"

text \<open>The types that write neither null nor anything at all.\<close>

fun never_null :: "schema_ty \<Rightarrow> bool" where
  "never_null (OVec t) = never_null t"
| "never_null (OOption _) = False"
| "never_null (OBox t) = never_null t"
| "never_null (OArc t) = never_null t"
| "never_null OUnit = False"
| "never_null OValue = False"
| "never_null _ = True"

lemmas type_schema_defs = schema_string_def schema_number_def schema_boolean_def schema_object_def
  schema_of_type_def schema_integer_def schema_integer64_def

lemma plain_type_accepted:
  "serde_type ut t j \<Longrightarrow> never_null t \<Longrightarrow> (\<And>u x. ut u x \<Longrightarrow> accepts (us u) x) \<Longrightarrow> accepts (schema_of us t) j"
proof (induction t arbitrary: j)
  case (OVec t)
  then obtain xs where j: "j = JArr xs" and xs: "list_all (serde_type ut t) xs" by auto
  have "list_all (accepts (schema_of us t)) xs"
    using xs OVec.IH OVec.prems(2,3) by (auto simp: list_all_iff)
  then show ?case by (simp add: j accepts_array)
qed (auto simp: type_schema_defs)

subsection \<open>Whole items\<close>

lemma concat_mapM_member:
  "concat_mapM (\<lambda>x. result_map (\<lambda>s. [s]) (f x)) xs = Ok ys \<Longrightarrow> x \<in> set xs \<Longrightarrow> \<exists>y\<in>set ys. f x = Ok y"
proof (induction xs arbitrary: ys)
  case (Cons a xs)
  from Cons.prems(1) obtain y zs where y: "f a = Ok y"
    and zs: "concat_mapM (\<lambda>x. result_map (\<lambda>s. [s]) (f x)) xs = Ok zs" "ys = y # zs"
    by (cases "f a"; cases "concat_mapM (\<lambda>x. result_map (\<lambda>s. [s]) (f x)) xs") auto
  with Cons.IH [OF zs(1)] Cons.prems(2) show ?case by auto
qed simp

lemma enum_accepted:
  assumes "derive_enum_schema rn us variants attrs rename_all doc = Ok s" "serde_enum ser" "v \<in> set variants"
    "fits us (sv_fields v) p" "describable (extract_serde_enum_tagging attrs) (sv_fields v)"
  shows "accepts s (ser (extract_serde_enum_tagging attrs) (serialized_name rn rename_all (sv_attrs v) (sv_ident v)) p)"
proof -
  let ?tg = "extract_serde_enum_tagging attrs"
  let ?name = "\<lambda>v. serialized_name rn rename_all (sv_attrs v) (sv_ident v)"
  show ?thesis
  proof (cases "list_all (\<lambda>v. sv_fields v = VUnit) variants \<and> et_tag ?tg = None \<and> \<not> et_untagged ?tg")
    case True
    then have "sv_fields v = VUnit" using assms(3) by (auto simp: list_all_iff)
    then have "p = PUnit" using assms(4) by (cases p) auto
    moreover have "if et_untagged ?tg then ser ?tg (?name v) PUnit = payload_json PUnit
        else (case et_tag ?tg of None \<Rightarrow> ser ?tg (?name v) PUnit = JStr (?name v)
          | Some t \<Rightarrow> ser ?tg (?name v) PUnit = JObj [(t, JStr (?name v))])"
      using assms(2) [unfolded serde_enum_def, rule_format, of ?tg "?name v" PUnit] by (auto split: option.splits)
    ultimately have "ser ?tg (?name v) p = JStr (?name v)" using True by simp
    with True assms(1,3) show ?thesis by (auto simp: derive_enum_schema_def Let_def)
  next
    case False
    then obtain ss where ss: "concat_mapM (\<lambda>v. result_map (\<lambda>s. [s]) (build_variant_schema us (?name v) v ?tg)) variants = Ok ss"
      and s: "s = with_doc doc (schema_one_of ss (case (et_tag ?tg, et_untagged ?tg) of
                  (Some tag, False) \<Rightarrow> Some (Discriminator tag None) | _ \<Rightarrow> None))"
      using assms(1) by (auto simp: derive_enum_schema_def Let_def and_then_eq_Ok split: if_splits)
    from concat_mapM_member [OF ss assms(3)] obtain y where "y \<in> set ss" "build_variant_schema us (?name v) v ?tg = Ok y"
      by auto
    with variant_accepted [OF assms(2) _ assms(4,5)] show ?thesis
      by (auto simp: s intro: accepts_one_of)
  qed
qed

subsection \<open>Properties\<close>

definition serde_repr :: "EnumTagging \<Rightarrow> string \<Rightarrow> payload \<Rightarrow> json" where
  "serde_repr tg name p =
     (if et_untagged tg then payload_json p
      else (case (et_tag tg, et_content tg, p) of
          (None, _, PUnit) \<Rightarrow> JStr name
        | (None, _, _) \<Rightarrow> JObj [(name, payload_json p)]
        | (Some t, _, PUnit) \<Rightarrow> JObj [(t, JStr name)]
        | (Some t, Some c, _) \<Rightarrow> JObj (obj_insert c (payload_json p) [(t, JStr name)])
        | (Some t, None, PStruct m) \<Rightarrow> JObj (obj_insert t (JStr name) m)
        | (Some t, None, PTuple xs) \<Rightarrow> payload_json p))"

lemma serde_enum_repr: "serde_enum serde_repr"
  unfolding serde_enum_def serde_repr_def by (auto split: option.splits payload.splits)


definition shape_enum :: schema_item where
  "shape_enum =
     \<lparr>si_attrs = [DocAttr '' A shape.'', SerdeAttr [(''tag'', Some ''kind'')], SerdeAttr [(''rename_all'', Some ''snake_case'')]],
      si_data = EnumData
        [\<lparr>sv_ident = ''DotMark'', sv_attrs = [], sv_fields = VUnit\<rparr>,
         \<lparr>sv_ident = ''Circle'', sv_attrs = [],
          sv_fields = VNamed [\<lparr>sf_ident = ''radius'', sf_attrs = [], sf_ty = OU32\<rparr>]\<rparr>]\<rparr>"

definition snake_renaming :: renaming where
  "snake_renaming = apply_rename_strategy (\<lambda>c. c) (\<lambda>_. False) (\<lambda>_. False)"


text \<open>C0. A null is written for an empty option and for a unit, and no schema of a type accepts it.\<close>

theorem null_never_accepted:
  assumes "\<And>u. \<not> accepts (us u) JNull"
  shows "serde_type ut (OOption t) JNull \<and> \<not> accepts (schema_of us t) JNull"
  using assms by (induction t) (auto simp: type_schema_defs schema_array_def)

lemma null_never_accepted_witness:
  "serde_type (\<lambda>_ _. False) (OOption OString) JNull \<and> \<not> accepts (schema_of (\<lambda>_. schema_object) OString) JNull"
  by (rule null_never_accepted) (simp add: type_schema_defs)


end
