(* ===== verification/Spec2Isabelle.thy ===== *)
theory Spec2Isabelle
  imports Tw_Varint Grpc_Compression Grpc_Web Proto_Codec Router Client_Path Http_Client Grpc_Client
    Negotiation Transcode Reflection Grpc_Stream Proto_Spec Derive_Messages Session_Safety Static_Files Server_Layers
    Protobuf_Types Openapi_Roundtrip Proto_Codegen Schema_Derive
begin

text \<open>
  A verification development for typeway, a web framework in Rust in which an API is a type: a
  tuple of endpoints, each with its method, its path as a type-level list, and the types of its
  request and its response. From that one type follow a server (\<^verbatim>\<open>typeway-server\<close>), a
  client (\<^verbatim>\<open>typeway-client\<close>), an OpenAPI document (\<^verbatim>\<open>typeway-openapi\<close>), and a gRPC
  service (\<^verbatim>\<open>typeway-grpc\<close>) on the same routes, with its own protobuf codec
  (\<^verbatim>\<open>typeway-protobuf\<close> and a derive macro in \<^verbatim>\<open>typeway-macros\<close>).

  A request goes through these parts in turn: the client fills the captures of a path, the router
  finds the endpoint and hands the captures to the extractors, the handler answers, and the layers
  of the server add to the response. A gRPC request is taken by the dispatcher, which turns it into
  a request for the same router, and the answer is framed, with its status in trailers. The
  theories follow these parts. Each definition stands for the function of the same name, or, where
  the name is taken, a name close to it.

  Shared vocabulary. \<open>Rust_Prelude\<close> has machine integers as words, \<open>result\<close> with
  the third outcome \<open>Panic\<close>, and the allocation of a \<^verbatim>\<open>Vec\<close> that unsafe code writes
  to (a write outside it has no result). \<open>Rust_Str\<close> and \<open>Rust_Lines\<close> have strings as
  lists of UTF-8 bytes with the methods that the code calls; \<open>Json_Value\<close> has the values of
  \<^verbatim>\<open>serde_json\<close>; \<open>Http_Headers\<close> the vocabulary of the \<^verbatim>\<open>http\<close> crate.

  Protobuf wire level. \<open>Varint_Spec\<close> specifies the base-128 format on natural numbers and has
  the locale \<open>self_delimiting\<close>; \<open>Tw_Varint\<close> models \<^verbatim>\<open>typeway-protobuf/src/codec.rs\<close>
  with its unchecked writers; \<open>Le_Bytes\<close> little-endian bytes; \<open>Protobuf_Types\<close> the helper
  types and the buffer pool (\<^verbatim>\<open>typeway-protobuf/src/lib.rs\<close>, \<^verbatim>\<open>repeated.rs\<close>), with the
  locale \<open>encoding\<close>. \<open>Derive_Codec\<close>, \<open>Derive_Encode\<close>, \<open>Derive_Roundtrip\<close>,
  \<open>Derive_Enum\<close> and \<open>Derive_Messages\<close> model the code that \<^verbatim>\<open>#[derive(TypewayCodec)]\<close>
  of \<^verbatim>\<open>typeway-macros/src/lib.rs\<close> generates: sizes, writers, readers, oneofs, and the codecs
  behind the locale \<open>message_codec\<close> (with \<open>derived_struct\<close>, \<open>derived_enum\<close> and
  \<open>derived_oneof\<close>), interpreted on the message types of the repository's own tests. The lemmas
  show that nothing is written outside the allocation, that the announced length is the written one,
  that decoding gives the value back, and which values are not kept.

  HTTP. \<open>Path_Spec\<close> (\<^verbatim>\<open>typeway-core/src/path.rs\<close>), \<open>Router\<close>
  (\<^verbatim>\<open>typeway-server/src/router.rs\<close>), \<open>Client_Path\<close> (\<^verbatim>\<open>typeway-client/src/call.rs\<close>):
  the shortcuts of the router agree with the registered routes, the extractors read what the client
  filled in. \<open>Http_Extract\<close>, \<open>Http_Handlers\<close> and \<open>Server_Builder\<close>: responses, extractors,
  handlers of every arity, wrappers such as authentication, and the builders that must register
  every endpoint (\<^verbatim>\<open>response.rs\<close>, \<^verbatim>\<open>extract.rs\<close>, \<^verbatim>\<open>handler.rs\<close>, \<^verbatim>\<open>typed.rs\<close>,
  \<^verbatim>\<open>auth.rs\<close>, \<^verbatim>\<open>server.rs\<close> and others). \<open>Static_Files\<close>, \<open>Server_Layers\<close> and
  \<open>Negotiation\<close>: files and pages, response layers, content negotiation. \<open>Http_Client\<close>
  and \<open>Retry_Loop\<close>: the client with its retry loop, under the locale \<open>bounded_retry\<close>, which
  the gRPC client interprets too.

  API types and sessions. \<open>Api_Types\<close> models \<^verbatim>\<open>typeway-core/src/api.rs\<close>,
  \<^verbatim>\<open>endpoint.rs\<close>, \<^verbatim>\<open>method.rs\<close>, \<^verbatim>\<open>effects.rs\<close> and \<^verbatim>\<open>versioning.rs\<close>: the trait
  implementations are the rules of relations, and what compiles is what they derive.
  \<open>Session\<close> and \<open>Session_Safety\<close> model session types and the typed web socket
  (\<^verbatim>\<open>session.rs\<close>, \<^verbatim>\<open>typed_ws.rs\<close>): two ends with dual types keep in step, and end.

  gRPC. \<open>Grpc_Framing\<close>, \<open>Grpc_Compression\<close>, \<open>Grpc_Status\<close>, \<open>Base64\<close>,
  \<open>Error_Details\<close> and \<open>Grpc_Body\<close> model the files of these names under
  \<^verbatim>\<open>typeway-grpc/src\<close>; the bodies are interpretations of the locale \<open>trailer_body\<close>.
  \<open>Grpc_Web\<close> has gRPC-Web, the multiplexer, health and direct calls; \<open>Grpc_Dispatch\<close> and
  \<open>Grpc_Stream\<close> the server (\<^verbatim>\<open>typeway-server/src/grpc_dispatch.rs\<close>,
  \<^verbatim>\<open>grpc_stream.rs\<close>); \<open>Grpc_Client\<close> and \<open>Circuit_Breaker\<close> the client with its breaker
  as a step relation; \<open>Proto_Codec\<close> and \<open>Transcode\<close> the transcoders between JSON and
  protobuf; \<open>Reflection\<close> the reflection service. The lemmas compose the client with the server:
  a unary call gives what the handler gave, a rich error reaches the client, the breaker counts what
  its history says.

  Proto files. \<open>Proto_Parse\<close> reads them, \<open>Proto_Gen\<close> writes them, \<open>Proto_Roundtrip\<close>
  shows that reading gives back what was written; \<open>Proto_Spec\<close> builds the description of a
  service, \<open>Proto_Check\<close> validates and compares files, \<open>Proto_Codegen\<close> writes Rust sources.

  OpenAPI. \<open>Openapi_Spec\<close> builds the document of an API (\<^verbatim>\<open>typeway-openapi/src/spec.rs\<close>,
  \<^verbatim>\<open>derive.rs\<close>), \<open>Openapi_Output\<close> puts in the documentation and converts to Swagger 2.0,
  \<open>Openapi_Codegen\<close> writes Rust sources from a document and \<open>Openapi_Roundtrip\<close> composes
  them. \<open>Schema_Derive\<close> models \<^verbatim>\<open>#[derive(TypewaySchema)]\<close> and compares the schema with what
  serde writes.

  Parameters. Third-party code is an argument of the definitions that call it: the texts of
  \<^verbatim>\<open>serde_json\<close>, the trie of \<^verbatim>\<open>matchit\<close>, \<^verbatim>\<open>flate2\<close>, \<^verbatim>\<open>reqwest\<close>, the file
  system, random and floating-point waiting times, and the case of characters outside ASCII. What
  the proofs need of it is a named hypothesis or predicate (such as \<open>serde_enum\<close> for the
  representations that the documentation of serde gives), with an instance in the witness.
  Asynchronous code runs in the order in which it is awaited, and a channel is the list of what its
  polls give; tasks that run at the same time are modelled where the code depends on their order
  (the session ends, the breaker, the buffer pool).

  Bounds. Recursion follows the data or a measure. Two functions may not end: the conversion of
  message types in the transcoder, a partial function for which termination is characterised, and
  the resolution of imports, which takes a bound on the depth that is shown to be enough when it
  exceeds the number of files. Sums of lengths are natural numbers where the code would need more
  memory than there is for them to wrap, and words elsewhere.

  Not modelled. TLS, untyped web sockets, server-sent events, multipart bodies, the production
  settings and the axum adapter of the server, and the adapters to tonic, because they hold calls into
  hyper, tokio and rustls with no logic of their own; the HTML pages, build scripts and command
  lines; the type-level names of \<^verbatim>\<open>wire.rs\<close> and \<^verbatim>\<open>builder.rs\<close>; the macros that only rewrite tokens; the
  migration tool, which rewrites axum programs over syntax trees; the facade, the editor extension, the
  examples and the benches. Texts of \<^verbatim>\<open>Display\<close> are modelled where other code reads them.
\<close>

end
